(* ===== verification/Ngx_Prelude.thy ===== *)
theory Ngx_Prelude
  imports Main "HOL-Library.Word"
begin

text \<open>
  The prelude of the nginx development: the machine types of the LP64 build described by
  \<^verbatim>\<open>objs/ngx_auto_config.h\<close> (\<^verbatim>\<open>NGX_PTR_SIZE\<close> 8), the return codes of
  \<^verbatim>\<open>ngx_core.h\<close>, the ASCII constants the sources write as character literals, the
  character idioms the sources inline in many places, and the generic lemmas on bytes and lists
  that several components use.

  It also holds the interface of every incremental parser of nginx: a parser walks the bytes
  \<open>[pos, last)\<close> of an \<^verbatim>\<open>ngx_buf_t\<close>, keeps its state in the request, and returns
  \<^verbatim>\<open>NGX_AGAIN\<close> when the bytes end. The locale \<open>resumable_parser\<close> states what such a
  parser must satisfy so that the network may cut its input anywhere.
\<close>

unbundle bit_operations_syntax

section \<open>Types, constants, return codes\<close>

type_synonym u_char = "8 word"
type_synonym ngx_str_t = "u_char list"

abbreviation (input) NGX_OK :: int where "NGX_OK \<equiv> 0"
abbreviation (input) NGX_ERROR :: int where "NGX_ERROR \<equiv> - 1"
abbreviation (input) NGX_AGAIN :: int where "NGX_AGAIN \<equiv> - 2"
abbreviation (input) NGX_DONE :: int where "NGX_DONE \<equiv> - 4"
abbreviation (input) NGX_DECLINED :: int where "NGX_DECLINED \<equiv> - 5"

text \<open>
  \<^verbatim>\<open>NGX_MAX_INT_T_VALUE\<close>, \<^verbatim>\<open>NGX_MAX_SIZE_T_VALUE\<close>, \<^verbatim>\<open>NGX_MAX_OFF_T_VALUE\<close>
  and \<^verbatim>\<open>NGX_MAX_TIME_T_VALUE\<close> are one value on this platform.
\<close>

abbreviation (input) NGX_MAX_INT_T_VALUE :: int where "NGX_MAX_INT_T_VALUE \<equiv> 9223372036854775807"
abbreviation (input) NGX_MAX_SIZE_T_VALUE :: int where "NGX_MAX_SIZE_T_VALUE \<equiv> 9223372036854775807"
abbreviation (input) NGX_MAX_OFF_T_VALUE :: int where "NGX_MAX_OFF_T_VALUE \<equiv> 9223372036854775807"
abbreviation (input) NGX_MAX_TIME_T_VALUE :: int where "NGX_MAX_TIME_T_VALUE \<equiv> 9223372036854775807"

text \<open>ASCII characters, named after their glyphs.\<close>

abbreviation (input) ch_NUL :: u_char where "ch_NUL \<equiv> 0"
abbreviation (input) ch_TAB :: u_char where "ch_TAB \<equiv> 9"
abbreviation (input) LF :: u_char where "LF \<equiv> 10"
abbreviation (input) CR :: u_char where "CR \<equiv> 13"
abbreviation (input) ch_space :: u_char where "ch_space \<equiv> 32"
abbreviation (input) ch_quot :: u_char where "ch_quot \<equiv> 34"
abbreviation (input) ch_hash :: u_char where "ch_hash \<equiv> 35"
abbreviation (input) ch_percent :: u_char where "ch_percent \<equiv> 37"
abbreviation (input) ch_amp :: u_char where "ch_amp \<equiv> 38"
abbreviation (input) ch_plus :: u_char where "ch_plus \<equiv> 43"
abbreviation (input) ch_comma :: u_char where "ch_comma \<equiv> 44"
abbreviation (input) ch_minus :: u_char where "ch_minus \<equiv> 45"
abbreviation (input) ch_dot :: u_char where "ch_dot \<equiv> 46"
abbreviation (input) ch_slash :: u_char where "ch_slash \<equiv> 47"
abbreviation (input) ch_0 :: u_char where "ch_0 \<equiv> 48"
abbreviation (input) ch_1 :: u_char where "ch_1 \<equiv> 49"
abbreviation (input) ch_9 :: u_char where "ch_9 \<equiv> 57"
abbreviation (input) ch_colon :: u_char where "ch_colon \<equiv> 58"
abbreviation (input) ch_semicolon :: u_char where "ch_semicolon \<equiv> 59"
abbreviation (input) ch_eq :: u_char where "ch_eq \<equiv> 61"
abbreviation (input) ch_question :: u_char where "ch_question \<equiv> 63"
abbreviation (input) ch_A :: u_char where "ch_A \<equiv> 65"
abbreviation (input) ch_Z :: u_char where "ch_Z \<equiv> 90"
abbreviation (input) ch_lbracket :: u_char where "ch_lbracket \<equiv> 91"
abbreviation (input) ch_backslash :: u_char where "ch_backslash \<equiv> 92"
abbreviation (input) ch_rbracket :: u_char where "ch_rbracket \<equiv> 93"
abbreviation (input) ch_underscore :: u_char where "ch_underscore \<equiv> 95"
abbreviation (input) ch_a :: u_char where "ch_a \<equiv> 97"
abbreviation (input) ch_f :: u_char where "ch_f \<equiv> 102"
abbreviation (input) ch_z :: u_char where "ch_z \<equiv> 122"

text \<open>A C string literal without its terminator, as \<^verbatim>\<open>ngx_string("...")\<close> gives it.\<close>

definition bytes :: "string \<Rightarrow> u_char list" where
  "bytes s = map of_char s"

text \<open>Two's-complement wrap-around of a 64-bit signed result.\<close>

definition s64 :: "int \<Rightarrow> int" where
  "s64 x = signed_take_bit 63 x"

lemma s64_id [simp]: "- (2 ^ 63) \<le> x \<Longrightarrow> x < 2 ^ 63 \<Longrightarrow> s64 x = x"
  by (simp add: s64_def signed_take_bit_int_eq_self)

section \<open>Character idioms\<close>

text \<open>
  The tests the sources inline: \<^verbatim>\<open>ch >= '0' && ch <= '9'\<close>, and the hexadecimal digit
  read in two steps, first as a decimal digit, then as a letter after \<^verbatim>\<open>ch | 0x20\<close>.
\<close>

definition is_digit :: "u_char \<Rightarrow> bool" where
  "is_digit ch \<longleftrightarrow> ch_0 \<le> ch \<and> ch \<le> ch_9"

definition lcase :: "u_char \<Rightarrow> u_char" where
  "lcase ch = ch OR 0x20"

definition is_alpha :: "u_char \<Rightarrow> bool" where
  "is_alpha ch \<longleftrightarrow> ch_a \<le> lcase ch \<and> lcase ch \<le> ch_z"

definition hex_value :: "u_char \<Rightarrow> u_char option" where
  "hex_value ch =
     (if is_digit ch then Some (ch - ch_0)
      else if ch_a \<le> lcase ch \<and> lcase ch \<le> ch_f then Some (lcase ch - ch_a + 10)
      else None)"

text \<open>The membership test of a 256-bit set kept as eight 32-bit words:
  \<^verbatim>\<open>map[ch >> 5] & (1U << (ch & 0x1f))\<close>.\<close>

definition bitmap_test :: "32 word list \<Rightarrow> u_char \<Rightarrow> bool" where
  "bitmap_test m ch \<longleftrightarrow>
     (m ! unat (drop_bit 5 ch)) AND push_bit (unat (ch AND 0x1f)) 1 \<noteq> 0"

section \<open>Generic lemmas\<close>

named_theorems byte_simps \<open>facts that decide byte tests\<close>

text \<open>A property of all bytes is decided by trying the 256 of them.\<close>

lemma all_u_char: "(\<forall>b::u_char. P b) \<longleftrightarrow> list_all (\<lambda>n. P (word_of_nat n)) [0..<256]"
proof
  assume "\<forall>b. P b"
  then show "list_all (\<lambda>n. P (word_of_nat n)) [0..<256]" by (simp add: list_all_iff)
next
  assume a: "list_all (\<lambda>n. P (word_of_nat n)) [0..<256]"
  show "\<forall>b. P b"
  proof
    fix b :: u_char
    have "unat b \<in> set [0..<256]" using unsigned_less [of b] by simp
    with a have "P (word_of_nat (unat b))" unfolding list_all_iff by blast
    then show "P b" by simp
  qed
qed

lemma u_char_less_256 [simp]: "unat (b :: u_char) < 256"
  using unsigned_less [of b] by simp

lemma replicate_one: "replicate 1 x = [x]"
  by simp

lemma table_lookup: "t = map (\<lambda>n. f (word_of_nat n)) [0..<256] \<Longrightarrow> t ! unat (c :: u_char) = f c"
  by simp

lemma is_digit_value: "is_digit ch \<Longrightarrow> unat (ch - ch_0) < 10 \<and> unat (ch - ch_0) = unat ch - 48"
  unfolding is_digit_def by (auto simp: unat_sub word_le_nat_alt)

lemma hex_value_less: "hex_value ch = Some d \<Longrightarrow> unat d < 16"
proof -
  have "\<forall>ch. (case hex_value ch of None \<Rightarrow> True | Some d \<Rightarrow> unat d < 16)"
    unfolding all_u_char by code_simp
  then show "hex_value ch = Some d \<Longrightarrow> unat d < 16" by (auto split: option.splits)
qed

lemma hex_value_uint: "hex_value ch = Some d \<Longrightarrow> uint d < 16"
  using hex_value_less [of ch d] by (simp add: word_less_nat_alt [of d 16, simplified, symmetric]
      word_less_def [of d 16, simplified])

text \<open>The two nibbles of a byte.\<close>

lemma uint_high_nibble: "uint (drop_bit 4 c) = uint c div 16" for c :: u_char
  by (simp add: drop_bit_eq_div uint_div)

lemma uint_low_nibble: "uint (c AND 0xf) = uint c mod 16" for c :: u_char
proof -
  have "c AND 0xf = take_bit 4 c" by (simp add: take_bit_eq_mask mask_numeral)
  then show ?thesis by (simp add: take_bit_eq_mod uint_mod)
qed

lemma unat_nibbles [simp]: "unat (drop_bit 4 c) < 16" "unat (c AND 0xf) < 16" for c :: u_char
proof -
  have "uint (drop_bit 4 c) < 16" "uint (c AND 0xf) < 16"
    unfolding uint_high_nibble uint_low_nibble using uint_lt2p [of c] by simp_all
  then show "unat (drop_bit 4 c) < 16" "unat (c AND 0xf) < 16"
    unfolding uint_nat by linarith+
qed

lemma word_div_less:
  fixes w k :: "'a::len word"
  assumes "w div k \<noteq> 0" "1 < unat k"
  shows "unat (w div k) < unat w"
proof -
  have "unat w \<noteq> 0" using assms(1) by (metis div_0 unat_eq_zero)
  with assms(2) show ?thesis by (simp add: unat_div)
qed

lemma bytes_Nil [simp]: "bytes [] = []"
  by (simp add: bytes_def)

lemma bytes_Cons [simp]: "bytes (c # cs) = of_char c # bytes cs"
  by (simp add: bytes_def)

lemma length_bytes [simp]: "length (bytes s) = length s"
  by (simp add: bytes_def)

lemma dropWhile_cases:
  "dropWhile P xs = [] \<and> drop (Suc (length (takeWhile P xs))) xs = []
   \<or> (\<exists>x. \<not> P x \<and> dropWhile P xs = x # drop (Suc (length (takeWhile P xs))) xs)"
  by (induction xs) auto

section \<open>Character sets as bitmaps\<close>

text \<open>The bits of a bitmap written out, so that a table is compared with a set once and for all.\<close>

fun bits_of :: "nat \<Rightarrow> int \<Rightarrow> bool list" where
  "bits_of 0 k = []"
| "bits_of (Suc n) k = odd k # bits_of n (k div 2)"

lemma length_bits_of [simp]: "length (bits_of n k) = n"
  by (induction n arbitrary: k) auto

lemma nth_bits_of: "i < n \<Longrightarrow> bits_of n k ! i = bit k i"
proof (induction n arbitrary: k i)
  case (Suc n)
  then show ?case by (cases i) (auto simp: bit_0 bit_Suc)
qed simp

lemma nth_concat_bits_of:
  "i < length ks * n \<Longrightarrow> concat (map (bits_of n) ks) ! i = bits_of n (ks ! (i div n)) ! (i mod n)"
proof (induction ks arbitrary: i)
  case (Cons k ks)
  show ?case
  proof (cases "i < n")
    case True
    then show ?thesis by (simp add: nth_append)
  next
    case False
    have "0 < n" using Cons.prems by (cases n) simp_all
    with False have "i div n = Suc ((i - n) div n)" "i mod n = (i - n) mod n"
      by (simp_all add: le_div_geq le_mod_geq)
    with False Cons show ?thesis by (simp add: nth_append)
  qed
qed simp

lemma bitmap_test_bit: "bitmap_test m ch = bit (m ! (unat ch div 32)) (unat ch mod 32)"
proof -
  have a: "unat (drop_bit 5 ch) = unat ch div 32" by (simp add: drop_bit_eq_div unat_div)
  have "ch AND 0x1f = take_bit 5 ch" by (simp add: take_bit_eq_mask mask_numeral)
  then have b: "unat (ch AND 0x1f) = unat ch mod 32" by (simp add: take_bit_eq_mod unat_mod)
  have "(w AND push_bit n 1 \<noteq> 0) = bit w n" for w :: "32 word" and n
    by (simp add: bit_iff_and_push_bit_not_eq_0)
  with a b show ?thesis by (simp add: bitmap_test_def)
qed

lemma bitmap_table:
  assumes "concat (map (bits_of 32) (map uint m)) = map (\<lambda>n. P (word_of_nat n)) [0..<256]"
    and "length m = 8"
  shows "bitmap_test m ch = P ch"
proof -
  let ?i = "unat ch"
  have i: "?i < 256" by simp
  then have "?i div 32 < 8" by linarith
  with i have d: "?i div 32 < length m" "?i < length (map uint m) * 32" using assms(2) by auto
  have "bitmap_test m ch = bit (map uint m ! (?i div 32)) (?i mod 32)"
    using d by (simp add: bitmap_test_bit bit_uint_iff bit_imp_le_length)
  also have "\<dots> = concat (map (bits_of 32) (map uint m)) ! ?i"
    using d by (simp only: nth_concat_bits_of) (simp add: nth_bits_of)
  also have "\<dots> = P ch" unfolding assms(1) using i by simp
  finally show ?thesis .
qed

section \<open>Incremental parsers\<close>

text \<open>
  The loop every incremental parser of nginx has,
  \<^verbatim>\<open>for (p = b->pos; p < b->last; p++) { ch = *p; switch (state) ... }\<close>.
  The list \<open>b\<close> is the memory of the buffer from its start to \<^verbatim>\<open>b->last\<close>, \<open>p\<close> an offset
  into it. One iteration either goes on (\<open>Next\<close>) or leaves the function at \<open>p\<close>
  with a return code (\<open>Stop\<close>); the loop that runs off the buffer gives \<open>More\<close>.
\<close>

datatype ('s, 'r) verdict = Next 's | Stop 'r 's

datatype ('s, 'r) scan_result = More 's | Halt 'r 's nat

type_synonym ('s, 'r) step = "u_char list \<Rightarrow> 's \<Rightarrow> nat \<Rightarrow> u_char \<Rightarrow> ('s, 'r) verdict"

function scan :: "('s, 'r) step \<Rightarrow> u_char list \<Rightarrow> 's \<Rightarrow> nat \<Rightarrow> ('s, 'r) scan_result" where
  "scan step b s p =
     (if p < length b
      then (case step b s p (b ! p) of
              Next s' \<Rightarrow> scan step b s' (Suc p)
            | Stop r s' \<Rightarrow> Halt r s' p)
      else More s)"
  by pat_completeness auto
termination
  by (relation "measure (\<lambda>(step, b, s, p). length b - p)") auto

declare scan.simps [simp del]

text \<open>
  The event loop around a parser: every read event appends the received bytes to the buffer
  and calls the parser again from where it stopped.
\<close>

fun feed :: "('s, 'r) step \<Rightarrow> u_char list \<Rightarrow> 's \<Rightarrow> nat \<Rightarrow> u_char list list \<Rightarrow> ('s, 'r) scan_result" where
  "feed step b s p [] = More s"
| "feed step b s p (c # cs) =
     (case scan step (b @ c) s p of
        More s' \<Rightarrow> feed step (b @ c) s' (length (b @ c)) cs
      | Halt r s' q \<Rightarrow> Halt r s' q)"


lemma scan_end [simp]: "length b \<le> p \<Longrightarrow> scan step b s p = More s"
  by (simp add: scan.simps [of step b s p])

lemma scan_Next:
  "p < length b \<Longrightarrow> step b s p (b ! p) = Next s' \<Longrightarrow> scan step b s p = scan step b s' (Suc p)"
  by (simp add: scan.simps [of step b s p])

lemma scan_Stop:
  "p < length b \<Longrightarrow> step b s p (b ! p) = Stop r s' \<Longrightarrow> scan step b s p = Halt r s' p"
  by (simp add: scan.simps [of step b s p])

text \<open>The iterations over a run of bytes in which the loop is not left.\<close>

fun steps :: "('s, 'r) step \<Rightarrow> u_char list \<Rightarrow> 's \<Rightarrow> nat \<Rightarrow> u_char list \<Rightarrow> 's option" where
  "steps step b s p [] = Some s"
| "steps step b s p (c # cs) =
     (case step b s p c of Next s' \<Rightarrow> steps step b s' (Suc p) cs | Stop _ _ \<Rightarrow> None)"

lemma steps_append:
  "steps step b s p (xs @ ys) =
     (case steps step b s p xs of None \<Rightarrow> None | Some s' \<Rightarrow> steps step b s' (p + length xs) ys)"
  by (induction xs arbitrary: s p) (auto split: verdict.split option.split)

lemma steps_join:
  "steps step b s p xs = Some s1 \<Longrightarrow> steps step b s1 (p + length xs) ys = Some s2 \<Longrightarrow>
     steps step b s p (xs @ ys) = Some s2"
  by (simp add: steps_append)

lemma drop_Suc_Cons: "drop p b = c # ys \<Longrightarrow> p < length b \<and> b ! p = c \<and> drop (Suc p) b = ys"
  by (metis Cons_nth_drop_Suc drop_all list.distinct(1) list.inject not_less)

lemma scan_steps:
  "drop p b = xs @ ys \<Longrightarrow> steps step b s p xs = Some s' \<Longrightarrow>
     scan step b s p = scan step b s' (p + length xs) \<and> drop (p + length xs) b = ys"
proof (induction xs arbitrary: s p)
  case Nil
  then show ?case by simp
next
  case (Cons c xs)
  then have d: "p < length b" "b ! p = c" "drop (Suc p) b = xs @ ys" by (auto dest: drop_Suc_Cons)
  from Cons.prems(2) obtain s1 where s1: "step b s p c = Next s1" "steps step b s1 (Suc p) xs = Some s'"
    by (auto split: verdict.splits)
  with Cons.IH [OF d(3)] d s1 show ?case by (simp add: scan_Next)
qed

lemma scan_steps_Stop:
  assumes "drop p b = xs @ c # ys" "steps step b s p xs = Some s'" "step b s' (p + length xs) c = Stop r s''"
  shows "scan step b s p = Halt r s'' (p + length xs)"
  using scan_steps [OF assms(1,2)] assms(3) by (auto dest!: drop_Suc_Cons simp: scan_Stop)

text \<open>
  A Hoare rule for the loop: an invariant \<open>I\<close> of state and position that every iteration keeps,
  and a postcondition \<open>Q\<close> that every leaving iteration establishes.
\<close>

definition scan_post ::
  "('s \<Rightarrow> nat \<Rightarrow> bool) \<Rightarrow> ('r \<Rightarrow> 's \<Rightarrow> nat \<Rightarrow> bool) \<Rightarrow> nat \<Rightarrow> nat \<Rightarrow> ('s, 'r) scan_result \<Rightarrow> bool"
where
  "scan_post I Q p n res =
     (case res of More s \<Rightarrow> I s n | Halt r s q \<Rightarrow> Q r s q \<and> p \<le> q \<and> q < n)"

lemma scan_invariant:
  assumes "I s p" "p \<le> length b"
    and step: "\<And>s p. I s p \<Longrightarrow> p < length b \<Longrightarrow>
      (case step b s p (b ! p) of Next s' \<Rightarrow> I s' (Suc p) | Stop r s' \<Rightarrow> Q r s' p)"
  shows "scan_post I Q p (length b) (scan step b s p)"
  using assms(1,2)
proof (induction "length b - p" arbitrary: s p)
  case 0
  then show ?case by (simp add: scan_post_def)
next
  case (Suc n)
  then have p: "p < length b" by simp
  show ?case
  proof (cases "step b s p (b ! p)")
    case (Stop r s')
    with step [OF Suc.prems(1) p] p show ?thesis by (simp add: scan_Stop scan_post_def)
  next
    case (Next s')
    with step [OF Suc.prems(1) p] have "I s' (Suc p)" by simp
    with Suc.hyps p have "scan_post I Q (Suc p) (length b) (scan step b s' (Suc p))" by simp
    then show ?thesis using Next p by (auto simp: scan_Next scan_post_def split: scan_result.splits)
  qed
qed

text \<open>
  The contract of an incremental parser: an iteration at offset \<open>q\<close> depends on the
  bytes received so far and not on those that arrive later.
\<close>

locale resumable_parser =
  fixes step :: "('s, 'r) step"
  assumes step_local: "q < length b \<Longrightarrow> step (b @ c) s q ch = step b s q ch"
begin

lemma scan_append_More:
  assumes "scan step b s p = More s'" "p \<le> length b"
  shows "scan step (b @ c) s p = scan step (b @ c) s' (length b)"
  using assms
proof (induction "length b - p" arbitrary: s p)
  case 0
  then show ?case by simp
next
  case (Suc n)
  then have p: "p < length b" by simp
  then have eq: "step (b @ c) s p ((b @ c) ! p) = step b s p (b ! p)"
    by (simp add: step_local nth_append)
  with Suc p show ?case
    by (cases "step b s p (b ! p)") (auto simp: scan_Next scan_Stop)
qed

lemma scan_append_Halt:
  assumes "scan step b s p = Halt r s' q" "p \<le> length b"
  shows "scan step (b @ c) s p = Halt r s' q"
  using assms
proof (induction "length b - p" arbitrary: s p)
  case 0
  then show ?case by simp
next
  case (Suc n)
  then have p: "p < length b" by simp
  then have eq: "step (b @ c) s p ((b @ c) ! p) = step b s p (b ! p)"
    by (simp add: step_local nth_append)
  with Suc p show ?case
    by (cases "step b s p (b ! p)") (auto simp: scan_Next scan_Stop)
qed

text \<open>Any cutting of the input into fragments gives the result of the uncut input.\<close>

theorem feed_eq_scan:
  "p = length b \<Longrightarrow> feed step b s p cs = scan step (b @ concat cs) s p"
proof (induction cs arbitrary: b s p)
  case Nil
  then show ?case by simp
next
  case (Cons c cs)
  show ?case
  proof (cases "scan step (b @ c) s p")
    case (More s')
    with Cons.prems have "scan step (b @ c @ concat cs) s p
        = scan step (b @ c @ concat cs) s' (length (b @ c))"
      using scan_append_More [OF More, of "concat cs"] by simp
    with Cons.IH [of "length (b @ c)" "b @ c" s'] More show ?thesis by simp
  next
    case (Halt r s' q)
    with Cons.prems show ?thesis using scan_append_Halt [OF Halt, of "concat cs"] by simp
  qed
qed

end

end
