(* ===== verification/Ngx_Numbers.thy ===== *)
theory Ngx_Numbers
  imports Ngx_Prelude
begin

text \<open>
  Numbers as text: the readers \<^verbatim>\<open>ngx_atoi\<close>, \<^verbatim>\<open>ngx_atosz\<close>, \<^verbatim>\<open>ngx_atoof\<close>,
  \<^verbatim>\<open>ngx_atotm\<close>, \<^verbatim>\<open>ngx_atofp\<close> and \<^verbatim>\<open>ngx_hextoi\<close> and the writers
  \<^verbatim>\<open>ngx_hex_dump\<close> and \<^verbatim>\<open>ngx_sprintf_num\<close> of \<^verbatim>\<open>core/ngx_string.c\<close>, and the
  configuration readers \<^verbatim>\<open>ngx_parse_size\<close> and \<^verbatim>\<open>ngx_parse_offset\<close> of
  \<^verbatim>\<open>core/ngx_parse.c\<close>. A C pair (pointer, length) is a list of bytes. Signed 64-bit
  arithmetic goes through \<open>s64\<close>, which wraps, so that the theorems have to show
  that the \<^verbatim>\<open>cutoff\<close> tests keep every intermediate value in range.
\<close>

section \<open>The decimal readers\<close>

text \<open>The body of the reading loop; it is the same in the four readers.\<close>

fun ato_loop :: "int \<Rightarrow> int \<Rightarrow> int \<Rightarrow> u_char list \<Rightarrow> int" where
  "ato_loop cutoff cutlim value [] = value"
| "ato_loop cutoff cutlim value (c # line) =
     (if c < ch_0 \<or> c > ch_9 then NGX_ERROR
      else if value \<ge> cutoff \<and> (value > cutoff \<or> uint c - 48 > cutlim) then NGX_ERROR
      else ato_loop cutoff cutlim (s64 (value * 10 + (uint c - 48))) line)"

definition ngx_atoi :: "u_char list \<Rightarrow> int" where
  "ngx_atoi line =
     (if length line = 0 then NGX_ERROR
      else ato_loop (NGX_MAX_INT_T_VALUE div 10) (NGX_MAX_INT_T_VALUE mod 10) 0 line)"

definition ngx_atosz :: "u_char list \<Rightarrow> int" where
  "ngx_atosz line =
     (if length line = 0 then NGX_ERROR
      else ato_loop (NGX_MAX_SIZE_T_VALUE div 10) (NGX_MAX_SIZE_T_VALUE mod 10) 0 line)"

definition ngx_atoof :: "u_char list \<Rightarrow> int" where
  "ngx_atoof line =
     (if length line = 0 then NGX_ERROR
      else ato_loop (NGX_MAX_OFF_T_VALUE div 10) (NGX_MAX_OFF_T_VALUE mod 10) 0 line)"

definition ngx_atotm :: "u_char list \<Rightarrow> int" where
  "ngx_atotm line =
     (if length line = 0 then NGX_ERROR
      else ato_loop (NGX_MAX_TIME_T_VALUE div 10) (NGX_MAX_TIME_T_VALUE mod 10) 0 line)"

text \<open>The first loop of \<^verbatim>\<open>ngx_atofp\<close>; the remaining \<^verbatim>\<open>point\<close> is part of the result.\<close>

fun atofp_loop :: "int \<Rightarrow> int \<Rightarrow> int \<Rightarrow> nat \<Rightarrow> nat \<Rightarrow> u_char list \<Rightarrow> (int \<times> nat) option" where
  "atofp_loop cutoff cutlim value point dot [] = Some (value, point)"
| "atofp_loop cutoff cutlim value point dot (c # line) =
     (if point = 0 then None
      else if c = ch_dot then
        (if dot \<noteq> 0 then None else atofp_loop cutoff cutlim value point 1 line)
      else if c < ch_0 \<or> c > ch_9 then None
      else if value \<ge> cutoff \<and> (value > cutoff \<or> uint c - 48 > cutlim) then None
      else atofp_loop cutoff cutlim (s64 (value * 10 + (uint c - 48))) (point - dot) dot line)"

text \<open>The second loop, \<^verbatim>\<open>while (point--)\<close>.\<close>

fun atofp_pad :: "int \<Rightarrow> int \<Rightarrow> nat \<Rightarrow> int" where
  "atofp_pad cutoff value 0 = value"
| "atofp_pad cutoff value (Suc point) =
     (if value > cutoff then NGX_ERROR else atofp_pad cutoff (s64 (value * 10)) point)"

definition ngx_atofp :: "u_char list \<Rightarrow> nat \<Rightarrow> int" where
  "ngx_atofp line point =
     (if length line = 0 then NGX_ERROR
      else case atofp_loop (NGX_MAX_INT_T_VALUE div 10) (NGX_MAX_INT_T_VALUE mod 10) 0 point 0 line of
             None \<Rightarrow> NGX_ERROR
           | Some (value, point') \<Rightarrow> atofp_pad (NGX_MAX_INT_T_VALUE div 10) value point')"

section \<open>The hexadecimal reader and writer\<close>

fun hextoi_loop :: "int \<Rightarrow> int \<Rightarrow> u_char list \<Rightarrow> int" where
  "hextoi_loop cutoff value [] = value"
| "hextoi_loop cutoff value (ch # line) =
     (if value > cutoff then NGX_ERROR
      else case hex_value ch of
             None \<Rightarrow> NGX_ERROR
           | Some d \<Rightarrow> hextoi_loop cutoff (s64 (value * 16 + uint d)) line)"

definition ngx_hextoi :: "u_char list \<Rightarrow> int" where
  "ngx_hextoi line =
     (if length line = 0 then NGX_ERROR
      else hextoi_loop (NGX_MAX_INT_T_VALUE div 16) 0 line)"

definition hex_lower :: "u_char list" where
  "hex_lower = bytes ''0123456789abcdef''"

definition hex_upper :: "u_char list" where
  "hex_upper = bytes ''0123456789ABCDEF''"

fun ngx_hex_dump :: "u_char list \<Rightarrow> u_char list" where
  "ngx_hex_dump [] = []"
| "ngx_hex_dump (c # src) =
     hex_lower ! unat (drop_bit 4 c) # hex_lower ! unat (c AND 0xf) # ngx_hex_dump src"

section \<open>The number writer\<close>

text \<open>
  \<^verbatim>\<open>do { *--p = digit } while (ui64 /= 10)\<close> and \<^verbatim>\<open>do { *--p = hex[ui64 & 0xf] } while (ui64 >>= 4)\<close>:
  the digits are stored from the end of \<^verbatim>\<open>temp\<close>, so the list grows at its head. The 32-bit
  variant of the decimal loop computes on \<^verbatim>\<open>(uint32_t) ui64\<close>, the same number in its range.
\<close>

function num_digits :: "64 word \<Rightarrow> u_char list \<Rightarrow> u_char list" where
  "num_digits ui64 temp =
     (let temp' = (ucast (ui64 mod 10) + ch_0) # temp; ui64' = ui64 div 10
      in if ui64' \<noteq> 0 then num_digits ui64' temp' else temp')"
  by pat_completeness auto
termination
  by (relation "measure (\<lambda>(ui64, temp). unat ui64)") (auto simp: word_div_less)

function num_digits32 :: "32 word \<Rightarrow> u_char list \<Rightarrow> u_char list" where
  "num_digits32 ui32 temp =
     (let temp' = (ucast (ui32 mod 10) + ch_0) # temp; ui32' = ui32 div 10
      in if ui32' \<noteq> 0 then num_digits32 ui32' temp' else temp')"
  by pat_completeness auto
termination
  by (relation "measure (\<lambda>(ui32, temp). unat ui32)") (auto simp: word_div_less)

function num_hex :: "u_char list \<Rightarrow> 64 word \<Rightarrow> u_char list \<Rightarrow> u_char list" where
  "num_hex hex ui64 temp =
     (let temp' = hex ! unat (ui64 AND 0xf) # temp; ui64' = drop_bit 4 ui64
      in if ui64' \<noteq> 0 then num_hex hex ui64' temp' else temp')"
  by pat_completeness auto
termination
  by (relation "measure (\<lambda>(hex, ui64, temp). unat ui64)") (auto simp: drop_bit_eq_div word_div_less)

declare num_digits.simps [simp del] num_digits32.simps [simp del] num_hex.simps [simp del]

text \<open>
  \<^verbatim>\<open>ngx_sprintf_num\<close>: \<open>room\<close> is \<^verbatim>\<open>last - buf\<close>, the result the bytes stored at
  \<^verbatim>\<open>buf\<close>. The padding loop stops at \<^verbatim>\<open>last\<close> and the digits are cut there.
\<close>

definition ngx_sprintf_num :: "nat \<Rightarrow> 64 word \<Rightarrow> u_char \<Rightarrow> nat \<Rightarrow> nat \<Rightarrow> u_char list" where
  "ngx_sprintf_num room ui64 zero hexadecimal width =
     (let digits =
            (if hexadecimal = 0 then
               (if ui64 \<le> 0xffffffff then num_digits32 (ucast ui64) [] else num_digits ui64 [])
             else if hexadecimal = 1 then num_hex hex_lower ui64 []
             else num_hex hex_upper ui64 []);
          pad = replicate (min (width - length digits) room) zero
      in pad @ take (room - length pad) digits)"

section \<open>Configuration sizes\<close>

definition ngx_parse_size :: "ngx_str_t \<Rightarrow> int" where
  "ngx_parse_size line =
     (let len = length line in
      if len = 0 then NGX_ERROR
      else
        let unit = line ! (len - 1);
            (len', max', scale) =
              (if unit = 75 \<or> unit = 107
               then (len - 1, NGX_MAX_SIZE_T_VALUE div 1024, 1024)
               else if unit = 77 \<or> unit = 109
               then (len - 1, NGX_MAX_SIZE_T_VALUE div (1024 * 1024), 1024 * 1024)
               else (len, NGX_MAX_SIZE_T_VALUE, 1));
            size = ngx_atosz (take len' line)
        in if size = NGX_ERROR \<or> size > max' then NGX_ERROR
           else s64 (size * scale))"

definition ngx_parse_offset :: "ngx_str_t \<Rightarrow> int" where
  "ngx_parse_offset line =
     (let len = length line in
      if len = 0 then NGX_ERROR
      else
        let unit = line ! (len - 1);
            (len', max', scale) =
              (if unit = 75 \<or> unit = 107
               then (len - 1, NGX_MAX_OFF_T_VALUE div 1024, 1024)
               else if unit = 77 \<or> unit = 109
               then (len - 1, NGX_MAX_OFF_T_VALUE div (1024 * 1024), 1024 * 1024)
               else if unit = 71 \<or> unit = 103
               then (len - 1, NGX_MAX_OFF_T_VALUE div (1024 * 1024 * 1024), 1024 * 1024 * 1024)
               else (len, NGX_MAX_OFF_T_VALUE, 1));
            offset = ngx_atoof (take len' line)
        in if offset = NGX_ERROR \<or> offset > max' then NGX_ERROR
           else s64 (offset * scale))"

section \<open>What the decimal readers compute\<close>

text \<open>The mathematical value of a digit string, and the strings that are numbers.\<close>

definition dec_acc :: "int \<Rightarrow> u_char list \<Rightarrow> int" where
  "dec_acc v line = foldl (\<lambda>v c. v * 10 + (uint c - 48)) v line"

definition decimal :: "u_char list \<Rightarrow> int" where
  "decimal line = dec_acc 0 line"

definition is_decimal :: "u_char list \<Rightarrow> bool" where
  "is_decimal line \<longleftrightarrow> line \<noteq> [] \<and> list_all is_digit line"

lemma dec_acc_simps [simp]:
  "dec_acc v [] = v"
  "dec_acc v (c # line) = dec_acc (v * 10 + (uint c - 48)) line"
  "dec_acc v (xs @ ys) = dec_acc (dec_acc v xs) ys"
  by (simp_all add: dec_acc_def)

lemma is_digit_uint: "is_digit c \<Longrightarrow> 0 \<le> uint c - 48 \<and> uint c - 48 \<le> 9"
  by (simp add: is_digit_def word_le_def)

lemma not_is_digit: "(c < ch_0 \<or> c > ch_9) \<longleftrightarrow> \<not> is_digit c"
  by (auto simp: is_digit_def not_less not_le)

lemma dec_acc_mono: "list_all is_digit line \<Longrightarrow> 0 \<le> v \<Longrightarrow> v \<le> dec_acc v line"
proof (induction line arbitrary: v)
  case (Cons c line)
  from Cons.prems have "0 \<le> uint c - 48" using is_digit_uint [of c] by simp
  with Cons.prems(2) have "v \<le> v * 10 + (uint c - 48)" by linarith
  also have "\<dots> \<le> dec_acc (v * 10 + (uint c - 48)) line"
    using Cons is_digit_uint [of c] by simp
  finally show ?case by simp
qed simp

text \<open>The \<^verbatim>\<open>cutoff\<close> test is exactly the test that the next value is too large.\<close>

lemma cutoff_iff:
  fixes m v d :: int
  assumes "0 \<le> d" "d \<le> 9" "0 \<le> v" "0 \<le> m"
  shows "(v \<ge> m div 10 \<and> (v > m div 10 \<or> d > m mod 10)) \<longleftrightarrow> v * 10 + d > m"
proof -
  have m: "m = m div 10 * 10 + m mod 10" by simp
  have "v = m div 10 \<or> v < m div 10 \<or> m div 10 < v" by linarith
  then show ?thesis
  proof (elim disjE)
    assume "v = m div 10"
    then show ?thesis using m by linarith
  next
    assume "v < m div 10"
    moreover have "0 \<le> m mod 10" by simp
    ultimately show ?thesis using assms m by linarith
  next
    assume "m div 10 < v"
    moreover have "m mod 10 < 10" by simp
    ultimately show ?thesis using assms m by linarith
  qed
qed

lemma ato_loop_exact:
  assumes "0 \<le> v" "v \<le> m" "m < 2 ^ 63"
  shows "ato_loop (m div 10) (m mod 10) v line =
    (if list_all is_digit line \<and> dec_acc v line \<le> m then dec_acc v line else NGX_ERROR)"
  using assms
proof (induction line arbitrary: v)
  case Nil
  then show ?case by simp
next
  case (Cons c line)
  show ?case
  proof (cases "is_digit c")
    case False
    then show ?thesis by (simp add: not_is_digit)
  next
    case True
    let ?w = "v * 10 + (uint c - 48)"
    have d: "0 \<le> uint c - 48" "uint c - 48 \<le> 9" using is_digit_uint [OF True] by simp_all
    note cut = cutoff_iff [OF d Cons.prems(1), of m]
    show ?thesis
    proof (cases "?w > m")
      case big: True
      have "list_all is_digit line \<Longrightarrow> m < dec_acc ?w line"
        using dec_acc_mono [of line ?w] big d Cons.prems by linarith
      with big True cut Cons.prems show ?thesis
        by (auto simp: not_is_digit)
    next
      case False
      with True cut Cons.prems d have "s64 ?w = ?w" by (intro s64_id) auto
      moreover have "\<not> (v \<ge> m div 10 \<and> (v > m div 10 \<or> uint c - 48 > m mod 10))"
        using cut Cons.prems False by simp
      ultimately show ?thesis using False True Cons d
        by (simp only: ato_loop.simps not_is_digit dec_acc_simps list.pred_inject if_False
            simp_thms not_less not_le)
    qed
  qed
qed

text \<open>
  The contract of a decimal reader, which the size readers rely on: the value of a decimal number
  up to the maximum, and \<^verbatim>\<open>NGX_ERROR\<close> for everything else.
\<close>

locale decimal_reader =
  fixes ato :: "u_char list \<Rightarrow> int" and maxv :: int
  assumes maxv_range: "0 \<le> maxv" "maxv < 2 ^ 63"
    and ato_exact: "ato line =
      (if is_decimal line \<and> decimal line \<le> maxv then decimal line else NGX_ERROR)"
begin

lemma decimal_nonneg: "is_decimal line \<Longrightarrow> 0 \<le> decimal line"
  using dec_acc_mono [of line 0] by (simp add: is_decimal_def decimal_def)

lemma ato_range: "ato line = NGX_ERROR \<or> (0 \<le> ato line \<and> ato line \<le> maxv)"
  by (simp add: ato_exact decimal_nonneg)

text \<open>Reading a number that carries a unit: no product of the accepted values overflows.\<close>

lemma scaled_exact:
  assumes "0 < scale"
  shows "(if ato line = NGX_ERROR \<or> ato line > maxv div scale then NGX_ERROR
          else s64 (ato line * scale)) =
    (if is_decimal line \<and> decimal line * scale \<le> maxv then decimal line * scale else NGX_ERROR)"
proof (cases "is_decimal line")
  case False
  then show ?thesis by (simp add: ato_exact)
next
  case True
  let ?v = "decimal line"
  have v: "0 \<le> ?v" using True by (rule decimal_nonneg)
  have le: "?v \<le> maxv div scale \<longleftrightarrow> ?v * scale \<le> maxv"
  proof
    assume "?v \<le> maxv div scale"
    then have "?v * scale \<le> maxv div scale * scale" using assms by (simp add: mult_right_mono)
    also have "\<dots> \<le> maxv" using assms by (simp add: minus_mod_eq_div_mult [symmetric])
    finally show "?v * scale \<le> maxv" .
  next
    assume "?v * scale \<le> maxv"
    then have "?v * scale div scale \<le> maxv div scale" using assms by (rule zdiv_mono1)
    then show "?v \<le> maxv div scale" using assms by simp
  qed
  have small: "s64 (?v * scale) = ?v * scale" if "?v * scale \<le> maxv"
    using that v assms maxv_range by (intro s64_id) (auto intro: order_trans [OF _ mult_nonneg_nonneg])
  have "?v \<le> ?v * scale" using v assms by (simp add: mult_le_cancel_left1)
  then show ?thesis using True v le small by (auto simp: ato_exact)
qed

end

lemma decimal_reader_ato:
  assumes "\<And>line. ato line =
      (if length line = 0 then NGX_ERROR else ato_loop (m div 10) (m mod 10) 0 line)"
    and "0 \<le> m" "m < 2 ^ 63"
  shows "decimal_reader ato m"
  using assms by unfold_locales (auto simp: ato_loop_exact is_decimal_def decimal_def)

interpretation atoi: decimal_reader ngx_atoi NGX_MAX_INT_T_VALUE
  by (rule decimal_reader_ato) (simp_all only: ngx_atoi_def, simp_all)

interpretation atosz: decimal_reader ngx_atosz NGX_MAX_SIZE_T_VALUE
  by (rule decimal_reader_ato) (simp_all only: ngx_atosz_def, simp_all)

interpretation atoof: decimal_reader ngx_atoof NGX_MAX_OFF_T_VALUE
  by (rule decimal_reader_ato) (simp_all only: ngx_atoof_def, simp_all)

interpretation atotm: decimal_reader ngx_atotm NGX_MAX_TIME_T_VALUE
  by (rule decimal_reader_ato) (simp_all only: ngx_atotm_def, simp_all)

section \<open>Sizes with units\<close>

text \<open>What a size with a unit means: a decimal number times the value of its last letter.\<close>

definition size_unit :: "u_char \<Rightarrow> int" where
  "size_unit c =
     (if c = 75 \<or> c = 107 then 1024 else if c = 77 \<or> c = 109 then 1024 ^ 2 else 1)"

definition offset_unit :: "u_char \<Rightarrow> int" where
  "offset_unit c = (if c = 71 \<or> c = 103 then 1024 ^ 3 else size_unit c)"

definition scaled_number :: "(u_char \<Rightarrow> int) \<Rightarrow> u_char list \<Rightarrow> int option" where
  "scaled_number unit line =
     (if line = [] then None
      else let k = unit (last line); num = (if k = 1 then line else butlast line)
           in if is_decimal num \<and> decimal num * k \<le> NGX_MAX_OFF_T_VALUE then Some (decimal num * k) else None)"

definition or_error :: "int option \<Rightarrow> int" where
  "or_error r = (case r of None \<Rightarrow> NGX_ERROR | Some v \<Rightarrow> v)"

lemma size_unit_pos: "0 < size_unit c"
  by (simp add: size_unit_def)

lemma offset_unit_pos: "0 < offset_unit c"
  by (simp add: offset_unit_def size_unit_pos)

lemma parse_size_exact: "ngx_parse_size line = or_error (scaled_number size_unit line)"
proof (cases "line = []")
  case True
  then show ?thesis by (simp add: ngx_parse_size_def scaled_number_def or_error_def)
next
  case False
  let ?k = "size_unit (last line)"
  let ?num = "if ?k = 1 then line else butlast line"
  have "ngx_parse_size line =
      (if ngx_atosz ?num = NGX_ERROR \<or> ngx_atosz ?num > NGX_MAX_SIZE_T_VALUE div ?k then NGX_ERROR
       else s64 (ngx_atosz ?num * ?k))"
    using False
    by (simp add: ngx_parse_size_def size_unit_def last_conv_nth butlast_conv_take Let_def)
  also have "\<dots> = or_error (scaled_number size_unit line)"
    using False atosz.scaled_exact [of ?k ?num]
    by (simp add: scaled_number_def or_error_def Let_def size_unit_pos)
  finally show ?thesis .
qed

lemma parse_offset_exact: "ngx_parse_offset line = or_error (scaled_number offset_unit line)"
proof (cases "line = []")
  case True
  then show ?thesis by (simp add: ngx_parse_offset_def scaled_number_def or_error_def)
next
  case False
  let ?k = "offset_unit (last line)"
  let ?num = "if ?k = 1 then line else butlast line"
  have "ngx_parse_offset line =
      (if ngx_atoof ?num = NGX_ERROR \<or> ngx_atoof ?num > NGX_MAX_OFF_T_VALUE div ?k then NGX_ERROR
       else s64 (ngx_atoof ?num * ?k))"
    using False
    by (simp add: ngx_parse_offset_def offset_unit_def size_unit_def last_conv_nth
        butlast_conv_take Let_def)
  also have "\<dots> = or_error (scaled_number offset_unit line)"
    using False atoof.scaled_exact [of ?k ?num]
    by (simp add: scaled_number_def or_error_def Let_def offset_unit_pos)
  finally show ?thesis .
qed

section \<open>Fixed-point numbers\<close>

text \<open>
  What \<^verbatim>\<open>ngx_atofp(line, n, point)\<close> means: the digits before and after the first dot, read
  as one number and scaled to \<open>point\<close> fractional digits.
\<close>

definition fixed_point :: "u_char list \<Rightarrow> nat \<Rightarrow> int option" where
  "fixed_point line point =
     (let ip = takeWhile (\<lambda>c. c \<noteq> ch_dot) line; fp = drop (Suc (length ip)) line;
          v = decimal (ip @ fp) * 10 ^ (point - length fp)
      in if line \<noteq> [] \<and> 0 < point \<and> list_all is_digit (ip @ fp) \<and> length fp \<le> point
            \<and> v \<le> NGX_MAX_INT_T_VALUE
         then Some v else None)"

lemma atofp_fraction:
  assumes "0 \<le> v" "v \<le> m" "m < 2 ^ 63"
  shows "atofp_loop (m div 10) (m mod 10) v point 1 line =
    (if list_all is_digit line \<and> length line \<le> point \<and> dec_acc v line \<le> m
     then Some (dec_acc v line, point - length line) else None)"
  using assms
proof (induction line arbitrary: v point)
  case Nil
  then show ?case by simp
next
  case (Cons c line)
  show ?case
  proof (cases "is_digit c \<and> point \<noteq> 0")
    case False
    then show ?thesis by (auto simp: not_is_digit is_digit_def)
  next
    case True
    then have dig: "is_digit c" and ndot: "c \<noteq> ch_dot" by (auto simp: is_digit_def)
    let ?w = "v * 10 + (uint c - 48)"
    have d: "0 \<le> uint c - 48" "uint c - 48 \<le> 9" using is_digit_uint [OF dig] by simp_all
    have cut: "(v \<ge> m div 10 \<and> (v > m div 10 \<or> uint c - 48 > m mod 10)) \<longleftrightarrow> ?w > m"
      using cutoff_iff [OF d] Cons.prems by simp
    have step: "atofp_loop (m div 10) (m mod 10) v point 1 (c # line) =
        (if ?w > m then None
         else atofp_loop (m div 10) (m mod 10) (s64 ?w) (point - 1) 1 line)"
      using True ndot by (simp only: atofp_loop.simps not_is_digit cut if_False simp_thms)
    show ?thesis
    proof (cases "?w > m")
      case big: True
      have "list_all is_digit line \<Longrightarrow> m < dec_acc ?w line"
        using dec_acc_mono [of line ?w] big d Cons.prems by linarith
      with big step show ?thesis by auto
    next
      case False
      have "s64 ?w = ?w" using False Cons.prems d by (intro s64_id) auto
      with False step Cons.IH [of ?w "point - 1"] Cons.prems d True show ?thesis
        by (auto simp: dig)
    qed
  qed
qed

lemma atofp_whole:
  assumes "0 \<le> v" "v \<le> m" "m < 2 ^ 63" "0 < point" "list_all (\<lambda>c. c \<noteq> ch_dot) ip"
  shows "atofp_loop (m div 10) (m mod 10) v point 0 (ip @ rest) =
    (if list_all is_digit ip \<and> dec_acc v ip \<le> m
     then atofp_loop (m div 10) (m mod 10) (dec_acc v ip) point 0 rest else None)"
  using assms
proof (induction ip arbitrary: v)
  case Nil
  then show ?case by simp
next
  case (Cons c ip)
  show ?case
  proof (cases "is_digit c")
    case False
    with Cons.prems show ?thesis by (simp add: not_is_digit)
  next
    case True
    let ?w = "v * 10 + (uint c - 48)"
    have d: "0 \<le> uint c - 48" "uint c - 48 \<le> 9" using is_digit_uint [OF True] by simp_all
    have cut: "(v \<ge> m div 10 \<and> (v > m div 10 \<or> uint c - 48 > m mod 10)) \<longleftrightarrow> ?w > m"
      using cutoff_iff [OF d] Cons.prems by simp
    have step: "atofp_loop (m div 10) (m mod 10) v point 0 ((c # ip) @ rest) =
        (if ?w > m then None
         else atofp_loop (m div 10) (m mod 10) (s64 ?w) point 0 (ip @ rest))"
      using True Cons.prems
      by (simp only: atofp_loop.simps append_Cons not_is_digit cut if_False simp_thms
          list.pred_inject diff_zero) simp
    show ?thesis
    proof (cases "?w > m")
      case big: True
      have "list_all is_digit ip \<Longrightarrow> m < dec_acc ?w ip"
        using dec_acc_mono [of ip ?w] big d Cons.prems by linarith
      with big step show ?thesis by auto
    next
      case False
      have "s64 ?w = ?w" using False Cons.prems d by (intro s64_id) auto
      with False step Cons.IH [of ?w] Cons.prems d True show ?thesis by auto
    qed
  qed
qed

lemma atofp_pad_exact:
  assumes "0 \<le> v" "v \<le> m" "m < 2 ^ 63"
  shows "atofp_pad (m div 10) v n = (if v * 10 ^ n \<le> m then v * 10 ^ n else NGX_ERROR)"
  using assms
proof (induction n arbitrary: v)
  case 0
  then show ?case by simp
next
  case (Suc n)
  have cut: "v > m div 10 \<longleftrightarrow> v * 10 > m"
    using Suc.prems by linarith
  show ?case
  proof (cases "v * 10 > m")
    case True
    have "v * 10 * 1 \<le> v * 10 * 10 ^ n"
      using Suc.prems by (intro mult_left_mono) auto
    with True have "\<not> v * 10 ^ Suc n \<le> m" by (simp add: mult.assoc)
    with True cut show ?thesis by simp
  next
    case False
    then have "s64 (v * 10) = v * 10" using Suc.prems by (intro s64_id) auto
    with False cut Suc show ?thesis by (simp add: mult.assoc)
  qed
qed

lemma atofp_loop_exact:
  assumes "0 < point" and line: "line = ip @ rest" and "list_all (\<lambda>c. c \<noteq> ch_dot) ip"
    and rest: "rest = [] \<and> fp = [] \<or> rest = ch_dot # fp" and m: "0 \<le> m" "m < 2 ^ 63"
  shows "atofp_loop (m div 10) (m mod 10) 0 point 0 line =
      (if list_all is_digit (ip @ fp) \<and> length fp \<le> point \<and> decimal (ip @ fp) \<le> m
       then Some (decimal (ip @ fp), point - length fp) else None)"
proof (cases "list_all is_digit ip \<and> dec_acc 0 ip \<le> m")
  case True
  then have nn: "0 \<le> dec_acc 0 ip" using dec_acc_mono [of ip 0] by simp
  have "atofp_loop (m div 10) (m mod 10) 0 point 0 line =
      atofp_loop (m div 10) (m mod 10) (dec_acc 0 ip) point 0 rest"
    using True assms by (simp add: atofp_whole)
  then show ?thesis
    using rest assms(1) True m atofp_fraction [OF nn, of m point fp]
    by (elim disjE) (auto simp: decimal_def)
next
  case bad: False
  then have "atofp_loop (m div 10) (m mod 10) 0 point 0 line = None"
    using assms by (auto simp: atofp_whole)
  then show ?thesis
    using bad dec_acc_mono [of ip 0] dec_acc_mono [of fp "dec_acc 0 ip"]
    by (auto simp: decimal_def)
qed

lemma atofp_exact: "ngx_atofp line point = or_error (fixed_point line point)"
proof (cases "line = [] \<or> point = 0")
  case True
  then show ?thesis
    by (cases line) (auto simp: ngx_atofp_def fixed_point_def or_error_def Let_def)
next
  case False
  let ?m = NGX_MAX_INT_T_VALUE
  define ip where "ip = takeWhile (\<lambda>c. c \<noteq> ch_dot) line"
  define fp where "fp = drop (Suc (length ip)) line"
  have "list_all (\<lambda>c. c \<noteq> ch_dot) ip"
    unfolding ip_def by (auto simp: list_all_iff dest: set_takeWhileD)
  then have loop: "atofp_loop (?m div 10) (?m mod 10) 0 point 0 line =
      (if list_all is_digit (ip @ fp) \<and> length fp \<le> point \<and> decimal (ip @ fp) \<le> ?m
       then Some (decimal (ip @ fp), point - length fp) else None)"
    using False dropWhile_cases [of "\<lambda>c. c \<noteq> ch_dot" line]
    by (intro atofp_loop_exact [where rest = "dropWhile (\<lambda>c. c \<noteq> ch_dot) line"])
      (auto simp: ip_def fp_def)
  have le: "decimal (ip @ fp) \<le> decimal (ip @ fp) * 10 ^ (point - length fp)
      \<and> 0 \<le> decimal (ip @ fp)" if "list_all is_digit (ip @ fp)"
    using dec_acc_mono [OF that, of 0] by (simp add: decimal_def mult_le_cancel_left1)
  have pad: "atofp_pad (?m div 10) (decimal (ip @ fp)) (point - length fp) =
      (if decimal (ip @ fp) * 10 ^ (point - length fp) \<le> ?m
       then decimal (ip @ fp) * 10 ^ (point - length fp) else NGX_ERROR)"
    if "list_all is_digit (ip @ fp)" "decimal (ip @ fp) \<le> ?m"
    using le that by (intro atofp_pad_exact) simp_all
  have "ngx_atofp line point =
      (if list_all is_digit (ip @ fp) \<and> length fp \<le> point \<and> decimal (ip @ fp) \<le> ?m
       then atofp_pad (?m div 10) (decimal (ip @ fp)) (point - length fp) else NGX_ERROR)"
    using False by (simp only: ngx_atofp_def loop) simp
  moreover have "fixed_point line point =
      (if list_all is_digit (ip @ fp) \<and> length fp \<le> point
          \<and> decimal (ip @ fp) * 10 ^ (point - length fp) \<le> ?m
       then Some (decimal (ip @ fp) * 10 ^ (point - length fp)) else None)"
    unfolding fixed_point_def Let_def ip_def [symmetric] fp_def [symmetric] using False by simp
  ultimately show ?thesis
  proof (cases "list_all is_digit (ip @ fp)")
    case True
    from le [OF True] pad [OF True] \<open>ngx_atofp line point = _\<close> \<open>fixed_point line point = _\<close>
    show ?thesis by (auto simp: or_error_def)
  qed (auto simp: or_error_def)
qed

section \<open>Hexadecimal numbers\<close>

definition hex_digit :: "u_char \<Rightarrow> int" where
  "hex_digit c = (case hex_value c of None \<Rightarrow> 0 | Some d \<Rightarrow> uint d)"

definition hex_acc :: "int \<Rightarrow> u_char list \<Rightarrow> int" where
  "hex_acc v line = foldl (\<lambda>v c. v * 16 + hex_digit c) v line"

definition is_hex :: "u_char list \<Rightarrow> bool" where
  "is_hex line \<longleftrightarrow> line \<noteq> [] \<and> list_all (\<lambda>c. hex_value c \<noteq> None) line"

lemma hex_acc_simps [simp]:
  "hex_acc v [] = v"
  "hex_acc v (c # line) = hex_acc (v * 16 + hex_digit c) line"
  "hex_acc v (xs @ ys) = hex_acc (hex_acc v xs) ys"
  by (simp_all add: hex_acc_def)

lemma hex_digit_range: "0 \<le> hex_digit c" "hex_digit c < 16"
proof -
  show "0 \<le> hex_digit c" by (simp add: hex_digit_def split: option.splits)
  show "hex_digit c < 16"
    using hex_value_uint [of c] by (auto simp: hex_digit_def split: option.splits)
qed

lemma hex_acc_mono: "0 \<le> v \<Longrightarrow> v \<le> hex_acc v line"
proof (induction line arbitrary: v)
  case (Cons c line)
  have "v \<le> v * 16 + hex_digit c" using Cons.prems hex_digit_range [of c] by linarith
  also have "\<dots> \<le> hex_acc (v * 16 + hex_digit c) line"
    using Cons hex_digit_range [of c] by simp
  finally show ?case by simp
qed simp

lemma hextoi_loop_exact:
  assumes "0 \<le> v" "v \<le> NGX_MAX_INT_T_VALUE"
  shows "hextoi_loop (NGX_MAX_INT_T_VALUE div 16) v line =
    (if list_all (\<lambda>c. hex_value c \<noteq> None) line \<and> hex_acc v line \<le> NGX_MAX_INT_T_VALUE
     then hex_acc v line else NGX_ERROR)"
  using assms
proof (induction line arbitrary: v)
  case Nil
  then show ?case by simp
next
  case (Cons c line)
  let ?w = "v * 16 + hex_digit c"
  have big: "v > NGX_MAX_INT_T_VALUE div 16 \<longleftrightarrow> ?w > NGX_MAX_INT_T_VALUE"
    using hex_digit_range [of c] by simp linarith
  have mono: "?w \<le> hex_acc ?w line"
    using Cons.prems hex_digit_range [of c] by (intro hex_acc_mono) simp
  show ?case
  proof (cases "hex_value c")
    case None
    then show ?thesis by simp
  next
    case (Some d)
    then have d: "uint d = hex_digit c" by (simp add: hex_digit_def)
    show ?thesis
    proof (cases "?w > NGX_MAX_INT_T_VALUE")
      case True
      with big mono Some show ?thesis by auto
    next
      case False
      then have "s64 ?w = ?w" using Cons.prems hex_digit_range [of c] by (intro s64_id) auto
      with False big d Some Cons hex_digit_range [of c] show ?thesis by simp
    qed
  qed
qed

lemma hextoi_exact:
  "ngx_hextoi line =
     (if is_hex line \<and> hex_acc 0 line \<le> NGX_MAX_INT_T_VALUE then hex_acc 0 line else NGX_ERROR)"
  unfolding ngx_hextoi_def is_hex_def by (subst hextoi_loop_exact) auto

text \<open>The number whose big-endian bytes are given.\<close>

definition be_acc :: "int \<Rightarrow> u_char list \<Rightarrow> int" where
  "be_acc v src = foldl (\<lambda>v c. v * 256 + uint c) v src"

lemma hex_lower_value: "n < 16 \<Longrightarrow> hex_value (hex_lower ! n) = Some (word_of_nat n)"
proof -
  have "list_all (\<lambda>n. hex_value (hex_lower ! n) = Some (word_of_nat n)) [0..<16]" by code_simp
  then show "n < 16 \<Longrightarrow> hex_value (hex_lower ! n) = Some (word_of_nat n)"
    by (simp add: list_all_iff)
qed

lemma hex_upper_value: "n < 16 \<Longrightarrow> hex_value (hex_upper ! n) = Some (word_of_nat n)"
proof -
  have "list_all (\<lambda>n. hex_value (hex_upper ! n) = Some (word_of_nat n)) [0..<16]" by code_simp
  then show "n < 16 \<Longrightarrow> hex_value (hex_upper ! n) = Some (word_of_nat n)"
    by (simp add: list_all_iff)
qed

lemma hex_dump_digits:
  "hex_value (hex_lower ! unat (drop_bit 4 c)) = Some (drop_bit 4 c)"
  "hex_value (hex_lower ! unat (c AND 0xf)) = Some (c AND 0xf)"
  for c :: u_char
  using hex_lower_value [OF unat_nibbles(1) [of c]] hex_lower_value [OF unat_nibbles(2) [of c]]
  by simp_all

lemma hex_acc_hex_dump: "hex_acc v (ngx_hex_dump src) = be_acc v src"
proof (induction src arbitrary: v)
  case (Cons c src)
  have "(v * 16 + uint (drop_bit 4 c)) * 16 + uint (c AND 0xf) = v * 256 + uint c"
    unfolding uint_high_nibble uint_low_nibble by simp
  then have "hex_acc v (ngx_hex_dump (c # src)) = hex_acc (v * 256 + uint c) (ngx_hex_dump src)"
    by (simp only: ngx_hex_dump.simps hex_acc_simps hex_digit_def hex_dump_digits option.case)
  with Cons show ?case by (simp add: be_acc_def)
qed (simp add: be_acc_def)

lemma hex_dump_is_hex: "src \<noteq> [] \<Longrightarrow> is_hex (ngx_hex_dump src)"
proof -
  have "list_all (\<lambda>c. hex_value c \<noteq> None) (ngx_hex_dump src)"
    by (induction src) (simp_all only: ngx_hex_dump.simps list.pred_inject hex_dump_digits, simp_all)
  then show "src \<noteq> [] \<Longrightarrow> is_hex (ngx_hex_dump src)"
    by (cases src) (simp_all add: is_hex_def)
qed

section \<open>Printing and reading back\<close>

text \<open>The writers put a run of digits in front of what is already stored.\<close>

lemma digit_char: "d < 10 \<Longrightarrow> is_digit (word_of_nat d + ch_0) \<and> uint (word_of_nat d + ch_0 :: u_char) - 48 = int d"
proof -
  have "list_all (\<lambda>d. is_digit (word_of_nat d + ch_0)
      \<and> uint (word_of_nat d + ch_0 :: u_char) - 48 = int d) [0..<10]" by code_simp
  then show "d < 10 \<Longrightarrow> is_digit (word_of_nat d + ch_0) \<and> uint (word_of_nat d + ch_0 :: u_char) - 48 = int d"
    by (simp add: list_all_iff)
qed

text \<open>The reference printer: the decimal digits of a natural number, most significant first.\<close>

fun print_decimal :: "nat \<Rightarrow> u_char list" where
  "print_decimal n =
     (if n < 10 then [word_of_nat n + ch_0]
      else print_decimal (n div 10) @ [word_of_nat (n mod 10) + ch_0])"

declare print_decimal.simps [simp del]

lemma print_decimal_digits: "is_decimal (print_decimal n)"
proof (induction n rule: print_decimal.induct)
  case (1 n)
  then show ?case
    by (subst print_decimal.simps) (auto simp: is_decimal_def digit_char)
qed

lemma print_decimal_value: "decimal (print_decimal n) = int n"
proof (induction n rule: print_decimal.induct)
  case (1 n)
  show ?case
  proof (cases "n < 10")
    case True
    then show ?thesis
      by (subst print_decimal.simps) (simp add: decimal_def digit_char)
  next
    case False
    with 1 have "decimal (print_decimal (n div 10)) = int (n div 10)" by simp
    moreover have "int (n div 10) * 10 + int (n mod 10) = int n" by presburger
    ultimately show ?thesis
      using False digit_char [of "n mod 10"]
      by (subst print_decimal.simps) (simp add: decimal_def)
  qed
qed

lemma print_decimal_length: "n < 10 ^ Suc k \<Longrightarrow> length (print_decimal n) \<le> Suc k"
proof (induction k arbitrary: n)
  case 0
  then show ?case by (subst print_decimal.simps) simp
next
  case (Suc k)
  then have "length (print_decimal (n div 10)) \<le> Suc k"
    by (intro Suc.IH) (simp add: div_less_iff_less_mult)
  then show ?case by (subst print_decimal.simps) simp
qed

lemma ucast_mod_10:
  fixes w :: "'a::len word"
  assumes "(10::nat) < 2 ^ LENGTH('a)"
  shows "ucast (w mod 10) = (word_of_nat (unat w mod 10) :: u_char)"
proof -
  have "unat (w mod 10) = unat w mod 10"
    using assms by (simp add: unat_mod take_bit_nat_eq_self)
  moreover have "(word_of_nat (unat (w mod 10)) :: u_char) = ucast (w mod 10)"
    by (rule of_nat_unat)
  ultimately show ?thesis by simp
qed

lemma num_digits_print: "num_digits w temp = print_decimal (unat w) @ temp"
proof (induction w temp rule: num_digits.induct)
  case (1 w temp)
  have d: "ucast (w mod 10) = (word_of_nat (unat w mod 10) :: u_char)"
    by (rule ucast_mod_10) simp
  have z: "w div 10 = 0 \<longleftrightarrow> unat w < 10"
    by (simp add: unat_eq_zero [symmetric] unat_div div_eq_0_iff)
  show ?case
  proof (cases "w div 10 = 0")
    case True
    then show ?thesis
      using z by (subst num_digits.simps, subst print_decimal.simps) (simp add: Let_def d)
  next
    case False
    with 1 z show ?thesis
      by (subst num_digits.simps, subst print_decimal.simps) (simp add: Let_def d unat_div)
  qed
qed

lemma num_digits32_print: "num_digits32 w temp = print_decimal (unat w) @ temp"
proof (induction w temp rule: num_digits32.induct)
  case (1 w temp)
  have d: "ucast (w mod 10) = (word_of_nat (unat w mod 10) :: u_char)"
    by (rule ucast_mod_10) simp
  have z: "w div 10 = 0 \<longleftrightarrow> unat w < 10"
    by (simp add: unat_eq_zero [symmetric] unat_div div_eq_0_iff)
  show ?case
  proof (cases "w div 10 = 0")
    case True
    then show ?thesis
      using z by (subst num_digits32.simps, subst print_decimal.simps) (simp add: Let_def d)
  next
    case False
    with 1 z show ?thesis
      by (subst num_digits32.simps, subst print_decimal.simps) (simp add: Let_def d unat_div)
  qed
qed

lemma hex_char:
  assumes "d < 16" "hex = hex_lower \<or> hex = hex_upper"
  shows "hex_value (hex ! d) = Some (word_of_nat d) \<and> hex_digit (hex ! d) = int d"
proof -
  have v: "hex_value (hex ! d) = Some (word_of_nat d)"
    using assms hex_lower_value hex_upper_value by blast
  have "uint (word_of_nat d :: u_char) = int d"
    using assms(1) by (simp add: unsigned_of_nat take_bit_nat_eq_self)
  with v show ?thesis by (simp add: hex_digit_def)
qed

fun print_hex :: "u_char list \<Rightarrow> nat \<Rightarrow> u_char list" where
  "print_hex hex n =
     (if n < 16 then [hex ! n] else print_hex hex (n div 16) @ [hex ! (n mod 16)])"

declare print_hex.simps [simp del]

lemma print_hex_digits:
  assumes "hex = hex_lower \<or> hex = hex_upper"
  shows "is_hex (print_hex hex n) \<and> hex_acc 0 (print_hex hex n) = int n"
  using assms
proof (induction hex n rule: print_hex.induct)
  case (1 hex n)
  have "int (n div 16) * 16 + int (n mod 16) = int n" by presburger
  with 1 hex_char [of n hex] hex_char [of "n mod 16" hex] show ?case
    by (subst print_hex.simps, subst print_hex.simps) (auto simp: is_hex_def)
qed

lemma print_hex_length: "n < 16 ^ Suc k \<Longrightarrow> length (print_hex hex n) \<le> Suc k"
proof (induction k arbitrary: n)
  case 0
  then show ?case by (subst print_hex.simps) simp
next
  case (Suc k)
  then have "length (print_hex hex (n div 16)) \<le> Suc k"
    by (intro Suc.IH) (simp add: div_less_iff_less_mult)
  then show ?case by (subst print_hex.simps) simp
qed

lemma num_hex_print: "num_hex hex w temp = print_hex hex (unat w) @ temp"
proof (induction hex w temp rule: num_hex.induct)
  case (1 hex w temp)
  have low: "w AND 0xf = w mod 16"
    using take_bit_eq_mask [of 4 w] by (simp add: take_bit_eq_mod mask_numeral)
  have d: "unat (w AND 0xf) = unat w mod 16" unfolding low by (simp add: unat_mod)
  have u: "unat (drop_bit 4 w) = unat w div 16" by (simp add: drop_bit_eq_div unat_div)
  have z: "drop_bit 4 w = 0 \<longleftrightarrow> unat w < 16"
    by (subst unat_eq_zero [symmetric], subst u) (simp add: div_eq_0_iff)
  show ?case
  proof (cases "unat w < 16")
    case True
    then show ?thesis
      using z d by (subst num_hex.simps, subst print_hex.simps) (simp add: Let_def)
  next
    case False
    then have "num_hex hex w temp = num_hex hex (drop_bit 4 w) (hex ! (unat w mod 16) # temp)"
      using z d by (subst num_hex.simps) (simp add: Let_def)
    also have "\<dots> = print_hex hex (unat w div 16) @ hex ! (unat w mod 16) # temp"
      using 1 False z d u by (simp add: Let_def)
    finally show ?thesis using False by (subst print_hex.simps) simp
  qed
qed

text \<open>What \<^verbatim>\<open>ngx_sprintf_num\<close> stores in a buffer with enough room.\<close>

lemma pad_fits:
  assumes "length ds \<le> room" "width \<le> room"
  shows "replicate (min (width - length ds) room) z
      @ take (room - length (replicate (min (width - length ds) room) z)) ds
    = replicate (width - length ds) z @ ds"
  using assms by (auto simp: min_def)

lemma sprintf_num_decimal:
  assumes "width \<le> room" "20 \<le> room"
  shows "ngx_sprintf_num room w zero 0 width =
    replicate (width - length (print_decimal (unat w))) zero @ print_decimal (unat w)"
proof -
  have "unat w < 2 ^ LENGTH(64)" by (rule unsigned_less)
  then have "length (print_decimal (unat w)) \<le> Suc 19"
    by (intro print_decimal_length) simp
  then have len: "length (print_decimal (unat w)) \<le> room" using assms by simp
  have "num_digits32 (ucast w) [] = print_decimal (unat w)" if "w \<le> 0xffffffff"
  proof -
    have "unat w < 2 ^ 32" using that by (simp add: word_le_nat_alt)
    then have "unat (ucast w :: 32 word) = unat w"
      by (simp add: unsigned_ucast_eq take_bit_nat_eq_self)
    then show ?thesis by (simp add: num_digits32_print)
  qed
  then have "(if w \<le> 0xffffffff then num_digits32 (ucast w) [] else num_digits w [])
      = print_decimal (unat w)" by (simp add: num_digits_print)
  then show ?thesis
    using pad_fits [OF len assms(1), of zero] by (simp add: ngx_sprintf_num_def Let_def)
qed

lemma sprintf_num_hex:
  assumes "width \<le> room" "16 \<le> room" "h = 1 \<or> h = 2"
    and hex: "hex = (if h = 1 then hex_lower else hex_upper)"
  shows "ngx_sprintf_num room w zero h width =
    replicate (width - length (print_hex hex (unat w))) zero @ print_hex hex (unat w)"
proof -
  have "unat w < 2 ^ LENGTH(64)" by (rule unsigned_less)
  then have "length (print_hex hex (unat w)) \<le> Suc 15"
    by (intro print_hex_length) simp
  then have len: "length (print_hex hex (unat w)) \<le> room" using assms by simp
  show ?thesis
    using pad_fits [OF len assms(1), of zero] assms
    by (auto simp: ngx_sprintf_num_def Let_def num_hex_print)
qed

lemma decimal_zeros: "decimal (replicate n ch_0 @ line) = decimal line"
  by (induction n) (simp_all add: decimal_def)

lemma hex_zeros: "hex_acc 0 (replicate n ch_0) = 0"
proof -
  have "hex_digit ch_0 = 0" by code_simp
  then show ?thesis by (induction n) simp_all
qed

lemma is_decimal_zeros: "is_decimal line \<Longrightarrow> is_decimal (replicate n ch_0 @ line)"
  by (auto simp: is_decimal_def list_all_iff is_digit_def)

lemma is_hex_zeros: "is_hex line \<Longrightarrow> is_hex (replicate n ch_0 @ line)"
proof -
  have "hex_value ch_0 \<noteq> None" by code_simp
  then show "is_hex line \<Longrightarrow> is_hex (replicate n ch_0 @ line)"
    by (auto simp: is_hex_def list_all_iff)
qed

lemma hex_length_sprintf: "length (ngx_sprintf_num room w zero h width) \<le> room"
  by (simp add: ngx_sprintf_num_def Let_def)

section \<open>Properties\<close>

text \<open>C38: the readers of numbers. Each decimal reader returns the exact value of a non-empty all-digit string whose
  value fits into a signed 64-bit integer, and \<^verbatim>\<open>NGX_ERROR\<close> for every other string;
  no intermediate multiplication wraps. \<^verbatim>\<open>ngx_parse_size\<close> and \<^verbatim>\<open>ngx_parse_offset\<close> read a decimal number with
  an optional unit letter (K, M; also G for offsets) and return the exact product, or
  \<^verbatim>\<open>NGX_ERROR\<close> when the text is no such number or the product exceeds the maximum. \<^verbatim>\<open>ngx_atofp\<close> accepts exactly the
  digit strings with at most one dot and at most \<open>point\<close> fractional digits whose scaled value fits, and returns that value.\<close>

theorem ngx_ato_exact:
  "ngx_atoi line = (if is_decimal line \<and> decimal line \<le> NGX_MAX_INT_T_VALUE
                    then decimal line else NGX_ERROR)
   \<and> ngx_atosz line = ngx_atoi line \<and> ngx_atoof line = ngx_atoi line \<and> ngx_atotm line = ngx_atoi line
   \<and> ngx_parse_size line = or_error (scaled_number size_unit line)
   \<and> ngx_parse_offset line = or_error (scaled_number offset_unit line)
   \<and> ngx_atofp line point = or_error (fixed_point line point)"
  by (simp only: atoi.ato_exact atosz.ato_exact atoof.ato_exact atotm.ato_exact parse_size_exact parse_offset_exact atofp_exact simp_thms)

lemma hex_dump_reads_back:
  "src \<noteq> [] \<Longrightarrow> ngx_hextoi (ngx_hex_dump src) = (if be_acc 0 src \<le> NGX_MAX_INT_T_VALUE then be_acc 0 src else NGX_ERROR)"
  by (simp add: hextoi_exact hex_acc_hex_dump hex_dump_is_hex)

text \<open>C39: a 64-bit number printed by \<^verbatim>\<open>ngx_sprintf_num\<close> with zero padding in any width and any base
  is read back by \<^verbatim>\<open>ngx_atoi\<close> or \<^verbatim>\<open>ngx_hextoi\<close> when it is at most 2^63 - 1, the largest number that they return, and
  gives \<^verbatim>\<open>NGX_ERROR\<close> when it is larger; the buffer has to have the
  20 bytes of \<^verbatim>\<open>NGX_INT64_LEN\<close> and the width. Reading back the hexadecimal dump of a non-empty byte string gives its big-endian number, again
  up to 2^63 - 1 and \<^verbatim>\<open>NGX_ERROR\<close> above.\<close>

theorem ngx_sprintf_num_roundtrip:
  assumes "width \<le> room" "20 \<le> room" "src \<noteq> []"
  shows "ngx_atoi (ngx_sprintf_num room w ch_0 0 width) = (if uint w \<le> NGX_MAX_INT_T_VALUE then uint w else NGX_ERROR)
    \<and> ngx_hextoi (ngx_sprintf_num room w ch_0 1 width) = (if uint w \<le> NGX_MAX_INT_T_VALUE then uint w else NGX_ERROR)
    \<and> ngx_hextoi (ngx_sprintf_num room w ch_0 2 width) = (if uint w \<le> NGX_MAX_INT_T_VALUE then uint w else NGX_ERROR)
    \<and> ngx_hextoi (ngx_hex_dump src) = (if be_acc 0 src \<le> NGX_MAX_INT_T_VALUE then be_acc 0 src else NGX_ERROR)"
proof -
  note u = print_hex_digits [of hex_lower "unat w"] print_hex_digits [of hex_upper "unat w"]
  show ?thesis
    using assms(1,2) u hex_dump_reads_back [OF assms(3)]
    by (simp add: sprintf_num_decimal sprintf_num_hex [OF _ _ _ refl] atoi.ato_exact hextoi_exact
        is_decimal_zeros is_hex_zeros decimal_zeros hex_zeros print_decimal_digits
        print_decimal_value)
qed

theorem ngx_sprintf_num_roundtrip_witness:
  "ngx_atoi (ngx_sprintf_num 20 255 ch_0 0 5) = 255
    \<and> ngx_hextoi (ngx_sprintf_num 20 255 ch_0 1 5) = 255
    \<and> ngx_hextoi (ngx_sprintf_num 20 255 ch_0 2 5) = 255
    \<and> ngx_hextoi (ngx_hex_dump [0x12, 0xff]) = 0x12ff
    \<and> ngx_atoi (ngx_sprintf_num 20 0xFFFFFFFFFFFFFFFF ch_0 0 5) = NGX_ERROR"
  using ngx_sprintf_num_roundtrip [of 5 20 "[0x12, 0xff]" 255] ngx_sprintf_num_roundtrip [of 5 20 "[0x12, 0xff]" "0xFFFFFFFFFFFFFFFF"]
  by (simp add: be_acc_def)

end
