(* ===== verification/Ngx_Http_Types.thy ===== *)
theory Ngx_Http_Types
  imports Ngx_Prelude
begin

text \<open>
  What the HTTP parsers of \<^verbatim>\<open>http/ngx_http_parse.c\<close> share: the parsing fields of
  \<^verbatim>\<open>ngx_http_request_t\<close>, the buffer, the return codes, the table of usual URI characters.
  A pointer into the request buffer is an offset from the start of the buffer, \<^verbatim>\<open>NULL\<close> is
  \<open>None\<close>. The fields \<^verbatim>\<open>state\<close>, \<^verbatim>\<open>header_hash\<close> and \<^verbatim>\<open>lowcase_index\<close>, in which a parser
  keeps its local variables between two calls, are components of the machine of that parser and not
  of the record. The bit fields \<^verbatim>\<open>http_major:16\<close> and \<^verbatim>\<open>http_minor:16\<close> are natural
  numbers that are stored modulo \<open>2 ^ 16\<close>.
\<close>

section \<open>Return codes and methods\<close>

abbreviation (input) NGX_HTTP_PARSE_HEADER_DONE :: int where "NGX_HTTP_PARSE_HEADER_DONE \<equiv> 1"
abbreviation (input) NGX_HTTP_PARSE_INVALID_METHOD :: int where "NGX_HTTP_PARSE_INVALID_METHOD \<equiv> 10"
abbreviation (input) NGX_HTTP_PARSE_INVALID_REQUEST :: int where "NGX_HTTP_PARSE_INVALID_REQUEST \<equiv> 11"
abbreviation (input) NGX_HTTP_PARSE_INVALID_09_METHOD :: int where "NGX_HTTP_PARSE_INVALID_09_METHOD \<equiv> 12"
abbreviation (input) NGX_HTTP_PARSE_INVALID_HEADER :: int where "NGX_HTTP_PARSE_INVALID_HEADER \<equiv> 13"

abbreviation (input) NGX_HTTP_UNKNOWN :: nat where "NGX_HTTP_UNKNOWN \<equiv> 0x0001"
abbreviation (input) NGX_HTTP_GET :: nat where "NGX_HTTP_GET \<equiv> 0x0002"
abbreviation (input) NGX_HTTP_HEAD :: nat where "NGX_HTTP_HEAD \<equiv> 0x0004"
abbreviation (input) NGX_HTTP_POST :: nat where "NGX_HTTP_POST \<equiv> 0x0008"
abbreviation (input) NGX_HTTP_PUT :: nat where "NGX_HTTP_PUT \<equiv> 0x0010"
abbreviation (input) NGX_HTTP_DELETE :: nat where "NGX_HTTP_DELETE \<equiv> 0x0020"
abbreviation (input) NGX_HTTP_MKCOL :: nat where "NGX_HTTP_MKCOL \<equiv> 0x0040"
abbreviation (input) NGX_HTTP_COPY :: nat where "NGX_HTTP_COPY \<equiv> 0x0080"
abbreviation (input) NGX_HTTP_MOVE :: nat where "NGX_HTTP_MOVE \<equiv> 0x0100"
abbreviation (input) NGX_HTTP_OPTIONS :: nat where "NGX_HTTP_OPTIONS \<equiv> 0x0200"
abbreviation (input) NGX_HTTP_PROPFIND :: nat where "NGX_HTTP_PROPFIND \<equiv> 0x0400"
abbreviation (input) NGX_HTTP_PROPPATCH :: nat where "NGX_HTTP_PROPPATCH \<equiv> 0x0800"
abbreviation (input) NGX_HTTP_LOCK :: nat where "NGX_HTTP_LOCK \<equiv> 0x1000"
abbreviation (input) NGX_HTTP_UNLOCK :: nat where "NGX_HTTP_UNLOCK \<equiv> 0x2000"
abbreviation (input) NGX_HTTP_PATCH :: nat where "NGX_HTTP_PATCH \<equiv> 0x4000"
abbreviation (input) NGX_HTTP_TRACE :: nat where "NGX_HTTP_TRACE \<equiv> 0x8000"

abbreviation (input) NGX_HTTP_LC_HEADER_LEN :: nat where "NGX_HTTP_LC_HEADER_LEN \<equiv> 32"

section \<open>The request and the buffer\<close>

type_synonym ptr = "nat option"

record ngx_http_request_t =
  rq_method :: nat
  rq_http_version :: nat
  rq_http_protocol :: ptr
  complex_uri :: bool
  quoted_uri :: bool
  plus_in_uri :: bool
  space_in_uri :: bool
  rq_upstream :: bool
  invalid_header :: bool
  lowcase_header :: "u_char list"
  header_name_start :: ptr
  header_name_end :: ptr
  header_start :: ptr
  header_end :: ptr
  uri_start :: ptr
  uri_end :: ptr
  uri_ext :: ptr
  args_start :: ptr
  request_start :: ptr
  request_end :: ptr
  method_end :: ptr
  schema_start :: ptr
  schema_end :: ptr
  host_start :: ptr
  host_end :: ptr
  port_end :: ptr
  http_minor :: nat
  http_major :: nat

text \<open>
  A request as \<^verbatim>\<open>ngx_http_create_request\<close> makes it: \<^verbatim>\<open>ngx_pcalloc\<close> zeroes the
  structure, then the method is \<^verbatim>\<open>NGX_HTTP_UNKNOWN\<close> and the version 1.0.
\<close>

definition new_request :: ngx_http_request_t where
  "new_request = \<lparr>rq_method = NGX_HTTP_UNKNOWN, rq_http_version = 1000, rq_http_protocol = None,
     complex_uri = False, quoted_uri = False, plus_in_uri = False, space_in_uri = False,
     rq_upstream = False, invalid_header = False, lowcase_header = replicate NGX_HTTP_LC_HEADER_LEN 0,
     header_name_start = None, header_name_end = None, header_start = None, header_end = None,
     uri_start = None, uri_end = None, uri_ext = None, args_start = None,
     request_start = None, request_end = None, method_end = None,
     schema_start = None, schema_end = None, host_start = None, host_end = None,
     port_end = None, http_minor = 0, http_major = 0\<rparr>"

text \<open>The bytes of an \<^verbatim>\<open>ngx_buf_t\<close> from its start to \<^verbatim>\<open>last\<close>, and \<^verbatim>\<open>pos\<close>.\<close>

record ngx_buf_t =
  buf_data :: "u_char list"
  buf_pos :: nat

text \<open>How an iteration of a parser leaves its loop.\<close>

datatype parse_exit = Goto_done | Goto_header_done | Return int

section \<open>Usual characters\<close>

definition usual :: "32 word list" where
  "usual = [0xffffdbfe, 0x7fff37d6, 0xffffffff, 0xffffffff,
            0xffffffff, 0xffffffff, 0xffffffff, 0xffffffff]"

definition is_usual :: "u_char \<Rightarrow> bool" where
  "is_usual ch = bitmap_test usual ch"

definition unusual_chars :: "u_char list" where
  "unusual_chars = [ch_NUL, LF, CR, ch_space, ch_hash, ch_percent, ch_plus, ch_dot, ch_slash, ch_question]"

text \<open>The table says exactly which characters need the attention of a URI parser.\<close>

lemma is_usual_iff: "is_usual ch \<longleftrightarrow> ch \<notin> set unusual_chars"
proof -
  have "concat (map (bits_of 32) (map uint usual)) =
      map (\<lambda>n. word_of_nat n \<notin> set unusual_chars) [0..<256]" by code_simp
  then show ?thesis unfolding is_usual_def by (rule bitmap_table) (simp add: usual_def)
qed

lemmas usual_simps [byte_simps] = is_usual_iff unusual_chars_def

section \<open>Calling a parser again\<close>

text \<open>
  The callers of the incremental parsers (\<^verbatim>\<open>ngx_http_process_request_line\<close> and its kin) read
  from the connection when the parser says \<^verbatim>\<open>NGX_AGAIN\<close>, which appends bytes at
  \<^verbatim>\<open>b->last\<close>, and call it again with the same request.
\<close>

definition extend_buf :: "ngx_buf_t \<Rightarrow> u_char list \<Rightarrow> ngx_buf_t" where
  "extend_buf b c = b\<lparr>buf_data := buf_data b @ c\<rparr>"

fun feed_parser ::
  "('r \<Rightarrow> ngx_buf_t \<Rightarrow> int \<times> 'r \<times> ngx_buf_t) \<Rightarrow> 'r \<Rightarrow> ngx_buf_t \<Rightarrow> u_char list \<Rightarrow> u_char list list
     \<Rightarrow> int \<times> 'r \<times> ngx_buf_t"
where
  "feed_parser parse r b c [] = parse r (extend_buf b c)"
| "feed_parser parse r b c (c' # cs) =
     (case parse r (extend_buf b c) of
        (rc, r', b') \<Rightarrow> if rc = NGX_AGAIN then feed_parser parse r' b' c' cs else (rc, r', b'))"

text \<open>
  Two calls agree when they return the same code and the same as far as \<open>view\<close> goes: what
  of the machine and the position the caller may use after that code. On an error return the
  parsers leave \<^verbatim>\<open>r->state\<close> and \<^verbatim>\<open>b->pos\<close> as they were on entry, and the request is
  finalized; \<open>seen_on\<close> is the view of a caller that looks at everything after some codes and at
  nothing after the others.
\<close>

definition agree :: "(int \<Rightarrow> 'r \<Rightarrow> nat \<Rightarrow> 'v) \<Rightarrow> int \<times> 'r \<times> ngx_buf_t \<Rightarrow> int \<times> 'r \<times> ngx_buf_t \<Rightarrow> bool" where
  "agree view x y \<longleftrightarrow> fst x = fst y \<and>
     view (fst x) (fst (snd x)) (buf_pos (snd (snd x))) = view (fst y) (fst (snd y)) (buf_pos (snd (snd y)))"

definition seen_on :: "int set \<Rightarrow> int \<Rightarrow> 'r \<Rightarrow> nat \<Rightarrow> ('r \<times> nat) option" where
  "seen_on codes rc r pos = (if rc \<in> codes then Some (r, pos) else None)"

lemma agree_refl [simp]: "agree view x x"
  by (simp add: agree_def)

lemma agree_trans: "agree view x y \<Longrightarrow> agree view y z \<Longrightarrow> agree view x z"
  by (auto simp: agree_def)

lemma extend_buf_simps [simp]:
  "buf_data (extend_buf b c) = buf_data b @ c" "buf_pos (extend_buf b c) = buf_pos b"
  "extend_buf (extend_buf b c) d = extend_buf b (c @ d)"
  by (simp_all add: extend_buf_def)

text \<open>
  The contract between a parser and its caller: a result is final, and \<^verbatim>\<open>NGX_AGAIN\<close> leaves
  behind what is needed to go on.
\<close>

locale incremental_parser =
  fixes parse :: "'r \<Rightarrow> ngx_buf_t \<Rightarrow> int \<times> 'r \<times> ngx_buf_t" and view :: "int \<Rightarrow> 'r \<Rightarrow> nat \<Rightarrow> 'v"
  assumes parse_again:
      "parse r b = (NGX_AGAIN, r1, b1) \<Longrightarrow> buf_pos b \<le> length (buf_data b) \<Longrightarrow>
         buf_data b1 = buf_data b \<and> buf_pos b1 = length (buf_data b)
         \<and> agree view (parse r1 (extend_buf b1 c)) (parse r (extend_buf b c))"
    and parse_final:
      "parse r b = (rc, r1, b1) \<Longrightarrow> rc \<noteq> NGX_AGAIN \<Longrightarrow> buf_pos b \<le> length (buf_data b) \<Longrightarrow>
         parse r (extend_buf b c) = (rc, r1, extend_buf b1 c)"
begin

lemma feed_agrees:
  "buf_pos b \<le> length (buf_data b) \<Longrightarrow>
     agree view (feed_parser parse r b c cs) (parse r (extend_buf b (c @ concat cs)))"
proof (induction cs arbitrary: r b c)
  case Nil
  then show ?case by simp
next
  case (Cons c' cs)
  obtain rc r1 b1 where p: "parse r (extend_buf b c) = (rc, r1, b1)" by (cases "parse r (extend_buf b c)")
  have pos: "buf_pos (extend_buf b c) \<le> length (buf_data (extend_buf b c))" using Cons.prems by simp
  show ?case
  proof (cases "rc = NGX_AGAIN")
    case True
    note a = parse_again [OF p [unfolded True] pos, of "c' @ concat cs"]
    then have "agree view (feed_parser parse r1 b1 c' cs) (parse r1 (extend_buf b1 (c' @ concat cs)))"
      by (intro Cons.IH) simp
    with a p True show ?thesis by (auto intro: agree_trans)
  next
    case False
    with parse_final [OF p False pos, of "c' @ concat cs"] p show ?thesis
      by (simp add: agree_def)
  qed
qed

end

text \<open>
  The frame every line parser has around its loop: \<^verbatim>\<open>NGX_AGAIN\<close> stores the local state and
  moves \<^verbatim>\<open>b->pos\<close> to \<^verbatim>\<open>b->last\<close>; \<open>fin\<close> is the code behind the labels and the
  error returns, which sees the machine and the position on entry, and those at the exit.
\<close>

definition run_parser ::
  "('m, 'x) step \<Rightarrow> ('m \<Rightarrow> nat \<Rightarrow> 'x \<Rightarrow> 'm \<Rightarrow> nat \<Rightarrow> int \<times> 'm \<times> nat) \<Rightarrow> 'm \<Rightarrow> ngx_buf_t
     \<Rightarrow> int \<times> 'm \<times> ngx_buf_t"
where
  "run_parser step fin m b =
     (case scan step (buf_data b) m (buf_pos b) of
        More m' \<Rightarrow> (NGX_AGAIN, m', b\<lparr>buf_pos := length (buf_data b)\<rparr>)
      | Halt x m' p \<Rightarrow>
          (case fin m (buf_pos b) x m' p of (rc, m'', pos) \<Rightarrow> (rc, m'', b\<lparr>buf_pos := pos\<rparr>)))"

locale framed_parser = resumable_parser step
  for step :: "('m, 'x) step" +
  fixes fin :: "'m \<Rightarrow> nat \<Rightarrow> 'x \<Rightarrow> 'm \<Rightarrow> nat \<Rightarrow> int \<times> 'm \<times> nat" and view :: "int \<Rightarrow> 'm \<Rightarrow> nat \<Rightarrow> 'v"
  assumes fin_code: "step b m p ch = Stop x m' \<Longrightarrow> fst (fin m0 p0 x m' p) \<noteq> NGX_AGAIN"
    and fin_view: "step b m p ch = Stop x m' \<Longrightarrow>
      fin m0 p0 x m' p = (rc0, s0, q0) \<Longrightarrow> fin m1 p1 x m' p = (rc1, s1, q1) \<Longrightarrow>
      rc0 = rc1 \<and> view rc0 s0 q0 = view rc1 s1 q1"
begin

lemma scan_Halt_step:
  assumes "scan step b m p = Halt x m' q" "p \<le> length b"
  obtains m2 where "step b m2 q (b ! q) = Stop x m'"
proof -
  have "scan_post (\<lambda>_ _. True) (\<lambda>x m' q. \<exists>m2. step b m2 q (b ! q) = Stop x m') p (length b)
      (scan step b m p)"
    using assms(2) by (intro scan_invariant) (auto split: verdict.split)
  with assms(1) that show thesis by (auto simp: scan_post_def)
qed

lemma run_again:
  assumes "run_parser step fin m b = (NGX_AGAIN, m1, b1)" "buf_pos b \<le> length (buf_data b)"
  shows "scan step (buf_data b) m (buf_pos b) = More m1 \<and> b1 = b\<lparr>buf_pos := length (buf_data b)\<rparr>"
proof (cases "scan step (buf_data b) m (buf_pos b)")
  case (More m')
  with assms show ?thesis by (simp add: run_parser_def)
next
  case (Halt x m' q)
  then obtain m2 where "step (buf_data b) m2 q (buf_data b ! q) = Stop x m'"
    using scan_Halt_step assms(2) by blast
  from fin_code [OF this, of m "buf_pos b"] Halt assms show ?thesis
    by (auto simp: run_parser_def split: prod.splits)
qed

text \<open>What an invariant of the loop gives at the end of a call that found a result.\<close>

lemma run_final:
  assumes run: "run_parser step fin m b = (rc, m', b')" "rc \<noteq> NGX_AGAIN"
    and inv: "I m (buf_pos b)" "buf_pos b \<le> length (buf_data b)"
    and keeps: "\<And>s p. I s p \<Longrightarrow> p < length (buf_data b) \<Longrightarrow>
      (case step (buf_data b) s p (buf_data b ! p) of Next s' \<Rightarrow> I s' (Suc p) | Stop x s' \<Rightarrow> Q x s' p)"
  obtains x m1 p m2 where "Q x m1 p" "fin m (buf_pos b) x m1 p = (rc, m', buf_pos b')"
    "p < length (buf_data b)" "step (buf_data b) m2 p (buf_data b ! p) = Stop x m1"
proof -
  obtain x m1 p where halt: "scan step (buf_data b) m (buf_pos b) = Halt x m1 p"
    using run by (cases "scan step (buf_data b) m (buf_pos b)") (auto simp: run_parser_def)
  then have fin: "fin m (buf_pos b) x m1 p = (rc, m', buf_pos b')"
    using run by (auto simp: run_parser_def split: prod.splits)
  have "scan_post I Q (buf_pos b) (length (buf_data b)) (scan step (buf_data b) m (buf_pos b))"
    using inv keeps by (intro scan_invariant)
  with halt have "Q x m1 p" "p < length (buf_data b)" by (auto simp: scan_post_def)
  moreover from scan_Halt_step [OF halt inv(2)] obtain m2
    where "step (buf_data b) m2 p (buf_data b ! p) = Stop x m1" .
  ultimately show thesis using that fin by blast
qed

lemma run_agree:
  assumes "scan step (buf_data b) m (buf_pos b) = scan step (buf_data b) m' (buf_pos b')"
    and "buf_data b' = buf_data b" "buf_pos b \<le> length (buf_data b)"
  shows "agree view (run_parser step fin m b) (run_parser step fin m' b')"
proof (cases "scan step (buf_data b) m (buf_pos b)")
  case (More m'')
  with assms(1) have "scan step (buf_data b) m' (buf_pos b') = More m''" by simp
  with More assms(2) show ?thesis by (simp add: run_parser_def agree_def)
next
  case (Halt x m'' q)
  with assms(1) have halt': "scan step (buf_data b) m' (buf_pos b') = Halt x m'' q" by simp
  from Halt obtain m2 where "step (buf_data b) m2 q (buf_data b ! q) = Stop x m''"
    using scan_Halt_step assms(3) by blast
  moreover obtain rc0 s0 q0 where f0: "fin m (buf_pos b) x m'' q = (rc0, s0, q0)" by (metis prod_cases3)
  moreover obtain rc1 s1 q1 where f1: "fin m' (buf_pos b') x m'' q = (rc1, s1, q1)" by (metis prod_cases3)
  ultimately have "rc0 = rc1 \<and> view rc0 s0 q0 = view rc1 s1 q1" by (rule fin_view)
  then show ?thesis using Halt halt' assms(2) f0 f1 by (auto simp: run_parser_def agree_def)
qed

lemma run_incremental: "incremental_parser (run_parser step fin) view"
proof
  fix m b m1 b1 c
  assume again: "run_parser step fin m b = (NGX_AGAIN, m1, b1)"
    and pos: "buf_pos b \<le> length (buf_data b)"
  note more = run_again [OF this]
  then have "scan step (buf_data b @ c) m (buf_pos b) = scan step (buf_data b @ c) m1 (length (buf_data b))"
    using scan_append_More pos by blast
  with more have "agree view (run_parser step fin m1 (extend_buf b1 c)) (run_parser step fin m (extend_buf b c))"
    by (intro run_agree) (simp_all add: extend_buf_def)
  with more show "buf_data b1 = buf_data b \<and> buf_pos b1 = length (buf_data b)
      \<and> agree view (run_parser step fin m1 (extend_buf b1 c)) (run_parser step fin m (extend_buf b c))"
    by simp
next
  fix m b rc m1 b1 c
  assume fin: "run_parser step fin m b = (rc, m1, b1)" "rc \<noteq> NGX_AGAIN"
    and pos: "buf_pos b \<le> length (buf_data b)"
  then obtain x m' q where halt: "scan step (buf_data b) m (buf_pos b) = Halt x m' q"
    by (cases "scan step (buf_data b) m (buf_pos b)") (auto simp: run_parser_def)
  with scan_append_Halt [OF halt pos] fin
  show "run_parser step fin m (extend_buf b c) = (rc, m1, extend_buf b1 c)"
    by (auto simp: run_parser_def extend_buf_def split: prod.splits)
qed

sublocale inc: incremental_parser "run_parser step fin" view
  by (rule run_incremental)

end

section \<open>Slices of the buffer\<close>

text \<open>The bytes \<open>[i, j)\<close> of a buffer.\<close>

definition buf_slice :: "'a list \<Rightarrow> nat \<Rightarrow> nat \<Rightarrow> 'a list" where
  "buf_slice b i j = take (j - i) (drop i b)"

lemma buf_slice_append [simp]: "j \<le> length b \<Longrightarrow> buf_slice (b @ c) i j = buf_slice b i j"
  by (cases "i \<le> j") (auto simp: buf_slice_def)

lemma nth_buf_slice: "i + k < j \<Longrightarrow> j \<le> length b \<Longrightarrow> buf_slice b i j ! k = b ! (i + k)"
  by (simp add: buf_slice_def)

lemma length_buf_slice [simp]: "j \<le> length b \<Longrightarrow> length (buf_slice b i j) = j - i"
  by (simp add: buf_slice_def)

lemma buf_slice_Suc: "i \<le> j \<Longrightarrow> j < length b \<Longrightarrow> buf_slice b i (Suc j) = buf_slice b i j @ [b ! j]"
  unfolding buf_slice_def
  by (simp add: Suc_diff_le take_Suc_conv_app_nth)

lemma buf_slice_parts [simp]: "buf_slice (xs @ ys @ zs) (length xs) (length xs + length ys) = ys"
  by (simp add: buf_slice_def)

end
