(* ===== verification/Ngx_Http_Request_Line.thy ===== *)
theory Ngx_Http_Request_Line
  imports Ngx_Http_Types
begin

text \<open>
  \<^verbatim>\<open>ngx_http_parse_request_line\<close> of \<^verbatim>\<open>http/ngx_http_parse.c\<close>. The local variable
  \<^verbatim>\<open>state\<close> is an enumeration; one definition models each of its \<^verbatim>\<open>case\<close> labels, and
  \<open>rl_step\<close> is the \<^verbatim>\<open>switch\<close>. The machine is the pair of the state and the request: inside
  the loop its first component is the local variable, between calls it is \<^verbatim>\<open>r->state\<close>, which
  holds the number of an enumeration constant (0 is \<^verbatim>\<open>sw_start\<close>). The Win32 branches are not
  compiled in this build.
\<close>

section \<open>The machine\<close>

datatype rl_state =
    rl_sw_start | rl_sw_method | rl_sw_spaces_before_uri | rl_sw_schema | rl_sw_schema_slash
  | rl_sw_schema_slash_slash | rl_sw_host_start | rl_sw_host | rl_sw_host_end
  | rl_sw_host_ip_literal | rl_sw_port | rl_sw_host_http_09 | rl_sw_after_slash_in_uri
  | rl_sw_check_uri | rl_sw_check_uri_http_09 | rl_sw_uri | rl_sw_http_09 | rl_sw_http_H
  | rl_sw_http_HT | rl_sw_http_HTT | rl_sw_http_HTTP | rl_sw_first_major_digit
  | rl_sw_major_digit | rl_sw_first_minor_digit | rl_sw_minor_digit
  | rl_sw_spaces_after_digit | rl_sw_almost_done

type_synonym rl_machine = "rl_state \<times> ngx_http_request_t"
type_synonym rl_verdict = "(rl_machine, parse_exit) verdict"

text \<open>The characters of a method name.\<close>

definition is_method_char :: "u_char \<Rightarrow> bool" where
  "is_method_char ch \<longleftrightarrow> (ch_A \<le> ch \<and> ch \<le> ch_Z) \<or> ch = ch_underscore \<or> ch = ch_minus"

definition rl_start :: "ngx_http_request_t \<Rightarrow> nat \<Rightarrow> u_char \<Rightarrow> rl_verdict" where
  "rl_start r p ch =
     (let r = r\<lparr>request_start := Some p\<rparr> in
      if ch = CR \<or> ch = LF then Next (rl_sw_start, r)
      else if \<not> is_method_char ch then Stop (Return NGX_HTTP_PARSE_INVALID_METHOD) (rl_sw_start, r)
      else Next (rl_sw_method, r))"

text \<open>
  The nested switch over the length of the method, \<^verbatim>\<open>ngx_str3_cmp\<close> to \<^verbatim>\<open>ngx_str9cmp\<close>
  being comparisons of that many bytes at \<open>m\<close>; \<open>None\<close> leaves \<^verbatim>\<open>r->method\<close> alone.
\<close>

definition rl_method_code :: "u_char list \<Rightarrow> nat option" where
  "rl_method_code m =
     (if length m = 3 then
        (if m = bytes ''GET'' then Some NGX_HTTP_GET
         else if m = bytes ''PUT'' then Some NGX_HTTP_PUT
         else None)
      else if length m = 4 then
        (if m ! 1 = 79 then
           (if m = bytes ''POST'' then Some NGX_HTTP_POST
            else if m = bytes ''COPY'' then Some NGX_HTTP_COPY
            else if m = bytes ''MOVE'' then Some NGX_HTTP_MOVE
            else if m = bytes ''LOCK'' then Some NGX_HTTP_LOCK
            else None)
         else
           (if m = bytes ''HEAD'' then Some NGX_HTTP_HEAD
            else None))
      else if length m = 5 then
        (if m = bytes ''MKCOL'' then Some NGX_HTTP_MKCOL
         else if m = bytes ''PATCH'' then Some NGX_HTTP_PATCH
         else if m = bytes ''TRACE'' then Some NGX_HTTP_TRACE
         else None)
      else if length m = 6 then
        (if m = bytes ''DELETE'' then Some NGX_HTTP_DELETE
         else if m = bytes ''UNLOCK'' then Some NGX_HTTP_UNLOCK
         else None)
      else if length m = 7 then
        (if m = bytes ''OPTIONS'' then Some NGX_HTTP_OPTIONS else None)
      else if length m = 8 then
        (if m = bytes ''PROPFIND'' then Some NGX_HTTP_PROPFIND else None)
      else if length m = 9 then
        (if m = bytes ''PROPPATCH'' then Some NGX_HTTP_PROPPATCH else None)
      else None)"

definition rl_method :: "u_char list \<Rightarrow> ngx_http_request_t \<Rightarrow> nat \<Rightarrow> u_char \<Rightarrow> rl_verdict" where
  "rl_method b r p ch =
     (if ch = ch_space then
        (let m = (case request_start r of None \<Rightarrow> p | Some m \<Rightarrow> m);
             r = r\<lparr>method_end := Some (p - 1)\<rparr>;
             r = (case rl_method_code (buf_slice b m p) of
                    None \<Rightarrow> r
                  | Some code \<Rightarrow> r\<lparr>rq_method := code\<rparr>)
         in Next (rl_sw_spaces_before_uri, r))
      else if \<not> is_method_char ch then Stop (Return NGX_HTTP_PARSE_INVALID_METHOD) (rl_sw_method, r)
      else Next (rl_sw_method, r))"

definition rl_spaces_before_uri :: "ngx_http_request_t \<Rightarrow> nat \<Rightarrow> u_char \<Rightarrow> rl_verdict" where
  "rl_spaces_before_uri r p ch =
     (if ch = ch_slash then Next (rl_sw_after_slash_in_uri, r\<lparr>uri_start := Some p\<rparr>)
      else if is_alpha ch then Next (rl_sw_schema, r\<lparr>schema_start := Some p\<rparr>)
      else if ch = ch_space then Next (rl_sw_spaces_before_uri, r)
      else Stop (Return NGX_HTTP_PARSE_INVALID_REQUEST) (rl_sw_spaces_before_uri, r))"

definition rl_schema :: "ngx_http_request_t \<Rightarrow> nat \<Rightarrow> u_char \<Rightarrow> rl_verdict" where
  "rl_schema r p ch =
     (if is_alpha ch then Next (rl_sw_schema, r)
      else if ch = ch_colon then Next (rl_sw_schema_slash, r\<lparr>schema_end := Some p\<rparr>)
      else Stop (Return NGX_HTTP_PARSE_INVALID_REQUEST) (rl_sw_schema, r))"

text \<open>A state that accepts one character only and goes on to another state.\<close>

definition rl_expect :: "u_char \<Rightarrow> rl_state \<Rightarrow> rl_state \<Rightarrow> ngx_http_request_t \<Rightarrow> u_char \<Rightarrow> rl_verdict" where
  "rl_expect c here there r ch =
     (if ch = c then Next (there, r) else Stop (Return NGX_HTTP_PARSE_INVALID_REQUEST) (here, r))"

definition rl_schema_slash :: "ngx_http_request_t \<Rightarrow> nat \<Rightarrow> u_char \<Rightarrow> rl_verdict" where
  "rl_schema_slash r p ch = rl_expect ch_slash rl_sw_schema_slash rl_sw_schema_slash_slash r ch"

definition rl_schema_slash_slash :: "ngx_http_request_t \<Rightarrow> nat \<Rightarrow> u_char \<Rightarrow> rl_verdict" where
  "rl_schema_slash_slash r p ch = rl_expect ch_slash rl_sw_schema_slash_slash rl_sw_host_start r ch"

text \<open>The single slash of \<^verbatim>\<open>http://\<close> stands for the URI when the request has none.\<close>

definition rl_no_uri :: "ngx_http_request_t \<Rightarrow> rl_verdict" where
  "rl_no_uri r = Next (rl_sw_host_http_09,
     r\<lparr>uri_start := map_option (\<lambda>e. e + 1) (schema_end r),
       uri_end := map_option (\<lambda>e. e + 2) (schema_end r)\<rparr>)"

definition rl_host_end :: "rl_state \<Rightarrow> ngx_http_request_t \<Rightarrow> nat \<Rightarrow> u_char \<Rightarrow> rl_verdict" where
  "rl_host_end here r p ch =
     (let r = r\<lparr>host_end := Some p\<rparr> in
      if ch = ch_colon then Next (rl_sw_port, r)
      else if ch = ch_slash then Next (rl_sw_after_slash_in_uri, r\<lparr>uri_start := Some p\<rparr>)
      else if ch = ch_space then rl_no_uri r
      else Stop (Return NGX_HTTP_PARSE_INVALID_REQUEST) (here, r))"

definition rl_host :: "ngx_http_request_t \<Rightarrow> nat \<Rightarrow> u_char \<Rightarrow> rl_verdict" where
  "rl_host r p ch =
     (if is_alpha ch then Next (rl_sw_host, r)
      else if is_digit ch \<or> ch = ch_dot \<or> ch = ch_minus then Next (rl_sw_host, r)
      else rl_host_end rl_sw_host r p ch)"

definition rl_host_start :: "ngx_http_request_t \<Rightarrow> nat \<Rightarrow> u_char \<Rightarrow> rl_verdict" where
  "rl_host_start r p ch =
     (let r = r\<lparr>host_start := Some p\<rparr> in
      if ch = ch_lbracket then Next (rl_sw_host_ip_literal, r)
      else rl_host r p ch)"

definition rl_host_ip_literal :: "ngx_http_request_t \<Rightarrow> nat \<Rightarrow> u_char \<Rightarrow> rl_verdict" where
  "rl_host_ip_literal r p ch =
     (if is_digit ch \<or> is_alpha ch then Next (rl_sw_host_ip_literal, r)
      else if ch = ch_colon then Next (rl_sw_host_ip_literal, r)
      else if ch = ch_rbracket then Next (rl_sw_host_end, r)
      else if ch \<in> set (bytes ''-._~'') then Next (rl_sw_host_ip_literal, r)
      else if ch \<in> {33, 36, 38, 39, 40, 41, 42, 43, 44, 59, 61} then Next (rl_sw_host_ip_literal, r)
      else Stop (Return NGX_HTTP_PARSE_INVALID_REQUEST) (rl_sw_host_ip_literal, r))"

definition rl_port :: "ngx_http_request_t \<Rightarrow> nat \<Rightarrow> u_char \<Rightarrow> rl_verdict" where
  "rl_port r p ch =
     (if is_digit ch then Next (rl_sw_port, r)
      else if ch = ch_slash
      then Next (rl_sw_after_slash_in_uri, r\<lparr>port_end := Some p, uri_start := Some p\<rparr>)
      else if ch = ch_space then rl_no_uri (r\<lparr>port_end := Some p\<rparr>)
      else Stop (Return NGX_HTTP_PARSE_INVALID_REQUEST) (rl_sw_port, r))"

definition rl_host_http_09 :: "ngx_http_request_t \<Rightarrow> nat \<Rightarrow> u_char \<Rightarrow> rl_verdict" where
  "rl_host_http_09 r p ch =
     (if ch = ch_space then Next (rl_sw_host_http_09, r)
      else if ch = CR then Next (rl_sw_almost_done, r\<lparr>http_minor := 9\<rparr>)
      else if ch = LF then Stop Goto_done (rl_sw_host_http_09, r\<lparr>http_minor := 9\<rparr>)
      else if ch = 72 then Next (rl_sw_http_H, r\<lparr>rq_http_protocol := Some p\<rparr>)
      else Stop (Return NGX_HTTP_PARSE_INVALID_REQUEST) (rl_sw_host_http_09, r))"

definition rl_after_slash_in_uri :: "ngx_http_request_t \<Rightarrow> nat \<Rightarrow> u_char \<Rightarrow> rl_verdict" where
  "rl_after_slash_in_uri r p ch =
     (if is_usual ch then Next (rl_sw_check_uri, r)
      else if ch = ch_space then Next (rl_sw_check_uri_http_09, r\<lparr>uri_end := Some p\<rparr>)
      else if ch = CR then Next (rl_sw_almost_done, r\<lparr>uri_end := Some p, http_minor := 9\<rparr>)
      else if ch = LF
      then Stop Goto_done (rl_sw_after_slash_in_uri, r\<lparr>uri_end := Some p, http_minor := 9\<rparr>)
      else if ch = ch_dot then Next (rl_sw_uri, r\<lparr>complex_uri := True\<rparr>)
      else if ch = ch_percent then Next (rl_sw_uri, r\<lparr>quoted_uri := True\<rparr>)
      else if ch = ch_slash then Next (rl_sw_uri, r\<lparr>complex_uri := True\<rparr>)
      else if ch = ch_question then Next (rl_sw_uri, r\<lparr>args_start := Some (p + 1)\<rparr>)
      else if ch = ch_hash then Next (rl_sw_uri, r\<lparr>complex_uri := True\<rparr>)
      else if ch = ch_plus then Next (rl_sw_after_slash_in_uri, r\<lparr>plus_in_uri := True\<rparr>)
      else if ch = ch_NUL then Stop (Return NGX_HTTP_PARSE_INVALID_REQUEST) (rl_sw_after_slash_in_uri, r)
      else Next (rl_sw_check_uri, r))"

definition rl_check_uri :: "ngx_http_request_t \<Rightarrow> nat \<Rightarrow> u_char \<Rightarrow> rl_verdict" where
  "rl_check_uri r p ch =
     (if is_usual ch then Next (rl_sw_check_uri, r)
      else if ch = ch_slash then Next (rl_sw_after_slash_in_uri, r\<lparr>uri_ext := None\<rparr>)
      else if ch = ch_dot then Next (rl_sw_check_uri, r\<lparr>uri_ext := Some (p + 1)\<rparr>)
      else if ch = ch_space then Next (rl_sw_check_uri_http_09, r\<lparr>uri_end := Some p\<rparr>)
      else if ch = CR then Next (rl_sw_almost_done, r\<lparr>uri_end := Some p, http_minor := 9\<rparr>)
      else if ch = LF then Stop Goto_done (rl_sw_check_uri, r\<lparr>uri_end := Some p, http_minor := 9\<rparr>)
      else if ch = ch_percent then Next (rl_sw_uri, r\<lparr>quoted_uri := True\<rparr>)
      else if ch = ch_question then Next (rl_sw_uri, r\<lparr>args_start := Some (p + 1)\<rparr>)
      else if ch = ch_hash then Next (rl_sw_uri, r\<lparr>complex_uri := True\<rparr>)
      else if ch = ch_plus then Next (rl_sw_check_uri, r\<lparr>plus_in_uri := True\<rparr>)
      else if ch = ch_NUL then Stop (Return NGX_HTTP_PARSE_INVALID_REQUEST) (rl_sw_check_uri, r)
      else Next (rl_sw_check_uri, r))"

text \<open>The default case steps back (\<^verbatim>\<open>p--\<close>), so the same byte is read again in the new state.\<close>

definition rl_check_uri_http_09 :: "ngx_http_request_t \<Rightarrow> nat \<Rightarrow> u_char \<Rightarrow> rl_verdict" where
  "rl_check_uri_http_09 r p ch =
     (if ch = ch_space then Next (rl_sw_check_uri_http_09, r)
      else if ch = CR then Next (rl_sw_almost_done, r\<lparr>http_minor := 9\<rparr>)
      else if ch = LF then Stop Goto_done (rl_sw_check_uri_http_09, r\<lparr>http_minor := 9\<rparr>)
      else if ch = 72 then Next (rl_sw_http_H, r\<lparr>rq_http_protocol := Some p\<rparr>)
      else rl_check_uri (r\<lparr>space_in_uri := True\<rparr>) p ch)"

definition rl_uri :: "ngx_http_request_t \<Rightarrow> nat \<Rightarrow> u_char \<Rightarrow> rl_verdict" where
  "rl_uri r p ch =
     (if is_usual ch then Next (rl_sw_uri, r)
      else if ch = ch_space then Next (rl_sw_http_09, r\<lparr>uri_end := Some p\<rparr>)
      else if ch = CR then Next (rl_sw_almost_done, r\<lparr>uri_end := Some p, http_minor := 9\<rparr>)
      else if ch = LF then Stop Goto_done (rl_sw_uri, r\<lparr>uri_end := Some p, http_minor := 9\<rparr>)
      else if ch = ch_hash then Next (rl_sw_uri, r\<lparr>complex_uri := True\<rparr>)
      else if ch = ch_NUL then Stop (Return NGX_HTTP_PARSE_INVALID_REQUEST) (rl_sw_uri, r)
      else Next (rl_sw_uri, r))"

definition rl_http_09 :: "ngx_http_request_t \<Rightarrow> nat \<Rightarrow> u_char \<Rightarrow> rl_verdict" where
  "rl_http_09 r p ch =
     (if ch = ch_space then Next (rl_sw_http_09, r)
      else if ch = CR then Next (rl_sw_almost_done, r\<lparr>http_minor := 9\<rparr>)
      else if ch = LF then Stop Goto_done (rl_sw_http_09, r\<lparr>http_minor := 9\<rparr>)
      else if ch = 72 then Next (rl_sw_http_H, r\<lparr>rq_http_protocol := Some p\<rparr>)
      else rl_uri (r\<lparr>space_in_uri := True\<rparr>) p ch)"

definition rl_http_H :: "ngx_http_request_t \<Rightarrow> nat \<Rightarrow> u_char \<Rightarrow> rl_verdict" where
  "rl_http_H r p ch = rl_expect 84 rl_sw_http_H rl_sw_http_HT r ch"

definition rl_http_HT :: "ngx_http_request_t \<Rightarrow> nat \<Rightarrow> u_char \<Rightarrow> rl_verdict" where
  "rl_http_HT r p ch = rl_expect 84 rl_sw_http_HT rl_sw_http_HTT r ch"

definition rl_http_HTT :: "ngx_http_request_t \<Rightarrow> nat \<Rightarrow> u_char \<Rightarrow> rl_verdict" where
  "rl_http_HTT r p ch = rl_expect 80 rl_sw_http_HTT rl_sw_http_HTTP r ch"

definition rl_http_HTTP :: "ngx_http_request_t \<Rightarrow> nat \<Rightarrow> u_char \<Rightarrow> rl_verdict" where
  "rl_http_HTTP r p ch = rl_expect ch_slash rl_sw_http_HTTP rl_sw_first_major_digit r ch"

definition rl_first_major_digit :: "ngx_http_request_t \<Rightarrow> nat \<Rightarrow> u_char \<Rightarrow> rl_verdict" where
  "rl_first_major_digit r p ch =
     (if ch < ch_1 \<or> ch > ch_9
      then Stop (Return NGX_HTTP_PARSE_INVALID_REQUEST) (rl_sw_first_major_digit, r)
      else Next (rl_sw_major_digit, r\<lparr>http_major := unat ch - 48\<rparr>))"

definition rl_major_digit :: "ngx_http_request_t \<Rightarrow> nat \<Rightarrow> u_char \<Rightarrow> rl_verdict" where
  "rl_major_digit r p ch =
     (if ch = ch_dot then Next (rl_sw_first_minor_digit, r)
      else if ch < ch_0 \<or> ch > ch_9
      then Stop (Return NGX_HTTP_PARSE_INVALID_REQUEST) (rl_sw_major_digit, r)
      else if http_major r > 99
      then Stop (Return NGX_HTTP_PARSE_INVALID_REQUEST) (rl_sw_major_digit, r)
      else Next (rl_sw_major_digit, r\<lparr>http_major := (http_major r * 10 + (unat ch - 48)) mod 2 ^ 16\<rparr>))"

definition rl_first_minor_digit :: "ngx_http_request_t \<Rightarrow> nat \<Rightarrow> u_char \<Rightarrow> rl_verdict" where
  "rl_first_minor_digit r p ch =
     (if ch < ch_0 \<or> ch > ch_9
      then Stop (Return NGX_HTTP_PARSE_INVALID_REQUEST) (rl_sw_first_minor_digit, r)
      else Next (rl_sw_minor_digit, r\<lparr>http_minor := unat ch - 48\<rparr>))"

definition rl_minor_digit :: "ngx_http_request_t \<Rightarrow> nat \<Rightarrow> u_char \<Rightarrow> rl_verdict" where
  "rl_minor_digit r p ch =
     (if ch = CR then Next (rl_sw_almost_done, r)
      else if ch = LF then Stop Goto_done (rl_sw_minor_digit, r)
      else if ch = ch_space then Next (rl_sw_spaces_after_digit, r)
      else if ch < ch_0 \<or> ch > ch_9
      then Stop (Return NGX_HTTP_PARSE_INVALID_REQUEST) (rl_sw_minor_digit, r)
      else if http_minor r > 99
      then Stop (Return NGX_HTTP_PARSE_INVALID_REQUEST) (rl_sw_minor_digit, r)
      else Next (rl_sw_minor_digit, r\<lparr>http_minor := (http_minor r * 10 + (unat ch - 48)) mod 2 ^ 16\<rparr>))"

definition rl_spaces_after_digit :: "ngx_http_request_t \<Rightarrow> nat \<Rightarrow> u_char \<Rightarrow> rl_verdict" where
  "rl_spaces_after_digit r p ch =
     (if ch = ch_space then Next (rl_sw_spaces_after_digit, r)
      else if ch = CR then Next (rl_sw_almost_done, r)
      else if ch = LF then Stop Goto_done (rl_sw_spaces_after_digit, r)
      else Stop (Return NGX_HTTP_PARSE_INVALID_REQUEST) (rl_sw_spaces_after_digit, r))"

definition rl_almost_done :: "ngx_http_request_t \<Rightarrow> nat \<Rightarrow> u_char \<Rightarrow> rl_verdict" where
  "rl_almost_done r p ch =
     (let r = r\<lparr>request_end := Some (p - 1)\<rparr> in
      if ch = LF then Stop Goto_done (rl_sw_almost_done, r)
      else Stop (Return NGX_HTTP_PARSE_INVALID_REQUEST) (rl_sw_almost_done, r))"

fun rl_step :: "(rl_machine, parse_exit) step" where
  "rl_step b (s, r) p ch =
     (case s of
        rl_sw_start \<Rightarrow> rl_start r p ch
      | rl_sw_method \<Rightarrow> rl_method b r p ch
      | rl_sw_spaces_before_uri \<Rightarrow> rl_spaces_before_uri r p ch
      | rl_sw_schema \<Rightarrow> rl_schema r p ch
      | rl_sw_schema_slash \<Rightarrow> rl_schema_slash r p ch
      | rl_sw_schema_slash_slash \<Rightarrow> rl_schema_slash_slash r p ch
      | rl_sw_host_start \<Rightarrow> rl_host_start r p ch
      | rl_sw_host \<Rightarrow> rl_host r p ch
      | rl_sw_host_end \<Rightarrow> rl_host_end rl_sw_host_end r p ch
      | rl_sw_host_ip_literal \<Rightarrow> rl_host_ip_literal r p ch
      | rl_sw_port \<Rightarrow> rl_port r p ch
      | rl_sw_host_http_09 \<Rightarrow> rl_host_http_09 r p ch
      | rl_sw_after_slash_in_uri \<Rightarrow> rl_after_slash_in_uri r p ch
      | rl_sw_check_uri \<Rightarrow> rl_check_uri r p ch
      | rl_sw_check_uri_http_09 \<Rightarrow> rl_check_uri_http_09 r p ch
      | rl_sw_uri \<Rightarrow> rl_uri r p ch
      | rl_sw_http_09 \<Rightarrow> rl_http_09 r p ch
      | rl_sw_http_H \<Rightarrow> rl_http_H r p ch
      | rl_sw_http_HT \<Rightarrow> rl_http_HT r p ch
      | rl_sw_http_HTT \<Rightarrow> rl_http_HTT r p ch
      | rl_sw_http_HTTP \<Rightarrow> rl_http_HTTP r p ch
      | rl_sw_first_major_digit \<Rightarrow> rl_first_major_digit r p ch
      | rl_sw_major_digit \<Rightarrow> rl_major_digit r p ch
      | rl_sw_first_minor_digit \<Rightarrow> rl_first_minor_digit r p ch
      | rl_sw_minor_digit \<Rightarrow> rl_minor_digit r p ch
      | rl_sw_spaces_after_digit \<Rightarrow> rl_spaces_after_digit r p ch
      | rl_sw_almost_done \<Rightarrow> rl_almost_done r p ch)"

text \<open>
  The code after the label \<^verbatim>\<open>done\<close>; an error return leaves \<^verbatim>\<open>r->state\<close> and \<^verbatim>\<open>b->pos\<close>
  as they were on entry.
\<close>

definition rl_done :: "ngx_http_request_t \<Rightarrow> nat \<Rightarrow> int \<times> rl_machine \<times> nat" where
  "rl_done r p =
     (let r = (if request_end r = None then r\<lparr>request_end := Some p\<rparr> else r);
          r = r\<lparr>rq_http_version := http_major r * 1000 + http_minor r\<rparr>
      in if rq_http_version r = 9 \<and> rq_method r \<noteq> NGX_HTTP_GET
         then (NGX_HTTP_PARSE_INVALID_09_METHOD, (rl_sw_start, r), p + 1)
         else (NGX_OK, (rl_sw_start, r), p + 1))"

fun rl_fin :: "rl_machine \<Rightarrow> nat \<Rightarrow> parse_exit \<Rightarrow> rl_machine \<Rightarrow> nat \<Rightarrow> int \<times> rl_machine \<times> nat" where
  "rl_fin (s0, r0) pos (Return rc) (s, r) p = (rc, (s0, r), pos)"
| "rl_fin (s0, r0) pos _ (s, r) p = rl_done r p"

definition ngx_http_parse_request_line ::
  "rl_machine \<Rightarrow> ngx_buf_t \<Rightarrow> int \<times> rl_machine \<times> ngx_buf_t"
where
  "ngx_http_parse_request_line = run_parser rl_step rl_fin"

lemmas rl_defs =
  rl_start_def rl_method_def rl_spaces_before_uri_def rl_schema_def rl_schema_slash_def
  rl_schema_slash_slash_def rl_expect_def rl_no_uri_def rl_host_end_def rl_host_def
  rl_host_start_def rl_host_ip_literal_def rl_port_def rl_host_http_09_def
  rl_after_slash_in_uri_def rl_check_uri_def rl_check_uri_http_09_def rl_uri_def rl_http_09_def
  rl_http_H_def rl_http_HT_def rl_http_HTT_def rl_http_HTTP_def rl_first_major_digit_def
  rl_major_digit_def rl_first_minor_digit_def rl_minor_digit_def rl_spaces_after_digit_def
  rl_almost_done_def

section \<open>Resuming\<close>

lemma rl_step_Return:
  "rl_step b m p ch = Stop (Return rc) m' \<Longrightarrow> rc \<in> {NGX_HTTP_PARSE_INVALID_METHOD, NGX_HTTP_PARSE_INVALID_REQUEST}"
  by (cases m; cases "fst m") (auto simp: rl_defs Let_def split: if_splits option.splits)

lemma fst_rl_fin:
  "fst (rl_fin m0 p0 x m p) = (case x of Return rc \<Rightarrow> rc | _ \<Rightarrow> fst (rl_done (snd m) p))"
  by (cases m0; cases m; cases x; simp)

lemma rl_done_code: "fst (rl_done r p) \<in> {NGX_OK, NGX_HTTP_PARSE_INVALID_09_METHOD}"
  by (simp add: rl_done_def Let_def)

abbreviation (input) rl_good :: "int set" where
  "rl_good \<equiv> {NGX_OK, NGX_AGAIN, NGX_HTTP_PARSE_INVALID_09_METHOD}"

lemma rl_step_append: "q < length b \<Longrightarrow> rl_step (b @ c) m q ch = rl_step b m q ch"
  by (cases m) (simp add: rl_method_def split: rl_state.split)

interpretation rl: framed_parser rl_step rl_fin "seen_on rl_good"
proof
  fix b m p ch x m' m0 p0
  assume "rl_step b m p ch = Stop x m'"
  then show "fst (rl_fin m0 p0 x m' p) \<noteq> NGX_AGAIN"
    using rl_done_code [of "snd m'" p]
    by (cases x) (auto simp: fst_rl_fin dest!: rl_step_Return)
next
  fix b m p ch x m' m0 p0 m1 p1 rc0 s0 q0 rc1 s1 q1
  assume "rl_step b m p ch = Stop x m'" "rl_fin m0 p0 x m' p = (rc0, s0, q0)" "rl_fin m1 p1 x m' p = (rc1, s1, q1)"
  then show "rc0 = rc1 \<and> seen_on rl_good rc0 s0 q0 = seen_on rl_good rc1 s1 q1"
    by (cases x; cases m0; cases m1; cases m') (auto simp: seen_on_def dest!: rl_step_Return)
qed (rule rl_step_append)

text \<open>
  Whatever the fragments are in which the request line arrives (one byte at a time, or the
  whole request at once), the sequence of calls of \<^verbatim>\<open>ngx_http_parse_request_line\<close> gives the
  return code, the request and the position that a single call on the whole line gives.
\<close>

lemma ngx_http_parse_request_line_incremental:
  "buf_pos b \<le> length (buf_data b) \<Longrightarrow>
     agree (seen_on {NGX_OK, NGX_AGAIN, NGX_HTTP_PARSE_INVALID_09_METHOD})
       (feed_parser ngx_http_parse_request_line m b c cs)
       (ngx_http_parse_request_line m (extend_buf b (c @ concat cs)))"
  unfolding ngx_http_parse_request_line_def by (rule rl.inc.feed_agrees)

section \<open>Where the pointers point\<close>

text \<open>
  The invariant of the loop, by the part of the line the machine is in. \<open>rl_method_ok\<close>: the
  method is complete; \<open>rl_in_uri\<close>: the URI began before \<open>p\<close> and goes on;
  \<open>rl_has_uri\<close>: its end is known.
\<close>

definition is_uri_byte :: "u_char \<Rightarrow> bool" where
  "is_uri_byte ch \<longleftrightarrow> ch \<noteq> ch_NUL \<and> ch \<noteq> CR \<and> ch \<noteq> LF"

definition ptr_in :: "nat \<Rightarrow> ptr \<Rightarrow> nat \<Rightarrow> bool" where
  "ptr_in lo x hi = (case x of None \<Rightarrow> True | Some q \<Rightarrow> lo < q \<and> q \<le> hi)"

definition rl_method_ok :: "u_char list \<Rightarrow> nat \<Rightarrow> ngx_http_request_t \<Rightarrow> nat \<Rightarrow> bool" where
  "rl_method_ok b p0 r p \<longleftrightarrow>
     (\<exists>ms me. request_start r = Some ms \<and> method_end r = Some me \<and> p0 \<le> ms \<and> ms \<le> me \<and> me < p
        \<and> (\<forall>j. ms \<le> j \<and> j \<le> me \<longrightarrow> is_method_char (b ! j))
        \<and> rq_method r = (case rl_method_code (buf_slice b ms (Suc me)) of
             None \<Rightarrow> NGX_HTTP_UNKNOWN | Some code \<Rightarrow> code))"

definition rl_uri_ok :: "u_char list \<Rightarrow> ngx_http_request_t \<Rightarrow> nat \<Rightarrow> bool" where
  "rl_uri_ok b r e \<longleftrightarrow>
     (\<exists>me us. method_end r = Some me \<and> uri_start r = Some us \<and> me < us \<and> us < e \<and> b ! us = ch_slash
        \<and> (\<forall>j. us \<le> j \<and> j < e \<longrightarrow> is_uri_byte (b ! j))
        \<and> ptr_in us (args_start r) e \<and> ptr_in us (uri_ext r) e)"

definition rl_has_uri :: "u_char list \<Rightarrow> ngx_http_request_t \<Rightarrow> nat \<Rightarrow> bool" where
  "rl_has_uri b r p \<longleftrightarrow> (\<exists>ue. uri_end r = Some ue \<and> ue < p \<and> rl_uri_ok b r ue)"

definition rl_schema_ok :: "u_char list \<Rightarrow> ngx_http_request_t \<Rightarrow> nat \<Rightarrow> bool" where
  "rl_schema_ok b r p \<longleftrightarrow>
     (\<exists>me se. method_end r = Some me \<and> schema_end r = Some se \<and> me < se \<and> se + 2 < p \<and> b ! (se + 1) = ch_slash)"

definition rl_fresh :: "ngx_http_request_t \<Rightarrow> bool" where
  "rl_fresh r \<longleftrightarrow> args_start r = None \<and> uri_ext r = None"

definition rl_version_ok :: "ngx_http_request_t \<Rightarrow> bool" where
  "rl_version_ok r \<longleftrightarrow> (http_major r = 0 \<and> http_minor r = 9)
     \<or> (1 \<le> http_major r \<and> http_major r \<le> 999 \<and> http_minor r \<le> 999)"

fun rl_part :: "u_char list \<Rightarrow> rl_state \<Rightarrow> ngx_http_request_t \<Rightarrow> nat \<Rightarrow> bool" where
  "rl_part b rl_sw_spaces_before_uri r p = rl_fresh r"
| "rl_part b rl_sw_schema r p = (rl_fresh r \<and> (\<exists>me. method_end r = Some me \<and> me + 1 < p))"
| "rl_part b rl_sw_schema_slash r p =
     (rl_fresh r \<and> (\<exists>me se. method_end r = Some me \<and> me < se \<and> schema_end r = Some se \<and> p = se + 1))"
| "rl_part b rl_sw_schema_slash_slash r p =
     (rl_fresh r \<and> (\<exists>me se. method_end r = Some me \<and> me < se \<and> schema_end r = Some se \<and> p = se + 2
        \<and> b ! (se + 1) = ch_slash))"
| "rl_part b rl_sw_host_start r p = (rl_fresh r \<and> rl_schema_ok b r p)"
| "rl_part b rl_sw_host r p = (rl_fresh r \<and> rl_schema_ok b r p)"
| "rl_part b rl_sw_host_end r p = (rl_fresh r \<and> rl_schema_ok b r p)"
| "rl_part b rl_sw_host_ip_literal r p = (rl_fresh r \<and> rl_schema_ok b r p)"
| "rl_part b rl_sw_port r p = (rl_fresh r \<and> rl_schema_ok b r p)"
| "rl_part b rl_sw_after_slash_in_uri r p = rl_uri_ok b r p"
| "rl_part b rl_sw_check_uri r p = rl_uri_ok b r p"
| "rl_part b rl_sw_uri r p = rl_uri_ok b r p"
| "rl_part b rl_sw_check_uri_http_09 r p = (rl_uri_ok b r p \<and> rl_has_uri b r p)"
| "rl_part b rl_sw_http_09 r p = (rl_uri_ok b r p \<and> rl_has_uri b r p)"
| "rl_part b _ r p = rl_has_uri b r p"

fun rl_version_part :: "rl_state \<Rightarrow> ngx_http_request_t \<Rightarrow> bool" where
  "rl_version_part rl_sw_major_digit r = (1 \<le> http_major r \<and> http_major r \<le> 999)"
| "rl_version_part rl_sw_first_minor_digit r = (1 \<le> http_major r \<and> http_major r \<le> 999)"
| "rl_version_part rl_sw_minor_digit r =
     (1 \<le> http_major r \<and> http_major r \<le> 999 \<and> http_minor r \<le> 999)"
| "rl_version_part rl_sw_spaces_after_digit r =
     (1 \<le> http_major r \<and> http_major r \<le> 999 \<and> http_minor r \<le> 999)"
| "rl_version_part rl_sw_almost_done r = rl_version_ok r"
| "rl_version_part _ r = (http_major r = 0)"

definition rl_inv :: "u_char list \<Rightarrow> nat \<Rightarrow> rl_machine \<Rightarrow> nat \<Rightarrow> bool" where
  "rl_inv b p0 m p \<longleftrightarrow> (case m of (s, r) \<Rightarrow>
     request_end r = None \<and> p0 \<le> p \<and> rl_version_part s r \<and>
     (if s = rl_sw_start then rl_fresh r \<and> rq_method r = NGX_HTTP_UNKNOWN
      else if s = rl_sw_method then rl_fresh r \<and> rq_method r = NGX_HTTP_UNKNOWN
        \<and> (\<exists>ms. request_start r = Some ms \<and> p0 \<le> ms \<and> ms < p
             \<and> (\<forall>j. ms \<le> j \<and> j < p \<longrightarrow> is_method_char (b ! j)))
      else rl_method_ok b p0 r p \<and> rl_part b s r p))"

text \<open>What an iteration that leaves the loop by \<^verbatim>\<open>goto done\<close> has established.\<close>

definition rl_exit :: "u_char list \<Rightarrow> nat \<Rightarrow> parse_exit \<Rightarrow> rl_machine \<Rightarrow> nat \<Rightarrow> bool" where
  "rl_exit b p0 x m p \<longleftrightarrow> (\<forall>rc. x \<noteq> Return rc) \<longrightarrow>
     rl_method_ok b p0 (snd m) p \<and> rl_version_ok (snd m) \<and> b ! p = LF
     \<and> (\<exists>ue. uri_end (snd m) = Some ue \<and> rl_uri_ok b (snd m) ue
          \<and> (case request_end (snd m) of None \<Rightarrow> ue \<le> p | Some e \<Rightarrow> ue \<le> e \<and> Suc e = p))"

lemma rl_method_ok_frame [simp]:
  "rl_method_ok b p0 (r\<lparr>schema_start := v\<rparr>) p = rl_method_ok b p0 r p"
  "rl_method_ok b p0 (r\<lparr>schema_end := v\<rparr>) p = rl_method_ok b p0 r p"
  "rl_method_ok b p0 (r\<lparr>host_start := v\<rparr>) p = rl_method_ok b p0 r p"
  "rl_method_ok b p0 (r\<lparr>host_end := v\<rparr>) p = rl_method_ok b p0 r p"
  "rl_method_ok b p0 (r\<lparr>port_end := v\<rparr>) p = rl_method_ok b p0 r p"
  "rl_method_ok b p0 (r\<lparr>uri_start := v\<rparr>) p = rl_method_ok b p0 r p"
  "rl_method_ok b p0 (r\<lparr>uri_end := v\<rparr>) p = rl_method_ok b p0 r p"
  "rl_method_ok b p0 (r\<lparr>uri_ext := v\<rparr>) p = rl_method_ok b p0 r p"
  "rl_method_ok b p0 (r\<lparr>args_start := v\<rparr>) p = rl_method_ok b p0 r p"
  "rl_method_ok b p0 (r\<lparr>request_end := v\<rparr>) p = rl_method_ok b p0 r p"
  "rl_method_ok b p0 (r\<lparr>rq_http_protocol := v\<rparr>) p = rl_method_ok b p0 r p"
  "rl_method_ok b p0 (r\<lparr>http_major := n\<rparr>) p = rl_method_ok b p0 r p"
  "rl_method_ok b p0 (r\<lparr>http_minor := n\<rparr>) p = rl_method_ok b p0 r p"
  "rl_method_ok b p0 (r\<lparr>complex_uri := f\<rparr>) p = rl_method_ok b p0 r p"
  "rl_method_ok b p0 (r\<lparr>quoted_uri := f\<rparr>) p = rl_method_ok b p0 r p"
  "rl_method_ok b p0 (r\<lparr>plus_in_uri := f\<rparr>) p = rl_method_ok b p0 r p"
  "rl_method_ok b p0 (r\<lparr>space_in_uri := f\<rparr>) p = rl_method_ok b p0 r p"
  "rl_method_ok b p0 (r\<lparr>rq_http_version := n\<rparr>) p = rl_method_ok b p0 r p"
  by (simp_all add: rl_method_ok_def)

lemma rl_uri_ok_frame [simp]:
  "rl_uri_ok b (r\<lparr>schema_start := v\<rparr>) p = rl_uri_ok b r p"
  "rl_uri_ok b (r\<lparr>uri_end := v\<rparr>) p = rl_uri_ok b r p"
  "rl_uri_ok b (r\<lparr>request_end := v\<rparr>) p = rl_uri_ok b r p"
  "rl_uri_ok b (r\<lparr>rq_http_protocol := v\<rparr>) p = rl_uri_ok b r p"
  "rl_uri_ok b (r\<lparr>http_major := n\<rparr>) p = rl_uri_ok b r p"
  "rl_uri_ok b (r\<lparr>http_minor := n\<rparr>) p = rl_uri_ok b r p"
  "rl_uri_ok b (r\<lparr>complex_uri := f\<rparr>) p = rl_uri_ok b r p"
  "rl_uri_ok b (r\<lparr>quoted_uri := f\<rparr>) p = rl_uri_ok b r p"
  "rl_uri_ok b (r\<lparr>plus_in_uri := f\<rparr>) p = rl_uri_ok b r p"
  "rl_uri_ok b (r\<lparr>space_in_uri := f\<rparr>) p = rl_uri_ok b r p"
  "rl_uri_ok b (r\<lparr>rq_http_version := n\<rparr>) p = rl_uri_ok b r p"
  by (simp_all add: rl_uri_ok_def)

lemma rl_method_ok_Suc: "rl_method_ok b p0 r p \<Longrightarrow> rl_method_ok b p0 r (Suc p)"
  by (force simp: rl_method_ok_def)

lemma ptr_in_Suc: "ptr_in lo x hi \<Longrightarrow> ptr_in lo x (Suc hi)"
  by (auto simp: ptr_in_def split: option.splits)

lemma rl_uri_ok_Suc: "rl_uri_ok b r p \<Longrightarrow> is_uri_byte (b ! p) \<Longrightarrow> rl_uri_ok b r (Suc p)"
  by (force simp: rl_uri_ok_def ptr_in_Suc less_Suc_eq)

lemma rl_uri_ok_args:
  "rl_uri_ok b r p \<Longrightarrow> is_uri_byte (b ! p) \<Longrightarrow> rl_uri_ok b (r\<lparr>args_start := Some (Suc p)\<rparr>) (Suc p)"
  by (force simp: rl_uri_ok_def ptr_in_Suc less_Suc_eq ptr_in_def [of _ "Some _"])

lemma rl_uri_ok_ext:
  "rl_uri_ok b r p \<Longrightarrow> is_uri_byte (b ! p) \<Longrightarrow> rl_uri_ok b (r\<lparr>uri_ext := Some (Suc p)\<rparr>) (Suc p)"
  "rl_uri_ok b r p \<Longrightarrow> is_uri_byte (b ! p) \<Longrightarrow> rl_uri_ok b (r\<lparr>uri_ext := None\<rparr>) (Suc p)"
  by (force simp: rl_uri_ok_def ptr_in_Suc less_Suc_eq ptr_in_def [of _ "Some _"] ptr_in_def [of _ None])+

lemma rl_uri_ok_start:
  assumes "method_end r = Some me" "me < p" "rl_fresh r" "b ! p = ch_slash"
  shows "rl_uri_ok b (r\<lparr>uri_start := Some p\<rparr>) (Suc p)"
  using assms by (auto simp: rl_uri_ok_def rl_fresh_def ptr_in_def is_uri_byte_def less_Suc_eq)

lemma rl_has_uri_Suc: "rl_has_uri b r p \<Longrightarrow> rl_has_uri b r (Suc p)"
  by (auto simp: rl_has_uri_def)

lemma rl_schema_ok_Suc: "rl_schema_ok b r p \<Longrightarrow> rl_schema_ok b r (Suc p)"
  by (auto simp: rl_schema_ok_def)

lemma rl_no_uri_ok:
  assumes "rl_schema_ok b r p" "rl_fresh r"
  shows "rl_has_uri b (r\<lparr>uri_start := map_option (\<lambda>e. e + 1) (schema_end r),
       uri_end := map_option (\<lambda>e. e + 2) (schema_end r)\<rparr>) p"
  using assms
  by (auto simp: rl_schema_ok_def rl_has_uri_def rl_uri_ok_def rl_fresh_def ptr_in_def is_uri_byte_def
      less_Suc_eq)

definition rl_keeps :: "u_char list \<Rightarrow> nat \<Rightarrow> nat \<Rightarrow> rl_verdict \<Rightarrow> bool" where
  "rl_keeps b p0 p v =
     (case v of Next m \<Rightarrow> rl_inv b p0 m (Suc p) | Stop x m \<Rightarrow> rl_exit b p0 x m p)"

lemma rl_keeps_if:
  "rl_keeps b p0 p (if c then v else w) \<longleftrightarrow> (c \<longrightarrow> rl_keeps b p0 p v) \<and> (\<not> c \<longrightarrow> rl_keeps b p0 p w)"
  by simp

lemma rl_keeps_Next: "rl_keeps b p0 p (Next m) = rl_inv b p0 m (Suc p)"
  by (simp add: rl_keeps_def)

lemma rl_keeps_Return [simp]: "rl_keeps b p0 p (Stop (Return rc) m)"
  by (simp add: rl_keeps_def rl_exit_def)

lemma rl_keeps_done: "rl_keeps b p0 p (Stop Goto_done m) = rl_exit b p0 Goto_done m p"
  by (simp add: rl_keeps_def)

lemmas rl_keeps = rl_keeps_if rl_keeps_Next rl_keeps_Return rl_keeps_done

lemma is_usual_uri_byte: "is_usual ch \<Longrightarrow> is_uri_byte ch"
  by (simp add: is_uri_byte_def byte_simps)

lemmas rl_part_rules = rl_method_ok_Suc rl_uri_ok_Suc rl_uri_ok_args rl_uri_ok_ext
  rl_has_uri_Suc rl_schema_ok_Suc

lemmas rl_inv_simps = rl_inv_def rl_exit_def rl_has_uri_def rl_version_ok_def is_uri_byte_def

lemma rl_keeps_check_uri:
  assumes "rl_method_ok b p0 r p" "rl_uri_ok b r p" "request_end r = None" "http_major r = 0" "p0 \<le> p"
  shows "rl_keeps b p0 p (rl_check_uri r p (b ! p))"
  using assms unfolding rl_check_uri_def rl_keeps
  by (auto simp: rl_inv_simps byte_simps intro!: rl_part_rules)

lemma rl_keeps_uri:
  assumes "rl_method_ok b p0 r p" "rl_uri_ok b r p" "request_end r = None" "http_major r = 0" "p0 \<le> p"
  shows "rl_keeps b p0 p (rl_uri r p (b ! p))"
  using assms unfolding rl_uri_def rl_keeps
  by (auto simp: rl_inv_simps byte_simps intro!: rl_part_rules)

lemma rl_keeps_after_slash_in_uri:
  assumes "rl_method_ok b p0 r p" "rl_uri_ok b r p" "request_end r = None" "http_major r = 0" "p0 \<le> p"
  shows "rl_keeps b p0 p (rl_after_slash_in_uri r p (b ! p))"
  using assms unfolding rl_after_slash_in_uri_def rl_keeps
  by (auto simp: rl_inv_simps byte_simps intro!: rl_part_rules)

lemma rl_keeps_http_09:
  assumes "rl_method_ok b p0 r p" "rl_uri_ok b r p" "rl_has_uri b r p"
    "request_end r = None" "http_major r = 0" "p0 \<le> p"
  shows "rl_keeps b p0 p (rl_http_09 r p (b ! p))"
    and "rl_keeps b p0 p (rl_check_uri_http_09 r p (b ! p))"
  using assms rl_keeps_check_uri [of b p0 "r\<lparr>space_in_uri := True\<rparr>" p]
    rl_keeps_uri [of b p0 "r\<lparr>space_in_uri := True\<rparr>" p]
  unfolding rl_http_09_def rl_check_uri_http_09_def rl_keeps
  by (auto simp: rl_inv_simps byte_simps intro!: rl_part_rules)

lemma rl_keeps_method:
  assumes "rl_fresh r" "rq_method r = NGX_HTTP_UNKNOWN" "request_start r = Some ms" "p0 \<le> ms" "ms < p"
    and "\<forall>j. ms \<le> j \<and> j < p \<longrightarrow> is_method_char (b ! j)"
    and "request_end r = None" "http_major r = 0"
  shows "rl_keeps b p0 p (rl_method b r p (b ! p))"
  using assms unfolding rl_method_def Let_def rl_keeps
  by (auto simp: rl_inv_def rl_method_ok_def rl_fresh_def less_Suc_eq split: option.split)

lemma rl_keeps_host_end:
  assumes "rl_method_ok b p0 r p" "rl_fresh r" "rl_schema_ok b r p" 
    "request_end r = None" "http_major r = 0" "p0 \<le> p"
  shows "rl_keeps b p0 p (rl_host_end s r p (b ! p))"
proof -
  obtain me where me: "method_end r = Some me" "me < p" using assms(1) by (auto simp: rl_method_ok_def)
  have frame: "rl_schema_ok b (r\<lparr>host_end := v\<rparr>) q = rl_schema_ok b r q"
    "rl_fresh (r\<lparr>host_end := v\<rparr>) = rl_fresh r" for v q by (simp_all add: rl_schema_ok_def rl_fresh_def)
  have "rl_has_uri b ((r\<lparr>host_end := Some p\<rparr>)\<lparr>uri_start := map_option (\<lambda>e. e + 1) (schema_end r),
       uri_end := map_option (\<lambda>e. e + 2) (schema_end r)\<rparr>) (Suc p)"
    using rl_no_uri_ok [of b "r\<lparr>host_end := Some p\<rparr>" "Suc p"] assms(2,3) by (simp add: frame rl_schema_ok_Suc)
  with assms me show ?thesis unfolding rl_host_end_def Let_def rl_keeps rl_no_uri_def
    by (auto simp: rl_inv_def frame intro!: rl_method_ok_Suc rl_schema_ok_Suc rl_uri_ok_start)
qed

lemma rl_keeps_host:
  assumes "rl_method_ok b p0 r p" "rl_fresh r" "rl_schema_ok b r p"
    "request_end r = None" "http_major r = 0" "p0 \<le> p"
  shows "rl_keeps b p0 p (rl_host r p (b ! p))"
  using assms rl_keeps_host_end [OF assms, of rl_sw_host]
  unfolding rl_host_def rl_keeps
  by (auto simp: rl_inv_def intro!: rl_part_rules)

lemma rl_keeps_host_start:
  assumes "rl_method_ok b p0 r p" "rl_fresh r" "rl_schema_ok b r p"
    "request_end r = None" "http_major r = 0" "p0 \<le> p"
  shows "rl_keeps b p0 p (rl_host_start r p (b ! p))"
proof -
  have frame: "rl_schema_ok b (r\<lparr>host_start := v\<rparr>) q = rl_schema_ok b r q"
    "rl_fresh (r\<lparr>host_start := v\<rparr>) = rl_fresh r" for v q by (simp_all add: rl_schema_ok_def rl_fresh_def)
  have "rl_keeps b p0 p (rl_host (r\<lparr>host_start := Some p\<rparr>) p (b ! p))"
    using assms by (intro rl_keeps_host) (simp_all add: frame)
  with assms show ?thesis unfolding rl_host_start_def Let_def rl_keeps
    by (auto simp: rl_inv_def frame intro!: rl_part_rules)
qed

lemma rl_keeps_port:
  assumes "rl_method_ok b p0 r p" "rl_fresh r" "rl_schema_ok b r p"
    "request_end r = None" "http_major r = 0" "p0 \<le> p"
  shows "rl_keeps b p0 p (rl_port r p (b ! p))"
proof -
  obtain me where me: "method_end r = Some me" "me < p" using assms(1) by (auto simp: rl_method_ok_def)
  have frame: "rl_schema_ok b (r\<lparr>port_end := v\<rparr>) q = rl_schema_ok b r q"
    "rl_fresh (r\<lparr>port_end := v\<rparr>) = rl_fresh r" for v q by (simp_all add: rl_schema_ok_def rl_fresh_def)
  have "rl_has_uri b ((r\<lparr>port_end := Some p\<rparr>)\<lparr>uri_start := map_option (\<lambda>e. e + 1) (schema_end r),
       uri_end := map_option (\<lambda>e. e + 2) (schema_end r)\<rparr>) (Suc p)"
    using rl_no_uri_ok [of b "r\<lparr>port_end := Some p\<rparr>" "Suc p"] assms(2,3) by (simp add: frame rl_schema_ok_Suc)
  with assms me show ?thesis unfolding rl_port_def Let_def rl_keeps rl_no_uri_def
    by (auto simp: rl_inv_def frame intro!: rl_method_ok_Suc rl_schema_ok_Suc rl_uri_ok_start)
qed

lemma rl_keeps_spaces_before_uri:
  assumes "rl_method_ok b p0 r p" "rl_fresh r" "request_end r = None" "http_major r = 0" "p0 \<le> p"
  shows "rl_keeps b p0 p (rl_spaces_before_uri r p (b ! p))"
proof -
  obtain me where me: "method_end r = Some me" "me < p" using assms(1) by (auto simp: rl_method_ok_def)
  with assms show ?thesis unfolding rl_spaces_before_uri_def rl_keeps
    by (auto simp: rl_inv_def rl_fresh_def intro!: rl_method_ok_Suc rl_uri_ok_start)
qed

lemma rl_keeps_schema:
  assumes "rl_inv b p0 (s, r) p" "s \<in> {rl_sw_schema, rl_sw_schema_slash, rl_sw_schema_slash_slash}"
  shows "rl_keeps b p0 p (rl_step b (s, r) p (b ! p))"
  using assms
  by (auto simp: rl_keeps rl_schema_def rl_schema_slash_def rl_schema_slash_slash_def rl_expect_def
      rl_inv_def rl_fresh_def rl_schema_ok_def intro!: rl_method_ok_Suc)

lemma rl_keeps_tail:
  assumes "rl_inv b p0 (s, r) p"
    "s \<in> {rl_sw_host_http_09, rl_sw_http_H, rl_sw_http_HT, rl_sw_http_HTT, rl_sw_http_HTTP}"
  shows "rl_keeps b p0 p (rl_step b (s, r) p (b ! p))"
  using assms
  by (auto simp: rl_keeps rl_host_http_09_def rl_http_H_def rl_http_HT_def rl_http_HTT_def rl_http_HTTP_def
      rl_expect_def rl_inv_simps intro!: rl_method_ok_Suc)

lemma version_digit:
  assumes "\<not> ch < ch_0" "\<not> ch > ch_9"
  shows "unat ch - 48 \<le> 9"
    and "n \<le> 99 \<Longrightarrow> n \<le> (n * 10 + (unat ch - 48)) mod 2 ^ 16 \<and> (n * 10 + (unat ch - 48)) mod 2 ^ 16 \<le> 999"
proof -
  show "unat ch - 48 \<le> 9" using assms by (simp add: word_less_nat_alt)
  then show "n \<le> (n * 10 + (unat ch - 48)) mod 2 ^ 16 \<and> (n * 10 + (unat ch - 48)) mod 2 ^ 16 \<le> 999"
    if "n \<le> 99" using that by simp
qed

lemma rl_keeps_version:
  assumes "rl_inv b p0 (s, r) p"
    "s \<in> {rl_sw_first_major_digit, rl_sw_major_digit, rl_sw_first_minor_digit, rl_sw_minor_digit,
       rl_sw_spaces_after_digit, rl_sw_almost_done}"
  shows "rl_keeps b p0 p (rl_step b (s, r) p (b ! p))"
  using assms version_digit(1) [of "b ! p"] version_digit(2) [of "b ! p" "http_major r"]
    version_digit(2) [of "b ! p" "http_minor r"]
  by (auto simp: rl_keeps rl_first_major_digit_def rl_major_digit_def rl_first_minor_digit_def
      rl_minor_digit_def rl_spaces_after_digit_def rl_almost_done_def Let_def
      rl_inv_simps word_less_nat_alt intro!: rl_method_ok_Suc)

lemma rl_step_keeps:
  assumes "rl_inv b p0 m p"
  shows "rl_keeps b p0 p (rl_step b m p (b ! p))"
proof -
  obtain s r where m: "m = (s, r)" by (cases m)
  consider "s = rl_sw_start" | "s = rl_sw_host_ip_literal"
    | "s \<in> {rl_sw_schema, rl_sw_schema_slash, rl_sw_schema_slash_slash}"
    | "s \<in> {rl_sw_host_http_09, rl_sw_http_H, rl_sw_http_HT, rl_sw_http_HTT, rl_sw_http_HTTP}"
    | "s \<in> {rl_sw_first_major_digit, rl_sw_major_digit, rl_sw_first_minor_digit, rl_sw_minor_digit,
       rl_sw_spaces_after_digit, rl_sw_almost_done}"
    | "s \<in> {rl_sw_method, rl_sw_spaces_before_uri, rl_sw_host_start, rl_sw_host, rl_sw_host_end, rl_sw_port,
       rl_sw_after_slash_in_uri, rl_sw_check_uri, rl_sw_check_uri_http_09, rl_sw_uri, rl_sw_http_09}"
    by (cases s) auto
  then show ?thesis
  proof cases
    case 1
    with assms m show ?thesis
      by (auto simp: rl_start_def Let_def rl_keeps rl_inv_def rl_fresh_def less_Suc_eq)
  next
    case 2
    with assms m show ?thesis
      by (auto simp: rl_host_ip_literal_def rl_keeps rl_inv_def intro!: rl_part_rules)
  next
    case 3
    with assms m show ?thesis by (auto intro: rl_keeps_schema simp del: rl_step.simps)
  next
    case 4
    with assms m show ?thesis by (auto intro: rl_keeps_tail simp del: rl_step.simps)
  next
    case 5
    with assms m show ?thesis by (auto intro: rl_keeps_version simp del: rl_step.simps)
  next
    case 6
    with assms m show ?thesis
      by (auto simp: rl_inv_def simp del: One_nat_def intro: rl_keeps_method rl_keeps_spaces_before_uri rl_keeps_host_start
          rl_keeps_host rl_keeps_host_end rl_keeps_port rl_keeps_after_slash_in_uri rl_keeps_check_uri
          rl_keeps_http_09 rl_keeps_uri)
  qed
qed

lemma rl_inv_new_request: "rl_inv b p (rl_sw_start, new_request) p"
  by (simp add: rl_inv_def new_request_def rl_fresh_def)

lemma rl_exit_done:
  assumes "rl_exit b p0 x m p" "rl_fin m0 pos x m p = (NGX_OK, (s, r), q)" "rl_step b m2 p ch = Stop x m"
  shows "q = Suc p \<and> rl_method_ok b p0 r p \<and> rl_version_ok r \<and> b ! p = LF
     \<and> (\<exists>ue re. uri_end r = Some ue \<and> request_end r = Some re \<and> rl_uri_ok b r ue \<and> ue \<le> re \<and> re \<le> p)
     \<and> rq_http_version r = http_major r * 1000 + http_minor r
     \<and> (rq_http_version r = 9 \<longrightarrow> rq_method r = NGX_HTTP_GET)"
proof -
  have nr: "x \<noteq> Return rc" for rc
    using assms(2,3) by (cases m0; cases m) (auto dest!: rl_step_Return)
  with assms(2) have "rl_done (snd m) p = (NGX_OK, (s, r), q)" by (cases x; cases m0; cases m) auto
  then have q: "q = Suc p" and ok: "rq_http_version r = 9 \<longrightarrow> rq_method r = NGX_HTTP_GET"
    and r: "r = (if request_end (snd m) = None then snd m\<lparr>request_end := Some p\<rparr> else snd m)
      \<lparr>rq_http_version := http_major (snd m) * 1000 + http_minor (snd m)\<rparr>"
    by (auto simp: rl_done_def Let_def split: if_splits)
  from assms(1) nr obtain ue where "rl_method_ok b p0 (snd m) p" "rl_version_ok (snd m)" "b ! p = LF"
    "uri_end (snd m) = Some ue" "rl_uri_ok b (snd m) ue"
    "case request_end (snd m) of None \<Rightarrow> ue \<le> p | Some e \<Rightarrow> ue \<le> e \<and> Suc e = p"
    by (auto simp: rl_exit_def)
  with q ok show ?thesis
    by (cases "request_end (snd m)") (auto simp: r rl_version_ok_def)
qed

lemma rl_run_ok:
  assumes "run_parser rl_step rl_fin m b = (NGX_OK, (s, r), b')" "rl_inv (buf_data b) (buf_pos b) m (buf_pos b)"
    "buf_pos b \<le> length (buf_data b)"
  obtains p where "buf_pos b' = Suc p" "p < length (buf_data b)"
    "rl_method_ok (buf_data b) (buf_pos b) r p" "rl_version_ok r" "buf_data b ! p = LF"
    "\<exists>ue re. uri_end r = Some ue \<and> request_end r = Some re \<and> rl_uri_ok (buf_data b) r ue \<and> ue \<le> re \<and> re \<le> p"
    "rq_http_version r = http_major r * 1000 + http_minor r"
    "rq_http_version r = 9 \<longrightarrow> rq_method r = NGX_HTTP_GET"
proof -
  have keeps: "case rl_step (buf_data b) s p (buf_data b ! p) of
      Next s' \<Rightarrow> rl_inv (buf_data b) (buf_pos b) s' (Suc p) | Stop x s' \<Rightarrow> rl_exit (buf_data b) (buf_pos b) x s' p"
    if "rl_inv (buf_data b) (buf_pos b) s p" for s p
    using rl_step_keeps [OF that] by (simp add: rl_keeps_def)
  obtain x m' p m2 where exit: "rl_exit (buf_data b) (buf_pos b) x m' p"
    and fin: "rl_fin m (buf_pos b) x m' p = (NGX_OK, (s, r), buf_pos b')" and p: "p < length (buf_data b)"
    and st: "rl_step (buf_data b) m2 p (buf_data b ! p) = Stop x m'"
    by (rule rl.run_final [where I = "rl_inv (buf_data b) (buf_pos b)" and Q = "rl_exit (buf_data b) (buf_pos b)",
      OF assms(1) _ assms(2,3) keeps]) simp_all
  from rl_exit_done [OF exit fin st] p that show thesis by blast
qed

section \<open>The schema, the host and the protocol\<close>

text \<open>
  The pointers that an absolute request target adds, \<^verbatim>\<open>schema://host:port\<close>, and \<^verbatim>\<open>r->http_protocol\<close>: the second
  invariant of the loop. \<open>rl_at\<close>: from \<open>i\<close> on stand these bytes.
\<close>

definition rl_at :: "u_char list \<Rightarrow> nat \<Rightarrow> u_char list \<Rightarrow> bool" where
  "rl_at b i cs \<longleftrightarrow> (\<forall>k < length cs. b ! (i + k) = cs ! k)"

definition is_host_byte :: "u_char \<Rightarrow> bool" where
  "is_host_byte ch \<longleftrightarrow> is_alpha ch \<or> is_digit ch \<or> ch = ch_dot \<or> ch = ch_minus"

definition is_literal_byte :: "u_char \<Rightarrow> bool" where
  "is_literal_byte ch \<longleftrightarrow> is_digit ch \<or> is_alpha ch \<or> ch = ch_colon \<or> ch \<in> set (bytes ''-._~'')
     \<or> ch \<in> {33, 36, 38, 39, 40, 41, 42, 43, 44, 59, 61}"

definition rl_host_ok :: "u_char list \<Rightarrow> nat \<Rightarrow> nat \<Rightarrow> bool" where
  "rl_host_ok b hs he \<longleftrightarrow> hs \<le> he \<and>
     ((\<forall>j. hs \<le> j \<and> j < he \<longrightarrow> is_host_byte (b ! j))
      \<or> hs + 1 < he \<and> b ! hs = ch_lbracket \<and> b ! (he - 1) = ch_rbracket
        \<and> (\<forall>j. hs < j \<and> j < he - 1 \<longrightarrow> is_literal_byte (b ! j)))"

text \<open>The schema \<^verbatim>\<open>[ss, se)\<close> behind the method; nothing behind the schema is set yet.\<close>

definition rl_schema_at :: "u_char list \<Rightarrow> ngx_http_request_t \<Rightarrow> nat \<Rightarrow> nat \<Rightarrow> bool" where
  "rl_schema_at b r ss e \<longleftrightarrow> schema_start r = Some ss \<and> (\<exists>me. method_end r = Some me \<and> me < ss) \<and> ss < e
     \<and> (\<forall>j. ss \<le> j \<and> j < e \<longrightarrow> is_alpha (b ! j))"

definition rl_no_host :: "ngx_http_request_t \<Rightarrow> bool" where
  "rl_no_host r \<longleftrightarrow> host_start r = None \<and> host_end r = None \<and> port_end r = None"

text \<open>A complete authority: its end is \<open>t\<close>, and there the URI begins, or the single slash before it stands for the URI.\<close>

definition rl_port_ok :: "u_char list \<Rightarrow> ngx_http_request_t \<Rightarrow> nat \<Rightarrow> nat \<Rightarrow> bool" where
  "rl_port_ok b r he t \<longleftrightarrow> (case port_end r of
      None \<Rightarrow> t = he
    | Some pe \<Rightarrow> t = pe \<and> he < pe \<and> b ! he = ch_colon \<and> (\<forall>j. he < j \<and> j < pe \<longrightarrow> is_digit (b ! j)))"

definition rl_authority :: "u_char list \<Rightarrow> ngx_http_request_t \<Rightarrow> nat \<Rightarrow> nat \<Rightarrow> bool" where
  "rl_authority b r se t \<longleftrightarrow> (\<exists>ss he. rl_schema_at b r ss se \<and> schema_end r = Some se \<and> rl_at b se (bytes ''://'')
     \<and> host_start r = Some (se + 3) \<and> host_end r = Some he \<and> rl_host_ok b (se + 3) he \<and> rl_port_ok b r he t)"

definition rl_target_slash :: "u_char list \<Rightarrow> ngx_http_request_t \<Rightarrow> bool" where
  "rl_target_slash b r \<longleftrightarrow> schema_start r = None \<and> schema_end r = None \<and> rl_no_host r
     \<or> (\<exists>se t. rl_authority b r se t \<and> b ! t = ch_slash \<and> uri_start r = Some t)"

definition rl_target_ok :: "u_char list \<Rightarrow> ngx_http_request_t \<Rightarrow> nat \<Rightarrow> bool" where
  "rl_target_ok b r e \<longleftrightarrow> rl_target_slash b r
     \<or> (\<exists>se t. rl_authority b r se t \<and> b ! t = ch_space \<and> t < e \<and> uri_start r = Some (se + 1) \<and> uri_end r = Some (se + 2))"

text \<open>The protocol begins behind the URI, and its version, of at least three characters, before \<open>e\<close>.\<close>

definition rl_protocol_ok :: "u_char list \<Rightarrow> ngx_http_request_t \<Rightarrow> nat \<Rightarrow> bool" where
  "rl_protocol_ok b r e \<longleftrightarrow> (case rq_http_protocol r of
      None \<Rightarrow> http_major r = 0
    | Some hp \<Rightarrow> http_major r \<noteq> 0 \<and> (\<exists>ue. uri_end r = Some ue \<and> ue < hp) \<and> rl_at b hp (bytes ''HTTP/'') \<and> hp + 8 \<le> e)"

definition rl_protocol_part :: "u_char list \<Rightarrow> ngx_http_request_t \<Rightarrow> nat \<Rightarrow> nat \<Rightarrow> bool" where
  "rl_protocol_part b r n p \<longleftrightarrow> (\<exists>hp ue. rq_http_protocol r = Some hp \<and> uri_end r = Some ue \<and> ue < hp
     \<and> rl_at b hp (take n (bytes ''HTTP/'')) \<and> (if n < 6 then p = hp + n else hp + n \<le> p))"

fun rl_loc_part :: "u_char list \<Rightarrow> rl_state \<Rightarrow> ngx_http_request_t \<Rightarrow> nat \<Rightarrow> bool" where
  "rl_loc_part b rl_sw_schema r p =
     ((\<exists>ss. rl_schema_at b r ss p) \<and> schema_end r = None \<and> rl_no_host r)"
| "rl_loc_part b rl_sw_schema_slash r p =
     ((\<exists>ss se. rl_schema_at b r ss se \<and> schema_end r = Some se \<and> p = se + 1 \<and> rl_at b se [ch_colon]) \<and> rl_no_host r)"
| "rl_loc_part b rl_sw_schema_slash_slash r p =
     ((\<exists>ss se. rl_schema_at b r ss se \<and> schema_end r = Some se \<and> p = se + 2 \<and> rl_at b se [ch_colon, ch_slash]) \<and> rl_no_host r)"
| "rl_loc_part b rl_sw_host_start r p =
     ((\<exists>ss se. rl_schema_at b r ss se \<and> schema_end r = Some se \<and> p = se + 3 \<and> rl_at b se (bytes ''://'')) \<and> rl_no_host r)"
| "rl_loc_part b rl_sw_host r p =
     ((\<exists>ss se. rl_schema_at b r ss se \<and> schema_end r = Some se \<and> rl_at b se (bytes ''://'') \<and> host_start r = Some (se + 3)
           \<and> se + 3 \<le> p \<and> (\<forall>j. se + 3 \<le> j \<and> j < p \<longrightarrow> is_host_byte (b ! j))) \<and> host_end r = None \<and> port_end r = None)"
| "rl_loc_part b rl_sw_host_ip_literal r p =
     ((\<exists>ss se. rl_schema_at b r ss se \<and> schema_end r = Some se \<and> rl_at b se (bytes ''://'') \<and> host_start r = Some (se + 3)
           \<and> se + 3 < p \<and> b ! (se + 3) = ch_lbracket \<and> (\<forall>j. se + 3 < j \<and> j < p \<longrightarrow> is_literal_byte (b ! j)))
        \<and> host_end r = None \<and> port_end r = None)"
| "rl_loc_part b rl_sw_host_end r p =
     ((\<exists>ss se. rl_schema_at b r ss se \<and> schema_end r = Some se \<and> rl_at b se (bytes ''://'') \<and> host_start r = Some (se + 3)
           \<and> rl_host_ok b (se + 3) p) \<and> host_end r = None \<and> port_end r = None)"
| "rl_loc_part b rl_sw_port r p =
     ((\<exists>ss se he. rl_schema_at b r ss se \<and> schema_end r = Some se \<and> rl_at b se (bytes ''://'') \<and> host_start r = Some (se + 3)
           \<and> host_end r = Some he \<and> rl_host_ok b (se + 3) he \<and> he < p \<and> b ! he = ch_colon \<and> (\<forall>j. he < j \<and> j < p \<longrightarrow> is_digit (b ! j)))
        \<and> port_end r = None)"
| "rl_loc_part b rl_sw_host_http_09 r p =
     (rl_target_ok b r p)"
| "rl_loc_part b rl_sw_after_slash_in_uri r p =
     (rl_target_slash b r)"
| "rl_loc_part b rl_sw_check_uri r p =
     (rl_target_slash b r)"
| "rl_loc_part b rl_sw_uri r p =
     (rl_target_slash b r)"
| "rl_loc_part b rl_sw_check_uri_http_09 r p =
     (rl_target_slash b r)"
| "rl_loc_part b rl_sw_http_09 r p =
     (rl_target_slash b r)"
| "rl_loc_part b rl_sw_http_H r p =
     (rl_target_ok b r p \<and> rl_protocol_part b r 1 p)"
| "rl_loc_part b rl_sw_http_HT r p =
     (rl_target_ok b r p \<and> rl_protocol_part b r 2 p)"
| "rl_loc_part b rl_sw_http_HTT r p =
     (rl_target_ok b r p \<and> rl_protocol_part b r 3 p)"
| "rl_loc_part b rl_sw_http_HTTP r p =
     (rl_target_ok b r p \<and> rl_protocol_part b r 4 p)"
| "rl_loc_part b rl_sw_first_major_digit r p =
     (rl_target_ok b r p \<and> rl_protocol_part b r 5 p)"
| "rl_loc_part b rl_sw_major_digit r p =
     (rl_target_ok b r p \<and> rl_protocol_part b r 6 p)"
| "rl_loc_part b rl_sw_first_minor_digit r p =
     (rl_target_ok b r p \<and> rl_protocol_part b r 7 p)"
| "rl_loc_part b rl_sw_minor_digit r p =
     (rl_target_ok b r p \<and> rl_protocol_part b r 8 p)"
| "rl_loc_part b rl_sw_spaces_after_digit r p =
     (rl_target_ok b r p \<and> rl_protocol_part b r 8 p)"
| "rl_loc_part b rl_sw_almost_done r p =
     (rl_target_ok b r (p - 1) \<and> rl_protocol_ok b r (p - 1))"
| "rl_loc_part b _ r p =
     (schema_start r = None \<and> schema_end r = None \<and> rl_no_host r)"

definition rl_loc :: "u_char list \<Rightarrow> rl_machine \<Rightarrow> nat \<Rightarrow> bool" where
  "rl_loc b m p \<longleftrightarrow> (case m of (s, r) \<Rightarrow> rl_loc_part b s r p
     \<and> (s \<in> {rl_sw_http_H, rl_sw_http_HT, rl_sw_http_HTT, rl_sw_http_HTTP, rl_sw_first_major_digit, rl_sw_major_digit,
            rl_sw_first_minor_digit, rl_sw_minor_digit, rl_sw_spaces_after_digit, rl_sw_almost_done} \<or> rq_http_protocol r = None))"

definition rl_loc_exit :: "u_char list \<Rightarrow> parse_exit \<Rightarrow> rl_machine \<Rightarrow> nat \<Rightarrow> bool" where
  "rl_loc_exit b x m p \<longleftrightarrow> (\<forall>rc. x \<noteq> Return rc) \<longrightarrow> (let e = (case request_end (snd m) of None \<Rightarrow> p | Some e \<Rightarrow> e) in
       rl_target_ok b (snd m) e \<and> rl_protocol_ok b (snd m) e)"

definition rl_loc_keeps :: "u_char list \<Rightarrow> nat \<Rightarrow> rl_verdict \<Rightarrow> bool" where
  "rl_loc_keeps b p v = (case v of Next m \<Rightarrow> rl_loc b m (Suc p) | Stop x m \<Rightarrow> rl_loc_exit b x m p)"

lemma rl_authority_frame [simp]:
  "rl_authority b (r\<lparr>uri_ext := v0\<rparr>) se t = rl_authority b r se t"
  "rl_authority b (r\<lparr>args_start := v1\<rparr>) se t = rl_authority b r se t"
  "rl_authority b (r\<lparr>request_end := v2\<rparr>) se t = rl_authority b r se t"
  "rl_authority b (r\<lparr>rq_http_protocol := v3\<rparr>) se t = rl_authority b r se t"
  "rl_authority b (r\<lparr>http_major := v4\<rparr>) se t = rl_authority b r se t"
  "rl_authority b (r\<lparr>http_minor := v5\<rparr>) se t = rl_authority b r se t"
  "rl_authority b (r\<lparr>complex_uri := v6\<rparr>) se t = rl_authority b r se t"
  "rl_authority b (r\<lparr>quoted_uri := v7\<rparr>) se t = rl_authority b r se t"
  "rl_authority b (r\<lparr>plus_in_uri := v8\<rparr>) se t = rl_authority b r se t"
  "rl_authority b (r\<lparr>space_in_uri := v9\<rparr>) se t = rl_authority b r se t"
  "rl_authority b (r\<lparr>rq_http_version := v10\<rparr>) se t = rl_authority b r se t"
  "rl_authority b (r\<lparr>rq_method := v11\<rparr>) se t = rl_authority b r se t"
  "rl_authority b (r\<lparr>request_start := v12\<rparr>) se t = rl_authority b r se t"
  "rl_authority b (r\<lparr>uri_start := v13\<rparr>) se t = rl_authority b r se t"
  "rl_authority b (r\<lparr>uri_end := v14\<rparr>) se t = rl_authority b r se t"
  by (simp_all add: rl_authority_def rl_schema_at_def rl_port_ok_def)

lemma rl_target_slash_frame [simp]:
  "rl_target_slash b (r\<lparr>uri_ext := v0\<rparr>) = rl_target_slash b r"
  "rl_target_slash b (r\<lparr>args_start := v1\<rparr>) = rl_target_slash b r"
  "rl_target_slash b (r\<lparr>request_end := v2\<rparr>) = rl_target_slash b r"
  "rl_target_slash b (r\<lparr>rq_http_protocol := v3\<rparr>) = rl_target_slash b r"
  "rl_target_slash b (r\<lparr>http_major := v4\<rparr>) = rl_target_slash b r"
  "rl_target_slash b (r\<lparr>http_minor := v5\<rparr>) = rl_target_slash b r"
  "rl_target_slash b (r\<lparr>complex_uri := v6\<rparr>) = rl_target_slash b r"
  "rl_target_slash b (r\<lparr>quoted_uri := v7\<rparr>) = rl_target_slash b r"
  "rl_target_slash b (r\<lparr>plus_in_uri := v8\<rparr>) = rl_target_slash b r"
  "rl_target_slash b (r\<lparr>space_in_uri := v9\<rparr>) = rl_target_slash b r"
  "rl_target_slash b (r\<lparr>rq_http_version := v10\<rparr>) = rl_target_slash b r"
  "rl_target_slash b (r\<lparr>rq_method := v11\<rparr>) = rl_target_slash b r"
  "rl_target_slash b (r\<lparr>request_start := v12\<rparr>) = rl_target_slash b r"
  "rl_target_slash b (r\<lparr>uri_end := v13\<rparr>) = rl_target_slash b r"
  by (simp_all add: rl_target_slash_def rl_no_host_def)

lemma rl_target_ok_frame [simp]:
  "rl_target_ok b (r\<lparr>uri_ext := v0\<rparr>) e = rl_target_ok b r e"
  "rl_target_ok b (r\<lparr>args_start := v1\<rparr>) e = rl_target_ok b r e"
  "rl_target_ok b (r\<lparr>request_end := v2\<rparr>) e = rl_target_ok b r e"
  "rl_target_ok b (r\<lparr>rq_http_protocol := v3\<rparr>) e = rl_target_ok b r e"
  "rl_target_ok b (r\<lparr>http_major := v4\<rparr>) e = rl_target_ok b r e"
  "rl_target_ok b (r\<lparr>http_minor := v5\<rparr>) e = rl_target_ok b r e"
  "rl_target_ok b (r\<lparr>complex_uri := v6\<rparr>) e = rl_target_ok b r e"
  "rl_target_ok b (r\<lparr>quoted_uri := v7\<rparr>) e = rl_target_ok b r e"
  "rl_target_ok b (r\<lparr>plus_in_uri := v8\<rparr>) e = rl_target_ok b r e"
  "rl_target_ok b (r\<lparr>space_in_uri := v9\<rparr>) e = rl_target_ok b r e"
  "rl_target_ok b (r\<lparr>rq_http_version := v10\<rparr>) e = rl_target_ok b r e"
  "rl_target_ok b (r\<lparr>rq_method := v11\<rparr>) e = rl_target_ok b r e"
  "rl_target_ok b (r\<lparr>request_start := v12\<rparr>) e = rl_target_ok b r e"
  by (simp_all add: rl_target_ok_def)

lemma rl_target_slash_ok: "rl_target_slash b r \<Longrightarrow> rl_target_ok b r e"
  by (simp add: rl_target_ok_def)

lemma rl_target_ok_Suc: "rl_target_ok b r e \<Longrightarrow> rl_target_ok b r (Suc e)"
  by (force simp: rl_target_ok_def)

lemma rl_at_simps [simp]: "rl_at b i []" "rl_at b i (c # cs) \<longleftrightarrow> b ! i = c \<and> rl_at b (Suc i) cs"
  by (auto simp: rl_at_def nth_Cons split: nat.splits)

lemma rl_protocol_part_simps:
  "rl_protocol_part b r (Suc n) (Suc p) \<longleftrightarrow> (\<exists>hp ue. rq_http_protocol r = Some hp \<and> uri_end r = Some ue \<and> ue < hp
     \<and> rl_at b hp (take (Suc n) (bytes ''HTTP/'')) \<and> (if Suc n < 6 then p = hp + n else hp + n \<le> p))"
  by (auto simp: rl_protocol_part_def)

lemma rl_loc_keeps_if:
  "rl_loc_keeps b p (if c then v else w) \<longleftrightarrow> (c \<longrightarrow> rl_loc_keeps b p v) \<and> (\<not> c \<longrightarrow> rl_loc_keeps b p w)"
  by simp

lemma rl_loc_keeps_Next: "rl_loc_keeps b p (Next m) = rl_loc b m (Suc p)"
  by (simp add: rl_loc_keeps_def)

lemma rl_loc_keeps_Return [simp]: "rl_loc_keeps b p (Stop (Return rc) m)"
  by (simp add: rl_loc_keeps_def rl_loc_exit_def)

lemma rl_loc_keeps_done: "rl_loc_keeps b p (Stop Goto_done m) = rl_loc_exit b Goto_done m p"
  by (simp add: rl_loc_keeps_def)

lemmas rl_loc_keeps = rl_loc_keeps_if rl_loc_keeps_Next rl_loc_keeps_Return rl_loc_keeps_done

text \<open>The states before the target and the states of the URI.\<close>

lemma rl_loc_keeps_before:
  assumes "rl_loc b (s, r) p" "rl_inv b p0 (s, r) p" "s \<in> {rl_sw_start, rl_sw_method, rl_sw_spaces_before_uri}"
  shows "rl_loc_keeps b p (rl_step b (s, r) p (b ! p))"
  using assms
  by (auto simp: rl_loc_def rl_start_def rl_method_def rl_spaces_before_uri_def Let_def rl_loc_keeps rl_no_host_def rl_target_slash_def
      rl_schema_at_def rl_inv_def rl_method_ok_def less_Suc_eq split: option.split)

lemma rl_loc_keeps_uri:
  assumes "rl_target_slash b r" "rq_http_protocol r = None" "http_major r = 0" "request_end r = None"
  shows "rl_loc_keeps b p (rl_check_uri r p (b ! p))" "rl_loc_keeps b p (rl_uri r p (b ! p))"
    "rl_loc_keeps b p (rl_after_slash_in_uri r p (b ! p))"
  using assms unfolding rl_check_uri_def rl_uri_def rl_after_slash_in_uri_def rl_loc_keeps
  by (auto simp: rl_loc_def rl_loc_exit_def rl_target_slash_ok rl_protocol_ok_def)

lemma rl_loc_keeps_http_09:
  assumes "rl_target_slash b r" "rq_http_protocol r = None" "http_major r = 0" "request_end r = None" "rl_has_uri b r p"
  shows "rl_loc_keeps b p (rl_check_uri_http_09 r p (b ! p))" "rl_loc_keeps b p (rl_http_09 r p (b ! p))"
  using assms rl_loc_keeps_uri(1,2) [of b "r\<lparr>space_in_uri := True\<rparr>" p]
  unfolding rl_check_uri_http_09_def rl_http_09_def rl_loc_keeps
  by (auto simp: rl_loc_def rl_loc_exit_def rl_target_slash_ok rl_protocol_ok_def rl_protocol_part_def rl_has_uri_def)

text \<open>The states of the schema, of the host and of the port.\<close>

lemma rl_schema_at_frame [simp]:
  "rl_schema_at b (r\<lparr>schema_end := v1\<rparr>) ss e = rl_schema_at b r ss e" "rl_schema_at b (r\<lparr>host_start := v2\<rparr>) ss e = rl_schema_at b r ss e"
  "rl_schema_at b (r\<lparr>host_end := v3\<rparr>) ss e = rl_schema_at b r ss e" "rl_schema_at b (r\<lparr>port_end := v4\<rparr>) ss e = rl_schema_at b r ss e"
  "rl_schema_at b (r\<lparr>uri_start := v5\<rparr>) ss e = rl_schema_at b r ss e" "rl_schema_at b (r\<lparr>uri_end := v6\<rparr>) ss e = rl_schema_at b r ss e"
  by (simp_all add: rl_schema_at_def)

lemma rl_schema_at_Suc: "rl_schema_at b r ss p \<Longrightarrow> is_alpha (b ! p) \<Longrightarrow> rl_schema_at b r ss (Suc p)"
  by (auto simp: rl_schema_at_def less_Suc_eq)

lemma rl_loc_keeps_schema:
  assumes "rl_loc b (s, r) p" "s \<in> {rl_sw_schema, rl_sw_schema_slash, rl_sw_schema_slash_slash}"
  shows "rl_loc_keeps b p (rl_step b (s, r) p (b ! p))"
  using assms
  by (auto simp: rl_loc_def rl_schema_def rl_schema_slash_def rl_schema_slash_slash_def rl_expect_def rl_loc_keeps rl_no_host_def)
    (blast intro: rl_schema_at_Suc)+

text \<open>The host ends at \<open>p\<close>.\<close>

lemma rl_loc_keeps_host_end:
  assumes "rl_schema_at b r ss se" "schema_end r = Some se" "rl_at b se (bytes ''://'')" "host_start r = Some (se + 3)"
    and "rl_host_ok b (se + 3) p" "port_end r = None" "rq_http_protocol r = None"
  shows "rl_loc_keeps b p (rl_host_end s r p (b ! p))"
proof -
  have auth: "rl_authority b (r\<lparr>host_end := Some p\<rparr>) se p"
    using assms unfolding rl_authority_def by (intro exI [of _ ss] exI [of _ p]) (simp add: rl_port_ok_def)
  then have "rl_target_slash b (r\<lparr>host_end := Some p, uri_start := Some p\<rparr>)" if "b ! p = ch_slash"
    using that unfolding rl_target_slash_def by (intro disjI2 exI [of _ se] exI [of _ p]) simp
  moreover have "rl_target_ok b (r\<lparr>host_end := Some p, uri_start := Some (se + 1), uri_end := Some (se + 2)\<rparr>) (Suc p)" if "b ! p = ch_space"
    using that auth unfolding rl_target_ok_def by (intro disjI2 exI [of _ se] exI [of _ p]) simp
  ultimately show ?thesis using assms unfolding rl_host_end_def rl_no_uri_def Let_def rl_loc_keeps
    by (auto simp: rl_loc_def less_Suc_eq)
qed

lemma rl_host_ok_bytes: "hs \<le> p \<Longrightarrow> \<forall>j. hs \<le> j \<and> j < p \<longrightarrow> is_host_byte (b ! j) \<Longrightarrow> rl_host_ok b hs p"
  by (simp add: rl_host_ok_def)

lemma rl_loc_keeps_host:
  assumes "rl_schema_at b r ss se" "schema_end r = Some se" "rl_at b se (bytes ''://'')" "host_start r = Some (se + 3)"
    and "se + 3 \<le> p" "\<forall>j. se + 3 \<le> j \<and> j < p \<longrightarrow> is_host_byte (b ! j)" "host_end r = None" "port_end r = None" "rq_http_protocol r = None"
  shows "rl_loc_keeps b p (rl_host r p (b ! p))"
proof -
  have "rl_loc_keeps b p (rl_host_end rl_sw_host r p (b ! p))"
    using assms by (intro rl_loc_keeps_host_end [of b r ss se] rl_host_ok_bytes) simp_all
  moreover have "rl_loc b (rl_sw_host, r) (Suc p)" if "is_host_byte (b ! p)"
    using assms that by (auto simp: rl_loc_def less_Suc_eq)
  ultimately show ?thesis unfolding rl_host_def rl_loc_keeps by (auto simp: is_host_byte_def)
qed

lemma rl_loc_keeps_host_start:
  assumes "rl_schema_at b r ss se" "schema_end r = Some se" "rl_at b se (bytes ''://'')" "p = se + 3" "rl_no_host r" "rq_http_protocol r = None"
  shows "rl_loc_keeps b p (rl_host_start r p (b ! p))"
proof -
  have "rl_loc_keeps b p (rl_host (r\<lparr>host_start := Some p\<rparr>) p (b ! p))"
    using assms by (intro rl_loc_keeps_host [of b _ ss se]) (auto simp: rl_no_host_def)
  then show ?thesis using assms unfolding rl_host_start_def Let_def rl_loc_keeps
    by (auto simp: rl_loc_def rl_no_host_def less_Suc_eq)
qed

lemma rl_loc_keeps_literal:
  assumes "rl_loc b (rl_sw_host_ip_literal, r) p"
  shows "rl_loc_keeps b p (rl_host_ip_literal r p (b ! p))"
proof -
  obtain ss se where l: "rl_schema_at b r ss se" "schema_end r = Some se" "rl_at b se (bytes ''://'')" "host_start r = Some (se + 3)"
    "se + 3 < p" "b ! (se + 3) = ch_lbracket" "\<forall>j. se + 3 < j \<and> j < p \<longrightarrow> is_literal_byte (b ! j)" "host_end r = None" "port_end r = None"
    "rq_http_protocol r = None" using assms by (auto simp: rl_loc_def)
  have "rl_loc b (rl_sw_host_ip_literal, r) (Suc p)" if "is_literal_byte (b ! p)"
    using l that by (auto simp: rl_loc_def less_Suc_eq)
  moreover have "rl_loc b (rl_sw_host_end, r) (Suc p)" if "b ! p = ch_rbracket"
    using l that by (auto simp: rl_loc_def rl_host_ok_def)
  ultimately show ?thesis unfolding rl_host_ip_literal_def rl_loc_keeps by (auto simp: is_literal_byte_def)
qed

lemma rl_loc_keeps_port:
  assumes "rl_loc b (rl_sw_port, r) p"
  shows "rl_loc_keeps b p (rl_port r p (b ! p))"
proof -
  obtain ss se he where l: "rl_schema_at b r ss se" "schema_end r = Some se" "rl_at b se (bytes ''://'')" "host_start r = Some (se + 3)"
    "host_end r = Some he" "rl_host_ok b (se + 3) he" "he < p" "b ! he = ch_colon" "\<forall>j. he < j \<and> j < p \<longrightarrow> is_digit (b ! j)" "port_end r = None"
    "rq_http_protocol r = None" using assms by (auto simp: rl_loc_def)
  then have auth: "rl_authority b (r\<lparr>port_end := Some p\<rparr>) se p"
    unfolding rl_authority_def by (intro exI [of _ ss] exI [of _ he]) (simp add: rl_port_ok_def)
  then have "rl_target_slash b (r\<lparr>port_end := Some p, uri_start := Some p\<rparr>)" if "b ! p = ch_slash"
    using that unfolding rl_target_slash_def by (intro disjI2 exI [of _ se] exI [of _ p]) simp
  moreover have "rl_target_ok b (r\<lparr>port_end := Some p, uri_start := Some (se + 1), uri_end := Some (se + 2)\<rparr>) (Suc p)" if "b ! p = ch_space"
    using that auth unfolding rl_target_ok_def by (intro disjI2 exI [of _ se] exI [of _ p]) simp
  moreover have "rl_loc b (rl_sw_port, r) (Suc p)" if "is_digit (b ! p)"
    using l that by (auto simp: rl_loc_def less_Suc_eq)
  ultimately show ?thesis using l unfolding rl_port_def rl_no_uri_def Let_def rl_loc_keeps by (auto simp: rl_loc_def)
qed

text \<open>The states of the protocol.\<close>

lemma rl_offsets: "i + 3 = Suc (Suc (Suc i))" "i + 4 = Suc (Suc (Suc (Suc i)))" for i :: nat
  by simp_all

lemma rl_loc_keeps_protocol:
  assumes "rl_loc b (s, r) p" "rl_inv b p0 (s, r) p"
    and "s \<in> {rl_sw_host_http_09, rl_sw_http_H, rl_sw_http_HT, rl_sw_http_HTT, rl_sw_http_HTTP, rl_sw_first_major_digit, rl_sw_major_digit,
       rl_sw_first_minor_digit, rl_sw_minor_digit, rl_sw_spaces_after_digit, rl_sw_almost_done}"
  shows "rl_loc_keeps b p (rl_step b (s, r) p (b ! p))"
  using assms
  by (auto simp: rl_loc_def rl_host_http_09_def rl_http_H_def rl_http_HT_def rl_http_HTT_def rl_http_HTTP_def rl_expect_def
      rl_first_major_digit_def rl_major_digit_def rl_first_minor_digit_def rl_minor_digit_def rl_spaces_after_digit_def rl_almost_done_def
      rl_loc_keeps rl_loc_exit_def rl_protocol_part_def rl_protocol_ok_def Let_def rl_inv_def rl_has_uri_def rl_offsets rl_target_ok_Suc
      split: option.splits)

lemma rl_step_loc:
  assumes "rl_loc b m p" "rl_inv b p0 m p"
  shows "rl_loc_keeps b p (rl_step b m p (b ! p))"
proof -
  obtain s r where m: "m = (s, r)" by (cases m)
  consider "s \<in> {rl_sw_start, rl_sw_method, rl_sw_spaces_before_uri}" | "s \<in> {rl_sw_schema, rl_sw_schema_slash, rl_sw_schema_slash_slash}"
    | "s \<in> {rl_sw_host_start, rl_sw_host, rl_sw_host_end}" | "s \<in> {rl_sw_host_ip_literal, rl_sw_port}"
    | "s \<in> {rl_sw_after_slash_in_uri, rl_sw_check_uri, rl_sw_uri, rl_sw_check_uri_http_09, rl_sw_http_09}"
    | "s \<in> {rl_sw_host_http_09, rl_sw_http_H, rl_sw_http_HT, rl_sw_http_HTT, rl_sw_http_HTTP, rl_sw_first_major_digit, rl_sw_major_digit,
       rl_sw_first_minor_digit, rl_sw_minor_digit, rl_sw_spaces_after_digit, rl_sw_almost_done}"
    by (cases s) auto
  then show ?thesis
  proof cases
    case 3
    then consider "s = rl_sw_host_start" | "s = rl_sw_host" | "s = rl_sw_host_end" by blast
    then show ?thesis
    proof cases
      case 1
      with assms(1) m obtain ss se where "rl_schema_at b r ss se" "schema_end r = Some se" "rl_at b se (bytes ''://'')" "p = se + 3"
        "rl_no_host r" "rq_http_protocol r = None" unfolding rl_loc_def by auto
      from rl_loc_keeps_host_start [OF this] show ?thesis using m 1 by simp
    next
      case 2
      with assms(1) m obtain ss se where "rl_schema_at b r ss se" "schema_end r = Some se" "rl_at b se (bytes ''://'')"
        "host_start r = Some (se + 3)" "se + 3 \<le> p" "\<forall>j. se + 3 \<le> j \<and> j < p \<longrightarrow> is_host_byte (b ! j)" "host_end r = None" "port_end r = None"
        "rq_http_protocol r = None" unfolding rl_loc_def by auto
      from rl_loc_keeps_host [OF this] show ?thesis using m 2 by simp
    next
      case 3
      with assms(1) m obtain ss se where "rl_schema_at b r ss se" "schema_end r = Some se" "rl_at b se (bytes ''://'')"
        "host_start r = Some (se + 3)" "rl_host_ok b (se + 3) p" "port_end r = None" "rq_http_protocol r = None" unfolding rl_loc_def by auto
      from rl_loc_keeps_host_end [OF this] show ?thesis using m 3 by simp
    qed
  next
    case 4
    then show ?thesis using assms(1) m rl_loc_keeps_literal [of b r p] rl_loc_keeps_port [of b r p] by auto
  next
    case 5
    then show ?thesis using assms m
      by (auto simp: rl_loc_def rl_inv_def intro: rl_loc_keeps_uri rl_loc_keeps_http_09)
  qed (use assms m rl_loc_keeps_before rl_loc_keeps_schema rl_loc_keeps_protocol in blast)+
qed

lemma rl_protocol_ok_frame [simp]:
  "rl_protocol_ok b (r\<lparr>request_end := v\<rparr>) e = rl_protocol_ok b r e"
  "rl_protocol_ok b (r\<lparr>rq_http_version := n\<rparr>) e = rl_protocol_ok b r e"
  by (simp_all add: rl_protocol_ok_def split: option.split)

lemma rl_run_loc:
  assumes "run_parser rl_step rl_fin (rl_sw_start, new_request) b = (NGX_OK, (s, r), b')" "buf_pos b \<le> length (buf_data b)"
  obtains re where "request_end r = Some re" "rl_target_ok (buf_data b) r re" "rl_protocol_ok (buf_data b) r re"
proof -
  let ?I = "\<lambda>m p. rl_inv (buf_data b) (buf_pos b) m p \<and> rl_loc (buf_data b) m p"
  have start: "?I (rl_sw_start, new_request) (buf_pos b)"
    using rl_inv_new_request by (simp add: rl_loc_def new_request_def rl_no_host_def)
  have keeps: "case rl_step (buf_data b) m p (buf_data b ! p) of Next m' \<Rightarrow> ?I m' (Suc p) | Stop x m' \<Rightarrow> rl_loc_exit (buf_data b) x m' p"
    if "?I m p" for m p
    using that rl_step_keeps [of "buf_data b" "buf_pos b" m p] rl_step_loc [of "buf_data b" m p]
    by (auto simp: rl_keeps_def rl_loc_keeps_def split: verdict.splits)
  obtain x m' p m2 where exit: "rl_loc_exit (buf_data b) x m' p"
    and fin: "rl_fin (rl_sw_start, new_request) (buf_pos b) x m' p = (NGX_OK, (s, r), buf_pos b')"
    and st: "rl_step (buf_data b) m2 p (buf_data b ! p) = Stop x m'"
    by (rule rl.run_final [where I = ?I and Q = "rl_loc_exit (buf_data b)", OF assms(1) _ start assms(2) keeps]) simp_all
  have nr: "x \<noteq> Return rc" for rc using fin st by (cases m') (auto dest!: rl_step_Return)
  with fin have "rl_done (snd m') p = (NGX_OK, (s, r), buf_pos b')" by (cases x; cases m') auto
  then have "r = (if request_end (snd m') = None then snd m'\<lparr>request_end := Some p\<rparr> else snd m')
      \<lparr>rq_http_version := http_major (snd m') * 1000 + http_minor (snd m')\<rparr>"
    by (auto simp: rl_done_def Let_def split: if_splits)
  with exit nr that show thesis
    by (cases "request_end (snd m')") (auto simp: rl_loc_exit_def)
qed

text \<open>
  C1: when a fresh request line has been accepted, over any number of reads, every
  pointer that \<^verbatim>\<open>ngx_http_parse_request_line\<close> has stored lies in the bytes received. In the
  order method, URI, end of the line: the method is made of method characters only and
  \<^verbatim>\<open>r->method\<close> is its code; the URI begins with a slash and holds no NUL, CR or LF; the arguments
  and the extension lie in the URI. The schema, the host and the port are all unset or delimit what they name: letters, \<^verbatim>\<open>://\<close>,
  a host name or an address in brackets, a colon and digits if there is a port, and there the URI begins, or a space
  stands there and the URI is the single slash before the host. The protocol is unset for 0.9 and points to \<^verbatim>\<open>HTTP/\<close> between
  the URI and the end otherwise. The version is 0.9, and then the method is GET, or between
  1.0 and 999.999; the next byte to read is the one after the LF.
\<close>

theorem ngx_http_parse_request_line_safe:
  assumes "buf_pos b \<le> length (buf_data b)"
    and "feed_parser ngx_http_parse_request_line (rl_sw_start, new_request) b c cs = (NGX_OK, (s, r), b')"
  defines "d \<equiv> buf_data b @ c @ concat cs"
  shows "\<exists>ms me us ue re.
      request_start r = Some ms \<and> method_end r = Some me \<and> uri_start r = Some us
      \<and> uri_end r = Some ue \<and> request_end r = Some re
      \<and> buf_pos b \<le> ms \<and> ms \<le> me \<and> me < us \<and> us < ue \<and> ue \<le> re \<and> re < buf_pos b'
      \<and> buf_pos b' \<le> length d \<and> d ! (buf_pos b' - 1) = LF
      \<and> (\<forall>j. ms \<le> j \<and> j \<le> me \<longrightarrow> is_method_char (d ! j))
      \<and> rq_method r = (case rl_method_code (buf_slice d ms (Suc me)) of
                         None \<Rightarrow> NGX_HTTP_UNKNOWN | Some code \<Rightarrow> code)
      \<and> d ! us = ch_slash \<and> (\<forall>j. us \<le> j \<and> j < ue \<longrightarrow> d ! j \<notin> {ch_NUL, CR, LF})
      \<and> ptr_in us (args_start r) ue \<and> ptr_in us (uri_ext r) ue
      \<and> rq_http_version r = http_major r * 1000 + http_minor r
      \<and> (if http_major r = 0 then http_minor r = 9 \<and> rq_method r = NGX_HTTP_GET
         else http_major r \<le> 999 \<and> http_minor r \<le> 999)
      \<and> rl_target_ok d r re \<and> rl_protocol_ok d r re"
proof -
  obtain rc m' b'' where run: "run_parser rl_step rl_fin (rl_sw_start, new_request) (extend_buf b (c @ concat cs))
      = (rc, m', b'')" by (metis prod_cases3)
  have "agree (seen_on rl_good) (feed_parser ngx_http_parse_request_line (rl_sw_start, new_request) b c cs) (rc, m', b'')"
    using rl.inc.feed_agrees [OF assms(1)] run unfolding ngx_http_parse_request_line_def by metis
  with assms(2) have eq: "rc = NGX_OK" "m' = (s, r)" "buf_pos b'' = buf_pos b'" by (auto simp: agree_def seen_on_def split: if_splits)
  have d: "buf_data (extend_buf b (c @ concat cs)) = d" by (simp add: d_def)
  from assms(1) have le: "buf_pos (extend_buf b (c @ concat cs)) \<le> length (buf_data (extend_buf b (c @ concat cs)))"
    by simp
  from rl_run_ok [OF run [unfolded eq] _ le, unfolded d]
  obtain p where p: "buf_pos b'' = Suc p" "p < length d" "rl_method_ok d (buf_pos b) r p" "rl_version_ok r"
    "d ! p = LF" 
    "\<exists>ue re. uri_end r = Some ue \<and> request_end r = Some re \<and> rl_uri_ok d r ue \<and> ue \<le> re \<and> re \<le> p"
    "rq_http_version r = http_major r * 1000 + http_minor r" "rq_http_version r = 9 \<longrightarrow> rq_method r = NGX_HTTP_GET"
    by (metis extend_buf_simps(2) rl_inv_new_request)
  from rl_run_loc [OF run [unfolded eq] le, unfolded d]
  obtain re0 where loc: "request_end r = Some re0" "rl_target_ok d r re0" "rl_protocol_ok d r re0" .
  from p obtain ms me us ue re where "request_start r = Some ms" "method_end r = Some me" "uri_start r = Some us"
    "uri_end r = Some ue" "request_end r = Some re" "buf_pos b \<le> ms" "ms \<le> me" "me < us" "us < ue" "ue \<le> re" "re \<le> p"
    "\<forall>j. ms \<le> j \<and> j \<le> me \<longrightarrow> is_method_char (d ! j)"
    "rq_method r = (case rl_method_code (buf_slice d ms (Suc me)) of None \<Rightarrow> NGX_HTTP_UNKNOWN | Some code \<Rightarrow> code)"
    "d ! us = ch_slash" and uri: "\<forall>j. us \<le> j \<and> j < ue \<longrightarrow> is_uri_byte (d ! j)"
    and "ptr_in us (args_start r) ue" "ptr_in us (uri_ext r) ue"
    unfolding rl_method_ok_def rl_uri_ok_def by fastforce
  moreover from uri have "\<forall>j. us \<le> j \<and> j < ue \<longrightarrow> d ! j \<notin> {ch_NUL, CR, LF}"
    by (simp add: is_uri_byte_def)
  moreover from p(4,7,8) have "if http_major r = 0 then http_minor r = 9 \<and> rq_method r = NGX_HTTP_GET
         else http_major r \<le> 999 \<and> http_minor r \<le> 999"
    by (auto simp: rl_version_ok_def)
  moreover have "re < buf_pos b'" "buf_pos b' \<le> length d" "d ! (buf_pos b' - 1) = LF"
    using p(1,2,5) \<open>re \<le> p\<close> eq(3) by simp_all
  moreover have "rl_target_ok d r re" "rl_protocol_ok d r re" using loc \<open>request_end r = Some re\<close> by simp_all
  ultimately show ?thesis using p(7)
    by (intro exI [of _ ms] exI [of _ me] exI [of _ us] exI [of _ ue] exI [of _ re] conjI) assumption+
qed

theorem ngx_http_parse_request_line_safe_witness:
  "\<exists>r b'. feed_parser ngx_http_parse_request_line (rl_sw_start, new_request) \<lparr>buf_data = [], buf_pos = 0\<rparr>
       (bytes ''GE'') [bytes ''T http://h/'', bytes ''x.y?z HTTP/1.1'', [CR, LF]] = (NGX_OK, (rl_sw_start, r), b')
     \<and> (\<exists>us ue re. uri_start r = Some us \<and> uri_end r = Some ue \<and> us < ue \<and> ue < buf_pos b'
        \<and> rl_target_ok (bytes ''GET http://h/x.y?z HTTP/1.1'' @ [CR, LF]) r re)"
proof -
  let ?f = "feed_parser ngx_http_parse_request_line (rl_sw_start, new_request) \<lparr>buf_data = [], buf_pos = 0\<rparr>
       (bytes ''GE'') [bytes ''T http://h/'', bytes ''x.y?z HTTP/1.1'', [CR, LF]]"
  have "fst ?f = NGX_OK \<and> fst (fst (snd ?f)) = rl_sw_start" by code_simp
  then obtain r b' where f: "?f = (NGX_OK, (rl_sw_start, r), b')" by (metis prod.collapse)
  from ngx_http_parse_request_line_safe [OF _ this] obtain us ue re where
    "uri_start r = Some us" "uri_end r = Some ue" "us < ue" "ue \<le> re" "re < buf_pos b'"
    "rl_target_ok (bytes ''GET http://h/x.y?z HTTP/1.1'' @ [CR, LF]) r re" by auto
  with f show ?thesis by (meson le_less_trans)
qed

section \<open>What is accepted\<close>

lemma rl_steps_method:
  "\<forall>c\<in>set m. is_method_char c \<Longrightarrow> steps rl_step b (rl_sw_method, r) p m = Some (rl_sw_method, r)"
  by (induction m arbitrary: p) (auto simp: rl_method_def is_method_char_def)

text \<open>The fields that the states of the URI leave alone.\<close>

definition rl_same :: "ngx_http_request_t \<Rightarrow> ngx_http_request_t \<Rightarrow> bool" where
  "rl_same r r' \<longleftrightarrow> request_start r = request_start r' \<and> method_end r = method_end r'
     \<and> rq_method r = rq_method r' \<and> uri_start r = uri_start r' \<and> request_end r = request_end r'"

lemma rl_step_in_uri:
  assumes "s \<in> {rl_sw_after_slash_in_uri, rl_sw_check_uri, rl_sw_uri}" "ch \<notin> {ch_NUL, CR, LF, ch_space}"
  shows "\<exists>s' r'. rl_step b (s, r) p ch = Next (s', r') \<and> rl_same r r'
    \<and> s' \<in> {rl_sw_after_slash_in_uri, rl_sw_check_uri, rl_sw_uri}"
  using assms
  by (auto simp: rl_after_slash_in_uri_def rl_check_uri_def rl_uri_def rl_same_def)

lemma rl_steps_uri:
  "s \<in> {rl_sw_after_slash_in_uri, rl_sw_check_uri, rl_sw_uri} \<Longrightarrow>
   \<forall>c\<in>set u. c \<notin> {ch_NUL, CR, LF, ch_space} \<Longrightarrow>
   \<exists>s' r'. steps rl_step b (s, r) p u = Some (s', r') \<and> rl_same r r'
    \<and> s' \<in> {rl_sw_after_slash_in_uri, rl_sw_check_uri, rl_sw_uri}"
proof (induction u arbitrary: s r p)
  case Nil
  then show ?case by (auto simp: rl_same_def)
next
  case (Cons c u)
  then obtain s1 r1 where 1: "rl_step b (s, r) p c = Next (s1, r1)" "rl_same r r1"
    "s1 \<in> {rl_sw_after_slash_in_uri, rl_sw_check_uri, rl_sw_uri}"
    using rl_step_in_uri [of s c b r p] by fastforce
  with Cons.IH [of s1 r1 "Suc p"] Cons.prems obtain s2 r2 where
    2: "steps rl_step b (s1, r1) (Suc p) u = Some (s2, r2)" "rl_same r1 r2"
    "s2 \<in> {rl_sw_after_slash_in_uri, rl_sw_check_uri, rl_sw_uri}" by fastforce
  from 1 2 have "steps rl_step b (s, r) p (c # u) = Some (s2, r2)" "rl_same r r2"
    by (simp_all add: rl_same_def)
  with 2(3) show ?case by blast
qed

lemma rl_step_uri_space:
  assumes "s \<in> {rl_sw_after_slash_in_uri, rl_sw_check_uri, rl_sw_uri}"
  obtains s1 where "rl_step b (s, r) p ch_space = Next (s1, r\<lparr>uri_end := Some p\<rparr>)"
    "s1 \<in> {rl_sw_check_uri_http_09, rl_sw_http_09}"
  using assms
  by (auto simp: rl_after_slash_in_uri_def rl_check_uri_def rl_uri_def usual_simps)

lemma rl_steps_http:
  assumes "s \<in> {rl_sw_check_uri_http_09, rl_sw_http_09}"
  shows "steps rl_step b (s, r) p [72, 84, 84, 80, 47] =
    Some (rl_sw_first_major_digit, r\<lparr>rq_http_protocol := Some p\<rparr>)"
  using assms
  by (auto simp: rl_check_uri_http_09_def rl_http_09_def rl_expect_def
      rl_http_H_def rl_http_HT_def rl_http_HTT_def rl_http_HTTP_def)

lemma rl_steps_version:
  assumes "is_digit d1" "d1 \<noteq> ch_0" "is_digit d2"
  shows "steps rl_step b (rl_sw_first_major_digit, r) p [d1, ch_dot, d2, CR] =
    Some (rl_sw_almost_done, r\<lparr>http_major := unat d1 - 48, http_minor := unat d2 - 48\<rparr>)"
proof -
  have "\<not> (d1 < ch_1 \<or> d1 > ch_9)" "\<not> (d2 < ch_0 \<or> d2 > ch_9)"
    using assms by (auto simp: is_digit_def word_less_nat_alt word_le_nat_alt word_unat_eq_iff)
  then show ?thesis
    by (simp add: rl_first_major_digit_def rl_major_digit_def rl_first_minor_digit_def rl_minor_digit_def)
qed

lemma rl_steps_line:
  assumes "m \<noteq> []" "\<forall>c\<in>set m. is_method_char c" "\<forall>c\<in>set u. c \<notin> {ch_NUL, CR, LF, ch_space}"
    and "is_digit d1" "d1 \<noteq> ch_0" "is_digit d2" and "drop p b = m @ [ch_space] @ (ch_slash # u) @ ys"
  obtains r where "steps rl_step b (rl_sw_start, new_request) p
      (m @ [ch_space] @ (ch_slash # u) @ bytes '' HTTP/'' @ [d1, ch_dot, d2, CR]) = Some (rl_sw_almost_done, r)"
    "request_start r = Some p" "method_end r = Some (p + length m - 1)"
    "rq_method r = (case rl_method_code m of None \<Rightarrow> NGX_HTTP_UNKNOWN | Some code \<Rightarrow> code)"
    "uri_start r = Some (p + length m + 1)" "uri_end r = Some (p + length m + length u + 2)"
    "http_major r = unat d1 - 48" "http_minor r = unat d2 - 48" "request_end r = None"
proof -
  obtain c m' where m: "m = c # m'" using assms(1) by (cases m) auto
  define r0 where "r0 = new_request\<lparr>request_start := Some p\<rparr>"
  define q where "q = p + length m"
  have slice: "buf_slice b p q = m" using assms(7) by (simp add: buf_slice_def q_def)
  have "is_method_char CR = False" "is_method_char LF = False" by (simp_all add: is_method_char_def)
  then have 1: "steps rl_step b (rl_sw_start, new_request) p m = Some (rl_sw_method, r0)"
    using assms(2) rl_steps_method [of m'] unfolding m r0_def by (auto simp: rl_start_def Let_def)
  define r1 where "r1 = r0\<lparr>method_end := Some (q - 1), 
    rq_method := (case rl_method_code m of None \<Rightarrow> NGX_HTTP_UNKNOWN | Some code \<Rightarrow> code), uri_start := Some (Suc q)\<rparr>"
  have 2: "steps rl_step b (rl_sw_method, r0) q [ch_space, ch_slash] = Some (rl_sw_after_slash_in_uri, r1)"
    using slice by (simp add: rl_method_def Let_def rl_spaces_before_uri_def r1_def r0_def new_request_def split: option.split)
  from rl_steps_uri [of rl_sw_after_slash_in_uri u b r1 "q + 2"] assms(3) obtain s2 r2 where
    3: "steps rl_step b (rl_sw_after_slash_in_uri, r1) (q + 2) u = Some (s2, r2)" "rl_same r1 r2"
    and s2: "s2 \<in> {rl_sw_after_slash_in_uri, rl_sw_check_uri, rl_sw_uri}" by auto
  define e where "e = q + 2 + length u"
  from rl_step_uri_space [OF s2, of b r2 e] obtain s3 where
    4: "rl_step b (s2, r2) e ch_space = Next (s3, r2\<lparr>uri_end := Some e\<rparr>)"
    and s3: "s3 \<in> {rl_sw_check_uri_http_09, rl_sw_http_09}" .
  define r3 where "r3 = r2\<lparr>uri_end := Some e, rq_http_protocol := Some (Suc e),
     http_major := unat d1 - 48, http_minor := unat d2 - 48\<rparr>"
  have "steps rl_step b (s2, r2) e (ch_space # [72, 84, 84, 80, 47] @ [d1, ch_dot, d2, CR]) = Some (rl_sw_almost_done, r3)"
    using 4 rl_steps_http [OF s3] rl_steps_version [OF assms(4-6)]
    by (simp only: steps.simps verdict.case steps_append option.case) (simp add: r3_def)
  moreover have "bytes '' HTTP/'' = ch_space # [72, 84, 84, 80, 47]" by code_simp
  ultimately have 5: "steps rl_step b (s2, r2) (q + 2 + length u) (bytes '' HTTP/'' @ [d1, ch_dot, d2, CR])
      = Some (rl_sw_almost_done, r3)" by (simp only: e_def append_Cons)
  have "steps rl_step b (rl_sw_method, r0) q ([ch_space, ch_slash] @ u @ bytes '' HTTP/'' @ [d1, ch_dot, d2, CR])
      = Some (rl_sw_almost_done, r3)"
    by (rule steps_join [OF 2]) (use steps_join [OF 3(1) 5] in \<open>simp only: list.size add_0_right add_Suc_right One_nat_def numeral_2_eq_2\<close>)
  then have "steps rl_step b (rl_sw_start, new_request) p
      (m @ [ch_space, ch_slash] @ u @ bytes '' HTTP/'' @ [d1, ch_dot, d2, CR]) = Some (rl_sw_almost_done, r3)"
    by (intro steps_join [OF 1]) (simp only: q_def)
  moreover have "rl_same r1 r3" "uri_end r3 = Some e" "http_major r3 = unat d1 - 48" "http_minor r3 = unat d2 - 48"
    using 3(2) by (simp_all add: r3_def rl_same_def)
  ultimately show thesis using that [of r3]
    by (simp add: rl_same_def r1_def r0_def q_def e_def new_request_def)
qed

text \<open>
  C3: every request line of the form \<^verbatim>\<open>METHOD SP /uri SP HTTP/d.d CR LF\<close> whose first version digit is not 0 is accepted, whatever
  precedes it in the buffer and whatever follows, and the parts are found where they are.
\<close>

theorem ngx_http_parse_request_line_accepts:
  assumes "m \<noteq> []" "\<forall>c\<in>set m. is_method_char c" "\<forall>c\<in>set u. c \<notin> {ch_NUL, CR, LF, ch_space}"
    and "is_digit d1" "d1 \<noteq> ch_0" "is_digit d2"
  defines "line \<equiv> m @ [ch_space] @ (ch_slash # u) @ bytes '' HTTP/'' @ [d1, ch_dot, d2, CR, LF]"
  shows "\<exists>r. ngx_http_parse_request_line (rl_sw_start, new_request)
        \<lparr>buf_data = pre @ line @ rest, buf_pos = length pre\<rparr> =
      (NGX_OK, (rl_sw_start, r), \<lparr>buf_data = pre @ line @ rest, buf_pos = length pre + length line\<rparr>)
    \<and> request_start r = Some (length pre) \<and> method_end r = Some (length pre + length m - 1)
    \<and> rq_method r = (case rl_method_code m of None \<Rightarrow> NGX_HTTP_UNKNOWN | Some code \<Rightarrow> code)
    \<and> uri_start r = Some (length pre + length m + 1)
    \<and> uri_end r = Some (length pre + length m + 1 + length (ch_slash # u))
    \<and> request_end r = Some (length pre + length line - 2)
    \<and> rq_http_version r = (unat d1 - 48) * 1000 + (unat d2 - 48)"
proof -
  define b where "b = pre @ line @ rest"
  define xs where "xs = m @ [ch_space] @ (ch_slash # u) @ bytes '' HTTP/'' @ [d1, ch_dot, d2, CR]"
  have dr: "drop (length pre) b = xs @ LF # rest" by (simp add: b_def line_def xs_def)
  have line: "length line = Suc (length xs)" by (simp add: line_def xs_def)
  have "drop (length pre) b = m @ [ch_space] @ (ch_slash # u) @ bytes '' HTTP/'' @ [d1, ch_dot, d2, CR, LF] @ rest"
    by (simp add: b_def line_def)
  from rl_steps_line [OF assms(1-6) this] obtain r where r: "steps rl_step b (rl_sw_start, new_request) (length pre) xs
     = Some (rl_sw_almost_done, r)"
    "request_start r = Some (length pre)" "method_end r = Some (length pre + length m - 1)"
    "rq_method r = (case rl_method_code m of None \<Rightarrow> NGX_HTTP_UNKNOWN | Some code \<Rightarrow> code)"
    "uri_start r = Some (length pre + length m + 1)" "uri_end r = Some (length pre + length m + length u + 2)"
    "http_major r = unat d1 - 48" "http_minor r = unat d2 - 48" "request_end r = None" unfolding xs_def by metis
  define r' where "r' = r\<lparr>request_end := Some (length pre + length xs - 1)\<rparr>"
  have "scan rl_step b (rl_sw_start, new_request) (length pre) = Halt Goto_done (rl_sw_almost_done, r') (length pre + length xs)"
    using dr r(1) by (rule scan_steps_Stop) (simp add: rl_almost_done_def Let_def r'_def)
  moreover have "http_major r \<noteq> 0" using assms(4,5) r(7) by (auto simp: is_digit_def word_le_nat_alt word_unat_eq_iff)
  then have "rl_done r' (length pre + length xs) =
      (NGX_OK, (rl_sw_start, r'\<lparr>rq_http_version := http_major r * 1000 + http_minor r\<rparr>), length pre + length xs + 1)"
    by (simp add: rl_done_def Let_def r'_def)
  ultimately show ?thesis unfolding b_def [symmetric] ngx_http_parse_request_line_def run_parser_def
    using r by (simp add: line r'_def)
qed

theorem ngx_http_parse_request_line_accepts_witness:
  "\<exists>r. ngx_http_parse_request_line (rl_sw_start, new_request)
        \<lparr>buf_data = bytes ''GET /a?b HTTP/1.1'' @ [CR, LF], buf_pos = 0\<rparr> =
      (NGX_OK, (rl_sw_start, r), \<lparr>buf_data = bytes ''GET /a?b HTTP/1.1'' @ [CR, LF], buf_pos = 19\<rparr>)
    \<and> rq_method r = NGX_HTTP_GET \<and> uri_start r = Some 4 \<and> uri_end r = Some 8 \<and> rq_http_version r = 1001"
  using ngx_http_parse_request_line_accepts [of "bytes ''GET''" "bytes ''a?b''" ch_1 ch_1 "[]" "[]"]
  by (fastforce simp: is_method_char_def is_digit_def rl_method_code_def)

end
