(* ===== verification/Ngx_Http_Header_Line.thy ===== *)
theory Ngx_Http_Header_Line
  imports Ngx_Http_Types
begin

text \<open>
  \<^verbatim>\<open>ngx_http_parse_header_line\<close> of \<^verbatim>\<open>http/ngx_http_parse.c\<close>. The machine has the local variables
  \<^verbatim>\<open>state\<close>, \<^verbatim>\<open>hash\<close> and \<^verbatim>\<open>i\<close>, which are \<^verbatim>\<open>r->state\<close>, \<^verbatim>\<open>r->header_hash\<close> and
  \<^verbatim>\<open>r->lowcase_index\<close> between calls, and the rest of the request.
\<close>

section \<open>The machine\<close>

datatype hl_state =
    hl_sw_start | hl_sw_name | hl_sw_space_before_value | hl_sw_value | hl_sw_space_after_value
  | hl_sw_ignore_line | hl_sw_almost_done | hl_sw_header_almost_done

type_synonym hl_machine = "hl_state \<times> 64 word \<times> nat \<times> ngx_http_request_t"
type_synonym hl_verdict = "(hl_machine, parse_exit) verdict"

definition ngx_hash :: "64 word \<Rightarrow> u_char \<Rightarrow> 64 word" where
  "ngx_hash key c = key * 31 + ucast c"

definition lowcase :: "u_char list" where
  "lowcase =
     replicate 32 0 @ replicate 13 0 @ [ch_minus] @ replicate 2 0 @ bytes ''0123456789'' @ replicate 6 0
     @ [0] @ bytes ''abcdefghijklmnopqrstuvwxyz'' @ replicate 5 0
     @ [0] @ bytes ''abcdefghijklmnopqrstuvwxyz'' @ replicate 5 0
     @ replicate 32 0 @ replicate 32 0 @ replicate 32 0 @ replicate 32 0"

definition hl_start :: "bool \<Rightarrow> 64 word \<Rightarrow> nat \<Rightarrow> ngx_http_request_t \<Rightarrow> nat \<Rightarrow> u_char \<Rightarrow> hl_verdict" where
  "hl_start allow_underscores hash i r p ch =
     (let r = r\<lparr>header_name_start := Some p, invalid_header := False\<rparr>; c = lowcase ! unat ch in
      if ch = CR then Next (hl_sw_header_almost_done, hash, i, r\<lparr>header_end := Some p\<rparr>)
      else if ch = LF then Stop Goto_header_done (hl_sw_start, hash, i, r\<lparr>header_end := Some p\<rparr>)
      else if c \<noteq> 0 then
        Next (hl_sw_name, ngx_hash 0 c, 1, r\<lparr>lowcase_header := (lowcase_header r)[0 := c]\<rparr>)
      else if ch = ch_underscore then
        (if allow_underscores
         then Next (hl_sw_name, ngx_hash 0 ch, 1, r\<lparr>lowcase_header := (lowcase_header r)[0 := ch]\<rparr>)
         else Next (hl_sw_name, hash, i, r\<lparr>invalid_header := True\<rparr>))
      else if ch = ch_NUL then Stop (Return NGX_HTTP_PARSE_INVALID_HEADER) (hl_sw_name, hash, i, r)
      else Next (hl_sw_name, hash, i, r\<lparr>invalid_header := True\<rparr>))"

text \<open>\<^verbatim>\<open>r->lowcase_header[i++] = c; i &= (NGX_HTTP_LC_HEADER_LEN - 1);\<close> and the hash.\<close>

definition hl_put :: "64 word \<Rightarrow> nat \<Rightarrow> ngx_http_request_t \<Rightarrow> u_char \<Rightarrow> hl_verdict" where
  "hl_put hash i r c =
     Next (hl_sw_name, ngx_hash hash c, (i + 1) AND (NGX_HTTP_LC_HEADER_LEN - 1),
           r\<lparr>lowcase_header := (lowcase_header r)[i := c]\<rparr>)"

definition hl_name ::
  "bool \<Rightarrow> u_char list \<Rightarrow> 64 word \<Rightarrow> nat \<Rightarrow> ngx_http_request_t \<Rightarrow> nat \<Rightarrow> u_char \<Rightarrow> hl_verdict"
where
  "hl_name allow_underscores b hash i r p ch =
     (let c = lowcase ! unat ch in
      if c \<noteq> 0 then hl_put hash i r c
      else if ch = ch_underscore then
        (if allow_underscores then hl_put hash i r ch
         else Next (hl_sw_name, hash, i, r\<lparr>invalid_header := True\<rparr>))
      else if ch = ch_colon then Next (hl_sw_space_before_value, hash, i, r\<lparr>header_name_end := Some p\<rparr>)
      else if ch = CR then
        Next (hl_sw_almost_done, hash, i,
              r\<lparr>header_name_end := Some p, header_start := Some p, header_end := Some p\<rparr>)
      else if ch = LF then
        Stop Goto_done (hl_sw_name, hash, i,
              r\<lparr>header_name_end := Some p, header_start := Some p, header_end := Some p\<rparr>)
      else if ch = ch_slash \<and> rq_upstream r
           \<and> (case header_name_start r of None \<Rightarrow> False
              | Some s \<Rightarrow> p - s = 4 \<and> buf_slice b s (s + 4) = bytes ''HTTP'')
      then Next (hl_sw_ignore_line, hash, i, r)
      else if ch = ch_NUL then Stop (Return NGX_HTTP_PARSE_INVALID_HEADER) (hl_sw_name, hash, i, r)
      else Next (hl_sw_name, hash, i, r\<lparr>invalid_header := True\<rparr>))"

definition hl_space_before_value :: "64 word \<Rightarrow> nat \<Rightarrow> ngx_http_request_t \<Rightarrow> nat \<Rightarrow> u_char \<Rightarrow> hl_verdict" where
  "hl_space_before_value hash i r p ch =
     (if ch = ch_space then Next (hl_sw_space_before_value, hash, i, r)
      else if ch = CR then
        Next (hl_sw_almost_done, hash, i, r\<lparr>header_start := Some p, header_end := Some p\<rparr>)
      else if ch = LF then
        Stop Goto_done (hl_sw_space_before_value, hash, i, r\<lparr>header_start := Some p, header_end := Some p\<rparr>)
      else if ch = ch_NUL then
        Stop (Return NGX_HTTP_PARSE_INVALID_HEADER) (hl_sw_space_before_value, hash, i, r)
      else Next (hl_sw_value, hash, i, r\<lparr>header_start := Some p\<rparr>))"

definition hl_value :: "64 word \<Rightarrow> nat \<Rightarrow> ngx_http_request_t \<Rightarrow> nat \<Rightarrow> u_char \<Rightarrow> hl_verdict" where
  "hl_value hash i r p ch =
     (if ch = ch_space then Next (hl_sw_space_after_value, hash, i, r\<lparr>header_end := Some p\<rparr>)
      else if ch = CR then Next (hl_sw_almost_done, hash, i, r\<lparr>header_end := Some p\<rparr>)
      else if ch = LF then Stop Goto_done (hl_sw_value, hash, i, r\<lparr>header_end := Some p\<rparr>)
      else if ch = ch_NUL then Stop (Return NGX_HTTP_PARSE_INVALID_HEADER) (hl_sw_value, hash, i, r)
      else Next (hl_sw_value, hash, i, r))"

definition hl_space_after_value :: "64 word \<Rightarrow> nat \<Rightarrow> ngx_http_request_t \<Rightarrow> nat \<Rightarrow> u_char \<Rightarrow> hl_verdict" where
  "hl_space_after_value hash i r p ch =
     (if ch = ch_space then Next (hl_sw_space_after_value, hash, i, r)
      else if ch = CR then Next (hl_sw_almost_done, hash, i, r)
      else if ch = LF then Stop Goto_done (hl_sw_space_after_value, hash, i, r)
      else if ch = ch_NUL then
        Stop (Return NGX_HTTP_PARSE_INVALID_HEADER) (hl_sw_space_after_value, hash, i, r)
      else Next (hl_sw_value, hash, i, r))"

definition hl_ignore_line :: "64 word \<Rightarrow> nat \<Rightarrow> ngx_http_request_t \<Rightarrow> nat \<Rightarrow> u_char \<Rightarrow> hl_verdict" where
  "hl_ignore_line hash i r p ch =
     (if ch = LF then Next (hl_sw_start, hash, i, r) else Next (hl_sw_ignore_line, hash, i, r))"

definition hl_almost_done :: "64 word \<Rightarrow> nat \<Rightarrow> ngx_http_request_t \<Rightarrow> nat \<Rightarrow> u_char \<Rightarrow> hl_verdict" where
  "hl_almost_done hash i r p ch =
     (if ch = LF then Stop Goto_done (hl_sw_almost_done, hash, i, r)
      else if ch = CR then Next (hl_sw_almost_done, hash, i, r)
      else Stop (Return NGX_HTTP_PARSE_INVALID_HEADER) (hl_sw_almost_done, hash, i, r))"

definition hl_header_almost_done :: "64 word \<Rightarrow> nat \<Rightarrow> ngx_http_request_t \<Rightarrow> nat \<Rightarrow> u_char \<Rightarrow> hl_verdict" where
  "hl_header_almost_done hash i r p ch =
     (if ch = LF then Stop Goto_header_done (hl_sw_header_almost_done, hash, i, r)
      else Stop (Return NGX_HTTP_PARSE_INVALID_HEADER) (hl_sw_header_almost_done, hash, i, r))"

fun hl_step :: "bool \<Rightarrow> (hl_machine, parse_exit) step" where
  "hl_step allow_underscores b (s, hash, i, r) p ch =
     (case s of
        hl_sw_start \<Rightarrow> hl_start allow_underscores hash i r p ch
      | hl_sw_name \<Rightarrow> hl_name allow_underscores b hash i r p ch
      | hl_sw_space_before_value \<Rightarrow> hl_space_before_value hash i r p ch
      | hl_sw_value \<Rightarrow> hl_value hash i r p ch
      | hl_sw_space_after_value \<Rightarrow> hl_space_after_value hash i r p ch
      | hl_sw_ignore_line \<Rightarrow> hl_ignore_line hash i r p ch
      | hl_sw_almost_done \<Rightarrow> hl_almost_done hash i r p ch
      | hl_sw_header_almost_done \<Rightarrow> hl_header_almost_done hash i r p ch)"

text \<open>
  The code after the labels \<^verbatim>\<open>done\<close> and \<^verbatim>\<open>header_done\<close>, and the error returns. The label
  \<^verbatim>\<open>header_done\<close> does not store \<^verbatim>\<open>hash\<close> and \<^verbatim>\<open>i\<close>.
\<close>

fun hl_fin :: "hl_machine \<Rightarrow> nat \<Rightarrow> parse_exit \<Rightarrow> hl_machine \<Rightarrow> nat \<Rightarrow> int \<times> hl_machine \<times> nat" where
  "hl_fin (s0, hash0, i0, r0) pos Goto_done (s, hash, i, r) p = (NGX_OK, (hl_sw_start, hash, i, r), p + 1)"
| "hl_fin (s0, hash0, i0, r0) pos Goto_header_done (s, hash, i, r) p =
     (NGX_HTTP_PARSE_HEADER_DONE, (hl_sw_start, hash0, i0, r), p + 1)"
| "hl_fin (s0, hash0, i0, r0) pos (Return rc) (s, hash, i, r) p = (rc, (s0, hash0, i0, r), pos)"

definition ngx_http_parse_header_line ::
  "bool \<Rightarrow> hl_machine \<Rightarrow> ngx_buf_t \<Rightarrow> int \<times> hl_machine \<times> ngx_buf_t"
where
  "ngx_http_parse_header_line allow_underscores = run_parser (hl_step allow_underscores) hl_fin"

lemmas hl_defs = hl_start_def hl_put_def hl_name_def hl_space_before_value_def hl_value_def
  hl_space_after_value_def hl_ignore_line_def hl_almost_done_def hl_header_almost_done_def

section \<open>Resuming\<close>

lemma hl_step_Return: "hl_step au b m p ch = Stop (Return rc) m' \<Longrightarrow> rc = NGX_HTTP_PARSE_INVALID_HEADER"
  by (cases m; cases "fst m") (auto simp: hl_defs Let_def split: if_splits option.splits)

lemma hl_step_append: "q < length b \<Longrightarrow> hl_step au (b @ c) m q ch = hl_step au b m q ch"
  by (cases m) (auto simp: hl_name_def split: hl_state.split option.split)

text \<open>
  What the caller sees: everything after \<^verbatim>\<open>NGX_OK\<close> and \<^verbatim>\<open>NGX_AGAIN\<close>, everything but the
  hash and the index, which belong to no header, after \<^verbatim>\<open>NGX_HTTP_PARSE_HEADER_DONE\<close>, and
  only the code of an error.
\<close>

definition hl_view :: "int \<Rightarrow> hl_machine \<Rightarrow> nat \<Rightarrow> ((hl_state \<times> (64 word \<times> nat) option \<times> ngx_http_request_t) \<times> nat) option" where
  "hl_view rc m pos = (case m of (s, hash, i, r) \<Rightarrow>
     if rc = NGX_OK \<or> rc = NGX_AGAIN then Some ((s, Some (hash, i), r), pos)
     else if rc = NGX_HTTP_PARSE_HEADER_DONE then Some ((s, None, r), pos)
     else None)"

interpretation hl: framed_parser "hl_step au" hl_fin hl_view
  for au
proof
  fix b m p ch x m' m0 p0
  assume "hl_step au b m p ch = Stop x m'"
  then show "fst (hl_fin m0 p0 x m' p) \<noteq> NGX_AGAIN"
    by (cases x; cases m0; cases m') (auto dest!: hl_step_Return)
next
  fix b m p ch x m' m0 p0 m1 p1 rc0 s0 q0 rc1 s1 q1
  assume "hl_step au b m p ch = Stop x m'" "hl_fin m0 p0 x m' p = (rc0, s0, q0)" "hl_fin m1 p1 x m' p = (rc1, s1, q1)"
  then show "rc0 = rc1 \<and> hl_view rc0 s0 q0 = hl_view rc1 s1 q1"
    by (cases x; cases m0; cases m1; cases m') (auto simp: hl_view_def dest!: hl_step_Return)
qed (rule hl_step_append)

text \<open>
  \<^verbatim>\<open>ngx_http_parse_header_line\<close> gives the same result however the header is cut into
  fragments: the code, the request and the position, and the hash and the index of the header.
\<close>

lemma ngx_http_parse_header_line_incremental:
  "buf_pos b \<le> length (buf_data b) \<Longrightarrow>
     agree hl_view
       (feed_parser (ngx_http_parse_header_line au) m b c cs)
       (ngx_http_parse_header_line au m (extend_buf b (c @ concat cs)))"
  unfolding ngx_http_parse_header_line_def by (rule hl.inc.feed_agrees)

section \<open>What is accepted\<close>

text \<open>The characters of a header name, and the lower case of a character.\<close>

definition header_char :: "bool \<Rightarrow> u_char \<Rightarrow> bool" where
  "header_char allow_underscores c \<longleftrightarrow>
     is_digit c \<or> is_alpha c \<or> c = ch_minus \<or> (allow_underscores \<and> c = ch_underscore)"

definition to_lower :: "u_char \<Rightarrow> u_char" where
  "to_lower c = (if is_alpha c then lcase c else c)"

definition hash_of :: "u_char list \<Rightarrow> 64 word" where
  "hash_of cs = fold (\<lambda>c h. ngx_hash h c) cs 0"

lemma lowcase_spec:
  "lowcase ! unat c = (if is_digit c \<or> is_alpha c \<or> c = ch_minus then to_lower c else 0)"
  by (rule table_lookup [where f = "\<lambda>c. if is_digit c \<or> is_alpha c \<or> c = ch_minus then to_lower c else 0"]) code_simp

lemma header_char_cases:
  assumes "header_char au c"
  obtains "lowcase ! unat c = to_lower c" "to_lower c \<noteq> 0" "c \<noteq> CR" "c \<noteq> LF"
  | "au" "c = ch_underscore" "lowcase ! unat c = 0" "to_lower c = c"
  using assms lowcase_spec [of c]
proof (cases "c = ch_underscore")
  case False
  then have c: "is_digit c \<or> is_alpha c \<or> c = ch_minus" using assms by (auto simp: header_char_def)
  moreover have "to_lower c \<noteq> 0"
  proof -
    have "to_lower c = 0 \<Longrightarrow> c = 0"
      unfolding to_lower_def lcase_def by (metis or_eq_0_iff)
    then show ?thesis using c by (auto simp: is_digit_def is_alpha_def lcase_def)
  qed
  moreover have "c \<noteq> CR" "c \<noteq> LF" using c by (auto simp: is_digit_def is_alpha_def lcase_def)
  ultimately show thesis using lowcase_spec [of c] that(1) by simp
next
  case True
  then show thesis using assms lowcase_spec [of c] that(2)
    by (auto simp: header_char_def is_digit_def is_alpha_def lcase_def to_lower_def)
qed

fun ring_write :: "u_char list \<Rightarrow> nat \<Rightarrow> u_char list \<Rightarrow> u_char list" where
  "ring_write lh i [] = lh"
| "ring_write lh i (c # cs) = ring_write (lh[i := c]) (Suc i mod 32) cs"

lemma hl_step_name:
  assumes "header_char au c"
  shows "hl_step au b (hl_sw_name, hash, i, r) p c =
    Next (hl_sw_name, ngx_hash hash (to_lower c), Suc i mod 32, r\<lparr>lowcase_header := (lowcase_header r)[i := to_lower c]\<rparr>)"
proof -
  have "Suc i AND 31 = Suc i mod 32"
    using take_bit_eq_mask [of 5 "Suc i"] by (simp add: take_bit_eq_mod mask_eq_exp_minus_1)
  with assms show ?thesis
    by (elim header_char_cases) (simp_all add: hl_name_def hl_put_def Let_def)
qed

lemma hl_step_start:
  assumes "header_char au c"
  shows "hl_step au b (hl_sw_start, hash, i, r) p c =
    Next (hl_sw_name, ngx_hash 0 (to_lower c), 1, r\<lparr>header_name_start := Some p, invalid_header := False,
      lowcase_header := (lowcase_header r)[0 := to_lower c]\<rparr>)"
  using assms by (elim header_char_cases) (simp_all add: hl_start_def Let_def)

lemma hl_steps_name:
  "\<forall>c\<in>set n. header_char au c \<Longrightarrow> i < 32 \<Longrightarrow>
   steps (hl_step au) b (hl_sw_name, hash, i, r) p n =
     Some (hl_sw_name, fold (\<lambda>c h. ngx_hash h c) (map to_lower n) hash, (i + length n) mod 32,
       r\<lparr>lowcase_header := ring_write (lowcase_header r) i (map to_lower n)\<rparr>)"
  by (induction n arbitrary: hash i r p) (auto simp: hl_step_name mod_simps simp del: hl_step.simps)

lemma length_ring_write [simp]: "length (ring_write lh i cs) = length lh"
  by (induction lh i cs rule: ring_write.induct) auto

lemma ring_write_nth:
  "i + length cs \<le> 32 \<Longrightarrow> length lh = 32 \<Longrightarrow> k < 32 \<Longrightarrow>
     ring_write lh i cs ! k = (if i \<le> k \<and> k < i + length cs then cs ! (k - i) else lh ! k)"
proof (induction cs arbitrary: lh i)
  case Nil
  then show ?case by auto
next
  case (Cons c cs)
  show ?case
  proof (cases "cs = []")
    case True
    with Cons.prems show ?thesis by (auto simp: nth_list_update)
  next
    case False
    with Cons.prems have "Suc i mod 32 = Suc i" by (cases cs) auto
    with Cons.prems Cons.IH [of "Suc i" "lh[i := c]"] show ?thesis
      by (auto simp: nth_list_update nth_Cons' not_less)
  qed
qed

lemma take_ring_write:
  assumes "length cs \<le> 32" "length lh = 32"
  shows "take (length cs) (ring_write lh 0 cs) = cs"
  using assms by (intro nth_equalityI) (auto simp: ring_write_nth)

lemma hl_step_in_value:
  assumes "s \<in> {hl_sw_value, hl_sw_space_after_value}" "c \<notin> {ch_NUL, CR, LF}"
  shows "\<exists>e. hl_step au b (s, hash, i, r) p c =
    Next (if c = ch_space then hl_sw_space_after_value else hl_sw_value, hash, i, r\<lparr>header_end := e\<rparr>)"
  using assms
  by (intro exI [of _ "if s = hl_sw_value \<and> c = ch_space then Some p else header_end r"])
    (auto simp: hl_value_def hl_space_after_value_def)

lemma hl_steps_value:
  "\<forall>c\<in>set v. c \<notin> {ch_NUL, CR, LF} \<Longrightarrow> v \<noteq> [] \<Longrightarrow> s \<in> {hl_sw_value, hl_sw_space_after_value} \<Longrightarrow>
   \<exists>e. steps (hl_step au) b (s, hash, i, r) p v =
     Some (if last v = ch_space then hl_sw_space_after_value else hl_sw_value, hash, i, r\<lparr>header_end := e\<rparr>)"
proof (induction v arbitrary: s r p)
  case Nil
  then show ?case by simp
next
  case (Cons c v)
  obtain e where e: "hl_step au b (s, hash, i, r) p c =
    Next (if c = ch_space then hl_sw_space_after_value else hl_sw_value, hash, i, r\<lparr>header_end := e\<rparr>)"
    using hl_step_in_value [of s c] Cons.prems by fastforce
  show ?case
  proof (cases "v = []")
    case True
    with e show ?thesis by (auto simp del: hl_step.simps)
  next
    case False
    with Cons.IH [of "if c = ch_space then hl_sw_space_after_value else hl_sw_value" "r\<lparr>header_end := e\<rparr>" "Suc p"]
      Cons.prems e show ?thesis by (simp del: hl_step.simps)
  qed
qed

lemma hl_steps_spaces:
  "steps (hl_step au) b (hl_sw_space_before_value, hash, i, r) p (replicate k ch_space) =
     Some (hl_sw_space_before_value, hash, i, r)"
  "steps (hl_step au) b (hl_sw_space_after_value, hash, i, r) p (replicate k ch_space) =
     Some (hl_sw_space_after_value, hash, i, r)"
  by (induction k arbitrary: p) (simp_all add: hl_space_before_value_def hl_space_after_value_def)

text \<open>The value and the spaces behind it.\<close>

lemma hl_steps_to_value:
  assumes v: "\<forall>c\<in>set v. c \<notin> {ch_NUL, CR, LF}" "v \<noteq> []" "hd v \<noteq> ch_space" "last v \<noteq> ch_space"
  shows "\<exists>e. steps (hl_step au) b (hl_sw_space_before_value, hash, i, r) p v =
    Some (hl_sw_value, hash, i, r\<lparr>header_start := Some p, header_end := e\<rparr>)"
proof -
  obtain c v' where cv: "v = c # v'" using v(2) by (cases v) auto
  define r' where "r' = r\<lparr>header_start := Some p\<rparr>"
  have c: "hl_step au b (hl_sw_space_before_value, hash, i, r) p c = Next (hl_sw_value, hash, i, r')"
    using v cv by (auto simp: hl_space_before_value_def r'_def)
  show ?thesis
  proof (cases "v' = []")
    case True
    with c cv show ?thesis
      by (intro exI [of _ "header_end r"]) (simp add: r'_def del: hl_step.simps)
  next
    case False
    with hl_steps_value [of v' hl_sw_value au b hash i r' "Suc p"] v cv c show ?thesis
      by (auto simp: r'_def simp del: hl_step.simps)
  qed
qed

lemma hl_steps_value_spaces:
  assumes "\<forall>c\<in>set v. c \<notin> {ch_NUL, CR, LF}" "v \<noteq> []" "hd v \<noteq> ch_space" "last v \<noteq> ch_space"
  shows "\<exists>s e. steps (hl_step au) b (hl_sw_space_before_value, hash, i, r) p (v @ replicate k ch_space) =
      Some (s, hash, i, r\<lparr>header_start := Some p, header_end := e\<rparr>) \<and>
      (s = hl_sw_value \<and> k = 0 \<or> s = hl_sw_space_after_value \<and> e = Some (p + length v))"
proof -
  obtain e where 1: "steps (hl_step au) b (hl_sw_space_before_value, hash, i, r) p v =
    Some (hl_sw_value, hash, i, r\<lparr>header_start := Some p, header_end := e\<rparr>)"
    using hl_steps_to_value [OF assms] by blast
  show ?thesis
  proof (cases k)
    case 0
    with 1 show ?thesis by auto
  next
    case (Suc k')
    let ?r = "r\<lparr>header_start := Some p, header_end := Some (p + length v)\<rparr>"
    have "steps (hl_step au) b (hl_sw_value, hash, i, r\<lparr>header_start := Some p, header_end := e\<rparr>)
        (p + length v) (replicate k ch_space) = Some (hl_sw_space_after_value, hash, i, ?r)"
      using hl_steps_spaces(2) [of au b hash i ?r "Suc (p + length v)" k'] by (simp add: Suc hl_value_def)
    with steps_join [OF 1] show ?thesis by blast
  qed
qed

text \<open>The end of the line, reached in a state that knows the end of the value.\<close>

lemma hl_scan_eol:
  assumes "drop p b = xs @ eol @ ys" "eol = [LF] \<or> eol = [CR, LF]"
    and xs: "steps (hl_step au) b m p xs = Some m1"
    and "hl_step au b m1 (p + length xs) LF = Stop Goto_done (s, hash, i, r)"
    and cr: "hl_step au b m1 (p + length xs) CR = Next (hl_sw_almost_done, hash, i, r)"
  shows "\<exists>s. scan (hl_step au) b m p = Halt Goto_done (s, hash, i, r) (p + length xs + length eol - 1)"
  using assms(2)
proof
  assume e: "eol = [LF]"
  with scan_steps_Stop [OF _ xs assms(4), of ys] assms(1) show ?thesis by auto
next
  assume e: "eol = [CR, LF]"
  have "steps (hl_step au) b m p (xs @ [CR]) = Some (hl_sw_almost_done, hash, i, r)"
    by (rule steps_join [OF xs]) (simp only: cr steps.simps verdict.case)
  from scan_steps_Stop [OF _ this, of LF ys Goto_done "(hl_sw_almost_done, hash, i, r)"] e assms(1)
  show ?thesis by (simp add: hl_almost_done_def)
qed

lemma hl_scan_value:
  assumes d: "drop p b = replicate j ch_space @ v @ replicate k ch_space @ eol @ ys"
    and v: "\<forall>c\<in>set v. c \<notin> {ch_NUL, CR, LF}" "v = [] \<longrightarrow> k = 0"
      "v \<noteq> [] \<longrightarrow> hd v \<noteq> ch_space \<and> last v \<noteq> ch_space"
    and eol: "eol = [LF] \<or> eol = [CR, LF]"
  shows "\<exists>s. scan (hl_step au) b (hl_sw_space_before_value, hash, i, r) p =
    Halt Goto_done (s, hash, i, r\<lparr>header_start := Some (p + j), header_end := Some (p + j + length v)\<rparr>)
      (p + j + length v + k + length eol - 1)"
proof (cases "v = []")
  case True
  from True d v(2) have "drop p b = replicate j ch_space @ eol @ ys" by simp
  from hl_scan_eol [OF this eol hl_steps_spaces(1)] True v(2) show ?thesis
    by (simp add: hl_space_before_value_def)
next
  case False
  let ?xs = "replicate j ch_space @ v @ replicate k ch_space"
  from False v hl_steps_value_spaces [of v au b hash i r "p + j" k] obtain s e where
    "steps (hl_step au) b (hl_sw_space_before_value, hash, i, r) (p + j) (v @ replicate k ch_space) =
      Some (s, hash, i, r\<lparr>header_start := Some (p + j), header_end := e\<rparr>)"
    and s: "s = hl_sw_value \<and> k = 0 \<or> s = hl_sw_space_after_value \<and> e = Some (p + j + length v)" by auto
  then have "steps (hl_step au) b (hl_sw_space_before_value, hash, i, r) p ?xs =
      Some (s, hash, i, r\<lparr>header_start := Some (p + j), header_end := e\<rparr>)"
    by (intro steps_join [OF hl_steps_spaces(1)]) simp
  from hl_scan_eol [OF _ eol this, of ys s hash i
      "r\<lparr>header_start := Some (p + j), header_end := Some (p + j + length v)\<rparr>"] d s show ?thesis
    by (auto simp: hl_value_def hl_space_after_value_def add.assoc)
qed

text \<open>
  C5: a header line \<^verbatim>\<open>Name: value\<close> is accepted with any number of spaces around the value
  and with CR LF or LF at its end; the pointers delimit exactly the name and the value without the
  spaces around it, the header is valid, and the hash is the hash of the lower-case name,
  of which \<^verbatim>\<open>lowcase_header\<close> holds a copy when it fits.
\<close>

theorem ngx_http_parse_header_line_accepts:
  fixes j :: nat
  assumes "n \<noteq> []" "\<forall>c\<in>set n. header_char au c" "length (lowcase_header r) = NGX_HTTP_LC_HEADER_LEN"
    and "\<forall>c\<in>set v. c \<notin> {ch_NUL, CR, LF}" "v = [] \<longrightarrow> k = 0" "v \<noteq> [] \<longrightarrow> hd v \<noteq> ch_space \<and> last v \<noteq> ch_space"
    and "eol = [LF] \<or> eol = [CR, LF]"
  defines "line \<equiv> n @ [ch_colon] @ replicate j ch_space @ v @ replicate k ch_space @ eol"
  shows "\<exists>lh. ngx_http_parse_header_line au (hl_sw_start, hash, i, r)
        \<lparr>buf_data = pre @ line @ rest, buf_pos = length pre\<rparr> =
      (NGX_OK,
       (hl_sw_start, hash_of (map to_lower n), length n mod NGX_HTTP_LC_HEADER_LEN,
        r\<lparr>invalid_header := False, lowcase_header := lh,
          header_name_start := Some (length pre), header_name_end := Some (length pre + length n),
          header_start := Some (length pre + length n + 1 + j),
          header_end := Some (length pre + length n + 1 + j + length v)\<rparr>),
       \<lparr>buf_data = pre @ line @ rest, buf_pos = length pre + length line\<rparr>)
    \<and> length lh = NGX_HTTP_LC_HEADER_LEN
    \<and> (length n \<le> NGX_HTTP_LC_HEADER_LEN \<longrightarrow> take (length n) lh = map to_lower n)"
proof -
  define b where "b = pre @ line @ rest"
  define lh where "lh = ring_write (lowcase_header r) 0 (map to_lower n)"
  let ?h = "hash_of (map to_lower n)" and ?i = "length n mod 32"
  let ?r = "r\<lparr>header_name_start := Some (length pre), invalid_header := False, lowcase_header := lh\<rparr>"
  obtain c n' where n: "n = c # n'" using assms(1) by (cases n) auto
  have "steps (hl_step au) b (hl_sw_start, hash, i, r) (length pre) n = Some (hl_sw_name, ?h, ?i, ?r)"
    using assms(2) hl_steps_name [of n' au 1] unfolding n lh_def
    by (simp add: hl_step_start hash_of_def del: hl_step.simps)
  moreover have "lowcase ! unat ch_colon = 0"
    using lowcase_spec [of ch_colon] by (simp add: is_digit_def is_alpha_def lcase_def)
  ultimately have "steps (hl_step au) b (hl_sw_start, hash, i, r) (length pre) (n @ [ch_colon]) =
      Some (hl_sw_space_before_value, ?h, ?i, ?r\<lparr>header_name_end := Some (length pre + length n)\<rparr>)"
    by (intro steps_join) (auto simp: hl_name_def)
  from scan_steps [OF _ this, of "replicate j ch_space @ v @ replicate k ch_space @ eol @ rest"]
  have sc: "scan (hl_step au) b (hl_sw_start, hash, i, r) (length pre) =
      scan (hl_step au) b (hl_sw_space_before_value, ?h, ?i, ?r\<lparr>header_name_end := Some (length pre + length n)\<rparr>)
        (length pre + length n + 1)"
    and d: "drop (length pre + length n + 1) b = replicate j ch_space @ v @ replicate k ch_space @ eol @ rest"
    by (simp_all add: b_def line_def)
  from hl_scan_value [OF d assms(4-7)] sc obtain s where
    "scan (hl_step au) b (hl_sw_start, hash, i, r) (length pre) =
      Halt Goto_done (s, ?h, ?i, ?r\<lparr>header_name_end := Some (length pre + length n),
          header_start := Some (length pre + length n + 1 + j),
          header_end := Some (length pre + length n + 1 + j + length v)\<rparr>)
        (length pre + length n + 1 + j + length v + k + length eol - 1)" by metis
  moreover have "length pre + length n + 1 + j + length v + k + length eol - 1 + 1 = length pre + length line"
    using assms(7) by (auto simp: line_def)
  ultimately show ?thesis
    unfolding b_def [symmetric] ngx_http_parse_header_line_def run_parser_def
    using take_ring_write [of "map to_lower n" "lowcase_header r"] assms(3)
    by (intro exI [of _ lh]) (simp add: lh_def)
qed

lemma new_request_simps: "length (lowcase_header new_request) = NGX_HTTP_LC_HEADER_LEN"
  by (simp add: new_request_def)

theorem ngx_http_parse_header_line_accepts_witness:
  "\<exists>lh. ngx_http_parse_header_line False (hl_sw_start, 0, 0, new_request)
        \<lparr>buf_data = bytes ''Host: a b '' @ [CR, LF], buf_pos = 0\<rparr> =
      (NGX_OK, (hl_sw_start, hash_of (bytes ''host''), 4,
        new_request\<lparr>invalid_header := False, lowcase_header := lh, header_name_start := Some 0, header_name_end := Some 4,
          header_start := Some 6, header_end := Some 9\<rparr>),
       \<lparr>buf_data = bytes ''Host: a b '' @ [CR, LF], buf_pos = 12\<rparr>)
    \<and> take 4 lh = bytes ''host''"
  using ngx_http_parse_header_line_accepts 
    [where n = "bytes ''Host''" and au = False and r = new_request and v = "bytes ''a b''" and k = 1
      and eol = "[CR, LF]" and j = 1 and hash = 0 and i = 0 and pre = "[]" and rest = "[]"]
    new_request_simps
  by (auto simp: header_char_def to_lower_def is_digit_def is_alpha_def lcase_def replicate_one Suc_eq_plus1
      simp del: One_nat_def)

section \<open>Where the pointers point\<close>

definition clean :: "u_char list \<Rightarrow> nat \<Rightarrow> nat \<Rightarrow> bool" where
  "clean b i j \<longleftrightarrow> (\<forall>k. i \<le> k \<and> k < j \<longrightarrow> b ! k \<notin> {ch_NUL, CR, LF})"

definition name_ok :: "bool \<Rightarrow> u_char list \<Rightarrow> nat \<Rightarrow> nat \<Rightarrow> bool \<Rightarrow> 64 word \<Rightarrow> bool" where
  "name_ok au b i j invalid hash \<longleftrightarrow> invalid \<or>
     (\<forall>k. i \<le> k \<and> k < j \<longrightarrow> header_char au (b ! k)) \<and> hash = hash_of (map to_lower (buf_slice b i j))"

definition hl_inv :: "bool \<Rightarrow> u_char list \<Rightarrow> nat \<Rightarrow> hl_machine \<Rightarrow> nat \<Rightarrow> bool" where
  "hl_inv au b p0 m p \<longleftrightarrow> (case m of (s, hash, i, r) \<Rightarrow>
     length (lowcase_header r) = NGX_HTTP_LC_HEADER_LEN \<and> i < NGX_HTTP_LC_HEADER_LEN \<and> p0 \<le> p
     \<and> (s \<in> {hl_sw_start, hl_sw_ignore_line, hl_sw_header_almost_done} \<or>
        (\<exists>ns. header_name_start r = Some ns \<and> p0 \<le> ns \<and> ns < p
          \<and> (if s = hl_sw_name then clean b ns p \<and> name_ok au b ns p (invalid_header r) hash
             else \<exists>ne. header_name_end r = Some ne \<and> ns < ne \<and> ne < p \<and> clean b ns ne
               \<and> name_ok au b ns ne (invalid_header r) hash
               \<and> (s = hl_sw_space_before_value \<or>
                  (\<exists>hs. header_start r = Some hs \<and> ne \<le> hs \<and> hs < p
                     \<and> (if s = hl_sw_value then clean b hs p
                        else \<exists>he. header_end r = Some he \<and> hs \<le> he \<and> he < p \<and> clean b hs he
                          \<and> (s = hl_sw_space_after_value \<longrightarrow> clean b hs p))))))))"

definition hl_exit :: "bool \<Rightarrow> u_char list \<Rightarrow> nat \<Rightarrow> parse_exit \<Rightarrow> hl_machine \<Rightarrow> nat \<Rightarrow> bool" where
  "hl_exit au b p0 x m p \<longleftrightarrow> (case m of (s, hash, i, r) \<Rightarrow> x = Goto_done \<longrightarrow>
     length (lowcase_header r) = NGX_HTTP_LC_HEADER_LEN \<and> i < NGX_HTTP_LC_HEADER_LEN \<and> b ! p = LF
     \<and> (\<exists>ns ne hs he. header_name_start r = Some ns \<and> header_name_end r = Some ne
          \<and> header_start r = Some hs \<and> header_end r = Some he
          \<and> p0 \<le> ns \<and> ns < ne \<and> ne \<le> hs \<and> hs \<le> he \<and> he \<le> p
          \<and> clean b ns ne \<and> clean b hs he \<and> name_ok au b ns ne (invalid_header r) hash))"

lemma clean_simps [simp]: "clean b i i" "clean b i (Suc j) \<longleftrightarrow> (i \<le> j \<longrightarrow> b ! j \<notin> {ch_NUL, CR, LF}) \<and> clean b i j"
  by (auto simp: clean_def less_Suc_eq)

lemma name_ok_one:
  assumes "p < length b" "header_char au (b ! p)"
  shows "name_ok au b p (Suc p) f (ngx_hash 0 (to_lower (b ! p)))"
  using assms by (auto simp: name_ok_def buf_slice_Suc hash_of_def less_Suc_eq) (simp add: buf_slice_def)

lemma name_ok_Suc:
  assumes "name_ok au b i p f hash" "p < length b" "i \<le> p" "header_char au (b ! p)"
  shows "name_ok au b i (Suc p) f (ngx_hash hash (to_lower (b ! p)))"
  using assms by (auto simp: name_ok_def buf_slice_Suc hash_of_def less_Suc_eq)

lemma header_char_clean: "header_char au c \<Longrightarrow> c \<notin> {ch_NUL, CR, LF}"
  by (auto simp: header_char_def is_digit_def is_alpha_def lcase_def)

lemma hl_step_name_other:
  assumes "\<not> header_char au ch"
  shows "hl_step au b (hl_sw_name, hash, i, r) p ch =
    (if ch = ch_colon then Next (hl_sw_space_before_value, hash, i, r\<lparr>header_name_end := Some p\<rparr>)
     else if ch = CR then
        Next (hl_sw_almost_done, hash, i,
              r\<lparr>header_name_end := Some p, header_start := Some p, header_end := Some p\<rparr>)
     else if ch = LF then
        Stop Goto_done (hl_sw_name, hash, i,
              r\<lparr>header_name_end := Some p, header_start := Some p, header_end := Some p\<rparr>)
     else if ch = ch_slash \<and> rq_upstream r
           \<and> (case header_name_start r of None \<Rightarrow> False
              | Some s \<Rightarrow> p - s = 4 \<and> buf_slice b s (s + 4) = bytes ''HTTP'')
     then Next (hl_sw_ignore_line, hash, i, r)
     else if ch = ch_NUL then Stop (Return NGX_HTTP_PARSE_INVALID_HEADER) (hl_sw_name, hash, i, r)
     else Next (hl_sw_name, hash, i, r\<lparr>invalid_header := True\<rparr>))"
proof -
  have "lowcase ! unat ch = 0" using assms lowcase_spec [of ch] by (auto simp: header_char_def)
  moreover have "\<not> (au \<and> ch = ch_underscore)" using assms by (auto simp: header_char_def)
  ultimately show ?thesis by (simp add: hl_name_def Let_def)
qed

lemma hl_step_start_other:
  assumes "\<not> header_char au ch"
  shows "hl_step au b (hl_sw_start, hash, i, r) p ch =
    (let r = r\<lparr>header_name_start := Some p, invalid_header := False\<rparr> in
     if ch = CR then Next (hl_sw_header_almost_done, hash, i, r\<lparr>header_end := Some p\<rparr>)
     else if ch = LF then Stop Goto_header_done (hl_sw_start, hash, i, r\<lparr>header_end := Some p\<rparr>)
     else if ch = ch_NUL then Stop (Return NGX_HTTP_PARSE_INVALID_HEADER) (hl_sw_name, hash, i, r)
     else Next (hl_sw_name, hash, i, r\<lparr>invalid_header := True\<rparr>))"
proof -
  have "lowcase ! unat ch = 0" using assms lowcase_spec [of ch] by (auto simp: header_char_def)
  moreover have "\<not> (au \<and> ch = ch_underscore)" using assms by (auto simp: header_char_def)
  ultimately show ?thesis by (simp add: hl_start_def Let_def)
qed

lemma hl_step_keeps:
  assumes "hl_inv au b p0 (s, hash, i, r) p" "p < length b"
  shows "case hl_step au b (s, hash, i, r) p (b ! p) of
    Next m \<Rightarrow> hl_inv au b p0 m (Suc p) | Stop x m \<Rightarrow> hl_exit au b p0 x m p"
proof (cases "s \<in> {hl_sw_start, hl_sw_name}")
  case True
  show ?thesis
  proof (cases "header_char au (b ! p)")
    case hc: True
    from True show ?thesis using assms hc header_char_clean [OF hc] name_ok_one [OF assms(2) hc]
      by (auto simp: hl_step_start hl_step_name hl_inv_def name_ok_Suc simp del: hl_step.simps)
  next
    case False
    with True assms show ?thesis
      by (auto simp: hl_step_start_other hl_step_name_other Let_def hl_inv_def hl_exit_def name_ok_def [of _ _ _ _ True]
        simp del: hl_step.simps split: if_splits)
  qed
next
  case False
  with assms show ?thesis
    by (cases s) (auto simp: hl_inv_def hl_exit_def hl_space_before_value_def hl_value_def
      hl_space_after_value_def hl_ignore_line_def hl_almost_done_def hl_header_almost_done_def)
qed

text \<open>
  C4: when \<^verbatim>\<open>ngx_http_parse_header_line\<close> returns \<^verbatim>\<open>NGX_OK\<close>, over any number of reads, the
  name and the value are where the pointers say, in this order, inside the bytes received, without
  NUL, CR or LF; the name is not empty; the write index of \<^verbatim>\<open>lowcase_header\<close> stays
  inside the array; and a header that is not marked invalid has a name of letters, digits, minus
  and, where allowed, underscores, whose lower case has the hash that is stored.
\<close>

theorem ngx_http_parse_header_line_safe:
  assumes "buf_pos b \<le> length (buf_data b)"
    and "length (lowcase_header r0) = NGX_HTTP_LC_HEADER_LEN" "i0 < NGX_HTTP_LC_HEADER_LEN"
    and "feed_parser (ngx_http_parse_header_line au) (hl_sw_start, hash0, i0, r0) b c cs =
      (NGX_OK, (s, hash, i, r), b')"
  defines "d \<equiv> buf_data b @ c @ concat cs"
  shows "\<exists>ns ne hs he. header_name_start r = Some ns \<and> header_name_end r = Some ne
      \<and> header_start r = Some hs \<and> header_end r = Some he
      \<and> buf_pos b \<le> ns \<and> ns < ne \<and> ne \<le> hs \<and> hs \<le> he \<and> he < buf_pos b' \<and> buf_pos b' \<le> length d
      \<and> d ! (buf_pos b' - 1) = LF \<and> clean d ns ne \<and> clean d hs he
      \<and> length (lowcase_header r) = NGX_HTTP_LC_HEADER_LEN \<and> i < NGX_HTTP_LC_HEADER_LEN
      \<and> (\<not> invalid_header r \<longrightarrow> (\<forall>k. ns \<le> k \<and> k < ne \<longrightarrow> header_char au (d ! k))
           \<and> hash = hash_of (map to_lower (buf_slice d ns ne)))"
proof -
  define b1 where "b1 = extend_buf b (c @ concat cs)"
  have b1: "buf_data b1 = d" "buf_pos b1 = buf_pos b" by (simp_all add: b1_def d_def)
  obtain rc m' b'' where run: "run_parser (hl_step au) hl_fin (hl_sw_start, hash0, i0, r0) b1 = (rc, m', b'')"
    by (metis prod_cases3)
  have "agree hl_view (NGX_OK, (s, hash, i, r), b') (rc, m', b'')"
    using hl.inc.feed_agrees [OF assms(1)] run assms(4) unfolding ngx_http_parse_header_line_def b1_def by metis
  then have eq: "rc = NGX_OK" "m' = (s, hash, i, r)" "buf_pos b'' = buf_pos b'"
    by (auto simp: agree_def hl_view_def split: prod.splits)
  have inv: "hl_inv au d (buf_pos b) (hl_sw_start, hash0, i0, r0) (buf_pos b1)"
    using assms(2,3) by (simp add: hl_inv_def b1)
  have keeps: "case hl_step au (buf_data b1) m p (buf_data b1 ! p) of
      Next m' \<Rightarrow> hl_inv au d (buf_pos b) m' (Suc p) | Stop x m' \<Rightarrow> hl_exit au d (buf_pos b) x m' p"
    if "hl_inv au d (buf_pos b) m p" "p < length (buf_data b1)" for m p
    using that hl_step_keeps by (cases m) (simp only: b1)
  have le: "buf_pos b1 \<le> length (buf_data b1)" using assms(1) by (simp add: b1_def)
  obtain x m1 p m2 where exit: "hl_exit au d (buf_pos b) x m1 p"
    and fin: "hl_fin (hl_sw_start, hash0, i0, r0) (buf_pos b1) x m1 p = (rc, m', buf_pos b'')"
    and p: "p < length (buf_data b1)" and st: "hl_step au (buf_data b1) m2 p (buf_data b1 ! p) = Stop x m1"
    by (rule hl.run_final [OF run _ inv le keeps]) (simp_all add: eq(1))
  from fin eq(1) st have x: "x = Goto_done" by (cases x; cases m1) (auto dest!: hl_step_Return)
  with fin eq have "m1 = (fst m1, hash, i, r)" "buf_pos b' = Suc p" by (cases m1; simp)+
  with exit x p b1(1) show ?thesis
    by (auto simp: hl_exit_def name_ok_def split: prod.splits)
qed

theorem ngx_http_parse_header_line_safe_witness:
  "\<exists>i r b'. feed_parser (ngx_http_parse_header_line False) (hl_sw_start, 0, 0, new_request)
       \<lparr>buf_data = [], buf_pos = 0\<rparr> (bytes ''A-'') [bytes ''b'', bytes '':  c d '', [CR, LF]] =
       (NGX_OK, (hl_sw_start, hash_of (bytes ''a-b''), i, r), b')
     \<and> i < NGX_HTTP_LC_HEADER_LEN
     \<and> (\<exists>hs he. header_start r = Some hs \<and> header_end r = Some he \<and> hs \<le> he \<and> he < buf_pos b')"
proof -
  let ?f = "feed_parser (ngx_http_parse_header_line False) (hl_sw_start, 0, 0, new_request)
       \<lparr>buf_data = [], buf_pos = 0\<rparr> (bytes ''A-'') [bytes ''b'', bytes '':  c d '', [CR, LF]]"
  have "fst ?f = NGX_OK \<and> fst (fst (snd ?f)) = hl_sw_start \<and> fst (snd (fst (snd ?f))) = hash_of (bytes ''a-b'')"
    by code_simp
  then obtain i r b' where f: "?f = (NGX_OK, (hl_sw_start, hash_of (bytes ''a-b''), i, r), b')"
    by (metis prod.collapse)
  from ngx_http_parse_header_line_safe [OF _ new_request_simps _ f] obtain hs he where
    "header_start r = Some hs" "header_end r = Some he" "hs \<le> he" "he < buf_pos b'" "i < NGX_HTTP_LC_HEADER_LEN" by auto
  with f show ?thesis by blast
qed

end
