(* ===== verification/Ngx_Http_Status_Line.thy ===== *)
theory Ngx_Http_Status_Line
  imports Ngx_Http_Types
begin

text \<open>
  \<^verbatim>\<open>ngx_http_parse_status_line\<close> of \<^verbatim>\<open>http/ngx_http_parse.c\<close>, the parser of the first line of an
  upstream response. The machine has the local variable \<^verbatim>\<open>state\<close> (\<^verbatim>\<open>r->state\<close> between calls),
  the request, of which the version fields are used, and \<^verbatim>\<open>status\<close>.
\<close>

section \<open>The machine\<close>

record ngx_http_status_t =
  st_http_version :: nat
  st_code :: int
  st_count :: int
  st_start :: ptr
  st_end :: ptr

definition new_status :: ngx_http_status_t where
  "new_status = \<lparr>st_http_version = 0, st_code = 0, st_count = 0, st_start = None, st_end = None\<rparr>"

datatype sl_state =
    sl_sw_start | sl_sw_H | sl_sw_HT | sl_sw_HTT | sl_sw_HTTP | sl_sw_first_major_digit
  | sl_sw_major_digit | sl_sw_first_minor_digit | sl_sw_minor_digit | sl_sw_status
  | sl_sw_space_after_status | sl_sw_status_text | sl_sw_almost_done

type_synonym sl_machine = "sl_state \<times> ngx_http_request_t \<times> ngx_http_status_t"
type_synonym sl_verdict = "(sl_machine, parse_exit) verdict"

abbreviation (input) sl_error :: "sl_machine \<Rightarrow> sl_verdict" where
  "sl_error m \<equiv> Stop (Return NGX_ERROR) m"

definition sl_expect :: "u_char \<Rightarrow> sl_state \<Rightarrow> sl_machine \<Rightarrow> u_char \<Rightarrow> sl_verdict" where
  "sl_expect c there m ch = (if ch = c then Next (there, snd m) else sl_error m)"

definition sl_first_major_digit :: "ngx_http_request_t \<Rightarrow> ngx_http_status_t \<Rightarrow> u_char \<Rightarrow> sl_verdict" where
  "sl_first_major_digit r st ch =
     (if ch < ch_1 \<or> ch > ch_9 then sl_error (sl_sw_first_major_digit, r, st)
      else Next (sl_sw_major_digit, r\<lparr>http_major := unat ch - 48\<rparr>, st))"

definition sl_major_digit :: "ngx_http_request_t \<Rightarrow> ngx_http_status_t \<Rightarrow> u_char \<Rightarrow> sl_verdict" where
  "sl_major_digit r st ch =
     (if ch = ch_dot then Next (sl_sw_first_minor_digit, r, st)
      else if ch < ch_0 \<or> ch > ch_9 then sl_error (sl_sw_major_digit, r, st)
      else if http_major r > 99 then sl_error (sl_sw_major_digit, r, st)
      else Next (sl_sw_major_digit, r\<lparr>http_major := (http_major r * 10 + (unat ch - 48)) mod 2 ^ 16\<rparr>, st))"

definition sl_first_minor_digit :: "ngx_http_request_t \<Rightarrow> ngx_http_status_t \<Rightarrow> u_char \<Rightarrow> sl_verdict" where
  "sl_first_minor_digit r st ch =
     (if ch < ch_0 \<or> ch > ch_9 then sl_error (sl_sw_first_minor_digit, r, st)
      else Next (sl_sw_minor_digit, r\<lparr>http_minor := unat ch - 48\<rparr>, st))"

definition sl_minor_digit :: "ngx_http_request_t \<Rightarrow> ngx_http_status_t \<Rightarrow> u_char \<Rightarrow> sl_verdict" where
  "sl_minor_digit r st ch =
     (if ch = ch_space then Next (sl_sw_status, r, st)
      else if ch < ch_0 \<or> ch > ch_9 then sl_error (sl_sw_minor_digit, r, st)
      else if http_minor r > 99 then sl_error (sl_sw_minor_digit, r, st)
      else Next (sl_sw_minor_digit, r\<lparr>http_minor := (http_minor r * 10 + (unat ch - 48)) mod 2 ^ 16\<rparr>, st))"

text \<open>\<^verbatim>\<open>code\<close> and \<^verbatim>\<open>count\<close> are unsigned 64-bit integers, stored modulo \<open>2 ^ 64\<close>.\<close>

definition sl_status :: "ngx_http_request_t \<Rightarrow> ngx_http_status_t \<Rightarrow> nat \<Rightarrow> u_char \<Rightarrow> sl_verdict" where
  "sl_status r st p ch =
     (if ch = ch_space then Next (sl_sw_status, r, st)
      else if ch < ch_0 \<or> ch > ch_9 then sl_error (sl_sw_status, r, st)
      else
        let st = st\<lparr>st_code := (st_code st * 10 + (uint ch - 48)) mod 2 ^ 64,
                    st_count := (st_count st + 1) mod 2 ^ 64\<rparr>
        in if st_count st = 3 then Next (sl_sw_space_after_status, r, st\<lparr>st_start := Some (p - 2)\<rparr>)
           else Next (sl_sw_status, r, st))"

definition sl_space_after_status :: "ngx_http_request_t \<Rightarrow> ngx_http_status_t \<Rightarrow> u_char \<Rightarrow> sl_verdict" where
  "sl_space_after_status r st ch =
     (if ch = ch_space then Next (sl_sw_status_text, r, st)
      else if ch = ch_dot then Next (sl_sw_status_text, r, st)
      else if ch = CR then Next (sl_sw_almost_done, r, st)
      else if ch = LF then Stop Goto_done (sl_sw_space_after_status, r, st)
      else sl_error (sl_sw_space_after_status, r, st))"

definition sl_status_text :: "ngx_http_request_t \<Rightarrow> ngx_http_status_t \<Rightarrow> u_char \<Rightarrow> sl_verdict" where
  "sl_status_text r st ch =
     (if ch = CR then Next (sl_sw_almost_done, r, st)
      else if ch = LF then Stop Goto_done (sl_sw_status_text, r, st)
      else Next (sl_sw_status_text, r, st))"

definition sl_almost_done :: "ngx_http_request_t \<Rightarrow> ngx_http_status_t \<Rightarrow> nat \<Rightarrow> u_char \<Rightarrow> sl_verdict" where
  "sl_almost_done r st p ch =
     (let st = st\<lparr>st_end := Some (p - 1)\<rparr> in
      if ch = LF then Stop Goto_done (sl_sw_almost_done, r, st)
      else sl_error (sl_sw_almost_done, r, st))"

fun sl_step :: "(sl_machine, parse_exit) step" where
  "sl_step b (s, r, st) p ch =
     (case s of
        sl_sw_start \<Rightarrow> sl_expect 72 sl_sw_H (s, r, st) ch
      | sl_sw_H \<Rightarrow> sl_expect 84 sl_sw_HT (s, r, st) ch
      | sl_sw_HT \<Rightarrow> sl_expect 84 sl_sw_HTT (s, r, st) ch
      | sl_sw_HTT \<Rightarrow> sl_expect 80 sl_sw_HTTP (s, r, st) ch
      | sl_sw_HTTP \<Rightarrow> sl_expect ch_slash sl_sw_first_major_digit (s, r, st) ch
      | sl_sw_first_major_digit \<Rightarrow> sl_first_major_digit r st ch
      | sl_sw_major_digit \<Rightarrow> sl_major_digit r st ch
      | sl_sw_first_minor_digit \<Rightarrow> sl_first_minor_digit r st ch
      | sl_sw_minor_digit \<Rightarrow> sl_minor_digit r st ch
      | sl_sw_status \<Rightarrow> sl_status r st p ch
      | sl_sw_space_after_status \<Rightarrow> sl_space_after_status r st ch
      | sl_sw_status_text \<Rightarrow> sl_status_text r st ch
      | sl_sw_almost_done \<Rightarrow> sl_almost_done r st p ch)"

definition sl_done :: "ngx_http_request_t \<Rightarrow> ngx_http_status_t \<Rightarrow> nat \<Rightarrow> int \<times> sl_machine \<times> nat" where
  "sl_done r st p =
     (let st = (if st_end st = None then st\<lparr>st_end := Some p\<rparr> else st) in
      (NGX_OK, (sl_sw_start, r, st\<lparr>st_http_version := http_major r * 1000 + http_minor r\<rparr>), p + 1))"

fun sl_fin :: "sl_machine \<Rightarrow> nat \<Rightarrow> parse_exit \<Rightarrow> sl_machine \<Rightarrow> nat \<Rightarrow> int \<times> sl_machine \<times> nat" where
  "sl_fin (s0, r0, st0) pos (Return rc) (s, r, st) p = (rc, (s0, r, st), pos)"
| "sl_fin (s0, r0, st0) pos _ (s, r, st) p = sl_done r st p"

definition ngx_http_parse_status_line ::
  "sl_machine \<Rightarrow> ngx_buf_t \<Rightarrow> int \<times> sl_machine \<times> ngx_buf_t"
where
  "ngx_http_parse_status_line = run_parser sl_step sl_fin"

lemmas sl_defs = sl_expect_def sl_first_major_digit_def sl_major_digit_def sl_first_minor_digit_def
  sl_minor_digit_def sl_status_def sl_space_after_status_def sl_status_text_def sl_almost_done_def

section \<open>Resuming\<close>

lemma sl_step_Return: "sl_step b m p ch = Stop (Return rc) m' \<Longrightarrow> rc = NGX_ERROR"
  by (cases m; cases "fst m") (auto simp: sl_defs Let_def split: if_splits)

interpretation sl: framed_parser sl_step sl_fin "seen_on {NGX_OK, NGX_AGAIN}"
proof
  fix q m ch and b c :: "u_char list"
  show "sl_step (b @ c) m q ch = sl_step b m q ch" by (cases m) simp
next
  fix b m p ch x m' m0 p0
  assume "sl_step b m p ch = Stop x m'"
  then show "fst (sl_fin m0 p0 x m' p) \<noteq> NGX_AGAIN"
    by (cases x; cases m0; cases m') (auto simp: sl_done_def dest!: sl_step_Return)
next
  fix b m p ch x m' m0 p0 m1 p1 rc0 s0 q0 rc1 s1 q1
  assume "sl_step b m p ch = Stop x m'" "sl_fin m0 p0 x m' p = (rc0, s0, q0)" "sl_fin m1 p1 x m' p = (rc1, s1, q1)"
  then show "rc0 = rc1 \<and> seen_on {NGX_OK, NGX_AGAIN} rc0 s0 q0 = seen_on {NGX_OK, NGX_AGAIN} rc1 s1 q1"
    by (cases x; cases m0; cases m1; cases m') (auto simp: seen_on_def dest!: sl_step_Return)
qed

text \<open>
  \<^verbatim>\<open>ngx_http_parse_status_line\<close> gives the same result however the line is cut into fragments.
\<close>

lemma ngx_http_parse_status_line_incremental:
  "buf_pos b \<le> length (buf_data b) \<Longrightarrow>
     agree (seen_on {NGX_OK, NGX_AGAIN})
       (feed_parser ngx_http_parse_status_line m b c cs)
       (ngx_http_parse_status_line m (extend_buf b (c @ concat cs)))"
  unfolding ngx_http_parse_status_line_def by (rule sl.inc.feed_agrees)

section \<open>What is accepted\<close>

text \<open>
  The invariant of the loop. The spaces that the state \<^verbatim>\<open>sw_status\<close> skips may stand between the
  digits of the code, so the digits seen are a sublist of the bytes.
\<close>

definition sl_inv :: "u_char list \<Rightarrow> nat \<Rightarrow> sl_machine \<Rightarrow> nat \<Rightarrow> bool" where
  "sl_inv b p0 m p \<longleftrightarrow> (case m of (s, r, st) \<Rightarrow> p0 \<le> p \<and> st_end st = None
     \<and> (if s \<in> {sl_sw_start, sl_sw_H, sl_sw_HT, sl_sw_HTT, sl_sw_HTTP, sl_sw_first_major_digit,
                sl_sw_major_digit, sl_sw_first_minor_digit, sl_sw_minor_digit, sl_sw_status}
        then 0 \<le> st_count st \<and> st_count st < 3 \<and> st_count st \<le> int p - int p0
          \<and> 0 \<le> st_code st \<and> st_code st < 10 ^ nat (st_count st)
          \<and> (s \<noteq> sl_sw_status \<longrightarrow> st_count st = 0)
        else 0 \<le> st_code st \<and> st_code st < 1000 \<and> (\<exists>q. st_start st = Some q \<and> p0 \<le> q \<and> q + 3 \<le> p
          \<and> (s = sl_sw_almost_done \<longrightarrow> q + 4 \<le> p)))
     \<and> (s \<in> {sl_sw_major_digit, sl_sw_first_minor_digit} \<longrightarrow> 1 \<le> http_major r \<and> http_major r \<le> 999)
     \<and> (s \<in> {sl_sw_minor_digit, sl_sw_status, sl_sw_space_after_status, sl_sw_status_text, sl_sw_almost_done}
         \<longrightarrow> 1 \<le> http_major r \<and> http_major r \<le> 999 \<and> http_minor r \<le> 999))"

definition sl_exit :: "u_char list \<Rightarrow> nat \<Rightarrow> parse_exit \<Rightarrow> sl_machine \<Rightarrow> nat \<Rightarrow> bool" where
  "sl_exit b p0 x m p \<longleftrightarrow> (case m of (s, r, st) \<Rightarrow> (\<forall>rc. x \<noteq> Return rc) \<longrightarrow>
     0 \<le> st_code st \<and> st_code st < 1000 \<and> 1 \<le> http_major r \<and> http_major r \<le> 999 \<and> http_minor r \<le> 999 \<and> b ! p = LF
     \<and> (\<exists>q. st_start st = Some q \<and> p0 \<le> q \<and> q + 3 \<le> p
          \<and> (case st_end st of None \<Rightarrow> True | Some e \<Rightarrow> q + 3 \<le> e \<and> e < p)))"

lemma sl_digit:
  assumes "\<not> ch < ch_0" "\<not> ch > ch_9"
  shows "unat ch - 48 \<le> 9" "48 \<le> uint ch" "uint ch \<le> 57"
proof -
  show "unat ch - 48 \<le> 9" using assms by (simp add: word_less_nat_alt)
  show "48 \<le> uint ch" "uint ch \<le> 57" using assms by (simp_all add: word_less_def)
qed

lemma sl_status_keeps:
  assumes "sl_inv b p0 (sl_sw_status, r, st) p"
  shows "case sl_status r st p ch of
    Next m \<Rightarrow> sl_inv b p0 m (Suc p) | Stop x m \<Rightarrow> sl_exit b p0 x m p"
proof -
  have c: "st_count st \<in> {0, 1, 2}" using assms by (auto simp: sl_inv_def)
  show ?thesis
  proof (cases "ch < ch_0 \<or> ch > ch_9")
    case True
    with assms show ?thesis by (auto simp: sl_status_def sl_inv_def sl_exit_def)
  next
    case False
    then have "48 \<le> uint ch" "uint ch \<le> 57" using sl_digit by simp_all
    with c assms show ?thesis
      by (auto simp: sl_status_def sl_inv_def sl_exit_def Let_def)
  qed
qed

lemma sl_step_keeps:
  assumes "sl_inv b p0 m p"
  shows "case sl_step b m p (b ! p) of
    Next m' \<Rightarrow> sl_inv b p0 m' (Suc p) | Stop x m' \<Rightarrow> sl_exit b p0 x m' p"
proof -
  obtain s r st where m: "m = (s, r, st)" by (cases m)
  have d: "\<not> b ! p < ch_0 \<and> \<not> b ! p > ch_9 \<Longrightarrow> unat (b ! p) - 48 \<le> 9" using sl_digit by simp
  show ?thesis
  proof (cases "s = sl_sw_status")
    case True
    with assms sl_status_keeps show ?thesis unfolding m by simp
  next
    case False
    with assms d show ?thesis unfolding m
      by (cases s) (auto simp: sl_inv_def sl_exit_def sl_expect_def sl_first_major_digit_def sl_major_digit_def
          sl_first_minor_digit_def sl_minor_digit_def sl_space_after_status_def sl_status_text_def
          sl_almost_done_def Let_def word_less_nat_alt)
  qed
qed

text \<open>
  When a fresh status line has been accepted, over any number of reads, the code has at most
  three digits, the version lies between 1.0 and 999.999, and the text of the status, from its code
  on, lies in the bytes received, before the LF that ends the line.
\<close>

lemma ngx_http_parse_status_line_safe:
  assumes "buf_pos b \<le> length (buf_data b)"
    and "feed_parser ngx_http_parse_status_line (sl_sw_start, r0, new_status) b c cs = (NGX_OK, (s, r, st), b')"
  defines "d \<equiv> buf_data b @ c @ concat cs"
  shows "\<exists>q e. st_start st = Some q \<and> st_end st = Some e \<and> buf_pos b \<le> q \<and> q + 3 \<le> e \<and> e < buf_pos b'
      \<and> buf_pos b' \<le> length d \<and> d ! (buf_pos b' - 1) = LF
      \<and> 0 \<le> st_code st \<and> st_code st < 1000 \<and> 1 \<le> http_major r \<and> http_major r \<le> 999 \<and> http_minor r \<le> 999
      \<and> st_http_version st = http_major r * 1000 + http_minor r"
proof -
  define b1 where "b1 = extend_buf b (c @ concat cs)"
  have b1: "buf_data b1 = d" "buf_pos b1 = buf_pos b" by (simp_all add: b1_def d_def)
  obtain rc m' b'' where run: "run_parser sl_step sl_fin (sl_sw_start, r0, new_status) b1 = (rc, m', b'')"
    by (metis prod_cases3)
  have "agree (seen_on {NGX_OK, NGX_AGAIN}) (NGX_OK, (s, r, st), b') (rc, m', b'')"
    using sl.inc.feed_agrees [OF assms(1)] run assms(2) unfolding ngx_http_parse_status_line_def b1_def by metis
  then have eq: "rc = NGX_OK" "m' = (s, r, st)" "buf_pos b'' = buf_pos b'"
    by (auto simp: agree_def seen_on_def split: if_splits)
  have inv: "sl_inv d (buf_pos b) (sl_sw_start, r0, new_status) (buf_pos b1)"
    by (simp add: sl_inv_def b1 new_status_def)
  have keeps: "case sl_step (buf_data b1) m p (buf_data b1 ! p) of
      Next m' \<Rightarrow> sl_inv d (buf_pos b) m' (Suc p) | Stop x m' \<Rightarrow> sl_exit d (buf_pos b) x m' p"
    if "sl_inv d (buf_pos b) m p" for m p
    using sl_step_keeps [OF that] by (simp only: b1)
  have le: "buf_pos b1 \<le> length (buf_data b1)" using assms(1) by (simp add: b1_def)
  obtain x m1 p m2 where exit: "sl_exit d (buf_pos b) x m1 p"
    and fin: "sl_fin (sl_sw_start, r0, new_status) (buf_pos b1) x m1 p = (rc, m', buf_pos b'')"
    and p: "p < length (buf_data b1)" and st: "sl_step (buf_data b1) m2 p (buf_data b1 ! p) = Stop x m1"
    by (rule sl.run_final [OF run _ inv le keeps]) (simp_all add: eq(1))
  obtain s1 r1 st1 where m1: "m1 = (s1, r1, st1)" by (cases m1)
  from fin eq(1) st have x: "\<forall>rc. x \<noteq> Return rc" by (cases x; cases m1) (auto dest!: sl_step_Return)
  with fin eq m1 have "sl_done r1 st1 p = (NGX_OK, (s, r, st), buf_pos b')" by (cases x) auto
  then have "r = r1" "buf_pos b' = Suc p"
    "st = (if st_end st1 = None then st1\<lparr>st_end := Some p\<rparr> else st1)\<lparr>st_http_version := http_major r1 * 1000 + http_minor r1\<rparr>"
    by (auto simp: sl_done_def Let_def)
  with exit x p b1(1) m1 show ?thesis
    by (auto simp: sl_exit_def split: option.splits)
qed

lemma example_status_line_safe:
  "\<exists>r st b'. feed_parser ngx_http_parse_status_line (sl_sw_start, new_request, new_status)
       \<lparr>buf_data = [], buf_pos = 0\<rparr> (bytes ''HTT'') [bytes ''P/1.1 40'', bytes ''4 Not Found'', [CR, LF]] =
       (NGX_OK, (sl_sw_start, r, st), b') \<and> st_code st < 1000 \<and> http_minor r \<le> 999"
proof -
  let ?f = "feed_parser ngx_http_parse_status_line (sl_sw_start, new_request, new_status)
       \<lparr>buf_data = [], buf_pos = 0\<rparr> (bytes ''HTT'') [bytes ''P/1.1 40'', bytes ''4 Not Found'', [CR, LF]]"
  have "fst ?f = NGX_OK \<and> fst (fst (snd ?f)) = sl_sw_start" by code_simp
  then obtain r st b' where f: "?f = (NGX_OK, (sl_sw_start, r, st), b')" by (metis prod.collapse)
  from ngx_http_parse_status_line_safe [OF _ this] have "st_code st < 1000" "http_minor r \<le> 999" by auto
  with f show ?thesis by blast
qed

lemma sl_steps_http:
  "steps sl_step b (sl_sw_start, r, st) p (bytes ''HTTP/'') = Some (sl_sw_first_major_digit, r, st)"
  by (simp add: sl_expect_def)

lemma sl_steps_version:
  assumes "is_digit d1" "d1 \<noteq> ch_0" "is_digit d2"
  shows "steps sl_step b (sl_sw_first_major_digit, r, st) p [d1, ch_dot, d2, ch_space] =
    Some (sl_sw_status, r\<lparr>http_major := unat d1 - 48, http_minor := unat d2 - 48\<rparr>, st)"
proof -
  have "\<not> (d1 < ch_1 \<or> d1 > ch_9)" "\<not> (d2 < ch_0 \<or> d2 > ch_9)"
    using assms by (auto simp: is_digit_def word_less_nat_alt word_le_nat_alt word_unat_eq_iff)
  then show ?thesis
    by (simp add: sl_first_major_digit_def sl_major_digit_def sl_first_minor_digit_def sl_minor_digit_def)
qed

lemma sl_steps_code:
  assumes "is_digit c1" "is_digit c2" "is_digit c3" "st_count st = 0" "st_code st = 0"
  shows "steps sl_step b (sl_sw_status, r, st) p [c1, c2, c3] =
    Some (sl_sw_space_after_status, r,
      st\<lparr>st_code := (uint c1 - 48) * 100 + (uint c2 - 48) * 10 + (uint c3 - 48), st_count := 3, st_start := Some p\<rparr>)"
proof -
  have "\<not> (c < ch_0 \<or> c > ch_9) \<and> c \<noteq> ch_space \<and> 48 \<le> uint c \<and> uint c \<le> 57" if "is_digit c" for c
    using that by (auto simp: is_digit_def word_less_def word_le_def)
  with assms(1-3) have "\<not> (c1 < ch_0 \<or> c1 > ch_9)" "c1 \<noteq> ch_space" "48 \<le> uint c1" "uint c1 \<le> 57"
    "\<not> (c2 < ch_0 \<or> c2 > ch_9)" "c2 \<noteq> ch_space" "48 \<le> uint c2" "uint c2 \<le> 57"
    "\<not> (c3 < ch_0 \<or> c3 > ch_9)" "c3 \<noteq> ch_space" "48 \<le> uint c3" "uint c3 \<le> 57" by blast+
  with assms(4,5) show ?thesis by (simp add: sl_status_def Let_def)
qed

lemma sl_steps_text:
  "\<forall>c\<in>set t. c \<noteq> CR \<and> c \<noteq> LF \<Longrightarrow> steps sl_step b (sl_sw_status_text, r, st) p t = Some (sl_sw_status_text, r, st)"
  by (induction t arbitrary: p) (auto simp: sl_status_text_def)

lemma sl_scan_rest:
  assumes d: "drop p b = t @ eol @ ys" and eol: "eol = [LF] \<or> eol = [CR, LF]"
    and t: "t = [] \<or> (hd t = ch_space \<or> hd t = ch_dot) \<and> (\<forall>c\<in>set (tl t). c \<noteq> CR \<and> c \<noteq> LF)"
    and "st_end st = None"
  shows "\<exists>s st'. scan sl_step b (sl_sw_space_after_status, r, st) p =
      Halt Goto_done (s, r, st') (p + length t + length eol - 1)
    \<and> sl_done r st' (p + length t + length eol - 1) =
      (NGX_OK, (sl_sw_start, r, st\<lparr>st_end := Some (p + length t), st_http_version := http_major r * 1000 + http_minor r\<rparr>),
       p + length t + length eol)"
proof -
  define s where "s = (if t = [] then sl_sw_space_after_status else sl_sw_status_text)"
  have t': "steps sl_step b (sl_sw_space_after_status, r, st) p t = Some (s, r, st)"
    using t sl_steps_text [of "tl t" b r st "Suc p"] by (cases t) (auto simp: s_def sl_space_after_status_def)
  from eol show ?thesis
  proof
    assume e: "eol = [LF]"
    have "sl_step b (s, r, st) (p + length t) LF = Stop Goto_done (s, r, st)"
      by (simp add: s_def sl_space_after_status_def sl_status_text_def)
    from scan_steps_Stop [OF _ t' this, of ys] d e assms(4) show ?thesis by (simp add: sl_done_def)
  next
    assume e: "eol = [CR, LF]"
    have "steps sl_step b (sl_sw_space_after_status, r, st) p (t @ [CR]) = Some (sl_sw_almost_done, r, st)"
      by (rule steps_join [OF t']) (simp add: s_def sl_space_after_status_def sl_status_text_def)
    from scan_steps_Stop [OF _ this, of LF ys Goto_done "(sl_sw_almost_done, r, st\<lparr>st_end := Some (p + length t)\<rparr>)"] d e
    show ?thesis by (simp add: sl_almost_done_def sl_done_def)
  qed
qed

text \<open>
  C37: a status line \<^verbatim>\<open>HTTP/d.d SP ddd text\<close> with a first version digit other than 0, its text, which may be missing, set off by a space or
  a dot, is accepted with CR LF or LF at its end; the code is the number of the three digits, and
  \<^verbatim>\<open>start\<close> and \<^verbatim>\<open>end\<close> delimit the code and the text.
\<close>

theorem ngx_http_parse_status_line_accepts:
  assumes "is_digit d1" "d1 \<noteq> ch_0" "is_digit d2" "is_digit c1" "is_digit c2" "is_digit c3"
    and t: "t = [] \<or> (hd t = ch_space \<or> hd t = ch_dot) \<and> (\<forall>c\<in>set (tl t). c \<noteq> CR \<and> c \<noteq> LF)"
    and eol: "eol = [LF] \<or> eol = [CR, LF]"
  defines "line \<equiv> bytes ''HTTP/'' @ [d1, ch_dot, d2, ch_space] @ [c1, c2, c3] @ t @ eol"
  shows "ngx_http_parse_status_line (sl_sw_start, r, new_status)
        \<lparr>buf_data = pre @ line @ rest, buf_pos = length pre\<rparr> =
      (NGX_OK,
       (sl_sw_start, r\<lparr>http_major := unat d1 - 48, http_minor := unat d2 - 48\<rparr>,
        \<lparr>st_http_version = (unat d1 - 48) * 1000 + (unat d2 - 48),
         st_code = (uint c1 - 48) * 100 + (uint c2 - 48) * 10 + (uint c3 - 48), st_count = 3,
         st_start = Some (length pre + 9), st_end = Some (length pre + 12 + length t)\<rparr>),
       \<lparr>buf_data = pre @ line @ rest, buf_pos = length pre + length line\<rparr>)"
proof -
  define b where "b = pre @ line @ rest"
  define p where "p = length pre"
  define r' where "r' = r\<lparr>http_major := unat d1 - 48, http_minor := unat d2 - 48\<rparr>"
  define st where "st = new_status\<lparr>st_code := (uint c1 - 48) * 100 + (uint c2 - 48) * 10 + (uint c3 - 48),
    st_count := 3, st_start := Some (p + 9)\<rparr>"
  have "steps sl_step b (sl_sw_first_major_digit, r, new_status) (p + 5) ([d1, ch_dot, d2, ch_space] @ [c1, c2, c3])
      = Some (sl_sw_space_after_status, r', st)"
    by (rule steps_join [OF sl_steps_version [OF assms(1-3)]])
      (use sl_steps_code [OF assms(4-6), of new_status b r' "p + 9"] in
        \<open>simp del: steps.simps add: new_status_def st_def r'_def add.commute\<close>)
  then have "steps sl_step b (sl_sw_start, r, new_status) p
      (bytes ''HTTP/'' @ [d1, ch_dot, d2, ch_space] @ [c1, c2, c3]) = Some (sl_sw_space_after_status, r', st)"
    by (intro steps_join [OF sl_steps_http]) (simp only: length_bytes list.size Suc_eq_plus1 add_0 one_add_one numeral_plus_one semiring_norm)
  moreover define xs where "xs = bytes ''HTTP/'' @ [d1, ch_dot, d2, ch_space] @ [c1, c2, c3]"
  ultimately have xs: "steps sl_step b (sl_sw_start, r, new_status) p xs = Some (sl_sw_space_after_status, r', st)"
    by simp
  have "drop p b = xs @ t @ eol @ rest" "length xs = 12" by (simp_all add: b_def line_def p_def xs_def)
  with scan_steps [OF _ xs]
  have sc: "scan sl_step b (sl_sw_start, r, new_status) p = scan sl_step b (sl_sw_space_after_status, r', st) (p + 12)"
    and d: "drop (p + 12) b = t @ eol @ rest" by metis+
  have "st_end st = None" by (simp add: st_def new_status_def)
  from sl_scan_rest [OF d eol t this, of r'] sc obtain s st' where
    "scan sl_step b (sl_sw_start, r, new_status) p = Halt Goto_done (s, r', st') (p + 12 + length t + length eol - 1)"
    "sl_done r' st' (p + 12 + length t + length eol - 1) =
      (NGX_OK, (sl_sw_start, r', st\<lparr>st_end := Some (p + 12 + length t), st_http_version := http_major r' * 1000 + http_minor r'\<rparr>),
       p + 12 + length t + length eol)" by auto
  moreover have "length line = 12 + length t + length eol" by (simp add: line_def)
  ultimately show ?thesis
    unfolding b_def [symmetric] p_def [symmetric] ngx_http_parse_status_line_def run_parser_def
    by (simp add: st_def new_status_def r'_def)
qed

theorem ngx_http_parse_status_line_accepts_witness:
  "ngx_http_parse_status_line (sl_sw_start, new_request, new_status)
     \<lparr>buf_data = bytes ''HTTP/1.1 404 No'' @ [CR, LF], buf_pos = 0\<rparr> =
   (NGX_OK, (sl_sw_start, new_request\<lparr>http_major := 1, http_minor := 1\<rparr>,
      \<lparr>st_http_version = 1001, st_code = 404, st_count = 3, st_start = Some 9, st_end = Some 15\<rparr>),
    \<lparr>buf_data = bytes ''HTTP/1.1 404 No'' @ [CR, LF], buf_pos = 17\<rparr>)"
  using ngx_http_parse_status_line_accepts [of ch_1 ch_1 52 48 52 "bytes '' No''" "[CR, LF]" new_request "[]" "[]"]
  by (simp add: is_digit_def)

text \<open>
  The state \<^verbatim>\<open>sw_status\<close> skips spaces wherever they stand, so the digits of the code may be apart;
  \<^verbatim>\<open>status->start\<close>, two bytes before the last digit, is then not the start of the code.
\<close>

lemma status_code_with_spaces:
  "(case ngx_http_parse_status_line (sl_sw_start, new_request, new_status)
      \<lparr>buf_data = bytes ''HTTP/1.1 2 0 4'' @ [LF], buf_pos = 0\<rparr> of
    (rc, (s, r, st), b) \<Rightarrow> rc = NGX_OK \<and> st_code st = 204 \<and> st_start st = Some 11)"
  by code_simp

end
