(* ===== verification/Ngx_Http_Chunked.thy ===== *)
theory Ngx_Http_Chunked
  imports Ngx_Http_Types Ngx_Numbers
begin

text \<open>
  The chunked transfer coding: \<^verbatim>\<open>ngx_http_parse_chunked\<close> of \<^verbatim>\<open>http/ngx_http_parse.c\<close>, which finds
  the next chunk, and its client \<^verbatim>\<open>ngx_http_request_body_chunked_filter\<close> of
  \<^verbatim>\<open>http/ngx_http_request_body.c\<close>, which cuts the data out of the buffers. The abstract
  specification is a machine that reads single bytes; the filter is shown to refine it.
  A size is an \<open>int\<close> in the place of the signed 64-bit \<^verbatim>\<open>off_t\<close>, with \<open>s64\<close> around the
  arithmetic.
\<close>

section \<open>The parser\<close>

datatype ck_state =
    sw_chunk_start | sw_chunk_size | sw_chunk_extension | sw_chunk_extension_almost_done
  | sw_chunk_data | sw_after_data | sw_after_data_almost_done | sw_last_chunk_extension
  | sw_last_chunk_extension_almost_done | sw_trailer | sw_trailer_almost_done
  | sw_trailer_header | sw_trailer_header_almost_done

record ngx_http_chunked_t =
  ck_state :: ck_state
  ck_size :: int
  ck_length :: int

text \<open>The labels the loop is left to.\<close>

datatype ck_exit = Ck_data | Ck_done | Ck_invalid

text \<open>The machine of the loop is the local variable \<^verbatim>\<open>state\<close> and \<^verbatim>\<open>ctx->size\<close>.\<close>

type_synonym ck_machine = "ck_state \<times> int"
type_synonym ck_verdict = "(ck_machine, ck_exit) verdict"

definition ck_chunk_start :: "int \<Rightarrow> u_char \<Rightarrow> ck_verdict" where
  "ck_chunk_start csize ch =
     (if ch \<ge> ch_0 \<and> ch \<le> ch_9 then Next (sw_chunk_size, uint ch - 48)
      else
        let c = ch OR 0x20 in
        if c \<ge> ch_a \<and> c \<le> ch_f then Next (sw_chunk_size, uint c - 97 + 10)
        else Stop Ck_invalid (sw_chunk_start, csize))"

definition ck_chunk_size :: "int \<Rightarrow> u_char \<Rightarrow> ck_verdict" where
  "ck_chunk_size csize ch =
     (if csize > NGX_MAX_OFF_T_VALUE div 16 then Stop Ck_invalid (sw_chunk_size, csize)
      else if ch \<ge> ch_0 \<and> ch \<le> ch_9 then Next (sw_chunk_size, s64 (csize * 16 + (uint ch - 48)))
      else
        let c = ch OR 0x20 in
        if c \<ge> ch_a \<and> c \<le> ch_f then Next (sw_chunk_size, s64 (csize * 16 + (uint c - 97 + 10)))
        else if csize = 0 then
          (if ch = CR then Next (sw_last_chunk_extension_almost_done, csize)
           else if ch = LF then Next (sw_trailer, csize)
           else if ch = ch_semicolon \<or> ch = ch_space \<or> ch = ch_TAB then Next (sw_last_chunk_extension, csize)
           else Stop Ck_invalid (sw_chunk_size, csize))
        else
          (if ch = CR then Next (sw_chunk_extension_almost_done, csize)
           else if ch = LF then Next (sw_chunk_data, csize)
           else if ch = ch_semicolon \<or> ch = ch_space \<or> ch = ch_TAB then Next (sw_chunk_extension, csize)
           else Stop Ck_invalid (sw_chunk_size, csize)))"

text \<open>The states that wait for the end of a line, with the state for a CR and the state for the LF.\<close>

definition ck_line :: "ck_state \<Rightarrow> ck_state \<Rightarrow> ck_state \<Rightarrow> int \<Rightarrow> u_char \<Rightarrow> ck_verdict" where
  "ck_line here cr lf csize ch =
     (if ch = CR then Next (cr, csize) else if ch = LF then Next (lf, csize) else Next (here, csize))"

definition ck_almost_done :: "ck_state \<Rightarrow> ck_state \<Rightarrow> int \<Rightarrow> u_char \<Rightarrow> ck_verdict" where
  "ck_almost_done here lf csize ch =
     (if ch = LF then Next (lf, csize) else Stop Ck_invalid (here, csize))"

definition ck_trailer :: "int \<Rightarrow> u_char \<Rightarrow> ck_verdict" where
  "ck_trailer csize ch =
     (if ch = CR then Next (sw_trailer_almost_done, csize)
      else if ch = LF then Stop Ck_done (sw_trailer, csize)
      else Next (sw_trailer_header, csize))"

definition ck_trailer_almost_done :: "int \<Rightarrow> u_char \<Rightarrow> ck_verdict" where
  "ck_trailer_almost_done csize ch =
     (if ch = LF then Stop Ck_done (sw_trailer_almost_done, csize)
      else Stop Ck_invalid (sw_trailer_almost_done, csize))"

fun ck_step :: "(ck_machine, ck_exit) step" where
  "ck_step b (state, csize) p ch =
     (case state of
        sw_chunk_start \<Rightarrow> ck_chunk_start csize ch
      | sw_chunk_size \<Rightarrow> ck_chunk_size csize ch
      | sw_chunk_extension \<Rightarrow> ck_line state sw_chunk_extension_almost_done sw_chunk_data csize ch
      | sw_chunk_extension_almost_done \<Rightarrow> ck_almost_done state sw_chunk_data csize ch
      | sw_chunk_data \<Rightarrow> Stop Ck_data (state, csize)
      | sw_after_data \<Rightarrow> ck_line state sw_after_data_almost_done sw_chunk_start csize ch
      | sw_after_data_almost_done \<Rightarrow> ck_almost_done state sw_chunk_start csize ch
      | sw_last_chunk_extension \<Rightarrow> ck_line state sw_last_chunk_extension_almost_done sw_trailer csize ch
      | sw_last_chunk_extension_almost_done \<Rightarrow> ck_almost_done state sw_trailer csize ch
      | sw_trailer \<Rightarrow> ck_trailer csize ch
      | sw_trailer_almost_done \<Rightarrow> ck_trailer_almost_done csize ch
      | sw_trailer_header \<Rightarrow> ck_line state sw_trailer_header_almost_done sw_trailer csize ch
      | sw_trailer_header_almost_done \<Rightarrow> ck_almost_done state sw_trailer csize ch)"

text \<open>The switch after the label \<^verbatim>\<open>data\<close>: at least how many bytes are still to come.\<close>

fun ck_rest :: "ck_state \<Rightarrow> int \<Rightarrow> int" where
  "ck_rest sw_chunk_start csize = 3"
| "ck_rest sw_chunk_size csize = s64 (1 + (if csize \<noteq> 0 then csize + 4 else 1))"
| "ck_rest sw_chunk_extension csize = s64 (1 + csize + 4)"
| "ck_rest sw_chunk_extension_almost_done csize = s64 (1 + csize + 4)"
| "ck_rest sw_chunk_data csize = s64 (csize + 4)"
| "ck_rest sw_after_data csize = 4"
| "ck_rest sw_after_data_almost_done csize = 4"
| "ck_rest sw_last_chunk_extension csize = 2"
| "ck_rest sw_last_chunk_extension_almost_done csize = 2"
| "ck_rest sw_trailer csize = 1"
| "ck_rest sw_trailer_almost_done csize = 1"
| "ck_rest sw_trailer_header csize = 2"
| "ck_rest sw_trailer_header_almost_done csize = 2"

definition ck_data ::
  "int \<Rightarrow> ngx_http_chunked_t \<Rightarrow> ck_machine \<Rightarrow> ngx_buf_t \<Rightarrow> nat \<Rightarrow> int \<times> ngx_http_chunked_t \<times> ngx_buf_t"
where
  "ck_data rc ctx m b pos =
     (let ctx = ctx\<lparr>ck_state := fst m, ck_size := snd m\<rparr>; b = b\<lparr>buf_pos := pos\<rparr> in
      if ck_size ctx > NGX_MAX_OFF_T_VALUE - 5 then (NGX_ERROR, ctx, b)
      else (rc, ctx\<lparr>ck_length := ck_rest (ck_state ctx) (ck_size ctx)\<rparr>, b))"

definition ck_entry :: "ngx_http_chunked_t \<Rightarrow> ck_machine" where
  "ck_entry ctx =
     (if ck_state ctx = sw_chunk_data \<and> ck_size ctx = 0 then (sw_after_data, ck_size ctx)
      else (ck_state ctx, ck_size ctx))"

definition ngx_http_parse_chunked ::
  "ngx_buf_t \<Rightarrow> ngx_http_chunked_t \<Rightarrow> int \<times> ngx_http_chunked_t \<times> ngx_buf_t"
where
  "ngx_http_parse_chunked b ctx =
     (case scan ck_step (buf_data b) (ck_entry ctx) (buf_pos b) of
        More m \<Rightarrow> ck_data NGX_AGAIN ctx m b (length (buf_data b))
      | Halt Ck_data m pos \<Rightarrow> ck_data NGX_OK ctx m b pos
      | Halt Ck_done m pos \<Rightarrow>
          (NGX_DONE, ctx\<lparr>ck_state := sw_chunk_start, ck_size := snd m\<rparr>, b\<lparr>buf_pos := pos + 1\<rparr>)
      | Halt Ck_invalid m pos \<Rightarrow> (NGX_ERROR, ctx\<lparr>ck_size := snd m\<rparr>, b))"

section \<open>The request body filter\<close>

text \<open>
  What \<^verbatim>\<open>ngx_http_request_body_chunked_filter\<close> uses of the request and of \<^verbatim>\<open>r->request_body\<close>, and
  the buffers it appends to the chain \<^verbatim>\<open>out\<close>: a window of the input buffer, or the special buffer
  with \<^verbatim>\<open>last_buf\<close> set.
\<close>

record chunked_body =
  body_rest :: int
  body_chunked :: ngx_http_chunked_t
  content_length_n :: int

datatype out_buf = Out_data "u_char list" | Out_last

abbreviation (input) NGX_HTTP_BAD_REQUEST :: int where "NGX_HTTP_BAD_REQUEST \<equiv> 400"
abbreviation (input) NGX_HTTP_REQUEST_ENTITY_TOO_LARGE :: int where "NGX_HTTP_REQUEST_ENTITY_TOO_LARGE \<equiv> 413"

text \<open>
  The branch \<^verbatim>\<open>rc == NGX_OK\<close> after the size test: the data of the chunk that the buffer has is
  passed on, and \<^verbatim>\<open>pos\<close> moves behind it.
\<close>

definition ck_take :: "chunked_body \<Rightarrow> ngx_buf_t \<Rightarrow> out_buf \<times> chunked_body \<times> ngx_buf_t" where
  "ck_take rb b =
     (let avail = length (buf_data b) - buf_pos b; csize = ck_size (body_chunked rb) in
      if int avail > csize then
        (Out_data (buf_slice (buf_data b) (buf_pos b) (buf_pos b + nat csize)),
         rb\<lparr>content_length_n := s64 (content_length_n rb + csize),
            body_chunked := (body_chunked rb)\<lparr>ck_size := 0\<rparr>\<rparr>,
         b\<lparr>buf_pos := buf_pos b + nat csize\<rparr>)
      else
        (Out_data (buf_slice (buf_data b) (buf_pos b) (length (buf_data b))),
         rb\<lparr>content_length_n := s64 (content_length_n rb + int avail),
            body_chunked := (body_chunked rb)\<lparr>ck_size := csize - int avail\<rparr>\<rparr>,
         b\<lparr>buf_pos := length (buf_data b)\<rparr>))"

lemma ck_scan_pos: "p \<le> length b \<Longrightarrow> scan ck_step b m p = Halt x m' q \<Longrightarrow> p \<le> q \<and> q < length b"
  using scan_invariant [where I = "\<lambda>_ _. True" and Q = "\<lambda>_ _ _. True" and s = m and p = p and b = b and step = ck_step]
  by (auto simp: scan_post_def split: verdict.splits)

lemma ck_scan_data:
  assumes "scan ck_step b m p = Halt Ck_data m' q" "p \<le> length b"
  shows "fst m' = sw_chunk_data" "q = p \<Longrightarrow> m' = m"
proof -
  have st: "x = Ck_data \<longrightarrow> m'' = (sw_chunk_data, snd m'') \<and> m'' = m2" if "ck_step b m2 k c = Stop x m''" for m2 k c x m''
    using that by (cases m2; cases "fst m2") (auto simp: ck_chunk_start_def ck_chunk_size_def ck_line_def
      ck_almost_done_def ck_trailer_def ck_trailer_almost_done_def Let_def split: if_splits)
  have "scan_post (\<lambda>_ _. True) (\<lambda>x m q. x = Ck_data \<longrightarrow> fst m = sw_chunk_data) p (length b) (scan ck_step b m p)"
    using assms(2) by (intro scan_invariant) (auto split: verdict.split dest: st)
  with assms(1) show "fst m' = sw_chunk_data" by (simp add: scan_post_def)
  show "m' = m" if "q = p"
  proof -
    from ck_scan_pos [OF assms(2,1)] that have p: "p < length b" by simp
    show ?thesis
    proof (cases "ck_step b m p (b ! p)")
      case (Next m1)
      with p assms(1) have "scan ck_step b m1 (Suc p) = Halt Ck_data m' q" by (simp add: scan_Next)
      from ck_scan_pos [OF _ this] p that show ?thesis by simp
    next
      case (Stop x m1)
      with p assms(1) st [OF Stop] show ?thesis by (simp add: scan_Stop)
    qed
  qed
qed

text \<open>
  A call that finds data has moved on, or it has found the rest of a chunk that had been begun: this is
  why the loop of the filter ends.
\<close>

lemma parse_chunked_ok:
  assumes "ngx_http_parse_chunked b ctx = (NGX_OK, ctx', b')"
  shows "buf_data b' = buf_data b" "ck_state ctx' = sw_chunk_data" "buf_pos b \<le> buf_pos b'"
    "buf_pos b' < length (buf_data b)"
    "buf_pos b' = buf_pos b \<Longrightarrow> \<not> (ck_state ctx = sw_chunk_data \<and> ck_size ctx = 0)"
proof -
  have p: "buf_pos b \<le> length (buf_data b)"
  proof (rule ccontr)
    assume "\<not> buf_pos b \<le> length (buf_data b)"
    then show False using assms by (simp add: ngx_http_parse_chunked_def ck_data_def Let_def split: if_splits)
  qed
  obtain m q where sc: "scan ck_step (buf_data b) (ck_entry ctx) (buf_pos b) = Halt Ck_data m q"
    "ck_data NGX_OK ctx m b q = (NGX_OK, ctx', b')"
    using assms
    by (auto simp: ngx_http_parse_chunked_def ck_data_def Let_def split: scan_result.splits ck_exit.splits if_splits)
  then show "buf_data b' = buf_data b" "ck_state ctx' = sw_chunk_data"
    "buf_pos b \<le> buf_pos b'" "buf_pos b' < length (buf_data b)"
    using ck_scan_pos [OF p sc(1)] ck_scan_data(1) [OF sc(1) p]
    by (auto simp: ck_data_def Let_def split: if_splits)
  show "\<not> (ck_state ctx = sw_chunk_data \<and> ck_size ctx = 0)" if "buf_pos b' = buf_pos b"
    using that sc ck_scan_data [OF sc(1) p] by (auto simp: ck_data_def Let_def ck_entry_def split: if_splits)
qed

text \<open>Every turn of the inner loop takes bytes from the buffer, or ends a chunk of which none are left.\<close>

definition ck_measure :: "chunked_body \<Rightarrow> ngx_buf_t \<Rightarrow> nat" where
  "ck_measure rb b = 2 * (length (buf_data b) - buf_pos b)
     + (if ck_state (body_chunked rb) = sw_chunk_data \<and> ck_size (body_chunked rb) = 0 then 0 else 1)"

lemma ck_take_measure:
  assumes "ngx_http_parse_chunked b (body_chunked rb) = (NGX_OK, ctx, b')"
    and "ck_take (rb\<lparr>body_chunked := ctx\<rparr>) b' = (o', rb', b'')"
  shows "ck_measure rb' b'' < ck_measure rb b"
  using parse_chunked_ok [OF assms(1)] assms(2)
  by (cases "buf_pos b' = buf_pos b") (auto simp: ck_take_def ck_measure_def Let_def split: if_splits)

text \<open>
  The inner loop, over one buffer; \<open>limit\<close> is \<^verbatim>\<open>client_max_body_size\<close>, with 0 for no limit. The
  allocations are assumed to succeed.
\<close>

function ck_filter_buf ::
  "int \<Rightarrow> chunked_body \<Rightarrow> ngx_buf_t \<Rightarrow> out_buf list \<Rightarrow> int \<times> chunked_body \<times> ngx_buf_t \<times> out_buf list"
where
  "ck_filter_buf limit rb b out =
     (case ngx_http_parse_chunked b (body_chunked rb) of (rc, ctx, b') \<Rightarrow>
        let rb = rb\<lparr>body_chunked := ctx\<rparr> in
        if rc = NGX_OK then
          (if limit \<noteq> 0 \<and> limit - content_length_n rb < ck_size ctx
           then (NGX_HTTP_REQUEST_ENTITY_TOO_LARGE, rb, b', out)
           else case ck_take rb b' of (o', rb', b'') \<Rightarrow> ck_filter_buf limit rb' b'' (out @ [o']))
        else if rc = NGX_DONE then (NGX_OK, rb\<lparr>body_rest := 0\<rparr>, b', out @ [Out_last])
        else if rc = NGX_AGAIN then (NGX_OK, rb\<lparr>body_rest := ck_length ctx\<rparr>, b', out)
        else (NGX_HTTP_BAD_REQUEST, rb, b', out))"
  by pat_completeness auto
termination
  by (relation "measure (\<lambda>(limit, rb, b, out). ck_measure rb b)") (auto intro: ck_take_measure [OF sym sym])

declare ck_filter_buf.simps [simp del]

text \<open>The outer loop, over the chain \<^verbatim>\<open>in\<close>; the buffers of the chain are returned with the positions they have then.\<close>

fun ck_filter_chain ::
  "int \<Rightarrow> chunked_body \<Rightarrow> ngx_buf_t list \<Rightarrow> out_buf list \<Rightarrow> int \<times> chunked_body \<times> ngx_buf_t list \<times> out_buf list"
where
  "ck_filter_chain limit rb [] out = (NGX_OK, rb, [], out)"
| "ck_filter_chain limit rb (b # bs) out =
     (case ck_filter_buf limit rb b out of (rc, rb', b', out') \<Rightarrow>
        if rc = NGX_OK then
          (case ck_filter_chain limit rb' bs out' of (rc2, rb2, bs2, out2) \<Rightarrow> (rc2, rb2, b' # bs2, out2))
        else (rc, rb', b' # bs, out'))"

definition ngx_http_request_body_chunked_filter ::
  "int \<Rightarrow> chunked_body \<Rightarrow> ngx_buf_t list \<Rightarrow> int \<times> chunked_body \<times> ngx_buf_t list \<times> out_buf list"
where
  "ngx_http_request_body_chunked_filter limit rb chain =
     (let rb = (if body_rest rb = - 1
                then \<lparr>body_rest = 3,
                      body_chunked = \<lparr>ck_state = sw_chunk_start, ck_size = 0, ck_length = 0\<rparr>,
                      content_length_n = 0\<rparr>
                else rb)
      in ck_filter_chain limit rb chain [])"

section \<open>The response body filter\<close>

text \<open>
  \<^verbatim>\<open>ngx_http_chunked_body_filter\<close> of \<^verbatim>\<open>http/modules/ngx_http_chunked_filter_module.c\<close> on a chain of
  buffers, each with its bytes and its flag \<^verbatim>\<open>last_buf\<close>, of which the one of the last buffer counts;
  the result is the bytes of the chain \<^verbatim>\<open>out\<close>. \<^verbatim>\<open>%xO\<close> prints a 64-bit number without padding, at
  most 16 digits.
\<close>

abbreviation (input) CRLF :: "u_char list" where "CRLF \<equiv> [CR, LF]"

definition ngx_http_chunked_body_filter :: "(u_char list \<times> bool) list \<Rightarrow> u_char list" where
  "ngx_http_chunked_body_filter chain =
     (if chain = [] then []
      else
        let data = concat (map fst chain); csize = length data; last_buf = snd (last chain) in
        (if csize \<noteq> 0 then ngx_sprintf_num 16 (word_of_nat csize) ch_space 1 0 @ CRLF else [])
        @ data
        @ (if last_buf then drop (if csize = 0 then 2 else 0) (CRLF @ [ch_0] @ CRLF @ CRLF)
           else if csize > 0 then CRLF
           else []))"

lemmas ck_defs = ck_chunk_start_def ck_chunk_size_def ck_line_def ck_almost_done_def ck_trailer_def
  ck_trailer_almost_done_def

section \<open>The specification: one byte at a time\<close>

text \<open>
  The decoder as a machine that reads one byte after the other and collects the data. It
  stops with the bytes behind the body, or fails; a size that leaves no room for the bytes
  that have to follow is an error at once.
\<close>

datatype ck_outcome = Ck_more ck_machine | Ck_finished "u_char list" | Ck_bad

fun ck_bytes :: "ck_machine \<Rightarrow> u_char list \<Rightarrow> ck_outcome \<times> u_char list" where
  "ck_bytes (s, n) [] = (Ck_more (s, n), [])"
| "ck_bytes (s, n) (c # cs) =
     (if s = sw_chunk_data \<and> n \<noteq> 0 then
        (case ck_bytes (s, n - 1) cs of (res, d) \<Rightarrow> (res, c # d))
      else
        (case ck_step [] (if s = sw_chunk_data then sw_after_data else s, n) 0 c of
           Next (s', n') \<Rightarrow> if n' > NGX_MAX_OFF_T_VALUE - 5 then (Ck_bad, []) else ck_bytes (s', n') cs
         | Stop Ck_done m \<Rightarrow> (Ck_finished cs, [])
         | Stop _ m \<Rightarrow> (Ck_bad, [])))"

text \<open>The machines that occur, and the machine after all bytes of a chunk have been read.\<close>

definition ck_ok :: "ck_machine \<Rightarrow> bool" where
  "ck_ok m \<longleftrightarrow> 0 \<le> snd m \<and> snd m \<le> NGX_MAX_OFF_T_VALUE - 5
     \<and> (fst m \<in> {sw_chunk_extension, sw_chunk_extension_almost_done} \<longrightarrow> snd m \<noteq> 0)"

definition ck_norm :: "ck_machine \<Rightarrow> ck_machine" where
  "ck_norm m = (if m = (sw_chunk_data, 0) then (sw_after_data, 0) else m)"

lemma ck_step_local: "ck_step b m p ch = ck_step [] m 0 ch"
  by (cases m) (simp split: ck_state.split)

lemma ck_size_bounds:
  assumes "\<not> n > NGX_MAX_OFF_T_VALUE div 16" "0 \<le> n" "0 \<le> d" "d < 16"
  shows "s64 (n * 16 + d) = n * 16 + d"
  using assms by (intro s64_id) simp_all

lemma ck_digit: "ch \<ge> ch_0 \<and> ch \<le> ch_9 \<Longrightarrow> 0 \<le> uint ch - 48 \<and> uint ch - 48 < 16"
  "ch \<ge> ch_a \<and> ch \<le> ch_f \<Longrightarrow> 0 \<le> uint ch - 97 + 10 \<and> uint ch - 97 + 10 < 16"
  by (simp_all add: word_le_def)

text \<open>
  An iteration keeps a machine that occurs, or makes the size too big; then the state is
  \<^verbatim>\<open>sw_chunk_size\<close> and the next byte, if there is one, is an error.
\<close>

lemma ck_step_ok:
  assumes "ck_ok m" "ck_step b m p ch = Next m'" "fst m \<noteq> sw_chunk_data"
  shows "ck_ok m' \<and> m' \<noteq> (sw_chunk_data, 0) \<or> fst m' = sw_chunk_size \<and> snd m' > NGX_MAX_OFF_T_VALUE - 5"
proof -
  obtain s n where m: "m = (s, n)" by (cases m)
  have n: "0 \<le> n" "n \<le> NGX_MAX_OFF_T_VALUE - 5" using assms(1) m by (simp_all add: ck_ok_def)
  show ?thesis
  proof (cases "s = sw_chunk_size")
    case True
    from assms(2) True show ?thesis unfolding m
      using n ck_digit [of ch] ck_digit(2) [of "ch OR 0x20"]
        ck_size_bounds [of n "uint ch - 48"] ck_size_bounds [of n "uint (ch OR 0x20) - 97 + 10"]
      by (auto simp: ck_chunk_size_def ck_ok_def Let_def not_less split: if_splits)
  next
    case False
    with assms show ?thesis unfolding m using ck_digit [of ch] ck_digit(2) [of "ch OR 0x20"]
      by (cases s) (auto simp: ck_chunk_start_def ck_line_def ck_almost_done_def ck_trailer_def
        ck_trailer_almost_done_def ck_ok_def Let_def split: if_splits)
  qed
qed

lemma ck_scan_big:
  assumes "snd m > NGX_MAX_OFF_T_VALUE - 5" "fst m = sw_chunk_size"
  shows "scan ck_step b m p = (if p < length b then Halt Ck_invalid m p else More m)"
proof (cases "p < length b")
  case True
  with assms have "ck_step b m p (b ! p) = Stop Ck_invalid m" by (cases m) (simp add: ck_chunk_size_def)
  with True show ?thesis by (simp add: scan_Stop)
qed simp

text \<open>The loop of the parser does what the byte machine does up to the next data.\<close>

definition ck_agrees :: "u_char list \<Rightarrow> ck_outcome \<times> u_char list \<Rightarrow> (ck_machine, ck_exit) scan_result \<Rightarrow> bool" where
  "ck_agrees b r res = (case res of
      More m' \<Rightarrow> (if snd m' > NGX_MAX_OFF_T_VALUE - 5 then r = (Ck_bad, [])
                  else r = (Ck_more m', []) \<and> ck_ok m' \<and> m' \<noteq> (sw_chunk_data, 0))
    | Halt Ck_data m' q \<Rightarrow> r = ck_bytes m' (drop q b) \<and> ck_ok m' \<and> snd m' \<noteq> 0
    | Halt Ck_done m' q \<Rightarrow> r = (Ck_finished (drop (Suc q) b), []) \<and> ck_ok (sw_chunk_start, snd m')
    | Halt Ck_invalid m' q \<Rightarrow> r = (Ck_bad, []))"

lemma ck_scan_bytes:
  assumes "ck_ok m" "m \<noteq> (sw_chunk_data, 0)" "p \<le> length b"
  shows "ck_agrees b (ck_bytes m (drop p b)) (scan ck_step b m p)"
  using assms
proof (induction "length b - p" arbitrary: m p)
  case 0
  then show ?case by (cases m) (simp add: ck_ok_def ck_agrees_def)
next
  case (Suc k)
  then have p: "p < length b" by simp
  then have d: "drop p b = b ! p # drop (Suc p) b" by (simp add: Cons_nth_drop_Suc)
  obtain s n where m: "m = (s, n)" by (cases m)
  show ?case
  proof (cases "s = sw_chunk_data")
    case True
    with Suc.prems m have "n \<noteq> 0" by auto
    with True Suc.prems p m show ?thesis by (simp add: scan_Stop ck_agrees_def)
  next
    case False
    then have eq: "ck_bytes m (drop p b) = (case ck_step b m p (b ! p) of
           Next (s', n') \<Rightarrow> if n' > NGX_MAX_OFF_T_VALUE - 5 then (Ck_bad, []) else ck_bytes (s', n') (drop (Suc p) b)
         | Stop Ck_done m \<Rightarrow> (Ck_finished (drop (Suc p) b), [])
         | Stop _ m \<Rightarrow> (Ck_bad, []))"
      unfolding d m using ck_step_local [of b "(s, n)" p] by simp
    show ?thesis
    proof (cases "ck_step b m p (b ! p)")
      case (Stop x m')
      moreover have "x \<noteq> Ck_data" "x = Ck_done \<longrightarrow> ck_ok (sw_chunk_start, snd m')" using Stop False m Suc.prems(1)
        by (cases s; auto simp: ck_ok_def ck_chunk_start_def ck_chunk_size_def ck_line_def ck_almost_done_def
          ck_trailer_def ck_trailer_almost_done_def Let_def split: if_splits)+
      ultimately show ?thesis using p eq by (cases x) (simp_all add: scan_Stop ck_agrees_def)
    next
      case (Next m')
      then have sc: "scan ck_step b m p = scan ck_step b m' (Suc p)" using p by (simp add: scan_Next)
      show ?thesis
      proof (cases "snd m' > NGX_MAX_OFF_T_VALUE - 5")
        case True
        with ck_step_ok [OF Suc.prems(1) Next] False m have "fst m' = sw_chunk_size" by (auto simp: ck_ok_def)
        with True Next eq ck_scan_big [of m' b "Suc p"] show ?thesis
          unfolding sc by (cases m') (auto simp: ck_agrees_def)
      next
        case ok: False
        with ck_step_ok [OF Suc.prems(1) Next] False m have "ck_ok m'" "m' \<noteq> (sw_chunk_data, 0)" by auto
        with Suc.hyps p have "ck_agrees b (ck_bytes m' (drop (Suc p) b)) (scan ck_step b m' (Suc p))" by simp
        moreover from eq Next ok have "ck_bytes m (drop p b) = ck_bytes m' (drop (Suc p) b)" by (cases m') simp
        ultimately show ?thesis unfolding sc by simp
      qed
    qed
  qed
qed

text \<open>Reading the data of a chunk.\<close>

lemma ck_bytes_data:
  "0 \<le> n \<Longrightarrow> int (length xs) \<le> n \<Longrightarrow>
     ck_bytes (sw_chunk_data, n) (xs @ ys) =
       (case ck_bytes (sw_chunk_data, n - int (length xs)) ys of (res, d) \<Rightarrow> (res, xs @ d))"
proof (induction xs arbitrary: n)
  case Nil
  then show ?case by (simp split: prod.split)
next
  case (Cons c xs)
  then have "n \<noteq> 0" by auto
  with Cons.IH [of "n - 1"] Cons.prems show ?case by (simp add: algebra_simps split: prod.split)
qed

definition out_bytes :: "out_buf list \<Rightarrow> u_char list" where
  "out_bytes out = concat (map (\<lambda>x. case x of Out_data d \<Rightarrow> d | Out_last \<Rightarrow> []) out)"

lemma out_bytes_simps [simp]:
  "out_bytes (xs @ ys) = out_bytes xs @ out_bytes ys"
  "out_bytes [] = []" "out_bytes (Out_data d # xs) = d @ out_bytes xs" "out_bytes (Out_last # xs) = out_bytes xs"
  by (simp_all add: out_bytes_def)

abbreviation (input) body_machine :: "chunked_body \<Rightarrow> ck_machine" where
  "body_machine rb \<equiv> (ck_state (body_chunked rb), ck_size (body_chunked rb))"

text \<open>What the filter makes of one buffer, against what the byte machine makes of its bytes.\<close>

definition ck_refines ::
  "ck_outcome \<times> u_char list \<Rightarrow> u_char list \<Rightarrow> out_buf list \<Rightarrow> int \<times> chunked_body \<times> ngx_buf_t \<times> out_buf list \<Rightarrow> bool"
where
  "ck_refines r data out res = (case res of (rc, rb, b, out') \<Rightarrow> case r of
      (Ck_more m, d) \<Rightarrow> rc = NGX_OK \<and> body_machine rb = ck_norm m \<and> ck_ok (ck_norm m)
        \<and> body_rest rb = ck_rest (fst (ck_norm m)) (snd m)
        \<and> (\<exists>ds. out' = out @ ds \<and> Out_last \<notin> set ds \<and> out_bytes ds = d)
    | (Ck_finished rest, d) \<Rightarrow> rc = NGX_OK \<and> body_rest rb = 0 \<and> ck_state (body_chunked rb) = sw_chunk_start
        \<and> drop (buf_pos b) data = rest
        \<and> (\<exists>ds. out' = out @ ds @ [Out_last] \<and> Out_last \<notin> set ds \<and> out_bytes ds = d)
    | (Ck_bad, d) \<Rightarrow> rc = NGX_HTTP_BAD_REQUEST)"

lemma ck_refines_snoc:
  assumes "ck_refines r data (out @ [Out_data xs]) res"
  shows "ck_refines (case r of (x, d) \<Rightarrow> (x, xs @ d)) data out res"
proof -
  obtain rc rb b out' where res: "res = (rc, rb, b, out')" by (metis prod_cases4)
  have ex: "\<exists>ds'. Out_data xs # ds @ tl = ds' @ tl \<and> Out_last \<notin> set ds' \<and> out_bytes ds' = xs @ d"
    if "Out_last \<notin> set ds" "out_bytes ds = d" for ds d tl
    using that by (intro exI [of _ "Out_data xs # ds"]) simp
  show ?thesis
    using assms ex [where tl = "[]"] ex [where tl = "[Out_last]"] unfolding res ck_refines_def
    by (auto split: prod.splits ck_outcome.splits) 
qed

lemma ck_refines_norm:
  "ck_refines (ck_bytes (sw_chunk_data, 0) xs) data out res = ck_refines (ck_bytes (sw_after_data, 0) xs) data out res"
  by (cases xs) (simp_all add: ck_refines_def ck_norm_def)

lemma ck_entry_norm: "ck_entry (body_chunked rb) = ck_norm (body_machine rb)"
  by (simp add: ck_entry_def ck_norm_def)

lemma ck_take_bytes:
  assumes "body_machine rb = (sw_chunk_data, n)" "0 < n" "n \<le> NGX_MAX_OFF_T_VALUE - 5" "buf_pos b \<le> length (buf_data b)"
    and "ck_take rb b = (o', rb', b')"
  shows "\<exists>xs k. o' = Out_data xs \<and> body_machine rb' = (sw_chunk_data, k) \<and> ck_ok (ck_norm (body_machine rb'))
    \<and> buf_data b' = buf_data b \<and> buf_pos b' \<le> length (buf_data b)
    \<and> ck_bytes (sw_chunk_data, n) (drop (buf_pos b) (buf_data b)) =
      (case ck_bytes (sw_chunk_data, k) (drop (buf_pos b') (buf_data b)) of (res, d) \<Rightarrow> (res, xs @ d))"
proof (cases "int (length (buf_data b) - buf_pos b) > n")
  case True
  define xs where "xs = buf_slice (buf_data b) (buf_pos b) (buf_pos b + nat n)"
  have "drop (buf_pos b) (buf_data b) = xs @ drop (buf_pos b + nat n) (buf_data b)"
    by (simp add: xs_def buf_slice_def add.commute flip: drop_drop)
  moreover have "int (length xs) = n" using True assms(2) by (simp add: xs_def)
  ultimately show ?thesis
    using assms True ck_bytes_data [of n xs "drop (buf_pos b + nat n) (buf_data b)"]
    by (auto simp: ck_take_def Let_def xs_def [symmetric] ck_norm_def ck_ok_def)
next
  case False
  define xs where "xs = buf_slice (buf_data b) (buf_pos b) (length (buf_data b))"
  have "drop (buf_pos b) (buf_data b) = xs @ []" by (simp add: xs_def buf_slice_def)
  moreover have "length xs = length (buf_data b) - buf_pos b" using False assms(4) by (simp add: xs_def)
  ultimately show ?thesis
    using assms False ck_bytes_data [of n xs "[]"]
    by (auto simp: ck_take_def Let_def xs_def [symmetric] ck_norm_def ck_ok_def)
qed

lemma ck_filter_refines:
  "ck_ok (ck_norm (body_machine rb)) \<Longrightarrow> buf_pos b \<le> length (buf_data b) \<Longrightarrow>
     ck_refines (ck_bytes (ck_norm (body_machine rb)) (drop (buf_pos b) (buf_data b))) (buf_data b) out
       (ck_filter_buf 0 rb b out)"
proof (induction "0 :: int" rb b out rule: ck_filter_buf.induct)
  case (1 rb b out)
  define m where "m = ck_norm (body_machine rb)"
  have ok: "ck_ok m" "m \<noteq> (sw_chunk_data, 0)" using 1(2) by (auto simp: m_def ck_norm_def)
  note ag = ck_scan_bytes [OF ok 1(3)]
  show ?case
  proof (cases "scan ck_step (buf_data b) m (buf_pos b)")
    case (More m')
    then have parse: "ngx_http_parse_chunked b (body_chunked rb) =
        ck_data NGX_AGAIN (body_chunked rb) m' b (length (buf_data b))"
      by (simp add: ngx_http_parse_chunked_def ck_entry_norm m_def)
    show ?thesis
    proof (cases "snd m' > NGX_MAX_OFF_T_VALUE - 5")
      case True
      with More ag parse show ?thesis unfolding m_def [symmetric]
        by (subst ck_filter_buf.simps) (simp add: ck_agrees_def ck_data_def Let_def ck_refines_def)
    next
      case False
      with More ag have "ck_bytes m (drop (buf_pos b) (buf_data b)) = (Ck_more m', [])" "ck_ok m'" "ck_norm m' = m'"
        by (simp_all add: ck_agrees_def ck_norm_def)
      with False parse show ?thesis unfolding m_def [symmetric]
        by (subst ck_filter_buf.simps) (simp add: ck_data_def Let_def ck_refines_def)
    qed
  next
    case (Halt x m' q)
    show ?thesis
    proof (cases x)
      case Ck_data
      from Halt Ck_data have sc: "scan ck_step (buf_data b) m (buf_pos b) = Halt Ck_data m' q" by simp
      note pos = ck_scan_pos [OF 1(3) sc] and st = ck_scan_data(1) [OF sc 1(3)]
      from ag sc have bytes: "ck_bytes m (drop (buf_pos b) (buf_data b)) = ck_bytes m' (drop q (buf_data b))"
        and m': "ck_ok m'" "snd m' \<noteq> 0" by (simp_all add: ck_agrees_def)
      define ctx where "ctx = (body_chunked rb)\<lparr>ck_state := fst m', ck_size := snd m', ck_length := ck_rest (fst m') (snd m')\<rparr>"
      have parse: "ngx_http_parse_chunked b (body_chunked rb) = (NGX_OK, ctx, b\<lparr>buf_pos := q\<rparr>)"
        using sc m' by (simp add: ngx_http_parse_chunked_def ck_entry_norm m_def [symmetric] ck_data_def Let_def ctx_def ck_ok_def)
      obtain o' rb' b'' where tk: "ck_take (rb\<lparr>body_chunked := ctx\<rparr>) (b\<lparr>buf_pos := q\<rparr>) = (o', rb', b'')"
        by (metis prod_cases3)
      have "body_machine (rb\<lparr>body_chunked := ctx\<rparr>) = (sw_chunk_data, snd m')" using st by (simp add: ctx_def)
      from ck_take_bytes [OF this _ _ _ tk] m' pos obtain xs k where
        xs: "o' = Out_data xs" "body_machine rb' = (sw_chunk_data, k)" "ck_ok (ck_norm (body_machine rb'))"
        "buf_data b'' = buf_data b" "buf_pos b'' \<le> length (buf_data b)"
        "ck_bytes (sw_chunk_data, snd m') (drop q (buf_data b)) =
          (case ck_bytes (sw_chunk_data, k) (drop (buf_pos b'') (buf_data b)) of (res, d) \<Rightarrow> (res, xs @ d))"
        by (auto simp: ck_ok_def)
      have "ck_refines (ck_bytes (ck_norm (body_machine rb')) (drop (buf_pos b'') (buf_data b''))) (buf_data b'') (out @ [o'])
          (ck_filter_buf 0 rb' b'' (out @ [o']))"
        using xs by (intro 1(1) [OF parse [symmetric] refl refl refl _ tk [symmetric] refl]) simp_all
      then have "ck_refines (ck_bytes (sw_chunk_data, k) (drop (buf_pos b'') (buf_data b))) (buf_data b) (out @ [Out_data xs])
          (ck_filter_buf 0 rb' b'' (out @ [Out_data xs]))"
        using xs(1,2,4) by (cases "k = 0") (simp_all add: ck_norm_def ck_refines_norm)
      from ck_refines_snoc [OF this] xs(6) bytes st
      have "ck_refines (ck_bytes m (drop (buf_pos b) (buf_data b))) (buf_data b) out
          (ck_filter_buf 0 rb' b'' (out @ [Out_data xs]))" by (cases m') simp
      moreover have "ck_filter_buf 0 rb b out = ck_filter_buf 0 rb' b'' (out @ [Out_data xs])"
        using parse tk xs(1) by (subst ck_filter_buf.simps) (simp add: Let_def)
      ultimately show ?thesis by (simp add: m_def)
    next
      case Ck_done
      with Halt ag show ?thesis unfolding m_def [symmetric]
        by (subst ck_filter_buf.simps)
          (simp add: ck_agrees_def ngx_http_parse_chunked_def ck_entry_norm Let_def ck_refines_def flip: m_def)
    next
      case Ck_invalid
      with Halt ag show ?thesis unfolding m_def [symmetric]
        by (subst ck_filter_buf.simps)
          (simp add: ck_agrees_def ngx_http_parse_chunked_def ck_entry_norm Let_def ck_refines_def flip: m_def)
    qed
  qed
qed

lemma ck_filter_data: "ck_filter_buf limit rb b out = (rc, rb', b', out') \<Longrightarrow> buf_data b' = buf_data b"
proof (induction limit rb b out rule: ck_filter_buf.induct)
  case (1 limit rb b out)
  obtain rc1 ctx b1 where parse: "ngx_http_parse_chunked b (body_chunked rb) = (rc1, ctx, b1)" by (metis prod_cases3)
  then have data: "buf_data b1 = buf_data b"
    by (auto simp: ngx_http_parse_chunked_def ck_data_def Let_def split: scan_result.splits ck_exit.splits if_splits)
  obtain o2 rb2 b2 where tk: "ck_take (rb\<lparr>body_chunked := ctx\<rparr>) b1 = (o2, rb2, b2)" by (metis prod_cases3)
  then have "buf_data b2 = buf_data b1" by (auto simp: ck_take_def Let_def split: if_splits)
  with 1(1) [OF parse [symmetric] refl refl _ _ tk [symmetric] refl] 1(2) parse tk data show ?case
    by (subst (asm) (2) ck_filter_buf.simps) (auto simp: Let_def split: if_splits)
qed

section \<open>Chains of buffers\<close>

lemma ck_bytes_append:
  "ck_bytes m (xs @ ys) = (case ck_bytes m xs of
      (Ck_more m', d) \<Rightarrow> (case ck_bytes m' ys of (res, d') \<Rightarrow> (res, d @ d'))
    | (Ck_finished rest, d) \<Rightarrow> (Ck_finished (rest @ ys), d)
    | (Ck_bad, d) \<Rightarrow> (Ck_bad, d))"
  by (induction m xs rule: ck_bytes.induct)
    (auto split: prod.split ck_outcome.split verdict.split ck_exit.split simp del: ck_step.simps)

definition ck_outnorm :: "ck_outcome \<times> u_char list \<Rightarrow> ck_outcome \<times> u_char list" where
  "ck_outnorm r = (case r of (Ck_more m, d) \<Rightarrow> (Ck_more (ck_norm m), d) | _ \<Rightarrow> r)"

lemma ck_norm_norm [simp]: "ck_norm (ck_norm m) = ck_norm m"
  by (simp add: ck_norm_def)

lemma ck_outnorm_bytes: "ck_outnorm (ck_bytes (ck_norm m) xs) = ck_outnorm (ck_bytes m xs)"
proof (cases "m = (sw_chunk_data, 0)")
  case True
  then show ?thesis by (cases xs) (simp_all add: ck_norm_def ck_outnorm_def)
qed (simp add: ck_norm_def)

definition ck_refines_chain ::
  "ck_outcome \<times> u_char list \<Rightarrow> out_buf list \<Rightarrow> int \<times> chunked_body \<times> ngx_buf_t list \<times> out_buf list \<Rightarrow> bool"
where
  "ck_refines_chain r out res = (case res of (rc, rb, bs, out') \<Rightarrow> case ck_outnorm r of
      (Ck_more m, d) \<Rightarrow> rc = NGX_OK \<and> body_machine rb = m \<and> body_rest rb = ck_rest (fst m) (snd m)
        \<and> (\<exists>ds. out' = out @ ds \<and> Out_last \<notin> set ds \<and> out_bytes ds = d)
    | (Ck_finished rest, d) \<Rightarrow> rc = NGX_OK \<and> body_rest rb = 0
        \<and> (\<exists>ds. out' = out @ ds @ [Out_last] \<and> Out_last \<notin> set ds \<and> out_bytes ds = d)
    | (Ck_bad, d) \<Rightarrow> rc = NGX_HTTP_BAD_REQUEST)"

lemma ck_refines_chain_norm: "ck_refines_chain (ck_bytes (ck_norm m) xs) out res = ck_refines_chain (ck_bytes m xs) out res"
  unfolding ck_refines_chain_def ck_outnorm_bytes ..

lemma ck_refines_chain_prefix:
  assumes "ck_refines_chain (res, d') (out @ ds) r" "Out_last \<notin> set ds" "out_bytes ds = d"
  shows "ck_refines_chain (res, d @ d') out r"
proof -
  have ex: "\<exists>ds2. ds @ ds' @ tl = ds2 @ tl \<and> Out_last \<notin> set ds2 \<and> out_bytes ds2 = d @ d''"
    if "Out_last \<notin> set ds'" "out_bytes ds' = d''" for ds' d'' tl
    using that assms(2,3) by (intro exI [of _ "ds @ ds'"]) simp
  show ?thesis using assms(1) ex [where tl = "[]"] ex [where tl = "[Out_last]"]
    by (cases res) (auto simp: ck_refines_chain_def ck_outnorm_def split: prod.splits)
qed

lemma ck_filter_chain_refines:
  assumes "ck_ok (ck_norm (body_machine rb))" "\<forall>c\<in>set (c # cs). c \<noteq> []"
    and "\<forall>rest d. ck_bytes (body_machine rb) (concat (c # cs)) = (Ck_finished rest, d) \<longrightarrow> rest = []"
  shows "ck_refines_chain (ck_bytes (body_machine rb) (concat (c # cs))) out
    (ck_filter_chain 0 rb (map (\<lambda>c. \<lparr>buf_data = c, buf_pos = 0\<rparr>) (c # cs)) out)"
  using assms
proof (induction cs arbitrary: rb c out)
  case Nil
  from ck_filter_refines [of rb "\<lparr>buf_data = c, buf_pos = 0\<rparr>" out] Nil
  have "ck_refines (ck_bytes (ck_norm (body_machine rb)) c) c out (ck_filter_buf 0 rb \<lparr>buf_data = c, buf_pos = 0\<rparr> out)"
    by simp
  then have "ck_refines_chain (ck_bytes (ck_norm (body_machine rb)) c) out
    (ck_filter_chain 0 rb [\<lparr>buf_data = c, buf_pos = 0\<rparr>] out)"
    by (auto simp: ck_refines_def ck_refines_chain_def ck_outnorm_def split: prod.splits ck_outcome.splits)
      (simp_all add: ck_norm_def split: if_splits)
  then show ?case by (simp add: ck_refines_chain_norm)
next
  case (Cons c' cs)
  from ck_filter_refines [of rb "\<lparr>buf_data = c, buf_pos = 0\<rparr>" out] Cons.prems(1)
  have ref: "ck_refines (ck_bytes (ck_norm (body_machine rb)) c) c out (ck_filter_buf 0 rb \<lparr>buf_data = c, buf_pos = 0\<rparr> out)"
    by simp
  obtain rc rb' b' out' where f: "ck_filter_buf 0 rb \<lparr>buf_data = c, buf_pos = 0\<rparr> out = (rc, rb', b', out')"
    by (metis prod_cases4)
  have ne: "c \<noteq> []" using Cons.prems(2) by simp
  then have nn: "ck_bytes (ck_norm (body_machine rb)) c = ck_bytes (body_machine rb) c"
    by (cases c) (simp_all add: ck_norm_def)
  obtain r d where r: "ck_bytes (body_machine rb) c = (r, d)" by (cases "ck_bytes (body_machine rb) c")
  show ?case
  proof (cases r)
    case (Ck_more m)
    with ref nn r f obtain ds where ds: "rc = NGX_OK" "body_machine rb' = ck_norm m" "ck_ok (ck_norm m)"
      "out' = out @ ds" "Out_last \<notin> set ds" "out_bytes ds = d" by (auto simp: ck_refines_def)
    obtain r2 d2 where r2: "ck_bytes m (concat (c' # cs)) = (r2, d2)" by (cases "ck_bytes m (concat (c' # cs))")
    have eq: "ck_bytes (ck_norm m) (concat (c' # cs)) = (r2, d2)"
      using r2 Cons.prems(2) by (cases c') (auto simp: ck_norm_def)
    have all: "ck_bytes (body_machine rb) (concat (c # c' # cs)) = (r2, d @ d2)"
      using r Ck_more r2 ck_bytes_append [of "body_machine rb" c "concat (c' # cs)"] by simp
    have "ck_refines_chain (ck_bytes (body_machine rb') (concat (c' # cs))) out'
        (ck_filter_chain 0 rb' (map (\<lambda>c. \<lparr>buf_data = c, buf_pos = 0\<rparr>) (c' # cs)) out')"
      using Cons.prems(2,3) ds all eq by (intro Cons.IH) auto
    then have "ck_refines_chain (r2, d @ d2) out
        (ck_filter_chain 0 rb' (map (\<lambda>c. \<lparr>buf_data = c, buf_pos = 0\<rparr>) (c' # cs)) out')"
      using ds eq by (intro ck_refines_chain_prefix) simp_all
    moreover define bs where "bs = map (\<lambda>c. \<lparr>buf_data = c, buf_pos = 0\<rparr>) (c' # cs)"
    moreover have "map (\<lambda>c. \<lparr>buf_data = c, buf_pos = 0\<rparr>) (c # c' # cs) = \<lparr>buf_data = c, buf_pos = 0\<rparr> # bs" by (simp add: bs_def)
    ultimately have "ck_refines_chain (r2, d @ d2) out
        (ck_filter_chain 0 rb (map (\<lambda>c. \<lparr>buf_data = c, buf_pos = 0\<rparr>) (c # c' # cs)) out)"
      using f ds(1) by (auto simp: ck_refines_chain_def simp del: list.map split: prod.splits)
    then show ?thesis using all by simp
  next
    case (Ck_finished rest)
    with r ck_bytes_append [of "body_machine rb" c "concat (c' # cs)"]
    have "ck_bytes (body_machine rb) (concat (c # c' # cs)) = (Ck_finished (rest @ concat (c' # cs)), d)" by simp
    with Cons.prems(2,3) show ?thesis by auto
  next
    case Ck_bad
    with r ck_bytes_append [of "body_machine rb" c "concat (c' # cs)"]
    have "ck_bytes (body_machine rb) (concat (c # c' # cs)) = (Ck_bad, d)" by simp
    with ref nn r Ck_bad f show ?thesis by (simp add: ck_refines_def ck_refines_chain_def ck_outnorm_def)
  qed
qed

section \<open>Encoding and decoding\<close>

lemma hex_digit_char:
  "ch_0 \<le> c \<and> c \<le> ch_9 \<Longrightarrow> hex_digit c = uint c - 48"
  "\<not> (ch_0 \<le> c \<and> c \<le> ch_9) \<Longrightarrow> ch_a \<le> c OR 0x20 \<and> c OR 0x20 \<le> ch_f \<Longrightarrow> hex_digit c = uint (c OR 0x20) - 97 + 10"
proof -
  assume "ch_0 \<le> c \<and> c \<le> ch_9"
  then show "hex_digit c = uint c - 48"
    using uint_minus_simple_alt [of ch_0 c] by (simp add: hex_digit_def hex_value_def is_digit_def)
next
  define l where "l = c OR 0x20"
  assume "\<not> (ch_0 \<le> c \<and> c \<le> ch_9)" "ch_a \<le> c OR 0x20 \<and> c OR 0x20 \<le> ch_f"
  moreover from this have "uint (l - 97) = uint l - 97" "uint l \<le> 102" "97 \<le> uint l"
    using uint_minus_simple_alt [of ch_a l] by (simp_all add: l_def word_le_def)
  moreover from this have "uint (l - 97 + 10) = uint l - 97 + 10"
    by (simp add: uint_word_ariths)
  ultimately show "hex_digit c = uint (c OR 0x20) - 97 + 10"
    by (auto simp: hex_digit_def hex_value_def is_digit_def lcase_def l_def)
qed

lemma ck_step_hex:
  assumes "hex_value c \<noteq> None"
  shows "ck_step b (sw_chunk_start, n) p c = Next (sw_chunk_size, hex_digit c)"
    and "0 \<le> n \<Longrightarrow> n * 16 + hex_digit c \<le> NGX_MAX_OFF_T_VALUE - 5 \<Longrightarrow>
      ck_step b (sw_chunk_size, n) p c = Next (sw_chunk_size, n * 16 + hex_digit c)"
proof -
  have c: "ch_0 \<le> c \<and> c \<le> ch_9 \<or> \<not> (ch_0 \<le> c \<and> c \<le> ch_9) \<and> ch_a \<le> c OR 0x20 \<and> c OR 0x20 \<le> ch_f"
    using assms by (auto simp: hex_value_def is_digit_def lcase_def split: if_splits)
  then show "ck_step b (sw_chunk_start, n) p c = Next (sw_chunk_size, hex_digit c)"
    using hex_digit_char [of c] by (auto simp: ck_chunk_start_def Let_def)
  assume n: "0 \<le> n" "n * 16 + hex_digit c \<le> NGX_MAX_OFF_T_VALUE - 5"
  then have "\<not> n > NGX_MAX_OFF_T_VALUE div 16" "s64 (n * 16 + hex_digit c) = n * 16 + hex_digit c"
    using hex_digit_range [of c] by simp_all
  with c show "ck_step b (sw_chunk_size, n) p c = Next (sw_chunk_size, n * 16 + hex_digit c)"
    using hex_digit_char [of c] by (auto simp: ck_chunk_size_def Let_def)
qed

lemma ck_bytes_digits:
  "list_all (\<lambda>c. hex_value c \<noteq> None) cs \<Longrightarrow> 0 \<le> n \<Longrightarrow> hex_acc n cs \<le> NGX_MAX_OFF_T_VALUE - 5 \<Longrightarrow>
     ck_bytes (sw_chunk_size, n) (cs @ ys) = ck_bytes (sw_chunk_size, hex_acc n cs) ys"
proof (induction cs arbitrary: n)
  case (Cons c cs)
  let ?n = "n * 16 + hex_digit c"
  have "0 \<le> ?n" using Cons.prems hex_digit_range [of c] by simp
  moreover from this have "?n \<le> NGX_MAX_OFF_T_VALUE - 5" using Cons.prems hex_acc_mono [of ?n cs] by simp
  ultimately show ?case using Cons ck_step_hex(2) [of c n] by (simp del: ck_step.simps)
qed simp

text \<open>The size line that the encoder writes, read by the decoder. (A size
  above \<^verbatim>\<open>NGX_MAX_OFF_T_VALUE / 16\<close> is refused at the byte after its last digit.)\<close>

lemma ck_bytes_size_line:
  assumes "0 < n" "n \<le> NGX_MAX_OFF_T_VALUE div 16"
  shows "ck_bytes (sw_chunk_start, k) (ngx_sprintf_num 16 (word_of_int n) ch_space 1 0 @ CRLF @ ys) =
    ck_bytes (sw_chunk_data, n) ys"
proof -
  have u: "unat (word_of_int n :: 64 word) = nat n"
    using assms by (simp add: unat_eq_nat_uint uint_word_of_int_eq take_bit_int_eq_self)
  define h where "h = print_hex hex_lower (nat n)"
  have h: "is_hex h" "hex_acc 0 h = n" using print_hex_digits [of hex_lower "nat n"] assms(1) by (simp_all add: h_def)
  then obtain c cs where c: "h = c # cs" "hex_value c \<noteq> None" "list_all (\<lambda>c. hex_value c \<noteq> None) cs"
    by (cases h) (auto simp: is_hex_def)
  have "hex_digit c \<le> NGX_MAX_OFF_T_VALUE - 5" using hex_digit_range [of c] by simp
  then have "ck_bytes (sw_chunk_start, k) (h @ CRLF @ ys) = ck_bytes (sw_chunk_size, hex_digit c) (cs @ CRLF @ ys)"
    using c(2) by (simp add: c(1) ck_step_hex(1) del: ck_step.simps)
  also have "\<dots> = ck_bytes (sw_chunk_size, n) (CRLF @ ys)"
    using c h hex_digit_range [of c] assms ck_bytes_digits [of cs "hex_digit c" "CRLF @ ys"] by (simp add: c(1))
  also have "\<dots> = ck_bytes (sw_chunk_data, n) ys"
    using assms by (simp add: ck_chunk_size_def ck_almost_done_def Let_def)
  finally show ?thesis using sprintf_num_hex [of 0 16 1 hex_lower "word_of_int n" ch_space] u by (simp add: h_def)
qed

text \<open>The body of a response, the input of a sequence of calls of the encoder, and the bytes of it.\<close>

definition encode_response :: "(u_char list \<times> bool) list list \<Rightarrow> u_char list" where
  "encode_response calls = concat (map ngx_http_chunked_body_filter calls)"

definition response_data :: "(u_char list \<times> bool) list list \<Rightarrow> u_char list" where
  "response_data calls = concat (map (\<lambda>chain. concat (map fst chain)) calls)"

lemma ck_bytes_chunk:
  assumes "data \<noteq> []" "int (length data) \<le> NGX_MAX_OFF_T_VALUE div 16"
  shows "ck_bytes (sw_chunk_start, k) (ngx_sprintf_num 16 (word_of_nat (length data)) ch_space 1 0 @ CRLF @ data @ CRLF @ ys) =
    (case ck_bytes (sw_chunk_start, 0) ys of (res, d) \<Rightarrow> (res, data @ d))"
proof -
  have w: "(word_of_nat (length data) :: 64 word) = word_of_int (int (length data))" by simp
  have "ck_bytes (sw_chunk_data, int (length data)) (data @ CRLF @ ys) =
    (case ck_bytes (sw_chunk_data, 0) (CRLF @ ys) of (res, d) \<Rightarrow> (res, data @ d))"
    using ck_bytes_data [of "int (length data)" data "CRLF @ ys"] by simp
  moreover have "ck_bytes (sw_chunk_data, 0) (CRLF @ ys) = ck_bytes (sw_chunk_start, 0) ys"
    by (simp add: ck_line_def ck_almost_done_def)
  ultimately show ?thesis
    using ck_bytes_size_line [of "int (length data)" k "data @ CRLF @ ys"] assms unfolding w by simp
qed

lemma ck_bytes_last: "ck_bytes (sw_chunk_start, k) ([ch_0] @ CRLF @ CRLF @ ys) = (Ck_finished ys, [])"
  by (simp add: ck_chunk_start_def ck_chunk_size_def ck_almost_done_def ck_trailer_def ck_trailer_almost_done_def)

lemma ck_bytes_call:
  assumes "chain \<noteq> [] \<longrightarrow> snd (last chain) = False" "int (length (concat (map fst chain))) \<le> NGX_MAX_OFF_T_VALUE div 16"
  shows "ck_bytes (sw_chunk_start, 0) (ngx_http_chunked_body_filter chain @ ys) =
    (case ck_bytes (sw_chunk_start, 0) ys of (res, d) \<Rightarrow> (res, concat (map fst chain) @ d))"
proof (cases "concat (map fst chain) = []")
  case True
  with assms show ?thesis
    by (auto simp: ngx_http_chunked_body_filter_def Let_def simp del: concat_eq_Nil_conv split: prod.split)
next
  case False
  then have "chain \<noteq> []" by auto
  with False assms ck_bytes_chunk [of "concat (map fst chain)" 0 ys] show ?thesis
    by (simp add: ngx_http_chunked_body_filter_def Let_def)
qed

lemma ck_bytes_last_call:
  assumes "chain \<noteq> []" "snd (last chain)" "int (length (concat (map fst chain))) \<le> NGX_MAX_OFF_T_VALUE div 16"
  shows "ck_bytes (sw_chunk_start, 0) (ngx_http_chunked_body_filter chain @ ys) =
    (Ck_finished ys, concat (map fst chain))"
proof (cases "concat (map fst chain) = []")
  case True
  with assms ck_bytes_last [of 0 ys] show ?thesis
    by (simp add: ngx_http_chunked_body_filter_def Let_def del: concat_eq_Nil_conv)
next
  case False
  with assms ck_bytes_chunk [of "concat (map fst chain)" 0 "[ch_0] @ CRLF @ CRLF @ ys"] ck_bytes_last [of 0 ys]
  show ?thesis by (simp add: ngx_http_chunked_body_filter_def Let_def del: concat_eq_Nil_conv)
qed

lemma ck_bytes_response:
  assumes "\<forall>chain\<in>set calls. chain \<noteq> [] \<longrightarrow> \<not> snd (last chain)" "final \<noteq> []" "snd (last final)"
    and "\<forall>chain\<in>set (calls @ [final]). int (length (concat (map fst chain))) \<le> NGX_MAX_OFF_T_VALUE div 16"
  shows "ck_bytes (sw_chunk_start, 0) (encode_response (calls @ [final])) =
    (Ck_finished [], response_data (calls @ [final]))"
  using assms
proof (induction calls)
  case Nil
  then show ?case using ck_bytes_last_call [of final "[]"] by (simp add: encode_response_def response_data_def)
next
  case (Cons chain calls)
  then have "ck_bytes (sw_chunk_start, 0) (encode_response (calls @ [final])) =
    (Ck_finished [], response_data (calls @ [final]))" by simp
  with ck_bytes_call [of chain "encode_response (calls @ [final])"] Cons.prems show ?case
    by (simp add: encode_response_def response_data_def)
qed

section \<open>Properties\<close>

abbreviation (input) fresh_body :: chunked_body where
  "fresh_body \<equiv> \<lparr>body_rest = - 1, body_chunked = \<lparr>ck_state = sw_chunk_start, ck_size = 0, ck_length = 0\<rparr>,
     content_length_n = 0\<rparr>"

lemma request_body_filter_bytes:
  assumes "\<forall>c\<in>set (c # cs). c \<noteq> []"
    and "\<forall>rest d. ck_bytes (sw_chunk_start, 0) (concat (c # cs)) = (Ck_finished rest, d) \<longrightarrow> rest = []"
  shows "ck_refines_chain (ck_bytes (sw_chunk_start, 0) (concat (c # cs))) []
    (ngx_http_request_body_chunked_filter 0 fresh_body (map (\<lambda>c. \<lparr>buf_data = c, buf_pos = 0\<rparr>) (c # cs)))"
proof -
  let ?rb = "\<lparr>body_rest = 3, body_chunked = \<lparr>ck_state = sw_chunk_start, ck_size = 0, ck_length = 0\<rparr>, content_length_n = 0\<rparr>"
  have "ck_refines_chain (ck_bytes (body_machine ?rb) (concat (c # cs))) []
     (ck_filter_chain 0 ?rb (map (\<lambda>c. \<lparr>buf_data = c, buf_pos = 0\<rparr>) (c # cs)) [])"
    using assms by (intro ck_filter_chain_refines) (auto simp: ck_norm_def ck_ok_def)
  then show ?thesis by (simp add: ngx_http_request_body_chunked_filter_def)
qed

text \<open>
  C10: a body that \<^verbatim>\<open>ngx_http_chunked_body_filter\<close> has encoded, in any number of calls of which the
  last one has the last buffer, is decoded by \<^verbatim>\<open>ngx_http_request_body_chunked_filter\<close> to the same bytes,
  however the encoded bytes are cut into buffers; the end of the body is recognised, and nothing
  is left to be read.
\<close>

theorem chunked_roundtrip:
  assumes "\<forall>chain\<in>set calls. chain \<noteq> [] \<longrightarrow> \<not> snd (last chain)" "final \<noteq> []" "snd (last final)"
    and "\<forall>chain\<in>set (calls @ [final]). int (length (concat (map fst chain))) \<le> NGX_MAX_OFF_T_VALUE div 16"
    and "concat (c # cs) = encode_response (calls @ [final])" "\<forall>c\<in>set (c # cs). c \<noteq> []"
  shows "\<exists>rb bs out. ngx_http_request_body_chunked_filter 0 fresh_body (map (\<lambda>c. \<lparr>buf_data = c, buf_pos = 0\<rparr>) (c # cs)) =
      (NGX_OK, rb, bs, out @ [Out_last])
    \<and> Out_last \<notin> set out \<and> out_bytes out = response_data (calls @ [final]) \<and> body_rest rb = 0"
proof -
  have "ck_bytes (sw_chunk_start, 0) (concat (c # cs)) = (Ck_finished [], response_data (calls @ [final]))"
    unfolding assms(5) using assms(1-4) by (rule ck_bytes_response)
  with request_body_filter_bytes [OF assms(6)] show ?thesis
    by (auto simp: ck_refines_chain_def ck_outnorm_def split: prod.splits)
qed

theorem chunked_roundtrip_witness:
  "\<exists>rb bs out. ngx_http_request_body_chunked_filter 0 fresh_body
      (map (\<lambda>c. \<lparr>buf_data = c, buf_pos = 0\<rparr>)
        [bytes ''5'' @ [CR], [LF] @ bytes ''hel'', bytes ''lo'' @ [CR, LF] @ bytes ''0'' @ [CR, LF, CR], [LF]]) =
      (NGX_OK, rb, bs, out @ [Out_last]) \<and> out_bytes out = bytes ''hello''"
proof -
  have e: "encode_response ([] @ [[(bytes ''hello'', True)]]) =
    concat [bytes ''5'' @ [CR], [LF] @ bytes ''hel'', bytes ''lo'' @ [CR, LF] @ bytes ''0'' @ [CR, LF, CR], [LF]]" by code_simp
  have d: "response_data ([] @ [[(bytes ''hello'', True)]]) = bytes ''hello''" by (simp add: response_data_def)
  from chunked_roundtrip [of "[]" "[(bytes ''hello'', True)]", OF _ _ _ _ e [symmetric]] d show ?thesis by auto
qed

section \<open>Bounds\<close>

fun ck_need :: "ck_state \<Rightarrow> int \<Rightarrow> int" where
  "ck_need sw_chunk_size n = (if n \<noteq> 0 then n + 5 else 2)"
| "ck_need sw_chunk_extension n = n + 5"
| "ck_need sw_chunk_extension_almost_done n = n + 5"
| "ck_need sw_chunk_data n = n + 4"
| "ck_need s n = ck_rest s n"

lemma ck_rest_need: "ck_ok m \<Longrightarrow> ck_rest (fst m) (snd m) = ck_need (fst m) (snd m)"
  by (cases m; cases "fst m") (auto simp: ck_ok_def)

lemma ck_chunk_size_grows:
  assumes "0 \<le> n" "ck_chunk_size n c = Next (sw_chunk_size, n')"
  shows "n \<le> n'"
  using assms ck_digit [of c] ck_digit(2) [of "c OR 0x20"]
    ck_size_bounds [of n "uint c - 48"] ck_size_bounds [of n "uint (c OR 0x20) - 97 + 10"]
  by (auto simp: ck_chunk_size_def Let_def not_less split: if_splits)

lemma ck_need_step:
  assumes "0 \<le> snd m" "ck_step b m p c = Next m'" "fst m \<noteq> sw_chunk_data"
  shows "ck_need (fst m) (snd m) \<le> 1 + ck_need (fst m') (snd m')"
proof (cases "fst m = sw_chunk_size \<and> fst m' = sw_chunk_size")
  case True
  with assms ck_chunk_size_grows [of "snd m" c "snd m'"] show ?thesis by (cases m; cases m') auto
next
  case False
  with assms ck_digit [of c] ck_digit(2) [of "c OR 0x20"] show ?thesis
    by (cases m; cases "fst m") (auto simp: ck_defs Let_def split: if_splits)
qed

lemma ck_rest_step:
  assumes "ck_ok m" "ck_step b m p c = Next m'" "fst m \<noteq> sw_chunk_data" "ck_ok m'"
  shows "ck_rest (fst m) (snd m) \<le> 1 + ck_rest (fst m') (snd m')"
  using assms ck_need_step [of m b p c m'] by (simp add: ck_rest_need ck_ok_def)

lemma ck_rest_nonneg: "ck_ok m \<Longrightarrow> 0 \<le> ck_rest (fst m) (snd m)"
  by (cases m; cases "fst m") (auto simp: ck_ok_def)

lemma ck_rest_norm: "m = (sw_chunk_data, 0) \<Longrightarrow> ck_rest (fst (ck_norm m)) (snd m) = ck_rest (fst m) (snd m)"
  by (simp add: ck_norm_def)

lemma ck_bytes_length:
  "ck_ok m \<Longrightarrow> ck_bytes m xs = (Ck_finished rest, d) \<Longrightarrow> ck_rest (fst m) (snd m) + int (length rest) \<le> int (length xs)"
proof (induction m xs arbitrary: d rule: ck_bytes.induct)
  case (1 s n)
  then show ?case by simp
next
  case (2 s n c cs)
  show ?case
  proof (cases "s = sw_chunk_data \<and> n \<noteq> 0")
    case True
    then obtain d' where "ck_bytes (s, n - 1) cs = (Ck_finished rest, d')"
      using 2(4) by (auto split: prod.splits)
    moreover have "ck_ok (s, n - 1)" using 2(3) True by (auto simp: ck_ok_def)
    ultimately have "ck_rest s (n - 1) + int (length rest) \<le> int (length cs)" using 2(1) True by simp
    moreover have "ck_rest s n = 1 + ck_rest s (n - 1)" using True 2(3) by (auto simp: ck_ok_def)
    ultimately show ?thesis by simp
  next
    case False
    define s' where "s' = (if s = sw_chunk_data then sw_after_data else s)"
    have ok: "ck_ok (s', n)" "s' \<noteq> sw_chunk_data" using 2(3) by (auto simp: s'_def ck_ok_def)
    have eq: "ck_rest s n = ck_rest s' n" using False by (auto simp: s'_def)
    show ?thesis
    proof (cases "ck_step [] (s', n) 0 c")
      case (Next m')
      obtain s1 n1 where m': "m' = (s1, n1)" by (cases m')
      have b: "\<not> n1 > NGX_MAX_OFF_T_VALUE - 5" "ck_bytes (s1, n1) cs = (Ck_finished rest, d)"
        using 2(4) Next m' False unfolding s'_def by (auto simp del: ck_step.simps split: if_splits)
      from ck_step_ok [OF ok(1) Next] ok(2) b(1) m' have ok': "ck_ok (s1, n1)" by auto
      have "ck_rest s1 n1 + int (length rest) \<le> int (length cs)"
        using 2(2) [OF False Next [unfolded s'_def m'] refl b(1) ok' b(2)] by simp
      with ck_rest_step [OF ok(1) Next] ok(2) ok' m' eq show ?thesis by simp
    next
      case (Stop x m')
      with 2(4) False have x: "x = Ck_done" and r: "rest = cs" unfolding s'_def
        by (auto simp del: ck_step.simps split: ck_exit.splits)
      with Stop ok(2) have "ck_rest s' n = 1"
        by (cases s') (auto simp: ck_defs Let_def split: if_splits)
      with eq r show ?thesis by simp
    qed
  qed
qed

lemma ck_bytes_ok: "ck_ok m \<Longrightarrow> ck_bytes m xs = (Ck_more m', d) \<Longrightarrow> ck_ok m'"
proof (induction m xs arbitrary: d rule: ck_bytes.induct)
  case (1 s n)
  then show ?case by simp
next
  case (2 s n c cs)
  show ?case
  proof (cases "s = sw_chunk_data \<and> n \<noteq> 0")
    case True
    with 2(4) obtain d' where "ck_bytes (s, n - 1) cs = (Ck_more m', d')" by (auto split: prod.splits)
    moreover have "ck_ok (s, n - 1)" using 2(3) True by (auto simp: ck_ok_def)
    ultimately show ?thesis using 2(1) True by simp
  next
    case False
    define s' where "s' = (if s = sw_chunk_data then sw_after_data else s)"
    have ok: "ck_ok (s', n)" "s' \<noteq> sw_chunk_data" using 2(3) by (auto simp: s'_def ck_ok_def)
    from 2(4) False obtain s1 n1 where m': "ck_step [] (s', n) 0 c = Next (s1, n1)" "\<not> n1 > NGX_MAX_OFF_T_VALUE - 5"
      "ck_bytes (s1, n1) cs = (Ck_more m', d)" unfolding s'_def
      by (auto simp del: ck_step.simps split: verdict.splits ck_exit.splits if_splits)
    from ck_step_ok [OF ok(1) m'(1)] ok(2) m'(2) have "ck_ok (s1, n1)" by auto
    from 2(2) [OF False m'(1) [unfolded s'_def] refl m'(2) this m'(3)] show ?thesis .
  qed
qed

text \<open>
  C12: the filter never asks for more bytes than the body still has: when the bytes received so far
  and \<open>ys\<close> are a complete body, then \<^verbatim>\<open>rb->rest\<close> is at most the length of \<open>ys\<close>, so that reading
  \<^verbatim>\<open>rb->rest\<close> bytes never takes bytes of the next request.
\<close>

theorem request_body_chunked_filter_rest:
  assumes "\<forall>c\<in>set (c # cs). c \<noteq> []" "ys \<noteq> []"
    and "ck_bytes (sw_chunk_start, 0) (concat (c # cs) @ ys) = (Ck_finished [], d)"
  shows "case ngx_http_request_body_chunked_filter 0 fresh_body (map (\<lambda>c. \<lparr>buf_data = c, buf_pos = 0\<rparr>) (c # cs)) of
      (rc, rb, bs, out) \<Rightarrow> rc = NGX_OK \<and> 0 < body_rest rb \<and> body_rest rb \<le> int (length ys)"
proof -
  obtain r d1 where r: "ck_bytes (sw_chunk_start, 0) (concat (c # cs)) = (r, d1)"
    by (cases "ck_bytes (sw_chunk_start, 0) (concat (c # cs))")
  note app = ck_bytes_append [of "(sw_chunk_start, 0)" "concat (c # cs)" ys]
  from app r assms(2,3) obtain m where m: "r = Ck_more m" by (cases r) (simp_all del: concat.simps)
  obtain r2 d2 where r2: "ck_bytes m ys = (r2, d2)" by (cases "ck_bytes m ys")
  with app r assms(3) m have fin: "ck_bytes m ys = (Ck_finished [], d2)" by (simp del: concat.simps)
  have ok: "ck_ok m" by (rule ck_bytes_ok [OF _ r [unfolded m]]) (simp add: ck_ok_def)
  from ck_bytes_length [OF ok fin] have len: "ck_rest (fst m) (snd m) \<le> int (length ys)" by simp
  have pos: "0 < ck_rest (fst m) (snd m)" using ok by (cases m; cases "fst m") (auto simp: ck_ok_def)
  have eq: "ck_rest (fst (ck_norm m)) (snd (ck_norm m)) = ck_rest (fst m) (snd m)" by (simp add: ck_norm_def)
  from request_body_filter_bytes [OF assms(1)] r m len pos eq show ?thesis
    by (auto simp: ck_refines_chain_def ck_outnorm_def split: prod.splits)
qed

theorem request_body_chunked_filter_rest_witness:
  "case ngx_http_request_body_chunked_filter 0 fresh_body [\<lparr>buf_data = bytes ''3'' @ [LF] @ bytes ''x'', buf_pos = 0\<rparr>] of
     (rc, rb, bs, out) \<Rightarrow> rc = NGX_OK \<and> body_rest rb \<le> 6"
proof -
  have "ck_bytes (sw_chunk_start, 0) (concat [bytes ''3'' @ [LF] @ bytes ''x''] @ bytes ''yz'' @ [LF] @ bytes ''0'' @ [LF, LF])
    = (Ck_finished [], bytes ''xyz'')" by code_simp
  from request_body_chunked_filter_rest [OF _ _ this] show ?thesis by (auto split: prod.splits)
qed

lemma ck_take_length:
  assumes "ck_take rb b = (o', rb', b')" "0 \<le> ck_size (body_chunked rb)" "buf_pos b \<le> length (buf_data b)"
    and "0 \<le> content_length_n rb" "content_length_n rb + ck_size (body_chunked rb) \<le> NGX_MAX_OFF_T_VALUE"
  shows "content_length_n rb' = content_length_n rb + int (length (out_bytes [o']))
    \<and> int (length (out_bytes [o'])) \<le> ck_size (body_chunked rb) \<and> 0 \<le> ck_size (body_chunked rb')
    \<and> buf_pos b' \<le> length (buf_data b')"
  using assms by (auto simp: ck_take_def Let_def split: if_splits)

lemma parse_chunked_ctx:
  assumes "ck_ok (ck_norm (body_machine rb))" "buf_pos b \<le> length (buf_data b)"
    and "ngx_http_parse_chunked b (body_chunked rb) = (rc, ctx, b')" "rc \<noteq> NGX_ERROR"
  shows "ck_ok (ck_norm (ck_state ctx, ck_size ctx)) \<and> buf_pos b' \<le> length (buf_data b') \<and> (rc = NGX_AGAIN \<longrightarrow> 0 \<le> ck_length ctx)"
proof -
  define m where "m = ck_norm (body_machine rb)"
  have ok: "ck_ok m" "m \<noteq> (sw_chunk_data, 0)" using assms(1) by (auto simp: m_def ck_norm_def)
  note ag = ck_scan_bytes [OF ok assms(2)]
  have parse: "ngx_http_parse_chunked b (body_chunked rb) =
     (case scan ck_step (buf_data b) m (buf_pos b) of
        More m \<Rightarrow> ck_data NGX_AGAIN (body_chunked rb) m b (length (buf_data b))
      | Halt Ck_data m pos \<Rightarrow> ck_data NGX_OK (body_chunked rb) m b pos
      | Halt Ck_done m pos \<Rightarrow>
          (NGX_DONE, (body_chunked rb)\<lparr>ck_state := sw_chunk_start, ck_size := snd m\<rparr>, b\<lparr>buf_pos := pos + 1\<rparr>)
      | Halt Ck_invalid m pos \<Rightarrow> (NGX_ERROR, (body_chunked rb)\<lparr>ck_size := snd m\<rparr>, b))"
    by (simp add: ngx_http_parse_chunked_def ck_entry_norm m_def)
  show ?thesis
  proof (cases "scan ck_step (buf_data b) m (buf_pos b)")
    case (More m')
    with parse ag assms(3,4) ck_rest_nonneg [of m'] show ?thesis
      by (cases m') (auto simp: ck_agrees_def ck_data_def Let_def ck_norm_def split: if_splits)
  next
    case (Halt x m' q)
    from ck_scan_pos [OF assms(2) this] parse ag Halt assms(3,4) show ?thesis
      by (cases x) (auto simp: ck_agrees_def ck_data_def Let_def ck_norm_def ck_ok_def split: if_splits)
  qed
qed

text \<open>What the loops of the filter keep, \<open>k\<close> bytes having been passed on by earlier calls.\<close>

definition ck_body_ok :: "int \<Rightarrow> int \<Rightarrow> chunked_body \<Rightarrow> out_buf list \<Rightarrow> bool" where
  "ck_body_ok limit k rb out \<longleftrightarrow>
     0 \<le> k \<and> content_length_n rb = k + int (length (out_bytes out)) \<and> content_length_n rb \<le> limit"

lemma ck_filter_limit:
  "ck_ok (ck_norm (body_machine rb)) \<Longrightarrow> buf_pos b \<le> length (buf_data b) \<Longrightarrow> ck_body_ok limit k rb out0 \<Longrightarrow>
    0 < limit \<Longrightarrow> limit \<le> NGX_MAX_OFF_T_VALUE \<Longrightarrow> ck_filter_buf limit rb b out0 = (rc, rb', b', out) \<Longrightarrow>
    ck_body_ok limit k rb' out \<and> (rc = NGX_OK \<longrightarrow> ck_ok (ck_norm (body_machine rb')) \<and> 0 \<le> body_rest rb')"
proof (induction limit rb b out0 rule: ck_filter_buf.induct)
  case (1 limit rb b out0)
  obtain rc1 ctx b1 where parse: "ngx_http_parse_chunked b (body_chunked rb) = (rc1, ctx, b1)" by (metis prod_cases3)
  let ?rb = "rb\<lparr>body_chunked := ctx\<rparr>"
  show ?case
  proof (cases "rc1 = NGX_OK \<and> \<not> limit - content_length_n ?rb < ck_size ctx")
    case False
    with 1(4-7) parse parse_chunked_ctx [OF 1(2,3) parse] show ?thesis
      by (subst (asm) ck_filter_buf.simps) (auto simp: Let_def ck_body_ok_def split: if_splits)
  next
    case True
    obtain o' rb2 b2 where tk: "ck_take ?rb b1 = (o', rb2, b2)" by (metis prod_cases3)
    have ctx: "ck_ok (ck_norm (ck_state ctx, ck_size ctx))" "buf_pos b1 \<le> length (buf_data b1)"
      using parse_chunked_ctx [OF 1(2,3) parse] True by auto
    have st: "ck_state ctx = sw_chunk_data" using parse_chunked_ok(2) [of b "body_chunked rb"] parse True by auto
    have size0: "0 \<le> ck_size ctx" using ctx(1) by (auto simp: ck_ok_def ck_norm_def split: if_splits)
    have cl: "0 \<le> content_length_n rb" using 1(4) by (simp add: ck_body_ok_def)
    from ck_take_length [OF tk] ctx(2) size0 cl True 1(6)
    have tk': "content_length_n rb2 = content_length_n rb + int (length (out_bytes [o']))"
      "int (length (out_bytes [o'])) \<le> ck_size ctx" "0 \<le> ck_size (body_chunked rb2)" "buf_pos b2 \<le> length (buf_data b2)"
      by auto
    have "ck_size (body_chunked rb2) \<le> NGX_MAX_OFF_T_VALUE - 5" "ck_state (body_chunked rb2) = sw_chunk_data"
      using tk ctx st size0 by (auto simp: ck_take_def Let_def ck_ok_def ck_norm_def split: if_splits)
    with tk'(3) have "ck_ok (ck_norm (body_machine rb2))" by (auto simp: ck_ok_def ck_norm_def)
    moreover have "ck_body_ok limit k rb2 (out0 @ [o'])" using 1(4) tk' True by (simp add: ck_body_ok_def)
    moreover have "ck_filter_buf limit rb2 b2 (out0 @ [o']) = (rc, rb', b', out)"
      using 1(7) parse tk True 1(5) by (subst (asm) ck_filter_buf.simps) (simp add: Let_def)
    ultimately show ?thesis
      using 1(1) [OF parse [symmetric] refl refl _ _ tk [symmetric] refl] True 1(5,6) tk'(4) by simp
  qed
qed

lemma ck_filter_chain_limit:
  "ck_ok (ck_norm (body_machine rb)) \<Longrightarrow> \<forall>b\<in>set bs. buf_pos b \<le> length (buf_data b) \<Longrightarrow> ck_body_ok limit k rb out0 \<Longrightarrow>
    0 < limit \<Longrightarrow> limit \<le> NGX_MAX_OFF_T_VALUE \<Longrightarrow> ck_filter_chain limit rb bs out0 = (rc, rb', bs', out) \<Longrightarrow> 0 \<le> body_rest rb \<Longrightarrow>
    ck_body_ok limit k rb' out \<and> (rc = NGX_OK \<longrightarrow> ck_ok (ck_norm (body_machine rb')) \<and> 0 \<le> body_rest rb')"
proof (induction bs arbitrary: rb bs' out0)
  case Nil
  then show ?case by simp
next
  case (Cons b bs)
  obtain rc1 rb1 b1 out1 where f: "ck_filter_buf limit rb b out0 = (rc1, rb1, b1, out1)" by (metis prod_cases4)
  from ck_filter_limit [OF Cons.prems(1) _ Cons.prems(3-5) f] Cons.prems(2)
  have rb1: "ck_body_ok limit k rb1 out1" "rc1 = NGX_OK \<longrightarrow> ck_ok (ck_norm (body_machine rb1)) \<and> 0 \<le> body_rest rb1" by auto
  show ?case
  proof (cases "rc1 = NGX_OK")
    case True
    then obtain bs2 where "ck_filter_chain limit rb1 bs out1 = (rc, rb', bs2, out)"
      using Cons.prems(6) f by (auto split: prod.splits)
    then show ?thesis using Cons.IH [of rb1 out1 bs2] Cons.prems(2,4,5) rb1 True by simp
  next
    case False
    then show ?thesis using Cons.prems(6) f rb1 by auto
  qed
qed

end
