(* ===== verification/Ngx_Http_Chunked_Body.thy ===== *)
theory Ngx_Http_Chunked_Body
  imports Ngx_Http_Chunked
begin

text \<open>
  A chunked request body over all the reads of a request: the calls of \<^verbatim>\<open>ngx_http_request_body_chunked_filter\<close> that the readers of
  \<^verbatim>\<open>http/ngx_http_request_body.c\<close> make until \<^verbatim>\<open>rb->rest\<close> is 0, against a decoder that is written by the grammar of the coding and knows nothing of the states
  of the parser, and with the limit on the size of the body.
\<close>

section \<open>The decoder by the grammar\<close>

text \<open>
  The grammar is as liberal as the parser: the contents of extensions and trailers are not checked, and between the data of a chunk and the end of its line any bytes but CR
  may stand, where RFC 7230 has none. A part of the body is found, with the bytes behind it, or the bytes end before it is complete, or it is wrong. A line ends with CR LF or with LF alone.
\<close>

datatype 'a part = Part 'a "u_char list" | Cut | Wrong

fun skip_line :: "u_char list \<Rightarrow> unit part" where
  "skip_line [] = Cut"
| "skip_line (c # cs) =
     (if c = LF then Part () cs
      else if c = CR then (case cs of [] \<Rightarrow> Cut | d # ds \<Rightarrow> if d = LF then Part () ds else Wrong)
      else skip_line cs)"

text \<open>
  A size in hexadecimal digits and the rest of its line, which is empty or begins like an extension. A size
  that leaves no room for what has to follow is wrong at once, and one above \<^verbatim>\<open>NGX_MAX_OFF_T_VALUE / 16\<close> at the byte after its digits.
\<close>

definition is_xdigit :: "u_char \<Rightarrow> bool" where
  "is_xdigit c \<longleftrightarrow> hex_value c \<noteq> None"

definition size_line :: "u_char list \<Rightarrow> int part" where
  "size_line xs =
     (let ds = takeWhile is_xdigit xs; ys = dropWhile is_xdigit xs; n = hex_acc 0 ds in
      if ds = [] then (if ys = [] then Cut else Wrong)
      else if n > NGX_MAX_OFF_T_VALUE - 5 then Wrong
      else (case ys of
         [] \<Rightarrow> Cut
       | c # cs \<Rightarrow>
           if n > NGX_MAX_OFF_T_VALUE div 16 \<or> c \<notin> {CR, LF, ch_semicolon, ch_space, ch_TAB} then Wrong
           else (case skip_line ys of Part u zs \<Rightarrow> Part n zs | Cut \<Rightarrow> Cut | Wrong \<Rightarrow> Wrong)))"

lemma skip_line_length: "skip_line xs = Part u ys \<Longrightarrow> length ys < length xs"
  by (induction xs rule: skip_line.induct) (auto split: if_splits list.splits)

text \<open>The trailer: lines up to an empty one.\<close>

function trailer_lines :: "u_char list \<Rightarrow> unit part" where
  "trailer_lines xs =
     (case skip_line xs of
        Part u ys \<Rightarrow> if hd xs = CR \<or> hd xs = LF then Part () ys else trailer_lines ys
      | Cut \<Rightarrow> Cut | Wrong \<Rightarrow> Wrong)"
  by pat_completeness auto
termination
  by (relation "measure length") (auto dest: skip_line_length)

declare trailer_lines.simps [simp del]

datatype decoded = Incomplete | Complete "u_char list" | Malformed

lemma size_line_length: "size_line xs = Part n ys \<Longrightarrow> length ys < length xs"
  using length_dropWhile_le [of is_xdigit xs]
  by (auto simp: size_line_def Let_def split: if_splits list.splits part.splits dest!: skip_line_length)

function chunked_decode :: "u_char list \<Rightarrow> decoded \<times> u_char list" where
  "chunked_decode xs =
     (case size_line xs of
        Cut \<Rightarrow> (Incomplete, []) | Wrong \<Rightarrow> (Malformed, [])
      | Part n ys \<Rightarrow>
          if n = 0 then (case trailer_lines ys of Part u rest \<Rightarrow> (Complete rest, []) | Cut \<Rightarrow> (Incomplete, []) | Wrong \<Rightarrow> (Malformed, []))
          else
            (case skip_line (drop (nat n) ys) of
               Part u zs \<Rightarrow> (case chunked_decode zs of (r, d) \<Rightarrow> (r, take (nat n) ys @ d))
             | Cut \<Rightarrow> (Incomplete, take (nat n) ys)
             | Wrong \<Rightarrow> (Malformed, take (nat n) ys)))"
  by pat_completeness auto
termination
  by (relation "measure length") (auto dest!: skip_line_length size_line_length)

declare chunked_decode.simps [simp del]

section \<open>The byte machine decodes by the grammar\<close>

definition ck_view :: "ck_outcome \<times> u_char list \<Rightarrow> decoded \<times> u_char list" where
  "ck_view r = (case r of (Ck_more m, d) \<Rightarrow> (Incomplete, d) | (Ck_finished rest, d) \<Rightarrow> (Complete rest, d) | (Ck_bad, d) \<Rightarrow> (Malformed, d))"

lemma ck_view_simps [simp]:
  "ck_view (Ck_more m, d) = (Incomplete, d)" "ck_view (Ck_finished rest, d) = (Complete rest, d)" "ck_view (Ck_bad, d) = (Malformed, d)"
  by (simp_all add: ck_view_def)

lemma ck_view_data: "ck_view (case r of (res, d) \<Rightarrow> (res, xs @ d)) = (case ck_view r of (res, d) \<Rightarrow> (res, xs @ d))"
  by (cases r; cases "fst r") auto

text \<open>A state that waits for the end of a line.\<close>

lemma ck_bytes_line:
  assumes "\<And>c. ck_step [] (here, n) 0 c = ck_line here cr lf n c" "\<And>c. ck_step [] (cr, n) 0 c = ck_almost_done cr lf n c"
    and "here \<noteq> sw_chunk_data" "cr \<noteq> sw_chunk_data" "n \<le> NGX_MAX_OFF_T_VALUE - 5"
  shows "ck_view (ck_bytes (here, n) xs) = (case skip_line xs of
      Part u ys \<Rightarrow> ck_view (ck_bytes (lf, n) ys) | Cut \<Rightarrow> (Incomplete, []) | Wrong \<Rightarrow> (Malformed, []))"
proof (induction xs rule: skip_line.induct)
  case (2 c cs)
  show ?case
  proof (cases "c = CR")
    case True
    then show ?thesis using assms by (cases cs) (simp_all add: ck_line_def ck_almost_done_def del: ck_step.simps)
  next
    case False
    then show ?thesis using assms 2 by (simp add: ck_line_def del: ck_step.simps)
  qed
qed simp

lemma ck_bytes_trailer:
  "n \<le> NGX_MAX_OFF_T_VALUE - 5 \<Longrightarrow> ck_view (ck_bytes (sw_trailer, n) xs) = (case trailer_lines xs of
      Part u rest \<Rightarrow> (Complete rest, []) | Cut \<Rightarrow> (Incomplete, []) | Wrong \<Rightarrow> (Malformed, []))"
proof (induction xs rule: trailer_lines.induct)
  case (1 xs)
  show ?case
  proof (cases xs)
    case Nil
    then show ?thesis by (simp add: trailer_lines.simps)
  next
    case (Cons c cs)
    consider "c = LF" | "c = CR" | "c \<noteq> LF" "c \<noteq> CR" by blast
    then show ?thesis
    proof cases
      case 1
      then show ?thesis using Cons by (simp add: trailer_lines.simps ck_trailer_def)
    next
      case 2
      then show ?thesis using Cons "1.prems"
        by (cases cs) (simp_all add: trailer_lines.simps ck_trailer_def ck_trailer_almost_done_def)
    next
      case 3
      then have line: "ck_view (ck_bytes (sw_trailer, n) xs) = (case skip_line xs of
          Part u ys \<Rightarrow> ck_view (ck_bytes (sw_trailer, n) ys) | Cut \<Rightarrow> (Incomplete, []) | Wrong \<Rightarrow> (Malformed, []))"
        using ck_bytes_line [of sw_trailer_header n sw_trailer_header_almost_done sw_trailer cs] "1.prems" Cons by (simp add: ck_trailer_def)
      show ?thesis
      proof (cases "skip_line xs")
        case (Part u ys)
        then show ?thesis using line "1.IH" [OF Part] "1.prems" 3 Cons by (subst trailer_lines.simps) simp
      qed (use line in \<open>simp_all add: trailer_lines.simps\<close>)
    qed
  qed
qed

text \<open>The size line.\<close>

lemma ck_step_xdigit:
  assumes "is_xdigit c" "0 \<le> n"
  shows "ck_step b (sw_chunk_size, n) p c = (if n > NGX_MAX_OFF_T_VALUE div 16 then Stop Ck_invalid (sw_chunk_size, n)
    else Next (sw_chunk_size, n * 16 + hex_digit c))"
proof -
  have c: "ch_0 \<le> c \<and> c \<le> ch_9 \<or> \<not> (ch_0 \<le> c \<and> c \<le> ch_9) \<and> ch_a \<le> c OR 0x20 \<and> c OR 0x20 \<le> ch_f"
    using assms(1) by (auto simp: is_xdigit_def hex_value_def is_digit_def lcase_def split: if_splits)
  have "s64 (n * 16 + hex_digit c) = n * 16 + hex_digit c" if "\<not> n > NGX_MAX_OFF_T_VALUE div 16"
    using ck_size_bounds [OF that assms(2)] hex_digit_range [of c] by simp
  with c show ?thesis using hex_digit_char [of c] by (auto simp: ck_chunk_size_def Let_def)
qed

lemma ck_bytes_too_big:
  "\<forall>c\<in>set cs. is_xdigit c \<Longrightarrow> 0 \<le> n \<Longrightarrow> n \<le> NGX_MAX_OFF_T_VALUE - 5 \<Longrightarrow> hex_acc n cs > NGX_MAX_OFF_T_VALUE - 5 \<Longrightarrow>
     ck_bytes (sw_chunk_size, n) (cs @ ys) = (Ck_bad, [])"
proof (induction cs arbitrary: n)
  case (Cons c cs)
  have d: "0 \<le> hex_digit c" using hex_digit_range [of c] by simp
  show ?case
  proof (cases "n > NGX_MAX_OFF_T_VALUE div 16 \<or> n * 16 + hex_digit c > NGX_MAX_OFF_T_VALUE - 5")
    case True
    then show ?thesis using Cons.prems ck_step_xdigit [of c n] by (auto simp del: ck_step.simps)
  next
    case False
    then show ?thesis using Cons ck_step_xdigit [of c n] d by (simp del: ck_step.simps)
  qed
qed simp

lemma ck_step_no_digit:
  assumes "\<not> is_xdigit c"
  shows "ck_step b (sw_chunk_start, n) p c = Stop Ck_invalid (sw_chunk_start, n)"
    and "ck_step b (sw_chunk_size, n) p c =
      (if n > NGX_MAX_OFF_T_VALUE div 16 \<or> c \<notin> {CR, LF, ch_semicolon, ch_space, ch_TAB} then Stop Ck_invalid (sw_chunk_size, n)
       else if c = CR then Next (if n = 0 then sw_last_chunk_extension_almost_done else sw_chunk_extension_almost_done, n)
       else if c = LF then Next (if n = 0 then sw_trailer else sw_chunk_data, n)
       else Next (if n = 0 then sw_last_chunk_extension else sw_chunk_extension, n))"
proof -
  have c: "\<not> (ch_0 \<le> c \<and> c \<le> ch_9)" "\<not> (ch_a \<le> c OR 0x20 \<and> c OR 0x20 \<le> ch_f)"
    using assms by (auto simp: is_xdigit_def hex_value_def is_digit_def lcase_def split: if_splits)
  show "ck_step b (sw_chunk_start, n) p c = Stop Ck_invalid (sw_chunk_start, n)"
    using c by (auto simp: ck_chunk_start_def Let_def)
  show "ck_step b (sw_chunk_size, n) p c =
      (if n > NGX_MAX_OFF_T_VALUE div 16 \<or> c \<notin> {CR, LF, ch_semicolon, ch_space, ch_TAB} then Stop Ck_invalid (sw_chunk_size, n)
       else if c = CR then Next (if n = 0 then sw_last_chunk_extension_almost_done else sw_chunk_extension_almost_done, n)
       else if c = LF then Next (if n = 0 then sw_trailer else sw_chunk_data, n)
       else Next (if n = 0 then sw_last_chunk_extension else sw_chunk_extension, n))"
    using c unfolding ck_step.simps ck_state.case ck_chunk_size_def Let_def by (auto simp del: disj_not1)
qed

lemma ck_bytes_size_end:
  assumes "\<not> is_xdigit c" "0 \<le> n" "n \<le> NGX_MAX_OFF_T_VALUE - 5"
  shows "ck_view (ck_bytes (sw_chunk_size, n) (c # cs)) =
    (if n > NGX_MAX_OFF_T_VALUE div 16 \<or> c \<notin> {CR, LF, ch_semicolon, ch_space, ch_TAB} then (Malformed, [])
     else (case skip_line (c # cs) of
        Part u zs \<Rightarrow> ck_view (ck_bytes (if n = 0 then sw_trailer else sw_chunk_data, n) zs)
      | Cut \<Rightarrow> (Incomplete, []) | Wrong \<Rightarrow> (Malformed, [])))"
proof -
  let ?here = "if n = 0 then sw_last_chunk_extension else sw_chunk_extension"
  let ?cr = "if n = 0 then sw_last_chunk_extension_almost_done else sw_chunk_extension_almost_done"
  let ?lf = "if n = 0 then sw_trailer else sw_chunk_data"
  have line: "ck_view (ck_bytes (?here, n) cs) = (case skip_line cs of
      Part u ys \<Rightarrow> ck_view (ck_bytes (?lf, n) ys) | Cut \<Rightarrow> (Incomplete, []) | Wrong \<Rightarrow> (Malformed, []))"
    using assms(3) by (cases "n = 0") (simp_all add: ck_bytes_line [where cr = sw_last_chunk_extension_almost_done]
      ck_bytes_line [where cr = sw_chunk_extension_almost_done] split: part.split)
  have cr: "ck_view (ck_bytes (?cr, n) cs) = (case cs of [] \<Rightarrow> (Incomplete, [])
      | d # ds \<Rightarrow> if d = LF then ck_view (ck_bytes (?lf, n) ds) else (Malformed, []))"
    using assms(3) by (cases cs; cases "n = 0") (auto simp: ck_almost_done_def)
  note step = ck_step_no_digit(2) [OF assms(1), of "[]" n 0]
  consider "n > NGX_MAX_OFF_T_VALUE div 16 \<or> c \<notin> {CR, LF, ch_semicolon, ch_space, ch_TAB}"
    | (ret) "\<not> n > NGX_MAX_OFF_T_VALUE div 16" "c = CR" | (lf) "\<not> n > NGX_MAX_OFF_T_VALUE div 16" "c = LF"
    | (other) "\<not> n > NGX_MAX_OFF_T_VALUE div 16" "c \<in> {ch_semicolon, ch_space, ch_TAB}" by blast
  then show ?thesis
  proof cases
    case 1
    then have "ck_step [] (sw_chunk_size, n) 0 c = Stop Ck_invalid (sw_chunk_size, n)" using step by (simp only: if_True)
    then show ?thesis using 1 by (simp del: ck_step.simps)
  next
    case ret
    then have "ck_step [] (sw_chunk_size, n) 0 c = Next (?cr, n)" using step by simp
    then have "ck_view (ck_bytes (sw_chunk_size, n) (c # cs)) = ck_view (ck_bytes (?cr, n) cs)" using assms(3) by (simp del: ck_step.simps)
    then show ?thesis using ret cr by (cases cs) simp_all
  next
    case lf
    then have "ck_step [] (sw_chunk_size, n) 0 c = Next (?lf, n)" using step by simp
    then have "ck_view (ck_bytes (sw_chunk_size, n) (c # cs)) = ck_view (ck_bytes (?lf, n) cs)" using assms(3) by (simp del: ck_step.simps)
    then show ?thesis using lf by simp
  next
    case other
    then have "ck_step [] (sw_chunk_size, n) 0 c = Next (?here, n)" using step by auto
    then have "ck_view (ck_bytes (sw_chunk_size, n) (c # cs)) = ck_view (ck_bytes (?here, n) cs)" using assms(3) by (simp del: ck_step.simps)
    moreover have "skip_line (c # cs) = skip_line cs" using other by auto
    ultimately show ?thesis using other line by auto
  qed
qed

lemma ck_bytes_size:
  "ck_view (ck_bytes (sw_chunk_start, k) xs) = (case size_line xs of
      Part n zs \<Rightarrow> ck_view (ck_bytes (if n = 0 then sw_trailer else sw_chunk_data, n) zs)
    | Cut \<Rightarrow> (Incomplete, []) | Wrong \<Rightarrow> (Malformed, []))"
proof -
  define ds where "ds = takeWhile is_xdigit xs"
  define ys where "ys = dropWhile is_xdigit xs"
  have xs: "xs = ds @ ys" "\<forall>c\<in>set ds. is_xdigit c" "ys \<noteq> [] \<Longrightarrow> \<not> is_xdigit (hd ys)"
    by (auto simp: ds_def ys_def hd_dropWhile dest: set_takeWhileD)
  show ?thesis
  proof (cases ds)
    case Nil
    then show ?thesis using xs ck_step_no_digit(1) [of "hd ys" "[]" k 0]
      by (cases ys) (simp_all add: size_line_def ds_def [symmetric] ys_def [symmetric] del: ck_step.simps)
  next
    case (Cons c cs)
    have c: "hex_value c \<noteq> None" "0 \<le> hex_digit c" "hex_digit c \<le> NGX_MAX_OFF_T_VALUE - 5"
      using xs(2) Cons hex_digit_range [of c] by (simp_all add: is_xdigit_def)
    define n where "n = hex_acc 0 ds"
    have n: "n = hex_acc (hex_digit c) cs" "0 \<le> n" using Cons c(2) hex_acc_mono [of "hex_digit c" cs] by (simp_all add: n_def)
    have first: "ck_bytes (sw_chunk_start, k) xs = ck_bytes (sw_chunk_size, hex_digit c) (cs @ ys)"
      using xs(1) Cons c ck_step_hex(1) [OF c(1)] by (simp del: ck_step.simps)
    have line: "size_line xs = (if n > NGX_MAX_OFF_T_VALUE - 5 then Wrong
      else (case ys of [] \<Rightarrow> Cut
       | c # cs \<Rightarrow> if n > NGX_MAX_OFF_T_VALUE div 16 \<or> c \<notin> {CR, LF, ch_semicolon, ch_space, ch_TAB} then Wrong
           else (case skip_line ys of Part u zs \<Rightarrow> Part n zs | Cut \<Rightarrow> Cut | Wrong \<Rightarrow> Wrong)))"
      using Cons unfolding size_line_def Let_def ds_def [symmetric] ys_def [symmetric] n_def [symmetric] by simp
    show ?thesis
    proof (cases "n > NGX_MAX_OFF_T_VALUE - 5")
      case True
      then show ?thesis using first line n(1) ck_bytes_too_big [of cs "hex_digit c" ys] c xs(2) Cons by simp
    next
      case False
      then have "ck_bytes (sw_chunk_start, k) xs = ck_bytes (sw_chunk_size, n) ys"
        using first n(1) c(2) ck_bytes_digits [of cs "hex_digit c" ys] xs(2) Cons by (simp add: is_xdigit_def list_all_iff)
      then show ?thesis using False line n(2) xs(3) ck_bytes_size_end [of "hd ys" n "tl ys"]
        by (cases ys) (simp_all split: part.splits)
    qed
  qed
qed

text \<open>The data of a chunk and the line end behind it.\<close>

lemma ck_bytes_chunk_data:
  assumes "0 < n"
  shows "ck_view (ck_bytes (sw_chunk_data, n) ys) = (case skip_line (drop (nat n) ys) of
      Part u zs \<Rightarrow> (case ck_view (ck_bytes (sw_chunk_start, 0) zs) of (r, d) \<Rightarrow> (r, take (nat n) ys @ d))
    | Cut \<Rightarrow> (Incomplete, take (nat n) ys) | Wrong \<Rightarrow> (Malformed, take (nat n) ys))"
proof -
  have after: "ck_view (ck_bytes (sw_chunk_data, 0) zs) = (case skip_line zs of
      Part u ys \<Rightarrow> ck_view (ck_bytes (sw_chunk_start, 0) ys) | Cut \<Rightarrow> (Incomplete, []) | Wrong \<Rightarrow> (Malformed, []))" for zs
  proof -
    have "ck_view (ck_bytes (sw_chunk_data, 0) zs) = ck_view (ck_bytes (sw_after_data, 0) zs)" by (cases zs) simp_all
    also have "\<dots> = (case skip_line zs of
      Part u ys \<Rightarrow> ck_view (ck_bytes (sw_chunk_start, 0) ys) | Cut \<Rightarrow> (Incomplete, []) | Wrong \<Rightarrow> (Malformed, []))"
      by (rule ck_bytes_line [where cr = sw_after_data_almost_done]) simp_all
    finally show ?thesis .
  qed
  show ?thesis
  proof (cases "int (length ys) < n")
    case True
    then show ?thesis using ck_bytes_data [of n ys "[]"] assms by (simp add: nat_le_iff)
  next
    case False
    then have "length (take (nat n) ys) = nat n" by (simp add: min_absorb2 nat_le_iff)
    then have "ck_bytes (sw_chunk_data, n) ys = (case ck_bytes (sw_chunk_data, 0) (drop (nat n) ys) of (res, d) \<Rightarrow> (res, take (nat n) ys @ d))"
      using ck_bytes_data [of n "take (nat n) ys" "drop (nat n) ys"] assms by (simp del: length_take)
    then show ?thesis using after [of "drop (nat n) ys"] by (simp add: ck_view_data split: part.split)
  qed
qed

lemma size_line_range: "size_line xs = Part n ys \<Longrightarrow> 0 \<le> n \<and> n \<le> NGX_MAX_OFF_T_VALUE - 5"
  using hex_acc_mono [of 0 "takeWhile is_xdigit xs"]
  by (auto simp: size_line_def Let_def split: if_splits list.splits part.splits)

lemma ck_bytes_decode: "ck_view (ck_bytes (sw_chunk_start, k) xs) = chunked_decode xs"
proof (induction xs arbitrary: k rule: chunked_decode.induct)
  case (1 xs)
  show ?case
  proof (cases "size_line xs")
    case (Part n ys)
    note range = size_line_range [OF Part]
    show ?thesis
    proof (cases "n = 0")
      case True
      then show ?thesis using Part ck_bytes_size [of k xs] ck_bytes_trailer [of 0 ys] by (subst chunked_decode.simps) simp
    next
      case False
      then have bytes: "ck_view (ck_bytes (sw_chunk_start, k) xs) = ck_view (ck_bytes (sw_chunk_data, n) ys)"
        using Part ck_bytes_size [of k xs] by simp
      show ?thesis
        unfolding bytes using ck_bytes_chunk_data [of n ys] False range Part "1" [OF Part False]
        by (subst chunked_decode.simps) (simp split: part.split)
    qed
  qed (use ck_bytes_size [of k xs] in \<open>simp_all add: chunked_decode.simps\<close>)
qed

section \<open>All the calls of a request\<close>

text \<open>
  A call for each chain that was read, until the body is complete or a call fails: the last code, the body, the bytes that have not been taken and what the calls
  have passed on.
\<close>

definition unread :: "ngx_buf_t list \<Rightarrow> u_char list" where
  "unread bs = concat (map (\<lambda>b. drop (buf_pos b) (buf_data b)) bs)"

fun read_body :: "int \<Rightarrow> chunked_body \<Rightarrow> ngx_buf_t list list \<Rightarrow> int \<times> chunked_body \<times> u_char list \<times> out_buf list" where
  "read_body limit rb [] = (NGX_OK, rb, [], [])"
| "read_body limit rb (chain # calls) =
     (case ngx_http_request_body_chunked_filter limit rb chain of (rc, rb', bs, out) \<Rightarrow>
        if rc \<noteq> NGX_OK \<or> body_rest rb' = 0 then (rc, rb', unread (concat (bs # calls)), out)
        else (case read_body limit rb' calls of (rc2, rb2, rest, out2) \<Rightarrow> (rc2, rb2, rest, out @ out2)))"

abbreviation started_body :: chunked_body where
  "started_body \<equiv> \<lparr>body_rest = 3, body_chunked = \<lparr>ck_state = sw_chunk_start, ck_size = 0, ck_length = 0\<rparr>, content_length_n = 0\<rparr>"

lemma read_body_fresh: "calls \<noteq> [] \<Longrightarrow> read_body limit fresh_body calls = read_body limit started_body calls"
  by (cases calls) (simp_all add: ngx_http_request_body_chunked_filter_def)

abbreviation whole_buf :: "u_char list \<Rightarrow> ngx_buf_t list" where
  "whole_buf c \<equiv> [\<lparr>buf_data = c, buf_pos = 0\<rparr>]"

text \<open>What the calls have to give for what the decoder gives.\<close>

definition reads_as :: "decoded \<times> u_char list \<Rightarrow> int \<times> chunked_body \<times> u_char list \<times> out_buf list \<Rightarrow> bool" where
  "reads_as r res = (case res of (rc, rb, rest, out) \<Rightarrow> case r of
      (Incomplete, d) \<Rightarrow> rc = NGX_OK \<and> body_rest rb \<noteq> 0 \<and> Out_last \<notin> set out \<and> out_bytes out = d
    | (Complete rest', d) \<Rightarrow> rc = NGX_OK \<and> body_rest rb = 0 \<and> rest = rest'
        \<and> (\<exists>ds. out = ds @ [Out_last] \<and> Out_last \<notin> set ds \<and> out_bytes ds = d)
    | (Malformed, d) \<Rightarrow> rc = NGX_HTTP_BAD_REQUEST)"

lemma ck_view_norm: "ck_view (ck_bytes (ck_norm m) xs) = ck_view (ck_bytes m xs)"
proof -
  have "ck_view (ck_outnorm r) = ck_view r" for r by (cases r; cases "fst r") (auto simp: ck_outnorm_def)
  then show ?thesis using ck_outnorm_bytes [of m xs] by metis
qed

lemma ck_rest_pos: "ck_ok m \<Longrightarrow> 0 < ck_rest (fst m) (snd m)"
  by (cases m; cases "fst m") (auto simp: ck_ok_def)

lemma read_body_refines:
  "ck_ok (ck_norm (body_machine rb)) \<Longrightarrow> 0 < body_rest rb \<Longrightarrow>
     reads_as (ck_view (ck_bytes (body_machine rb) (concat cs))) (read_body 0 rb (map whole_buf cs))"
proof (induction cs arbitrary: rb)
  case Nil
  then show ?case by (simp add: reads_as_def)
next
  case (Cons c cs)
  let ?m = "body_machine rb"
  obtain rc rb1 b1 out where f: "ck_filter_buf 0 rb \<lparr>buf_data = c, buf_pos = 0\<rparr> [] = (rc, rb1, b1, out)" by (metis prod_cases4)
  have filter: "ngx_http_request_body_chunked_filter 0 rb (whole_buf c) = (rc, rb1, [b1], out)"
    using f Cons.prems(2) by (simp add: ngx_http_request_body_chunked_filter_def)
  have ref: "ck_refines (ck_bytes (ck_norm ?m) c) c [] (rc, rb1, b1, out)"
    using ck_filter_refines [of rb "\<lparr>buf_data = c, buf_pos = 0\<rparr>" "[]"] Cons.prems(1) f by simp
  have data: "buf_data b1 = c" using ck_filter_data [OF f] by simp
  obtain r d where r: "ck_bytes (ck_norm ?m) c = (r, d)" by fastforce
  have whole: "ck_view (ck_bytes ?m (concat (c # cs))) = (case r of
      Ck_more m' \<Rightarrow> (case ck_view (ck_bytes m' (concat cs)) of (res, d') \<Rightarrow> (res, d @ d'))
    | Ck_finished rest \<Rightarrow> (Complete (rest @ concat cs), d) | Ck_bad \<Rightarrow> (Malformed, d))"
    using ck_view_norm [of ?m "concat (c # cs)"] ck_bytes_append [of "ck_norm ?m" c "concat cs"] r
    by (auto simp: ck_view_data split: ck_outcome.split)
  show ?case
  proof (cases r)
    case (Ck_more m')
    with ref r have o: "rc = NGX_OK" "body_machine rb1 = ck_norm m'" "ck_ok (ck_norm m')" "body_rest rb1 = ck_rest (fst (ck_norm m')) (snd (ck_norm m'))"
      "Out_last \<notin> set out" "out_bytes out = d" by (auto simp: ck_refines_def ck_norm_def)
    then have pos: "0 < body_rest rb1" using ck_rest_pos by simp
    obtain rc2 rb2 rest out2 where g: "read_body 0 rb1 (map whole_buf cs) = (rc2, rb2, rest, out2)" by (metis prod_cases4)
    have "reads_as (ck_view (ck_bytes m' (concat cs))) (rc2, rb2, rest, out2)"
      using Cons.IH [of rb1] o pos g ck_view_norm [of "ck_norm m'"] ck_view_norm [of m'] by simp
    then have "reads_as (case ck_view (ck_bytes m' (concat cs)) of (res, d') \<Rightarrow> (res, d @ d')) (rc2, rb2, rest, out @ out2)"
      using o(5,6) by (auto simp: reads_as_def split: prod.splits decoded.splits)
    moreover have "read_body 0 rb (map whole_buf (c # cs)) = (rc2, rb2, rest, out @ out2)"
      using filter g o(1) pos by simp
    ultimately show ?thesis using whole Ck_more by simp
  next
    case (Ck_finished rest)
    with ref r have "rc = NGX_OK" "body_rest rb1 = 0" "drop (buf_pos b1) c = rest" "\<exists>ds. out = ds @ [Out_last] \<and> Out_last \<notin> set ds \<and> out_bytes ds = d"
      by (auto simp: ck_refines_def)
    then show ?thesis using whole Ck_finished filter data
      by (auto simp: reads_as_def unread_def comp_def concat_map_singleton)
  next
    case Ck_bad
    then show ?thesis using whole ref r filter by (auto simp: reads_as_def ck_refines_def)
  qed
qed

text \<open>
  C9: Without a limit on the size of the body, the calls of \<^verbatim>\<open>ngx_http_request_body_chunked_filter\<close> for a request, one for each buffer that was read, of any number and
  however the bytes are cut, decode the body as the grammar says. As long as it is incomplete, the data so far has been passed on and
  more is asked for; when it is complete, exactly its data has been passed on, the last buffer is marked, nothing is asked for, and the bytes behind the body, and
  no others, are left unread; when it is malformed, some call answers 400. The grammar is that of \<open>chunked_decode\<close>: a size of at most \<^verbatim>\<open>NGX_MAX_OFF_T_VALUE / 16\<close>, lines that end
  with CR LF or LF, and, more liberal than RFC 7230, extensions, trailers and the bytes between the data of a chunk and the end of its line are not looked into.
\<close>

theorem request_body_chunked_filter_refines:
  "case read_body 0 fresh_body (map whole_buf cs) of (rc, rb, rest, out) \<Rightarrow> (case chunked_decode (concat cs) of
      (Incomplete, d) \<Rightarrow> rc = NGX_OK \<and> body_rest rb \<noteq> 0 \<and> Out_last \<notin> set out \<and> out_bytes out = d
    | (Complete rest', d) \<Rightarrow> rc = NGX_OK \<and> body_rest rb = 0 \<and> rest = rest'
        \<and> (\<exists>ds. out = ds @ [Out_last] \<and> Out_last \<notin> set ds \<and> out_bytes ds = d)
    | (Malformed, d) \<Rightarrow> rc = NGX_HTTP_BAD_REQUEST)"
proof (cases cs)
  case Nil
  then show ?thesis by (simp add: chunked_decode.simps size_line_def)
next
  case (Cons c cs')
  have "reads_as (ck_view (ck_bytes (body_machine started_body) (concat cs))) (read_body 0 started_body (map whole_buf cs))"
    by (rule read_body_refines) (simp_all add: ck_norm_def ck_ok_def)
  then have "reads_as (chunked_decode (concat cs)) (read_body 0 fresh_body (map whole_buf cs))"
    using read_body_fresh [of "map whole_buf cs" 0] Cons by (simp add: ck_bytes_decode)
  then show ?thesis by (auto simp: reads_as_def split: prod.splits)
qed

section \<open>The limit\<close>




text \<open>A body in three reads, with a second request behind it; and a second chunk that goes over the limit.\<close>

lemma example_read_body:
  "snd (snd (read_body 0 fresh_body
     [whole_buf (bytes ''3;x'' @ [CR]), whole_buf ([LF] @ bytes ''ab''), whole_buf (bytes ''c'' @ [CR, LF] @ bytes ''0'' @ [LF, LF] @ bytes ''GET'')]))
   = (bytes ''GET'', [Out_data (bytes ''ab''), Out_data (bytes ''c''), Out_last])"
  "fst (read_body 2 fresh_body [whole_buf (bytes ''1'' @ [LF] @ bytes ''x'' @ [LF]), whole_buf (bytes ''2'' @ [LF] @ bytes ''yz'')])
   = NGX_HTTP_REQUEST_ENTITY_TOO_LARGE"
  by code_simp+

end
