(* ===== verification/Ngx_Http_Complex_Uri.thy ===== *)
theory Ngx_Http_Complex_Uri
  imports Ngx_Http_Types "HOL-Library.Sublist"
begin

text \<open>
  \<^verbatim>\<open>ngx_http_parse_complex_uri\<close> of \<^verbatim>\<open>http/ngx_http_parse.c\<close>: one pass over the URI that decodes the
  escapes, merges slashes and resolves the segments \<^verbatim>\<open>.\<close> and \<^verbatim>\<open>..\<close>. The memory \<^verbatim>\<open>[r->uri.data, u)\<close>,
  which is all that the code reads again, is a list; a read behind the buffer is the outcome
  \<open>Cu_fault\<close>. The specification decodes first and then runs a stack of segments.
\<close>

section \<open>The loop\<close>

datatype cu_sw = cu_sw_usual | cu_sw_slash | cu_sw_dot | cu_sw_dot_dot | cu_sw_quoted | cu_sw_quoted_second

record cu_vars =
  cu_state :: cu_sw
  cu_quoted_state :: cu_sw
  cu_decoded :: u_char
  cu_ch :: u_char
  cu_p :: nat
  cu_u :: "u_char list"
  cu_ext :: ptr
  cu_args_start :: ptr
  cu_plus :: bool
  cu_quoted :: bool

text \<open>How an iteration ends: at the end of the loop's body, at a label, with an error, with a wild read.\<close>

datatype cu_exit = Cu_next cu_vars | Cu_done cu_vars | Cu_args cu_vars | Cu_invalid | Cu_fault

text \<open>\<^verbatim>\<open>ch = *p++\<close> at the end of an iteration, and \<^verbatim>\<open>*u++ = c\<close>.\<close>

definition cu_advance :: "u_char list \<Rightarrow> cu_vars \<Rightarrow> cu_exit" where
  "cu_advance b s =
     (if cu_p s < length b then Cu_next (s\<lparr>cu_ch := b ! cu_p s, cu_p := cu_p s + 1\<rparr>) else Cu_fault)"

definition cu_put :: "u_char \<Rightarrow> cu_vars \<Rightarrow> cu_vars" where
  "cu_put c s = s\<lparr>cu_u := cu_u s @ [c]\<rparr>"

definition cu_usual :: "u_char list \<Rightarrow> cu_vars \<Rightarrow> cu_exit" where
  "cu_usual b s =
     (let ch = cu_ch s in
      if is_usual ch then cu_advance b (cu_put ch s)
      else if ch = ch_slash then cu_advance b (cu_put ch (s\<lparr>cu_ext := None, cu_state := cu_sw_slash\<rparr>))
      else if ch = ch_percent then cu_advance b (s\<lparr>cu_quoted_state := cu_state s, cu_state := cu_sw_quoted\<rparr>)
      else if ch = ch_question then Cu_args (s\<lparr>cu_args_start := Some (cu_p s)\<rparr>)
      else if ch = ch_hash then Cu_done s
      else if ch = ch_dot then cu_advance b (cu_put ch (s\<lparr>cu_ext := Some (length (cu_u s) + 1)\<rparr>))
      else if ch = ch_plus then cu_advance b (cu_put ch (s\<lparr>cu_plus := True\<rparr>))
      else cu_advance b (cu_put ch s))"

text \<open>The cases that the states after a slash share.\<close>

definition cu_after_slash :: "u_char list \<Rightarrow> cu_vars \<Rightarrow> cu_exit" where
  "cu_after_slash b s =
     (let ch = cu_ch s in
      if ch = ch_percent then cu_advance b (s\<lparr>cu_quoted_state := cu_state s, cu_state := cu_sw_quoted\<rparr>)
      else if ch = ch_question then Cu_args (s\<lparr>cu_args_start := Some (cu_p s)\<rparr>)
      else if ch = ch_hash then Cu_done s
      else if ch = ch_plus then cu_advance b (cu_put ch (s\<lparr>cu_plus := True, cu_state := cu_sw_usual\<rparr>))
      else cu_advance b (cu_put ch (s\<lparr>cu_state := cu_sw_usual\<rparr>)))"

definition cu_slash :: "bool \<Rightarrow> u_char list \<Rightarrow> cu_vars \<Rightarrow> cu_exit" where
  "cu_slash merge_slashes b s =
     (let ch = cu_ch s in
      if is_usual ch then cu_advance b (cu_put ch (s\<lparr>cu_state := cu_sw_usual\<rparr>))
      else if ch = ch_slash then cu_advance b (if merge_slashes then s else cu_put ch s)
      else if ch = ch_dot then cu_advance b (cu_put ch (s\<lparr>cu_state := cu_sw_dot\<rparr>))
      else cu_after_slash b s)"

definition cu_dot :: "u_char list \<Rightarrow> cu_vars \<Rightarrow> cu_exit" where
  "cu_dot b s =
     (let ch = cu_ch s in
      if is_usual ch then cu_advance b (cu_put ch (s\<lparr>cu_state := cu_sw_usual\<rparr>))
      else if ch = ch_slash
      then cu_advance b (s\<lparr>cu_state := cu_sw_slash, cu_u := take (length (cu_u s) - 1) (cu_u s)\<rparr>)
      else if ch = ch_dot then cu_advance b (cu_put ch (s\<lparr>cu_state := cu_sw_dot_dot\<rparr>))
      else cu_after_slash b s)"

text \<open>
  The loop after \<^verbatim>\<open>u -= 5\<close>: from offset \<open>i\<close>, which may be negative, down to a slash; \<open>None\<close> is
  \<^verbatim>\<open>u < r->uri.data\<close>.
\<close>

function cu_back :: "u_char list \<Rightarrow> int \<Rightarrow> u_char list option" where
  "cu_back us i =
     (if i < 0 then None
      else if us ! nat i = ch_slash then Some (take (nat i + 1) us)
      else cu_back us (i - 1))"
  by pat_completeness auto
termination
  by (relation "measure (\<lambda>(us, i). nat (i + 1))") auto

declare cu_back.simps [simp del]

definition cu_dot_dot :: "u_char list \<Rightarrow> cu_vars \<Rightarrow> cu_exit" where
  "cu_dot_dot b s =
     (let ch = cu_ch s in
      if is_usual ch then cu_advance b (cu_put ch (s\<lparr>cu_state := cu_sw_usual\<rparr>))
      else if ch = ch_slash then
        (case cu_back (cu_u s) (int (length (cu_u s)) - 5) of
           None \<Rightarrow> Cu_invalid
         | Some us \<Rightarrow> cu_advance b (s\<lparr>cu_state := cu_sw_slash, cu_u := us\<rparr>))
      else cu_after_slash b s)"

definition cu_quoted_first :: "u_char list \<Rightarrow> cu_vars \<Rightarrow> cu_exit" where
  "cu_quoted_first b s =
     (let s = s\<lparr>cu_quoted := True\<rparr>; ch = cu_ch s in
      if ch \<ge> ch_0 \<and> ch \<le> ch_9
      then cu_advance b (s\<lparr>cu_decoded := ch - ch_0, cu_state := cu_sw_quoted_second\<rparr>)
      else
        let c = ch OR 0x20 in
        if c \<ge> ch_a \<and> c \<le> ch_f
        then cu_advance b (s\<lparr>cu_decoded := c - ch_a + 10, cu_state := cu_sw_quoted_second\<rparr>)
        else Cu_invalid)"

definition cu_quoted_second :: "u_char list \<Rightarrow> cu_vars \<Rightarrow> cu_exit" where
  "cu_quoted_second b s =
     (let ch = cu_ch s in
      if ch \<ge> ch_0 \<and> ch \<le> ch_9 then
        (let ch = push_bit 4 (cu_decoded s) + ch - ch_0; s = s\<lparr>cu_ch := ch\<rparr> in
         if ch = ch_percent \<or> ch = ch_hash then cu_advance b (cu_put ch (s\<lparr>cu_state := cu_sw_usual\<rparr>))
         else if ch = ch_NUL then Cu_invalid
         else Cu_next (s\<lparr>cu_state := cu_quoted_state s\<rparr>))
      else
        let c = ch OR 0x20 in
        if c \<ge> ch_a \<and> c \<le> ch_f then
          (let ch = push_bit 4 (cu_decoded s) + c - ch_a + 10; s = s\<lparr>cu_ch := ch\<rparr> in
           if ch = ch_question then cu_advance b (cu_put ch (s\<lparr>cu_state := cu_sw_usual\<rparr>))
           else Cu_next (s\<lparr>cu_plus := (cu_plus s \<or> ch = ch_plus), cu_state := cu_quoted_state s\<rparr>))
        else Cu_invalid)"

fun cu_step :: "bool \<Rightarrow> u_char list \<Rightarrow> cu_vars \<Rightarrow> cu_exit" where
  "cu_step merge_slashes b s =
     (case cu_state s of
        cu_sw_usual \<Rightarrow> cu_usual b s
      | cu_sw_slash \<Rightarrow> cu_slash merge_slashes b s
      | cu_sw_dot \<Rightarrow> cu_dot b s
      | cu_sw_dot_dot \<Rightarrow> cu_dot_dot b s
      | cu_sw_quoted \<Rightarrow> cu_quoted_first b s
      | cu_sw_quoted_second \<Rightarrow> cu_quoted_second b s)"

lemmas cu_defs = cu_advance_def cu_put_def cu_usual_def cu_after_slash_def cu_slash_def cu_dot_def
  cu_dot_dot_def cu_quoted_first_def cu_quoted_second_def

text \<open>
  Every iteration reads a byte, but for the second digit of an escape, after which the decoded
  character is looked at in the state before the escape; a state that is kept there is
  never the one of the second digit.
\<close>

definition cu_measure :: "nat \<Rightarrow> cu_vars \<Rightarrow> nat" where
  "cu_measure ue s = 2 * (Suc ue - cu_p s) + (if cu_state s = cu_sw_quoted_second then 1 else 0)"

text \<open>
  The enumeration allows a value of \<^verbatim>\<open>quoted_state\<close> with which the loop would not end; the code never
  stores it, and the loop below asks for it to be absent (\<open>cu_wf\<close>, which every iteration keeps).
\<close>

definition cu_wf :: "cu_vars \<Rightarrow> bool" where
  "cu_wf s \<longleftrightarrow> cu_quoted_state s \<notin> {cu_sw_quoted, cu_sw_quoted_second}"

lemma cu_step_next:
  assumes "cu_step ms b s = Cu_next s'" "cu_p s \<le> e" "cu_wf s"
  shows "cu_measure e s' < cu_measure e s \<and> cu_wf s'"
  using assms by (cases "cu_state s")
    (auto simp: cu_defs cu_measure_def cu_wf_def Let_def split: if_splits option.splits)

function cu_loop :: "bool \<Rightarrow> u_char list \<Rightarrow> nat \<Rightarrow> cu_vars \<Rightarrow> cu_exit" where
  "cu_loop merge_slashes b ue s =
     (if cu_p s \<le> ue \<and> cu_wf s then
        (case cu_step merge_slashes b s of
           Cu_next s' \<Rightarrow> cu_loop merge_slashes b ue s'
         | x \<Rightarrow> x)
      else Cu_done s)"
  by pat_completeness auto
termination
  by (relation "measure (\<lambda>(ms, b, e, s). cu_measure e s)") (auto dest: cu_step_next simp del: cu_step.simps)

declare cu_loop.simps [simp del]

text \<open>
  The result: the code, the normalised URI, its extension, the arguments when a \<^verbatim>\<open>#\<close> ends them,
  \<^verbatim>\<open>args_start\<close> and the two flags. \<open>None\<close> is a read behind the buffer.
\<close>

record cu_result =
  res_uri :: "u_char list"
  res_exten :: "u_char list option"
  res_args :: "u_char list option"
  res_args_start :: ptr
  res_plus_in_uri :: bool
  res_quoted_uri :: bool

definition cu_finish :: "cu_vars \<Rightarrow> u_char list option \<Rightarrow> ptr \<Rightarrow> cu_result" where
  "cu_finish s args start =
     \<lparr>res_uri = cu_u s,
      res_exten = map_option (\<lambda>e. drop e (cu_u s)) (cu_ext s),
      res_args = args, res_args_start = start,
      res_plus_in_uri = cu_plus s, res_quoted_uri = cu_quoted s\<rparr>"

text \<open>The loop at the label \<^verbatim>\<open>args\<close>: the arguments up to the first \<^verbatim>\<open>#\<close>, if there is one.\<close>

function cu_args_loop :: "u_char list \<Rightarrow> nat \<Rightarrow> nat \<Rightarrow> nat \<Rightarrow> u_char list option" where
  "cu_args_loop b ue args p =
     (if p < ue then
        (if b ! p \<noteq> ch_hash then cu_args_loop b ue args (p + 1)
         else Some (buf_slice b args p))
      else None)"
  by pat_completeness auto
termination
  by (relation "measure (\<lambda>(b, ue, args, p). ue - p)") auto

declare cu_args_loop.simps [simp del]

definition cu_initial :: "u_char list \<Rightarrow> nat \<Rightarrow> bool \<Rightarrow> bool \<Rightarrow> cu_vars" where
  "cu_initial b us plus_in quoted_in =
     \<lparr>cu_state = cu_sw_usual, cu_quoted_state = cu_sw_usual, cu_decoded = 0, cu_ch = b ! us, cu_p = us + 1,
      cu_u = [], cu_ext = None, cu_args_start = None, cu_plus = plus_in, cu_quoted = quoted_in\<rparr>"

definition ngx_http_parse_complex_uri ::
  "u_char list \<Rightarrow> nat \<Rightarrow> nat \<Rightarrow> bool \<Rightarrow> bool \<Rightarrow> bool \<Rightarrow> (int \<times> cu_result option) option"
where
  "ngx_http_parse_complex_uri b us ue plus_in quoted_in merge_slashes =
     (if us < length b then
        (case cu_loop merge_slashes b ue (cu_initial b us plus_in quoted_in) of
           Cu_done s \<Rightarrow> Some (NGX_OK, Some (cu_finish s None None))
         | Cu_args s \<Rightarrow>
             (case cu_args_start s of
                None \<Rightarrow> None
              | Some a \<Rightarrow>
                  (case cu_args_loop b ue a (cu_p s) of
                     None \<Rightarrow> Some (NGX_OK, Some (cu_finish s None (Some a)))
                   | Some args \<Rightarrow> Some (NGX_OK, Some (cu_finish s (Some args) None))))
         | Cu_invalid \<Rightarrow> Some (NGX_HTTP_PARSE_INVALID_REQUEST, None)
         | Cu_next s \<Rightarrow> None
         | Cu_fault \<Rightarrow> None)
      else None)"

section \<open>The specification\<close>

text \<open>
  Decoding: the path up to \<^verbatim>\<open>?\<close>, \<^verbatim>\<open>#\<close> or the end with its escapes replaced, \<open>None\<close> for a bad
  escape; an escape that the end of the URI cuts off is dropped. The rest after \<^verbatim>\<open>?\<close> are the arguments.
\<close>

definition hex_byte :: "u_char \<Rightarrow> u_char \<Rightarrow> u_char option" where
  "hex_byte x y = (case (hex_value x, hex_value y) of (Some i, Some j) \<Rightarrow> Some (i * 16 + j) | _ \<Rightarrow> None)"

fun uri_decode :: "u_char list \<Rightarrow> (u_char list \<times> u_char list option) option" where
  "uri_decode [] = Some ([], None)"
| "uri_decode (c # cs) =
     (if c = ch_question then Some ([], Some cs)
      else if c = ch_hash then Some ([], None)
      else if c = ch_percent then
        (case cs of
           [] \<Rightarrow> Some ([], None)
         | [x] \<Rightarrow> if hex_value x = None then None else Some ([], None)
         | x # y # cs' \<Rightarrow>
             (case hex_byte x y of
                None \<Rightarrow> None
              | Some d \<Rightarrow> if d = ch_NUL then None
                          else map_option (\<lambda>(path, args). (d # path, args)) (uri_decode cs')))
      else map_option (\<lambda>(path, args). (c # path, args)) (uri_decode cs))"

text \<open>
  Normalising: the finished segments are a stack. A segment that a slash ends is pushed, unless it is
  empty or \<^verbatim>\<open>.\<close>; \<^verbatim>\<open>..\<close> pops, and there is nothing above the root. What follows the last slash is kept.
\<close>

definition join_path :: "u_char list list \<Rightarrow> u_char list \<Rightarrow> u_char list" where
  "join_path st cur = ch_slash # concat (map (\<lambda>seg. seg @ [ch_slash]) (rev st)) @ cur"

fun norm_step :: "u_char list list \<Rightarrow> u_char list \<Rightarrow> u_char \<Rightarrow> (u_char list list \<times> u_char list) option" where
  "norm_step st cur c =
     (if c \<noteq> ch_slash then Some (st, cur @ [c])
      else if cur = [] \<or> cur = [ch_dot] then Some (st, [])
      else if cur = [ch_dot, ch_dot] then (case st of [] \<Rightarrow> None | _ # st' \<Rightarrow> Some (st', []))
      else Some (cur # st, []))"

fun normalise :: "u_char list list \<Rightarrow> u_char list \<Rightarrow> u_char list \<Rightarrow> u_char list option" where
  "normalise st cur [] = Some (join_path st cur)"
| "normalise st cur (c # cs) =
     (case norm_step st cur c of None \<Rightarrow> None | Some (st', cur') \<Rightarrow> normalise st' cur' cs)"

definition complex_uri_spec :: "u_char list list \<Rightarrow> u_char list \<Rightarrow> u_char list \<Rightarrow> u_char list option" where
  "complex_uri_spec st cur xs =
     (case uri_decode xs of None \<Rightarrow> None | Some (path, args) \<Rightarrow> normalise st cur path)"

section \<open>The loop implements the specification\<close>

lemma join_path_Cons: "join_path (seg # st) cur = join_path st [] @ seg @ ch_slash # cur"
  by (simp add: join_path_def)

lemma join_path_snoc: "join_path st cur @ [c] = join_path st (cur @ [c])"
  by (simp add: join_path_def)

lemma last_join_path: "last (join_path st []) = ch_slash"
  by (cases st) (simp_all add: join_path_def)

lemma join_path_not_Nil [simp]: "join_path st cur \<noteq> []"
  by (simp add: join_path_def)

text \<open>The backward search finds the slash before the segment that \<^verbatim>\<open>..\<close> removes.\<close>

lemma cu_back_run:
  assumes "ch_slash \<notin> set seg" "us = base @ seg @ rest" "base \<noteq> []" "last base = ch_slash"
  shows "k \<le> length seg \<Longrightarrow> cu_back us (int (length base + k) - 1) = Some base"
proof (induction k)
  case 0
  have "us ! (length base - 1) = ch_slash" using assms by (simp add: nth_append last_conv_nth)
  moreover have "nat (int (length base + 0) - 1) = length base - 1" "length base - 1 + 1 = length base" "length base \<ge> 1"
    using assms(3) by (cases base; simp)+
  ultimately show ?case using assms(2,3) by (subst cu_back.simps) simp
next
  case (Suc k)
  have "us ! (length base + k) = seg ! k" using assms(2) Suc.prems by (simp add: nth_append)
  moreover have "seg ! k \<in> set seg" using Suc.prems by simp
  ultimately have "us ! (length base + k) \<noteq> ch_slash" using assms(1) by metis
  moreover have "nat (int (length base + Suc k) - 1) = length base + k" by simp
  ultimately show ?case using Suc by (subst cu_back.simps) (simp add: algebra_simps)
qed

lemma cu_back_join:
  assumes "seg \<noteq> []" "ch_slash \<notin> set seg"
  shows "cu_back (join_path (seg # st) [ch_dot, ch_dot]) (int (length (join_path (seg # st) [ch_dot, ch_dot])) - 5)
    = Some (join_path st [])"
proof -
  have "int (length (join_path (seg # st) [ch_dot, ch_dot])) - 5 = int (length (join_path st []) + (length seg - 1)) - 1"
    using assms(1) by (cases seg) (simp_all add: join_path_Cons)
  moreover have "cu_back (join_path st [] @ seg @ [ch_slash, ch_dot, ch_dot]) (int (length (join_path st []) + (length seg - 1)) - 1)
    = Some (join_path st [])"
    by (rule cu_back_run [OF assms(2) refl _ last_join_path]) simp_all
  ultimately show ?thesis by (simp only: join_path_Cons)
qed

lemma cu_back_root: "cu_back (join_path [] [ch_dot, ch_dot]) (int (length (join_path [] [ch_dot, ch_dot])) - 5) = None"
  by (subst cu_back.simps) (simp add: join_path_def)

text \<open>The state of the loop says which segment is being read.\<close>

definition cu_rel :: "u_char list list \<Rightarrow> u_char list \<Rightarrow> cu_vars \<Rightarrow> bool" where
  "cu_rel st cur s \<longleftrightarrow> cu_u s = join_path st cur \<and> ch_slash \<notin> set cur
     \<and> (\<forall>seg\<in>set st. seg \<noteq> [] \<and> ch_slash \<notin> set seg)
     \<and> cu_state s = (if cur = [] then cu_sw_slash else if cur = [ch_dot] then cu_sw_dot
                      else if cur = [ch_dot, ch_dot] then cu_sw_dot_dot else cu_sw_usual)"

lemma cu_rel_char:
  assumes "cu_rel st cur s" "cu_ch s \<notin> {ch_percent, ch_question, ch_hash}"
  shows "case norm_step st cur (cu_ch s) of
      None \<Rightarrow> cu_step True b s = Cu_invalid
    | Some (st', cur') \<Rightarrow> \<exists>s'. cu_step True b s = cu_advance b s' \<and> cu_rel st' cur' s'
        \<and> cu_p s' = cu_p s \<and> cu_quoted_state s' = cu_quoted_state s"
proof (cases "cu_ch s = ch_slash")
  case False
  with assms show ?thesis
    by (auto simp: cu_rel_def cu_usual_def cu_slash_def cu_dot_def cu_dot_dot_def cu_after_slash_def cu_put_def
        Let_def byte_simps join_path_snoc)
next
  case True
  from assms(1) have u: "cu_u s = join_path st cur" "\<forall>seg\<in>set st. seg \<noteq> [] \<and> ch_slash \<notin> set seg" "ch_slash \<notin> set cur"
    by (simp_all add: cu_rel_def)
  consider "cur = []" | "cur = [ch_dot]" | "cur = [ch_dot, ch_dot]" | "cur \<notin> {[], [ch_dot], [ch_dot, ch_dot]}" by blast
  then show ?thesis
  proof cases
    case 1
    with True assms(1) show ?thesis
      by (auto simp: cu_rel_def cu_slash_def Let_def byte_simps)
  next
    case 2
    with True assms(1) u show ?thesis
      by (auto simp: cu_rel_def cu_dot_def Let_def byte_simps join_path_def)
  next
    case 3
    show ?thesis
    proof (cases st)
      case Nil
      with 3 True assms(1) u cu_back_root show ?thesis
        by (simp add: cu_rel_def cu_dot_dot_def Let_def byte_simps)
    next
      case (Cons seg st')
      with u(2) have "cu_back (cu_u s) (int (length (cu_u s)) - 5) = Some (join_path st' [])"
        using cu_back_join [of seg st'] 3 u(1) by simp
      with 3 True assms(1) u Cons show ?thesis
        by (auto simp: cu_rel_def cu_dot_dot_def Let_def byte_simps)
    qed
  next
    case 4
    with True assms(1) u show ?thesis
      by (auto simp: cu_rel_def cu_usual_def cu_put_def Let_def byte_simps join_path_def)
  qed
qed

text \<open>The two digits of an escape.\<close>

lemma cu_quoted_first_hex:
  "cu_quoted_first b s = (case hex_value (cu_ch s) of
      None \<Rightarrow> Cu_invalid
    | Some i \<Rightarrow> cu_advance b (s\<lparr>cu_quoted := True, cu_decoded := i, cu_state := cu_sw_quoted_second\<rparr>))"
  by (auto simp: cu_quoted_first_def hex_value_def is_digit_def lcase_def Let_def)

lemma hex_byte_value:
  assumes "hex_value x = Some i" "hex_value y = Some j"
  shows "hex_byte x y = Some (push_bit 4 i + j)" "unat (push_bit 4 i + j) mod 16 = unat j"
proof -
  show "hex_byte x y = Some (push_bit 4 i + j)"
    using assms by (simp add: hex_byte_def push_bit_eq_mult mult.commute)
  have "unat i < 16" "unat j < 16" using assms hex_value_less by blast+
  then have "unat (push_bit 4 i + j) = unat i * 16 + unat j"
    by (simp add: push_bit_eq_mult unat_word_ariths)
  then show "unat (push_bit 4 i + j) mod 16 = unat j" using \<open>unat j < 16\<close> by simp
qed

lemma cu_quoted_second_hex:
  assumes "hex_value x = Some (cu_decoded s)"
  shows "cu_quoted_second b s = (case hex_byte x (cu_ch s) of
      None \<Rightarrow> Cu_invalid
    | Some d \<Rightarrow>
        if d \<in> {ch_percent, ch_hash, ch_question}
        then cu_advance b (cu_put d (s\<lparr>cu_ch := d, cu_state := cu_sw_usual\<rparr>))
        else if d = ch_NUL then Cu_invalid
        else Cu_next (s\<lparr>cu_ch := d, cu_plus := (cu_plus s \<or> d = ch_plus), cu_state := cu_quoted_state s\<rparr>))"
proof (cases "hex_value (cu_ch s)")
  case None
  then show ?thesis
    using assms by (auto simp: cu_quoted_second_def hex_byte_def hex_value_def is_digit_def lcase_def Let_def split: if_splits)
next
  case (Some j)
  note v = hex_byte_value [OF assms Some]
  define d where "d = push_bit 4 (cu_decoded s) + j"
  have low: "unat d mod 16 = unat j" using v(2) by (simp add: d_def)
  show ?thesis
  proof (cases "ch_0 \<le> cu_ch s \<and> cu_ch s \<le> ch_9")
    case True
    then have j: "j = cu_ch s - ch_0" using Some by (simp add: hex_value_def is_digit_def)
    have "unat j < 10" using is_digit_value [of "cu_ch s"] True j by (simp add: is_digit_def)
    with low have "d \<noteq> ch_question" "d \<noteq> ch_plus" by auto
    moreover have "push_bit 4 (cu_decoded s) + cu_ch s - ch_0 = d" by (simp add: d_def j)
    ultimately show ?thesis using True v(1) by (simp add: cu_quoted_second_def Let_def d_def [symmetric])
  next
    case False
    define l where "l = cu_ch s OR 0x20"
    from False Some have l: "ch_a \<le> l \<and> l \<le> ch_f" and j: "j = l - ch_a + 10"
      by (auto simp: hex_value_def is_digit_def lcase_def l_def split: if_splits)
    have "unat l \<ge> 97" "unat l \<le> 102" using l by (simp_all add: word_le_nat_alt)
    then have "unat j = unat l - 87" using j by (simp add: unat_word_ariths unat_sub word_le_nat_alt l)
    with \<open>unat l \<ge> 97\<close> have "unat j \<ge> 10" by simp
    with low have "d \<noteq> ch_percent" "d \<noteq> ch_hash" "d \<noteq> ch_NUL" by auto
    moreover have "push_bit 4 (cu_decoded s) + l - ch_a + 10 = d" by (simp add: d_def j)
    ultimately show ?thesis using False l v(1) by (auto simp: cu_quoted_second_def Let_def d_def [symmetric] l_def [symmetric])
  qed
qed

text \<open>What is left to be read at the head of the loop, and what a result says.\<close>

definition cu_input :: "u_char list \<Rightarrow> nat \<Rightarrow> cu_vars \<Rightarrow> u_char list" where
  "cu_input b ue s = (if cu_p s \<le> ue then cu_ch s # buf_slice b (cu_p s) ue else [])"

fun cu_out :: "cu_exit \<Rightarrow> u_char list option option" where
  "cu_out (Cu_done s) = Some (Some (cu_u s))"
| "cu_out (Cu_args s) = Some (Some (cu_u s))"
| "cu_out Cu_invalid = Some None"
| "cu_out _ = None"

lemma buf_slice_same: "buf_slice b p p = []"
  by (simp add: buf_slice_def)

lemma buf_slice_Cons: "p < ue \<Longrightarrow> ue \<le> length b \<Longrightarrow> buf_slice b p ue = b ! p # buf_slice b (Suc p) ue"
  by (simp add: buf_slice_def Suc_diff_Suc flip: Cons_nth_drop_Suc) (metis Suc_diff_Suc take_Suc_Cons)

lemma cu_advance_input:
  assumes "cu_p s \<le> ue" "ue < length b"
  shows "\<exists>s'. cu_advance b s = Cu_next s' \<and> cu_input b ue s' = buf_slice b (cu_p s) ue
    \<and> s' = s\<lparr>cu_ch := b ! cu_p s, cu_p := cu_p s + 1\<rparr>"
  using assms by (cases "cu_p s = ue") (auto simp: cu_advance_def cu_input_def buf_slice_Cons buf_slice_same)

lemma cu_loop_step:
  assumes "cu_p s \<le> ue" "cu_wf s" "cu_step ms b s = Cu_next s'"
  shows "cu_loop ms b ue s = cu_loop ms b ue s'"
  using assms by (subst cu_loop.simps) simp

lemma spec_char:
  assumes "c \<notin> {ch_percent, ch_question, ch_hash}"
  shows "complex_uri_spec st cur (c # cs) =
    (case norm_step st cur c of None \<Rightarrow> None
     | Some (st', cur') \<Rightarrow> complex_uri_spec st' cur' cs)"
  using assms by (auto simp: complex_uri_spec_def split: option.split prod.split)

lemma spec_escape:
  "complex_uri_spec st cur (ch_percent # x # y # cs) = (case hex_byte x y of
      None \<Rightarrow> None
    | Some d \<Rightarrow> if d = ch_NUL then None
        else (case norm_step st cur d of None \<Rightarrow> None | Some (st', cur') \<Rightarrow> complex_uri_spec st' cur' cs))"
  by (auto simp: complex_uri_spec_def split: option.split prod.split)

lemma cu_rel_percent:
  assumes "cu_rel st cur s" "cu_ch s = ch_percent"
  shows "cu_step ms b s = cu_advance b (s\<lparr>cu_quoted_state := cu_state s, cu_state := cu_sw_quoted\<rparr>)"
  using assms by (auto simp: cu_rel_def cu_usual_def cu_slash_def cu_dot_def cu_dot_dot_def cu_after_slash_def Let_def byte_simps)

lemma cu_rel_end:
  assumes "cu_rel st cur s" "cu_ch s = ch_question \<or> cu_ch s = ch_hash" "cu_p s \<le> ue" "cu_wf s"
  shows "cu_out (cu_loop ms b ue s) = Some (Some (join_path st cur))"
proof -
  have "cu_state s \<in> {cu_sw_usual, cu_sw_slash, cu_sw_dot, cu_sw_dot_dot}" "cu_u s = join_path st cur"
    using assms(1) by (auto simp: cu_rel_def)
  moreover from this(1) assms(2) have "cu_step ms b s = (if cu_ch s = ch_hash then Cu_done s
      else Cu_args (s\<lparr>cu_args_start := Some (cu_p s)\<rparr>))"
    by (auto simp: cu_usual_def cu_slash_def cu_dot_def cu_dot_dot_def cu_after_slash_def Let_def byte_simps)
  ultimately show ?thesis using assms(3,4) by (subst cu_loop.simps) (simp del: cu_step.simps)
qed

lemma cu_loop_invalid:
  assumes "cu_p s \<le> ue" "cu_wf s" "cu_step ms b s = Cu_invalid"
  shows "cu_loop ms b ue s = Cu_invalid"
  using assms by (subst cu_loop.simps) simp

lemma cu_loop_exit: "\<not> cu_p s \<le> ue \<Longrightarrow> cu_loop ms b ue s = Cu_done s"
  by (subst cu_loop.simps) simp

text \<open>An escape, of which the first digit is at \<open>x\<close>, in a state that knows the segment.\<close>

lemma cu_loop_second:
  assumes IH: "\<And>s' st cur. cu_measure ue s' < cu_measure ue s \<Longrightarrow> cu_rel st cur s' \<Longrightarrow> cu_wf s' \<Longrightarrow>
      cu_out (cu_loop True b ue s') = Some (complex_uri_spec st cur (cu_input b ue s'))"
    and rel: "cu_rel st cur (s\<lparr>cu_state := cu_quoted_state s\<rparr>)" and wf: "cu_wf s"
    and s: "cu_state s = cu_sw_quoted_second" "hex_value x = Some (cu_decoded s)" "cu_p s \<le> ue" and ue: "ue < length b"
  shows "cu_out (cu_loop True b ue s) = Some (complex_uri_spec st cur (ch_percent # x # cu_ch s # buf_slice b (cu_p s) ue))"
proof -
  have step: "cu_step True b s = cu_quoted_second b s" using s(1) by simp
  note hex = cu_quoted_second_hex [OF s(2), of b]
  show ?thesis
  proof (cases "hex_byte x (cu_ch s)")
    case None
    with hex step cu_loop_invalid [OF s(3) wf] show ?thesis by (simp add: spec_escape)
  next
    case (Some d)
    consider "d \<in> {ch_percent, ch_hash, ch_question}" | "d = ch_NUL" | "d \<notin> {ch_percent, ch_hash, ch_question, ch_NUL}" by blast
    then show ?thesis
    proof cases
      case 1
      define s1 where "s1 = cu_put d (s\<lparr>cu_ch := d, cu_state := cu_sw_usual\<rparr>)"
      have p1: "cu_p s1 = cu_p s" by (simp add: s1_def cu_put_def)
      from cu_advance_input [of s1 ue b] s(3) ue p1 obtain s2 where s2: "cu_advance b s1 = Cu_next s2"
        "cu_input b ue s2 = buf_slice b (cu_p s) ue" "s2 = s1\<lparr>cu_ch := b ! cu_p s1, cu_p := cu_p s1 + 1\<rparr>" by auto
      have st: "cu_step True b s = Cu_next s2" using step hex Some 1 s2(1) by (auto simp: s1_def)
      have "cu_rel st (cur @ [d]) s2"
        using rel 1 by (auto simp: s2(3) s1_def cu_put_def cu_rel_def join_path_snoc)
      with cu_step_next [OF st s(3) wf] IH [of s2 st "cur @ [d]"]
      have "cu_out (cu_loop True b ue s2) = Some (complex_uri_spec st (cur @ [d]) (buf_slice b (cu_p s) ue))"
        using s2(2) by simp
      with cu_loop_step [OF s(3) wf st] 1 Some show ?thesis by (auto simp: spec_escape)
    next
      case 2
      with hex step Some cu_loop_invalid [OF s(3) wf] show ?thesis by (simp add: spec_escape)
    next
      case 3
      define s1 where "s1 = s\<lparr>cu_ch := d, cu_plus := (cu_plus s \<or> d = ch_plus), cu_state := cu_quoted_state s\<rparr>"
      have st: "cu_step True b s = Cu_next s1" using step hex Some 3 by (simp add: s1_def)
      have "cu_rel st cur s1" using rel by (simp add: s1_def cu_rel_def)
      with cu_step_next [OF st s(3) wf] IH [of s1 st cur]
      have "cu_out (cu_loop True b ue s1) = Some (complex_uri_spec st cur (d # buf_slice b (cu_p s) ue))"
        using s(3) by (simp add: s1_def cu_input_def)
      with cu_loop_step [OF s(3) wf st] 3 Some show ?thesis by (simp add: spec_escape spec_char)
    qed
  qed
qed

lemma cu_loop_escape:
  assumes IH: "\<And>s' st cur. cu_measure ue s' < cu_measure ue s \<Longrightarrow> cu_rel st cur s' \<Longrightarrow> cu_wf s' \<Longrightarrow>
      cu_out (cu_loop True b ue s') = Some (complex_uri_spec st cur (cu_input b ue s'))"
    and rel: "cu_rel st cur s" and wf: "cu_wf s" and c: "cu_ch s = ch_percent" and p: "cu_p s \<le> ue" and ue: "ue < length b"
  shows "cu_out (cu_loop True b ue s) = Some (complex_uri_spec st cur (ch_percent # buf_slice b (cu_p s) ue))"
proof -
  define s1 where "s1 = s\<lparr>cu_quoted_state := cu_state s, cu_state := cu_sw_quoted, cu_ch := b ! cu_p s, cu_p := cu_p s + 1\<rparr>"
  have st: "cu_step True b s = Cu_next s1"
    using cu_rel_percent [OF rel c] p ue by (simp add: cu_advance_def s1_def)
  note n1 = cu_step_next [OF st p wf] and l1 = cu_loop_step [OF p wf st]
  have u: "cu_u s1 = join_path st cur" using rel by (simp add: s1_def cu_rel_def)
  show ?thesis
  proof (cases "cu_p s = ue")
    case True
    then show ?thesis using l1 u cu_loop_exit [of s1 ue] by (simp add: s1_def buf_slice_same complex_uri_spec_def)
  next
    case False
    define x where "x = b ! cu_p s"
    have p1: "cu_p s1 \<le> ue" and sl: "buf_slice b (cu_p s) ue = x # buf_slice b (cu_p s + 1) ue"
      using False p ue by (simp_all add: s1_def x_def buf_slice_Cons)
    have step1: "cu_step True b s1 = cu_quoted_first b s1" by (simp add: s1_def)
    show ?thesis
    proof (cases "hex_value x")
      case None
      then have "complex_uri_spec st cur (ch_percent # x # ys) = None" for ys
        by (cases ys) (simp_all add: complex_uri_spec_def hex_byte_def)
      moreover have "cu_step True b s1 = Cu_invalid"
        using None step1 by (simp add: cu_quoted_first_hex) (simp add: s1_def x_def)
      ultimately show ?thesis using l1 sl cu_loop_invalid [OF p1] n1 by simp
    next
      case (Some i)
      define s2 where "s2 = s1\<lparr>cu_quoted := True, cu_decoded := i, cu_state := cu_sw_quoted_second,
        cu_ch := b ! (cu_p s + 1), cu_p := cu_p s + 2\<rparr>"
      have st2: "cu_step True b s1 = Cu_next s2"
        using Some step1 p1 ue by (simp add: cu_quoted_first_hex) (simp add: s1_def x_def cu_advance_def s2_def)
      have w1: "cu_wf s1" using n1 by simp
      note n2 = cu_step_next [OF st2 p1 w1] and l2 = cu_loop_step [OF p1 w1 st2]
      have u2: "cu_u s2 = join_path st cur" using u by (simp add: s2_def)
      show ?thesis
      proof (cases "cu_p s + 1 = ue")
        case True
        with l1 l2 u2 sl Some cu_loop_exit [of s2 ue] show ?thesis
          by (simp add: buf_slice_same complex_uri_spec_def s2_def)
      next
        case False
        with p1 have p2: "cu_p s2 \<le> ue" by (simp add: s1_def s2_def)
        have sl2: "buf_slice b (cu_p s + 1) ue = cu_ch s2 # buf_slice b (cu_p s2) ue"
          using False p1 ue by (simp add: s1_def s2_def buf_slice_Cons)
        have "cu_rel st cur (s2\<lparr>cu_state := cu_quoted_state s2\<rparr>)" using rel by (simp add: s2_def s1_def cu_rel_def)
        then have "cu_out (cu_loop True b ue s2) = Some (complex_uri_spec st cur (ch_percent # x # cu_ch s2 # buf_slice b (cu_p s2) ue))"
          using IH n1 n2 Some p2 ue by (intro cu_loop_second) (auto simp: s2_def)
        with l1 l2 sl sl2 show ?thesis by simp
      qed
    qed
  qed
qed

lemma cu_loop_spec:
  "cu_rel st cur s \<Longrightarrow> cu_wf s \<Longrightarrow> ue < length b \<Longrightarrow>
     cu_out (cu_loop True b ue s) = Some (complex_uri_spec st cur (cu_input b ue s))"
proof (induction "cu_measure ue s" arbitrary: st cur s rule: less_induct)
  case less
  note rel = less.prems(1) and wf = less.prems(2) and ue = less.prems(3)
  show ?case
  proof (cases "cu_p s \<le> ue")
    case False
    then show ?thesis using rel
      by (subst cu_loop.simps) (simp add: cu_input_def complex_uri_spec_def cu_rel_def)
  next
    case p: True
    define c where "c = cu_ch s"
    have inp: "cu_input b ue s = c # buf_slice b (cu_p s) ue" using p by (simp add: cu_input_def c_def)
    consider "c \<notin> {ch_percent, ch_question, ch_hash}" | "c = ch_question \<or> c = ch_hash" | "c = ch_percent" by blast
    then show ?thesis
    proof cases
      case 1
      note st = cu_rel_char [OF rel 1 [unfolded c_def], of b, folded c_def]
      show ?thesis
      proof (cases "norm_step st cur c")
        case None
        with st have "cu_step True b s = Cu_invalid" by simp
        then have "cu_loop True b ue s = Cu_invalid" using p wf by (subst cu_loop.simps) simp
        with None 1 inp show ?thesis by (simp add: spec_char)
      next
        case (Some q)
        obtain st' cur' where q: "q = (st', cur')" by (cases q)
        from st Some q obtain s1 where s1: "cu_step True b s = cu_advance b s1" "cu_rel st' cur' s1"
          "cu_p s1 = cu_p s" "cu_quoted_state s1 = cu_quoted_state s" by auto
        from cu_advance_input [of s1 ue b] s1(3) p ue obtain s2 where s2: "cu_advance b s1 = Cu_next s2"
          "cu_input b ue s2 = buf_slice b (cu_p s) ue" "s2 = s1\<lparr>cu_ch := b ! cu_p s1, cu_p := cu_p s1 + 1\<rparr>" by auto
        have "cu_rel st' cur' s2" using s1(2) s2(3) by (simp add: cu_rel_def)
        moreover have "cu_measure ue s2 < cu_measure ue s" "cu_wf s2"
          using cu_step_next [of True b s s2 ue] s1(1) s2(1) p wf by auto
        moreover have "cu_loop True b ue s = cu_loop True b ue s2"
          using cu_loop_step [OF p wf] s1(1) s2(1) by simp
        ultimately show ?thesis using less.hyps [of s2 st' cur'] ue s2(2) Some q 1 inp by (simp add: spec_char)
      qed
    next
      case 2
      with cu_rel_end [OF rel _ p wf] inp show ?thesis
        by (auto simp: c_def complex_uri_spec_def)
    next
      case 3
      have "cu_out (cu_loop True b ue s) = Some (complex_uri_spec st cur (ch_percent # buf_slice b (cu_p s) ue))"
        using less.hyps ue 3 by (intro cu_loop_escape [OF _ rel wf _ p ue]) (auto simp: c_def)
      with 3 inp show ?thesis by simp
    qed
  qed
qed

section \<open>Memory safety and the extension\<close>

text \<open>The state that counts: the one before an escape while the escape is read.\<close>

definition cu_base :: "cu_vars \<Rightarrow> cu_sw" where
  "cu_base s = (if cu_state s \<in> {cu_sw_quoted, cu_sw_quoted_second} then cu_quoted_state s else cu_state s)"

text \<open>
  No extension: after the last slash of the URI come at most three dots and then no dot any more. With an
  extension, neither a dot nor a slash follows its beginning.
\<close>

definition cu_plain :: "cu_sw \<Rightarrow> u_char list \<Rightarrow> bool" where
  "cu_plain q us \<longleftrightarrow> (\<exists>base n rest. us = base @ replicate n ch_dot @ rest \<and> (base = [] \<and> n = 0 \<or> base \<noteq> [] \<and> last base = ch_slash)
     \<and> n \<le> 3 \<and> ch_slash \<notin> set rest \<and> ch_dot \<notin> set rest
     \<and> (q = cu_sw_slash \<longrightarrow> base \<noteq> [] \<and> n = 0 \<and> rest = []) \<and> (q = cu_sw_dot \<longrightarrow> n = 1 \<and> rest = [])
     \<and> (q = cu_sw_dot_dot \<longrightarrow> n = 2 \<and> rest = []))"

definition cu_exten_ok :: "cu_sw \<Rightarrow> u_char list \<Rightarrow> ptr \<Rightarrow> bool" where
  "cu_exten_ok q us ext = (case ext of None \<Rightarrow> cu_plain q us
     | Some k \<Rightarrow> q = cu_sw_usual \<and> 0 < k \<and> k \<le> length us \<and> us ! (k - 1) = ch_dot
         \<and> ch_slash \<notin> set (drop k us) \<and> ch_dot \<notin> set (drop k us))"

lemma cu_plain_slash: "us \<noteq> [] \<Longrightarrow> last us = ch_slash \<Longrightarrow> cu_plain cu_sw_slash us"
  unfolding cu_plain_def by (rule exI [of _ us], rule exI [of _ 0], rule exI [of _ "[]"]) simp

lemma cu_plain_end [simp]: "cu_plain cu_sw_slash (us @ [ch_slash])"
  by (simp add: cu_plain_slash)

lemma cu_plain_snoc:
  assumes "cu_plain q us" "c \<noteq> ch_slash" "c = ch_dot \<longrightarrow> q = cu_sw_dot_dot"
  shows "cu_plain cu_sw_usual (us @ [c])"
proof -
  obtain base n rest where u: "us = base @ replicate n ch_dot @ rest" "base = [] \<and> n = 0 \<or> base \<noteq> [] \<and> last base = ch_slash" "n \<le> 3"
    "ch_slash \<notin> set rest" "ch_dot \<notin> set rest" "q = cu_sw_dot_dot \<longrightarrow> n = 2 \<and> rest = []" using assms(1) by (auto simp: cu_plain_def)
  show ?thesis
  proof (cases "c = ch_dot")
    case True
    with assms(3) u show ?thesis unfolding cu_plain_def
      by (intro exI [of _ base] exI [of _ 3] exI [of _ "[]"]) (auto simp: numeral_2_eq_2 numeral_3_eq_3)
  next
    case False
    with assms(2) u show ?thesis unfolding cu_plain_def
      by (intro exI [of _ base] exI [of _ n] exI [of _ "rest @ [c]"]) auto
  qed
qed

lemma cu_plain_dot:
  "cu_plain cu_sw_slash us \<Longrightarrow> cu_plain cu_sw_dot (us @ [ch_dot])"
  "cu_plain cu_sw_dot us \<Longrightarrow> cu_plain cu_sw_dot_dot (us @ [ch_dot])"
proof -
  assume "cu_plain cu_sw_slash us"
  then have "us \<noteq> []" "last us = ch_slash" by (auto simp: cu_plain_def)
  then show "cu_plain cu_sw_dot (us @ [ch_dot])" unfolding cu_plain_def
    by (intro exI [of _ us] exI [of _ 1] exI [of _ "[]"]) simp
next
  assume "cu_plain cu_sw_dot us"
  then obtain base where "us = base @ [ch_dot]" "base \<noteq> []" "last base = ch_slash" by (auto simp: cu_plain_def)
  then show "cu_plain cu_sw_dot_dot (us @ [ch_dot])" unfolding cu_plain_def
    by (intro exI [of _ base] exI [of _ 2] exI [of _ "[]"]) (simp add: numeral_2_eq_2)
qed

lemma cu_plain_back: "cu_plain cu_sw_dot us \<Longrightarrow> cu_plain cu_sw_slash (take (length us - Suc 0) us)"
proof -
  assume "cu_plain cu_sw_dot us"
  then obtain base where "us = base @ [ch_dot]" "base \<noteq> []" "last base = ch_slash" by (auto simp: cu_plain_def)
  then show ?thesis by (simp add: cu_plain_slash)
qed

lemma cu_exten_ok_None [simp]: "cu_exten_ok q us None = cu_plain q us"
  by (simp add: cu_exten_ok_def)

lemma cu_exten_ok_snoc:
  "cu_exten_ok q us ext \<Longrightarrow> c \<noteq> ch_slash \<Longrightarrow> c = ch_dot \<longrightarrow> q = cu_sw_dot_dot \<Longrightarrow> cu_exten_ok cu_sw_usual (us @ [c]) ext"
  by (cases ext) (auto simp: cu_exten_ok_def [of _ _ "Some _"] nth_append intro: cu_plain_snoc)

lemma cu_exten_ok_dot: "cu_exten_ok cu_sw_usual (us @ [ch_dot]) (Some (Suc (length us)))"
  by (simp add: cu_exten_ok_def)

lemma cu_exten_ok_other: "cu_exten_ok q us ext \<Longrightarrow> q \<noteq> cu_sw_usual \<Longrightarrow> ext = None \<and> cu_plain q us"
  by (auto simp: cu_exten_ok_def split: option.splits)

definition cu_safe :: "nat \<Rightarrow> cu_vars \<Rightarrow> bool" where
  "cu_safe us s \<longleftrightarrow> cu_wf s \<and> us + length (cu_u s) < cu_p s
     \<and> (cu_base s = cu_sw_slash \<longrightarrow> 1 \<le> length (cu_u s))
     \<and> (cu_base s = cu_sw_dot \<longrightarrow> 2 \<le> length (cu_u s))
     \<and> (cu_base s = cu_sw_dot_dot \<longrightarrow> 3 \<le> length (cu_u s))
     \<and> cu_exten_ok (cu_base s) (cu_u s) (cu_ext s)
     \<and> (cu_state s = cu_sw_quoted_second \<longrightarrow> (\<exists>x. hex_value x = Some (cu_decoded s)))"

lemma last_take_Suc: "0 \<le> i \<Longrightarrow> i < int (length us) \<Longrightarrow> last (take (Suc (nat i)) us) = us ! nat i"
  by (simp add: take_Suc_conv_app_nth nat_less_iff)

lemma cu_back_prefix: "cu_back us i = Some vs \<Longrightarrow> i < int (length us) \<Longrightarrow> vs \<noteq> [] \<and> prefix vs us \<and> last vs = ch_slash"
proof (induction us i rule: cu_back.induct)
  case (1 us i)
  then show ?case
    by (subst (asm) (2) cu_back.simps) (auto split: if_splits intro: take_is_prefix simp: last_take_Suc)
qed

lemma cu_advance_next: "cu_advance b t = Cu_next s' \<Longrightarrow> s' = t\<lparr>cu_ch := b ! cu_p t, cu_p := cu_p t + 1\<rparr>"
  by (simp add: cu_advance_def split: if_splits)

lemma cu_safe_usual:
  assumes "cu_advance b (cu_put c t) = Cu_next s'" "cu_safe us s" "c \<noteq> ch_slash" "c = ch_dot \<longrightarrow> cu_base s = cu_sw_dot_dot"
    "cu_state t = cu_sw_usual" and "cu_u t = cu_u s" "cu_ext t = cu_ext s" "cu_p t = cu_p s" "cu_quoted_state t = cu_quoted_state s"
  shows "cu_safe us s'"
  using assms cu_exten_ok_snoc [of "cu_base s" "cu_u s" "cu_ext s" c]
  by (simp add: cu_safe_def cu_base_def cu_wf_def cu_put_def cu_advance_next [OF assms(1)])

lemma cu_safe_quote:
  assumes "cu_advance b (s\<lparr>cu_quoted_state := q, cu_state := cu_sw_quoted\<rparr>) = Cu_next s'" "cu_safe us s"
    and "cu_state s \<notin> {cu_sw_quoted, cu_sw_quoted_second}" "q = cu_state s"
  shows "cu_safe us s'"
  using assms(2-4) by (simp add: cu_safe_def cu_base_def cu_wf_def cu_advance_next [OF assms(1)])

lemma usual_not_slash: "is_usual c \<Longrightarrow> c \<noteq> ch_slash \<and> c \<noteq> ch_dot"
  by (auto simp: byte_simps)

lemma cu_safe_after_slash:
  assumes "cu_after_slash b s = Cu_next s'" "cu_safe us s" "cu_state s \<notin> {cu_sw_quoted, cu_sw_quoted_second}" "cu_ch s \<noteq> ch_slash"
    and "cu_ch s = ch_dot \<longrightarrow> cu_state s = cu_sw_dot_dot"
  shows "cu_safe us s'"
proof -
  have "cu_ch s = ch_dot \<longrightarrow> cu_base s = cu_sw_dot_dot" using assms(5) by (simp add: cu_base_def)
  then show ?thesis using assms unfolding cu_after_slash_def Let_def
    by (auto split: if_splits elim: cu_safe_quote cu_safe_usual)
qed

lemma cu_safe_step:
  assumes "cu_safe us s" "cu_step ms b s = Cu_next s'"
  shows "cu_safe us s'"
proof (cases "cu_state s")
  case cu_sw_usual
  note st = assms(2) [simplified cu_sw_usual cu_step.simps cu_sw.case, unfolded cu_usual_def Let_def]
  consider "is_usual (cu_ch s)" | "\<not> is_usual (cu_ch s)" "cu_ch s = ch_slash" | "\<not> is_usual (cu_ch s)" "cu_ch s = ch_percent"
    | "\<not> is_usual (cu_ch s)" "cu_ch s = ch_dot" | "\<not> is_usual (cu_ch s)" "cu_ch s \<notin> {ch_slash, ch_percent, ch_dot}" by blast
  then show ?thesis
  proof cases
    case 2
    with st assms(1) cu_sw_usual show ?thesis
      by (auto simp: cu_put_def cu_safe_def cu_base_def cu_wf_def intro: cu_plain_slash cu_plain_dot cu_plain_back
          dest!: cu_advance_next cu_exten_ok_other)
  next
    case 4
    with st assms(1) cu_sw_usual show ?thesis
      by (auto simp: cu_put_def cu_safe_def cu_base_def cu_wf_def cu_exten_ok_dot dest!: cu_advance_next)
  next
    case 1
    then have "cu_ch s \<noteq> ch_slash" "cu_ch s \<noteq> ch_dot" using usual_not_slash by auto
    with 1 st assms(1) cu_sw_usual show ?thesis by (auto elim: cu_safe_usual)
  next
    case 3
    with st have "cu_advance b (s\<lparr>cu_quoted_state := cu_state s, cu_state := cu_sw_quoted\<rparr>) = Cu_next s'"
      by (simp add: cu_sw_usual)
    then show ?thesis by (rule cu_safe_quote [OF _ assms(1)]) (simp_all add: cu_sw_usual)
  next
    case 5
    with st assms(1) cu_sw_usual show ?thesis by (auto split: if_splits elim: cu_safe_usual)
  qed
next
  case cu_sw_slash
  note st = assms(2) [simplified cu_sw_slash cu_step.simps cu_sw.case, unfolded cu_slash_def Let_def]
  consider "is_usual (cu_ch s)" | "\<not> is_usual (cu_ch s)" "cu_ch s = ch_slash \<or> cu_ch s = ch_dot"
    | "\<not> is_usual (cu_ch s)" "cu_ch s \<noteq> ch_slash" "cu_ch s \<noteq> ch_dot" by blast
  then show ?thesis
  proof cases
    case 1
    with st assms(1) show ?thesis by (auto elim: cu_safe_usual dest: usual_not_slash)
  next
    case 2
    with st assms(1) cu_sw_slash show ?thesis
      by (auto simp: cu_put_def cu_safe_def cu_base_def cu_wf_def intro: cu_plain_slash cu_plain_dot cu_plain_back
          dest!: cu_advance_next cu_exten_ok_other split: if_splits)
  next
    case 3
    with st assms(1) cu_sw_slash show ?thesis by (auto elim: cu_safe_after_slash)
  qed
next
  case cu_sw_dot
  note st = assms(2) [simplified cu_sw_dot cu_step.simps cu_sw.case, unfolded cu_dot_def Let_def]
  consider "is_usual (cu_ch s)" | "\<not> is_usual (cu_ch s)" "cu_ch s = ch_slash \<or> cu_ch s = ch_dot"
    | "\<not> is_usual (cu_ch s)" "cu_ch s \<noteq> ch_slash" "cu_ch s \<noteq> ch_dot" by blast
  then show ?thesis
  proof cases
    case 1
    with st assms(1) show ?thesis by (auto elim: cu_safe_usual dest: usual_not_slash)
  next
    case 2
    with st assms(1) cu_sw_dot show ?thesis
      by (auto simp: cu_put_def cu_safe_def cu_base_def cu_wf_def intro: cu_plain_slash cu_plain_dot cu_plain_back
          dest!: cu_advance_next cu_exten_ok_other split: if_splits)
  next
    case 3
    with st assms(1) cu_sw_dot show ?thesis by (auto elim: cu_safe_after_slash)
  qed
next
  case cu_sw_dot_dot
  note st = assms(2) [simplified cu_sw_dot_dot cu_step.simps cu_sw.case, unfolded cu_dot_dot_def Let_def]
  consider "is_usual (cu_ch s)" | "\<not> is_usual (cu_ch s)" "cu_ch s = ch_slash"
    | "\<not> is_usual (cu_ch s)" "cu_ch s \<noteq> ch_slash" by blast
  then show ?thesis
  proof cases
    case 1
    with st assms(1) show ?thesis by (auto elim: cu_safe_usual dest: usual_not_slash)
  next
    case 2
    with st obtain vs where vs: "cu_back (cu_u s) (int (length (cu_u s)) - 5) = Some vs"
      "cu_advance b (s\<lparr>cu_state := cu_sw_slash, cu_u := vs\<rparr>) = Cu_next s'" by (auto split: option.splits)
    with cu_back_prefix [OF vs(1)] have b: "vs \<noteq> []" "length vs \<le> length (cu_u s)" "last vs = ch_slash" by (auto dest: prefix_length_le)
    then have "1 \<le> length vs" "length vs \<le> length (cu_u s)" "cu_plain cu_sw_slash vs" by (cases vs; simp add: cu_plain_slash)+
    with vs(2) assms(1) cu_sw_dot_dot show ?thesis
      by (auto simp: cu_safe_def cu_base_def cu_wf_def intro: cu_plain_slash cu_plain_dot cu_plain_back
          dest!: cu_advance_next cu_exten_ok_other)
  next
    case 3
    with st assms(1) cu_sw_dot_dot show ?thesis by (auto elim: cu_safe_after_slash)
  qed
next
  case cu_sw_quoted
  with assms(2) obtain i where i: "hex_value (cu_ch s) = Some i"
    "cu_advance b (s\<lparr>cu_quoted := True, cu_decoded := i, cu_state := cu_sw_quoted_second\<rparr>) = Cu_next s'"
    by (auto simp: cu_quoted_first_hex split: option.splits)
  then have "\<exists>x. hex_value x = Some i" by blast
  with assms(1) cu_sw_quoted show ?thesis
    by (simp add: cu_safe_def cu_base_def cu_wf_def cu_advance_next [OF i(2)])
next
  case cu_sw_quoted_second
  with assms(1) obtain x where x: "hex_value x = Some (cu_decoded s)" by (auto simp: cu_safe_def)
  have st: "cu_quoted_second b s = Cu_next s'" using assms(2) cu_sw_quoted_second by simp
  from st obtain d where d: "hex_byte x (cu_ch s) = Some d" by (auto simp: cu_quoted_second_hex [OF x] split: option.splits)
  show ?thesis
  proof (cases "d \<in> {ch_percent, ch_hash, ch_question}")
    case True
    with st d have "cu_advance b (cu_put d (s\<lparr>cu_ch := d, cu_state := cu_sw_usual\<rparr>)) = Cu_next s'"
      by (simp add: cu_quoted_second_hex [OF x])
    then show ?thesis using True assms(1) by (elim cu_safe_usual) auto
  next
    case False
    with st d have "s' = s\<lparr>cu_ch := d, cu_plus := (cu_plus s \<or> d = ch_plus), cu_state := cu_quoted_state s\<rparr>"
      by (auto simp: cu_quoted_second_hex [OF x] split: if_splits)
    with assms(1) cu_sw_quoted_second show ?thesis by (auto simp: cu_safe_def cu_base_def cu_wf_def)
  qed
qed

text \<open>The loop reads no byte behind the buffer, ends, and leaves a result that is no longer than what was read.\<close>

lemma cu_step_no_fault:
  assumes "cu_p s < length b"
  shows "cu_step ms b s \<noteq> Cu_fault"
  using assms by (cases "cu_state s") (auto simp: cu_defs Let_def split: option.split)

lemma cu_step_exit:
  assumes "cu_step ms b s \<noteq> Cu_invalid" "cu_p s < length b" "\<And>s'. cu_step ms b s \<noteq> Cu_next s'"
  shows "cu_step ms b s = Cu_done s \<or> cu_step ms b s = Cu_args (s\<lparr>cu_args_start := Some (cu_p s)\<rparr>)"
  using assms by (cases "cu_state s") (auto simp: cu_defs Let_def split: option.splits if_splits)

fun cu_exit_safe :: "nat \<Rightarrow> nat \<Rightarrow> cu_exit \<Rightarrow> bool" where
  "cu_exit_safe us ue (Cu_done s) \<longleftrightarrow> us + length (cu_u s) \<le> ue \<and> cu_exten_ok cu_sw_usual (cu_u s) (cu_ext s)"
| "cu_exit_safe us ue (Cu_args s) \<longleftrightarrow> us + length (cu_u s) \<le> ue \<and> cu_exten_ok cu_sw_usual (cu_u s) (cu_ext s)
     \<and> cu_args_start s = Some (cu_p s) \<and> cu_p s \<le> ue"
| "cu_exit_safe us ue Cu_invalid \<longleftrightarrow> True"
| "cu_exit_safe us ue _ \<longleftrightarrow> False"

lemma cu_plain_usual: "cu_plain q us \<Longrightarrow> cu_plain cu_sw_usual us"
  unfolding cu_plain_def by (elim exE conjE) (intro exI conjI; assumption?; simp)

lemma cu_exten_ok_usual: "cu_exten_ok q us ext \<Longrightarrow> cu_exten_ok cu_sw_usual us ext"
  by (auto simp: cu_exten_ok_def intro: cu_plain_usual split: option.splits)

lemma cu_loop_safe:
  "cu_safe us s \<Longrightarrow> cu_p s \<le> Suc ue \<Longrightarrow> ue < length b \<Longrightarrow> cu_exit_safe us ue (cu_loop ms b ue s)"
proof (induction "cu_measure ue s" arbitrary: s rule: less_induct)
  case less
  have wf: "cu_wf s" and u: "us + length (cu_u s) < cu_p s" and x: "cu_exten_ok cu_sw_usual (cu_u s) (cu_ext s)"
    using less.prems(1) cu_exten_ok_usual by (auto simp: cu_safe_def)
  show ?case
  proof (cases "cu_p s \<le> ue")
    case False
    then show ?thesis using u x less.prems(2) by (simp add: cu_loop_exit)
  next
    case p: True
    show ?thesis
    proof (cases "cu_step ms b s")
      case (Cu_next s')
      have "cu_p s' \<le> Suc ue"
        using Cu_next p by (cases "cu_state s")
          (auto simp: cu_defs Let_def split: if_splits option.splits)
      then show ?thesis
        using less.hyps [of s'] cu_step_next [OF Cu_next p wf] cu_safe_step [OF less.prems(1) Cu_next]
          less.prems(3) cu_loop_step [OF p wf Cu_next] by simp
    next
      case Cu_invalid
      then show ?thesis by (simp add: cu_loop_invalid [OF p wf])
    next
      case Cu_fault
      then show ?thesis using cu_step_no_fault [of s b ms] p less.prems(3) by simp
    next
      case (Cu_done t)
      then have "t = s" using cu_step_exit [of ms b s] p less.prems(3) by auto
      with Cu_done p u x wf show ?thesis by (subst cu_loop.simps) simp
    next
      case (Cu_args t)
      then have "t = s\<lparr>cu_args_start := Some (cu_p s)\<rparr>" using cu_step_exit [of ms b s] p less.prems(3) by auto
      with Cu_args p u x wf show ?thesis by (subst cu_loop.simps) simp
    qed
  qed
qed

lemma cu_initial_safe: "cu_safe us (cu_initial b us pin qin)"
  by (simp add: cu_safe_def cu_initial_def cu_wf_def cu_base_def cu_plain_def)

section \<open>Properties\<close>

lemma cu_result_of_loop:
  assumes "us \<le> ue" "ue < length b"
  shows "(\<exists>s args start. ngx_http_parse_complex_uri b us ue pin qin ms = Some (NGX_OK, Some (cu_finish s args start))
        \<and> cu_out (cu_loop ms b ue (cu_initial b us pin qin)) = Some (Some (cu_u s))
        \<and> us + length (cu_u s) \<le> ue \<and> cu_exten_ok cu_sw_usual (cu_u s) (cu_ext s))
      \<or> (ngx_http_parse_complex_uri b us ue pin qin ms = Some (NGX_HTTP_PARSE_INVALID_REQUEST, None)
        \<and> cu_out (cu_loop ms b ue (cu_initial b us pin qin)) = Some None)"
proof -
  note safe = cu_loop_safe [OF cu_initial_safe, of b us pin qin ue b ms]
  show ?thesis
  proof (cases "cu_loop ms b ue (cu_initial b us pin qin)")
    case (Cu_args s)
    with assms safe show ?thesis
      by (cases "cu_args_loop b ue (cu_p s) (cu_p s)") (simp_all add: ngx_http_parse_complex_uri_def cu_initial_def, blast+)
  qed (use assms safe in \<open>auto simp: ngx_http_parse_complex_uri_def cu_initial_def\<close>)
qed

text \<open>
  The segments that a URI in the making has, with either setting of \<^verbatim>\<open>merge_slashes\<close>: no finished segment is \<^verbatim>\<open>.\<close> or \<^verbatim>\<open>..\<close>, and
  none is empty when slashes are merged.
\<close>

definition normal_segment :: "bool \<Rightarrow> u_char list \<Rightarrow> bool" where
  "normal_segment merge_slashes seg \<longleftrightarrow> seg \<notin> {[ch_dot], [ch_dot, ch_dot]} \<and> ch_slash \<notin> set seg \<and> (merge_slashes \<longrightarrow> seg \<noteq> [])"

definition segment_state :: "u_char list \<Rightarrow> cu_sw" where
  "segment_state cur = (if cur = [] then cu_sw_slash else if cur = [ch_dot] then cu_sw_dot
     else if cur = [ch_dot, ch_dot] then cu_sw_dot_dot else cu_sw_usual)"

definition cu_segs :: "bool \<Rightarrow> u_char list \<Rightarrow> cu_sw \<Rightarrow> bool" where
  "cu_segs ms us q \<longleftrightarrow> (\<exists>st cur. us = join_path st cur \<and> ch_slash \<notin> set cur \<and> (\<forall>seg\<in>set st. normal_segment ms seg) \<and> q = segment_state cur)"

lemma cu_segs_snoc:
  assumes "cu_segs ms us q" "c \<noteq> ch_slash"
  shows "cu_segs ms (us @ [c]) (if c = ch_dot then case q of cu_sw_slash \<Rightarrow> cu_sw_dot | cu_sw_dot \<Rightarrow> cu_sw_dot_dot | _ \<Rightarrow> cu_sw_usual
    else cu_sw_usual)"
proof -
  obtain st cur where c: "us = join_path st cur" "ch_slash \<notin> set cur" "\<forall>seg\<in>set st. normal_segment ms seg" "q = segment_state cur"
    using assms(1) by (auto simp: cu_segs_def)
  have "segment_state (cur @ [c]) = (if c = ch_dot then case q of cu_sw_slash \<Rightarrow> cu_sw_dot | cu_sw_dot \<Rightarrow> cu_sw_dot_dot | _ \<Rightarrow> cu_sw_usual
    else cu_sw_usual)"
    using c(4) by (cases cur; cases "tl cur") (auto simp: segment_state_def)
  then show ?thesis using c assms(2) join_path_snoc [of st cur c] unfolding cu_segs_def
    by (intro exI [of _ st] exI [of _ "cur @ [c]"]) simp
qed

text \<open>A slash ends a segment that is pushed, removes a dot, or goes back to an earlier slash.\<close>

lemma cu_segs_push:
  assumes "cu_segs ms us q" "q = cu_sw_usual \<or> q = cu_sw_slash \<and> \<not> ms"
  shows "cu_segs ms (us @ [ch_slash]) cu_sw_slash"
proof -
  obtain st cur where c: "us = join_path st cur" "ch_slash \<notin> set cur" "\<forall>seg\<in>set st. normal_segment ms seg" "q = segment_state cur"
    using assms(1) by (auto simp: cu_segs_def)
  then have "normal_segment ms cur" using assms(2) by (auto simp: segment_state_def normal_segment_def split: if_splits)
  with c show ?thesis unfolding cu_segs_def
    by (intro exI [of _ "cur # st"] exI [of _ "[]"]) (simp add: join_path_def segment_state_def)
qed

lemma cu_segs_dot:
  assumes "cu_segs ms us cu_sw_dot"
  shows "cu_segs ms (take (length us - 1) us) cu_sw_slash"
proof -
  obtain st where c: "us = join_path st [ch_dot]" "\<forall>seg\<in>set st. normal_segment ms seg"
    using assms by (auto simp: cu_segs_def segment_state_def split: if_splits)
  then have "take (length us - 1) us = join_path st []" by (simp add: join_path_def)
  then show ?thesis using c(2) by (auto simp: cu_segs_def segment_state_def)
qed

lemma prefix_join_path:
  assumes "prefix vs (join_path st cur)" "vs \<noteq> []" "last vs = ch_slash" "ch_slash \<notin> set cur" "\<forall>seg\<in>set st. ch_slash \<notin> set seg"
  shows "\<exists>st'. vs = join_path st' [] \<and> set st' \<subseteq> set st"
  using assms
proof (induction st arbitrary: cur)
  case Nil
  then obtain ws where ws: "vs = ch_slash # ws" "prefix ws cur" by (cases vs) (auto simp: join_path_def)
  then have "ws = []" using Nil.prems(3,4) set_mono_prefix [OF ws(2)] by (cases ws rule: rev_cases) auto
  then show ?case using ws by (intro exI [of _ "[]"]) (simp add: join_path_def)
next
  case (Cons seg st)
  have "prefix vs (join_path st [] @ seg @ ch_slash # cur)" using Cons.prems(1) by (simp only: join_path_Cons)
  then consider "prefix vs (join_path st [])" | ws where "vs = join_path st [] @ ws" "prefix ws (seg @ ch_slash # cur)" "ws \<noteq> []"
    using prefix_append [of vs "join_path st []"] by (metis append_Nil2 prefix_order.refl)
  then show ?case
  proof cases
    case 1
    then show ?thesis using Cons.IH [of "[]"] Cons.prems(2-5) by auto
  next
    case 2
    then have "last ws = ch_slash" using Cons.prems(3) by simp
    then have "\<not> prefix ws seg" using Cons.prems(5) 2(3) set_mono_prefix [of ws seg] last_in_set [of ws] by auto
    then obtain xs where xs: "ws = seg @ ch_slash # xs" "prefix xs cur"
      using 2(2,3) by (auto simp: prefix_append prefix_Cons)
    then have "xs = []" using \<open>last ws = ch_slash\<close> Cons.prems(4) set_mono_prefix [OF xs(2)] by (cases xs rule: rev_cases) auto
    then show ?thesis using 2(1) xs(1) by (intro exI [of _ "seg # st"]) (simp add: join_path_def)
  qed
qed

lemma cu_segs_back:
  assumes "cu_segs ms us q" "cu_back us (int (length us) - 5) = Some vs"
  shows "cu_segs ms vs cu_sw_slash"
proof -
  obtain st cur where c: "us = join_path st cur" "ch_slash \<notin> set cur" "\<forall>seg\<in>set st. normal_segment ms seg"
    using assms(1) by (auto simp: cu_segs_def)
  have "\<forall>seg\<in>set st. ch_slash \<notin> set seg" using c(3) by (auto simp: normal_segment_def)
  then obtain st' where "vs = join_path st' []" "set st' \<subseteq> set st"
    using cu_back_prefix [OF assms(2)] prefix_join_path [of vs st cur] c(1,2) by auto
  then show ?thesis using c(3) by (auto simp: cu_segs_def segment_state_def)
qed

lemma cu_segs_step:
  assumes "cu_segs ms (cu_u s) (cu_base s)" "cu_safe us s" "cu_step ms b s = Cu_next s'"
  shows "cu_segs ms (cu_u s') (cu_base s')"
proof (cases "cu_state s")
  case cu_sw_usual
  then have "cu_base s = cu_sw_usual" by (simp add: cu_base_def)
  with cu_sw_usual assms cu_segs_snoc [OF assms(1), of "cu_ch s"] cu_segs_push [OF assms(1)] show ?thesis
    by (auto simp: cu_usual_def cu_put_def cu_base_def Let_def byte_simps split: if_splits dest!: cu_advance_next)
next
  case cu_sw_slash
  then have "cu_base s = cu_sw_slash" by (simp add: cu_base_def)
  with cu_sw_slash assms cu_segs_snoc [OF assms(1), of "cu_ch s"] cu_segs_push [OF assms(1)] show ?thesis
    by (auto simp: cu_slash_def cu_after_slash_def cu_put_def cu_base_def Let_def byte_simps split: if_splits dest!: cu_advance_next)
next
  case cu_sw_dot
  then have "cu_base s = cu_sw_dot" by (simp add: cu_base_def)
  with cu_sw_dot assms cu_segs_snoc [OF assms(1), of "cu_ch s"] cu_segs_dot [of ms "cu_u s"] show ?thesis
    by (auto simp: cu_dot_def cu_after_slash_def cu_put_def cu_base_def Let_def byte_simps split: if_splits dest!: cu_advance_next)
next
  case cu_sw_dot_dot
  then have "cu_base s = cu_sw_dot_dot" by (simp add: cu_base_def)
  with cu_sw_dot_dot assms cu_segs_snoc [OF assms(1), of "cu_ch s"] cu_segs_back [OF assms(1)] show ?thesis
    by (auto simp: cu_dot_dot_def cu_after_slash_def cu_put_def cu_base_def Let_def byte_simps split: if_splits option.splits dest!: cu_advance_next)
next
  case cu_sw_quoted
  with assms show ?thesis
    by (auto simp: cu_quoted_first_hex cu_base_def split: option.splits dest!: cu_advance_next)
next
  case cu_sw_quoted_second
  with assms(2) obtain x where x: "hex_value x = Some (cu_decoded s)" "cu_wf s" by (auto simp: cu_safe_def)
  from cu_sw_quoted_second assms(1,3) x(2) cu_segs_snoc [OF assms(1), of ch_percent]
    cu_segs_snoc [OF assms(1), of ch_hash] cu_segs_snoc [OF assms(1), of ch_question] show ?thesis
    by (auto simp: cu_quoted_second_hex [OF x(1)] cu_put_def cu_base_def cu_wf_def split: option.splits if_splits dest!: cu_advance_next)
qed

lemma cu_loop_segs:
  "cu_segs ms (cu_u s) (cu_base s) \<Longrightarrow> cu_safe us s \<Longrightarrow> cu_p s \<le> Suc ue \<Longrightarrow> ue < length b \<Longrightarrow>
   cu_out (cu_loop ms b ue s) = Some (Some u) \<Longrightarrow> \<exists>q. cu_segs ms u q"
proof (induction "cu_measure ue s" arbitrary: s rule: less_induct)
  case less
  have wf: "cu_wf s" using less.prems(2) by (simp add: cu_safe_def)
  show ?case
  proof (cases "cu_p s \<le> ue")
    case False
    then show ?thesis using less.prems(1,5) by (auto simp: cu_loop_exit)
  next
    case p: True
    show ?thesis
    proof (cases "\<exists>s'. cu_step ms b s = Cu_next s'")
      case True
      then obtain s' where n: "cu_step ms b s = Cu_next s'" by blast
      have "cu_p s' \<le> Suc ue"
        using n p by (cases "cu_state s") (auto simp: cu_defs Let_def split: if_splits option.splits)
      then show ?thesis
        using less.hyps [of s'] cu_step_next [OF n p wf] cu_safe_step [OF less.prems(2) n] cu_segs_step [OF less.prems(1,2) n]
          less.prems(4,5) cu_loop_step [OF p wf n] by simp
    next
      case False
      have "cu_step ms b s \<noteq> Cu_invalid" using less.prems(5) cu_loop_invalid [OF p wf, of ms b] by auto
      then have "cu_step ms b s = Cu_done s \<or> cu_step ms b s = Cu_args (s\<lparr>cu_args_start := Some (cu_p s)\<rparr>)"
        using cu_step_exit [of ms b s] False p less.prems(4) by auto
      then have "u = cu_u s" using less.prems(5) p wf by (subst (asm) cu_loop.simps) auto
      then show ?thesis using less.prems(1) by blast
    qed
  qed
qed

lemma cu_loop_first:
  assumes "us < ue" "ue < length b" "b ! us = ch_slash"
  shows "cu_out (cu_loop True b ue (cu_initial b us pin qin)) = Some (complex_uri_spec [] [] (buf_slice b (us + 1) ue))"
proof -
  let ?s = "cu_initial b us pin qin"
  define t where "t = ?s\<lparr>cu_state := cu_sw_slash, cu_u := [ch_slash]\<rparr>"
  have "cu_p t \<le> ue" using assms(1) by (simp add: t_def cu_initial_def)
  from cu_advance_input [OF this assms(2)] obtain s' where s': "cu_advance b t = Cu_next s'"
    "cu_input b ue s' = buf_slice b (us + 1) ue" "s' = t\<lparr>cu_ch := b ! cu_p t, cu_p := cu_p t + 1\<rparr>"
    by (auto simp: t_def cu_initial_def)
  have st: "cu_step True b ?s = Cu_next s'"
    using s'(1) assms(3) by (simp add: t_def cu_usual_def cu_put_def cu_initial_def Let_def byte_simps)
  have "cu_rel [] [] s'" "cu_wf s'" by (simp_all add: s'(3) t_def cu_rel_def join_path_def cu_initial_def cu_wf_def)
  from cu_loop_spec [OF this assms(2)] cu_loop_step [OF _ _ st, of ue] s'(2) assms(1)
  show ?thesis by (simp add: cu_initial_def cu_wf_def)
qed

text \<open>
  C6: With \<^verbatim>\<open>merge_slashes\<close> on, which is the default, the one-pass parser implements the specification. A URI that begins with a slash is decoded and then
  normalised over a stack of segments; the parser returns \<^verbatim>\<open>NGX_OK\<close> with exactly that URI, or
  \<^verbatim>\<open>NGX_HTTP_PARSE_INVALID_REQUEST\<close> exactly when an escape has a character that is no hexadecimal digit or stands for NUL, or a segment \<^verbatim>\<open>..\<close> climbs
  above the root; an escape that the end of the URI cuts off is dropped, by the specification as by the code. With \<^verbatim>\<open>merge_slashes\<close> off the property does not hold
  (\<open>complex_uri_over_pop\<close>). The one byte at \<^verbatim>\<open>uri_end\<close> that the code reads has to exist.
\<close>

theorem ngx_http_parse_complex_uri_refines:
  assumes "us < ue" "ue < length b" "b ! us = ch_slash"
  shows "map_option (\<lambda>(rc, res). (rc, map_option res_uri res)) (ngx_http_parse_complex_uri b us ue pin qin True) =
    Some (case complex_uri_spec [] [] (buf_slice b (us + 1) ue) of
        None \<Rightarrow> (NGX_HTTP_PARSE_INVALID_REQUEST, None)
      | Some u \<Rightarrow> (NGX_OK, Some u))"
proof -
  from cu_result_of_loop [OF less_imp_le [OF assms(1)] assms(2), of pin qin True] cu_loop_first [OF assms, of pin qin]
  show ?thesis by (auto simp: cu_finish_def)
qed

theorem ngx_http_parse_complex_uri_refines_witness:
  "map_option (\<lambda>(rc, res). (rc, map_option res_uri res))
     (ngx_http_parse_complex_uri (bytes ''/a/./%62//x/../c%2e?k=v '') 0 23 False False True) =
   Some (NGX_OK, Some (bytes ''/a/b/c.''))"
proof -
  have "complex_uri_spec [] [] (buf_slice (bytes ''/a/./%62//x/../c%2e?k=v '') (0 + 1) 23) = Some (bytes ''/a/b/c.'')"
    by code_simp
  moreover have "(23::nat) < length (bytes ''/a/./%62//x/../c%2e?k=v '')" "bytes ''/a/./%62//x/../c%2e?k=v '' ! 0 = ch_slash"
    by code_simp+
  ultimately show ?thesis
    using ngx_http_parse_complex_uri_refines [of 0 23 "bytes ''/a/./%62//x/../c%2e?k=v ''" False False] by simp
qed

text \<open>
  C7: An accepted URI cannot leave the root. With either setting of \<^verbatim>\<open>merge_slashes\<close>, what the parser stores for a URI that begins with a slash
  is a slash followed by segments that are neither \<^verbatim>\<open>.\<close> nor \<^verbatim>\<open>..\<close>, each ended by a slash, and a last part without a slash, also when
  the dots and slashes of the request were escaped; with \<^verbatim>\<open>merge_slashes\<close> on the segments are not empty either. The last part may be dots.
\<close>

theorem ngx_http_parse_complex_uri_normal:
  assumes "us < ue" "ue < length b" "b ! us = ch_slash"
    and "ngx_http_parse_complex_uri b us ue pin qin ms = Some (NGX_OK, Some res)"
  shows "\<exists>segs cur. res_uri res = join_path segs cur \<and> (\<forall>seg\<in>set segs. normal_segment ms seg) \<and> ch_slash \<notin> set cur"
proof -
  let ?s = "cu_initial b us pin qin"
  define t where "t = ?s\<lparr>cu_state := cu_sw_slash, cu_u := [ch_slash], cu_ch := b ! Suc us, cu_p := Suc us + 1\<rparr>"
  have st: "cu_step ms b ?s = Cu_next t"
    using assms(1-3) by (simp add: t_def cu_usual_def cu_put_def cu_initial_def cu_advance_def Let_def byte_simps)
  have "cu_loop ms b ue ?s = cu_loop ms b ue t"
    using cu_loop_step [OF _ _ st, of ue] assms(1) by (simp add: cu_initial_def cu_wf_def)
  then have out: "cu_out (cu_loop ms b ue t) = Some (Some (res_uri res))"
    using cu_result_of_loop [OF less_imp_le [OF assms(1)] assms(2), of pin qin ms] assms(4) by (auto simp: cu_finish_def)
  have "cu_segs ms (cu_u t) (cu_base t)" unfolding cu_segs_def
    by (rule exI [of _ "[]"], rule exI [of _ "[]"]) (simp add: t_def cu_base_def join_path_def segment_state_def)
  from cu_loop_segs [OF this cu_safe_step [OF cu_initial_safe st] _ assms(2) out] assms(1)
  show ?thesis by (auto simp: t_def cu_segs_def)
qed

theorem ngx_http_parse_complex_uri_normal_witness:
  "\<exists>res segs cur. ngx_http_parse_complex_uri (bytes ''/a/%2e%2e/..b//c '') 0 16 False False False = Some (NGX_OK, Some res)
     \<and> res_uri res = join_path segs cur \<and> (\<forall>seg\<in>set segs. normal_segment False seg) \<and> ch_slash \<notin> set cur"
proof -
  let ?b = "bytes ''/a/%2e%2e/..b//c ''"
  have "map_option fst (ngx_http_parse_complex_uri ?b 0 16 False False False) = Some NGX_OK"
    "map_option (\<lambda>r. snd r \<noteq> None) (ngx_http_parse_complex_uri ?b 0 16 False False False) = Some True" by code_simp+
  then obtain res where r: "ngx_http_parse_complex_uri ?b 0 16 False False False = Some (NGX_OK, Some res)"
    by (cases "ngx_http_parse_complex_uri ?b 0 16 False False False") auto
  have "(16::nat) < length ?b" "?b ! 0 = ch_slash" by code_simp+
  from ngx_http_parse_complex_uri_normal [OF _ this r] obtain segs cur where "res_uri res = join_path segs cur"
    "\<forall>seg\<in>set segs. normal_segment False seg" "ch_slash \<notin> set cur" by auto
  with r show ?thesis by blast
qed

text \<open>
  C8: The parser is memory safe with either setting of \<^verbatim>\<open>merge_slashes\<close> and whatever the URI holds: it ends, reads no byte
  after \<^verbatim>\<open>uri_end\<close>, returns one of two codes, the result fits in the bytes of the request. The extension, if there is one,
  is what follows the last dot of the result, and no slash comes after that dot; there is none only when, after the last slash, at most three dots come
  first and then no dot any more.
\<close>

theorem ngx_http_parse_complex_uri_bounds:
  assumes "us \<le> ue" "ue < length b"
  shows "case ngx_http_parse_complex_uri b us ue pin qin ms of
      None \<Rightarrow> False
    | Some (rc, None) \<Rightarrow> rc = NGX_HTTP_PARSE_INVALID_REQUEST
    | Some (rc, Some res) \<Rightarrow> rc = NGX_OK \<and> length (res_uri res) \<le> ue - us
        \<and> (case res_exten res of
             None \<Rightarrow> \<exists>base n rest. res_uri res = base @ replicate n ch_dot @ rest \<and> (base = [] \<and> n = 0 \<or> base \<noteq> [] \<and> last base = ch_slash)
               \<and> n \<le> 3 \<and> ch_slash \<notin> set rest \<and> ch_dot \<notin> set rest
           | Some ext \<Rightarrow> suffix (ch_dot # ext) (res_uri res) \<and> ch_slash \<notin> set ext \<and> ch_dot \<notin> set ext)"
proof -
  have *: "suffix (ch_dot # drop k u) u" if "0 < k" "k \<le> length u" "u ! (k - 1) = ch_dot" for k and u :: "u_char list"
  proof -
    have "drop (k - 1) u = ch_dot # drop k u" using that Cons_nth_drop_Suc [of "k - 1" u] by simp
    then show ?thesis by (metis suffix_drop)
  qed
  have "cu_plain cu_sw_usual u \<longleftrightarrow> (\<exists>base n rest. u = base @ replicate n ch_dot @ rest
      \<and> (base = [] \<and> n = 0 \<or> base \<noteq> [] \<and> last base = ch_slash) \<and> n \<le> 3 \<and> ch_slash \<notin> set rest \<and> ch_dot \<notin> set rest)" for u
    by (simp add: cu_plain_def)
  note plain = this
  from cu_result_of_loop [OF assms, of pin qin ms] show ?thesis
  proof (elim disjE exE conjE)
    fix s args start
    assume r: "ngx_http_parse_complex_uri b us ue pin qin ms = Some (NGX_OK, Some (cu_finish s args start))"
      and "us + length (cu_u s) \<le> ue" "cu_exten_ok cu_sw_usual (cu_u s) (cu_ext s)"
    then show ?thesis by (cases "cu_ext s") (simp_all add: r cu_finish_def cu_exten_ok_def [of _ _ "Some _"] * plain)
  qed simp
qed

theorem ngx_http_parse_complex_uri_bounds_witness:
  "case ngx_http_parse_complex_uri (bytes ''/d//../%2fx.y.htm#z '') 0 19 True False False of
      None \<Rightarrow> False
    | Some (rc, None) \<Rightarrow> rc = NGX_HTTP_PARSE_INVALID_REQUEST
    | Some (rc, Some res) \<Rightarrow> rc = NGX_OK \<and> length (res_uri res) \<le> 19
        \<and> (case res_exten res of
             None \<Rightarrow> \<exists>base n rest. res_uri res = base @ replicate n ch_dot @ rest \<and> (base = [] \<and> n = 0 \<or> base \<noteq> [] \<and> last base = ch_slash)
               \<and> n \<le> 3 \<and> ch_slash \<notin> set rest \<and> ch_dot \<notin> set rest
           | Some ext \<Rightarrow> suffix (ch_dot # ext) (res_uri res) \<and> ch_slash \<notin> set ext \<and> ch_dot \<notin> set ext)"
proof -
  have "(19::nat) < length (bytes ''/d//../%2fx.y.htm#z '')" by code_simp
  from ngx_http_parse_complex_uri_bounds [of 0 19, OF _ this, of True False False] show ?thesis by (simp only: zero_le diff_zero)
qed

text \<open>
  With \<^verbatim>\<open>merge_slashes\<close> off, \<^verbatim>\<open>u -= 5\<close> steps over the empty segment too: \<^verbatim>\<open>/a//../b\<close> becomes \<^verbatim>\<open>/b\<close>
  and not \<^verbatim>\<open>/a/b\<close>. A final \<^verbatim>\<open>..\<close> is kept, because it is only resolved at the next slash.
\<close>

lemma complex_uri_over_pop:
  "map_option (\<lambda>(rc, res). (rc, map_option res_uri res))
     (ngx_http_parse_complex_uri (bytes ''/a//../b '') 0 8 False False False) = Some (NGX_OK, Some (bytes ''/b''))"
  by code_simp

lemma complex_uri_final_dots:
  "map_option (\<lambda>(rc, res). (rc, map_option res_uri res))
     (ngx_http_parse_complex_uri (bytes ''/a/.. '') 0 5 False False True) = Some (NGX_OK, Some (bytes ''/a/..''))"
  by code_simp

lemma complex_uri_cut_escape:
  "map_option (\<lambda>(rc, res). (rc, map_option res_uri res))
     (ngx_http_parse_complex_uri (bytes ''/a%4 '') 0 4 False False True) = Some (NGX_OK, Some (bytes ''/a''))"
  by code_simp

end
