(* ===== verification/Ngx_Http_V2_Huff.thy ===== *)
theory Ngx_Http_V2_Huff
  imports Ngx_Http_V2_Huff_Tables Ngx_Numbers "HOL-Library.Sublist"
begin

text \<open>
  The Huffman codec of HTTP/2: \<^verbatim>\<open>ngx_http_v2_huff_decode\<close>, which runs a table of transitions four bits at
  a time, and \<^verbatim>\<open>ngx_http_v2_huff_encode\<close>, which collects the codes in a 64-bit word. The specification is
  the string of bits: the codes of the symbols one after the other. Each state of the decoder
  stands for the bits read since the last symbol; that the 4,096 transitions agree with the
  code table is evaluated once, row by row, and the theorems rest on that.
\<close>

section \<open>The decoder\<close>

text \<open>
  \<open>None\<close> is \<^verbatim>\<open>NGX_ERROR\<close>; otherwise the new state, the flag \<^verbatim>\<open>ending\<close> and the output are given.
\<close>

definition ngx_http_v2_huff_decode_bits ::
  "int \<Rightarrow> nat \<Rightarrow> u_char list \<Rightarrow> (int \<times> int \<times> u_char list) option"
where
  "ngx_http_v2_huff_decode_bits state bits dst =
     (case ngx_http_v2_huff_decode_codes ! nat state ! bits of (nx, emit, sy, en) \<Rightarrow>
        if nx = state then None
        else Some (nx, en, if emit \<noteq> 0 then dst @ [word_of_int sy] else dst))"

text \<open>
  The loop over the bytes. The state that an error leaves is the one in which it was found.
\<close>

fun huff_decode_loop ::
  "int \<Rightarrow> int \<Rightarrow> u_char list \<Rightarrow> u_char list \<Rightarrow> int \<times> int \<times> int \<times> u_char list"
where
  "huff_decode_loop state ending [] dst = (NGX_OK, state, ending, dst)"
| "huff_decode_loop state ending (ch # src) dst =
     (case ngx_http_v2_huff_decode_bits state (unat (drop_bit 4 ch)) dst of
        None \<Rightarrow> (NGX_ERROR, state, ending, dst)
      | Some (state', ending', dst') \<Rightarrow>
          (case ngx_http_v2_huff_decode_bits state' (unat (ch AND 0xf)) dst' of
             None \<Rightarrow> (NGX_ERROR, state', ending', dst')
           | Some (state'', ending'', dst'') \<Rightarrow> huff_decode_loop state'' ending'' src dst''))"

definition ngx_http_v2_huff_decode ::
  "int \<Rightarrow> u_char list \<Rightarrow> u_char list \<Rightarrow> bool \<Rightarrow> int \<times> int \<times> u_char list"
where
  "ngx_http_v2_huff_decode state src dst is_last =
     (case huff_decode_loop state 1 src dst of (rc, state', ending, dst') \<Rightarrow>
        if rc \<noteq> NGX_OK then (NGX_ERROR, state', dst')
        else if is_last then (if ending = 0 then (NGX_ERROR, state', dst') else (NGX_OK, 0, dst'))
        else (NGX_OK, state', dst'))"

section \<open>The encoder\<close>

text \<open>
  \<^verbatim>\<open>ngx_http_v2_huff_encode_buf\<close> stores the 64 bits with the highest first. What has been written to
  \<^verbatim>\<open>dst\<close> is a list, of which \<^verbatim>\<open>hlen\<close> is the length.
\<close>

definition ngx_http_v2_huff_encode_buf :: "64 word \<Rightarrow> u_char list" where
  "ngx_http_v2_huff_encode_buf buf =
     [ucast (drop_bit 56 buf), ucast (drop_bit 48 buf), ucast (drop_bit 40 buf), ucast (drop_bit 32 buf),
      ucast (drop_bit 24 buf), ucast (drop_bit 16 buf), ucast (drop_bit 8 buf), ucast buf]"

text \<open>The loop over \<^verbatim>\<open>src\<close>; \<open>None\<close> is the early \<^verbatim>\<open>return 0\<close>.\<close>

fun huff_encode_loop ::
  "ngx_http_v2_huff_encode_code_t list \<Rightarrow> nat \<Rightarrow> 64 word \<Rightarrow> nat \<Rightarrow> u_char list \<Rightarrow> u_char list
     \<Rightarrow> (64 word \<times> nat \<times> u_char list) option"
where
  "huff_encode_loop table len buf pending dst [] = Some (buf, pending, dst)"
| "huff_encode_loop table len buf pending dst (c # src) =
     (let code = word_of_int (fst (table ! unat c)); pending = pending + snd (table ! unat c) in
      if pending < 64 then huff_encode_loop table len (buf OR push_bit (64 - pending) code) pending dst src
      else if length dst + 8 \<ge> len then None
      else
        let pending = pending - 64; buf = buf OR drop_bit pending code;
            dst = dst @ ngx_http_v2_huff_encode_buf buf;
            buf = (if pending \<noteq> 0 then push_bit (64 - pending) code else 0)
        in huff_encode_loop table len buf pending dst src)"

text \<open>The loop \<^verbatim>\<open>do ... while (pending)\<close> at the end, with \<^verbatim>\<open>pending\<close> in bytes.\<close>

fun huff_encode_tail :: "64 word \<Rightarrow> nat \<Rightarrow> u_char list" where
  "huff_encode_tail buf 0 = []"
| "huff_encode_tail buf (Suc n) = ucast (drop_bit (8 * n) buf) # huff_encode_tail buf n"

definition ngx_http_v2_huff_encode :: "u_char list \<Rightarrow> bool \<Rightarrow> nat \<times> u_char list" where
  "ngx_http_v2_huff_encode src lower =
     (let table = (if lower then ngx_http_v2_huff_encode_table_lc else ngx_http_v2_huff_encode_table);
          len = length src
      in case huff_encode_loop table len 0 0 [] src of
           None \<Rightarrow> (0, [])
         | Some (buf, pending, dst) \<Rightarrow>
             if pending = 0 then (length dst, dst)
             else
               let buf = buf OR drop_bit pending (- 1); pending = (pending + 7) div 8 * 8 in
               if length dst + pending div 8 \<ge> len then (0, [])
               else
                 let buf = drop_bit (64 - pending) buf;
                     dst = dst @ huff_encode_tail buf (pending div 8)
                 in (length dst, dst))"

section \<open>The specification: strings of bits\<close>

fun code_bits :: "int \<Rightarrow> nat \<Rightarrow> bool list" where
  "code_bits c 0 = []"
| "code_bits c (Suc l) = code_bits (c div 2) l @ [odd c]"

definition huff_sym_bits :: "u_char \<Rightarrow> bool list" where
  "huff_sym_bits c = (case ngx_http_v2_huff_encode_table ! unat c of (code, len) \<Rightarrow> code_bits code len)"

definition huff_bits :: "u_char list \<Rightarrow> bool list" where
  "huff_bits src = concat (map huff_sym_bits src)"

definition byte_bits :: "u_char \<Rightarrow> bool list" where
  "byte_bits ch = code_bits (uint ch) 8"

definition bits_of_bytes :: "u_char list \<Rightarrow> bool list" where
  "bits_of_bytes bs = concat (map byte_bits bs)"

abbreviation (input) huff_eos :: "bool list" where "huff_eos \<equiv> replicate 30 True"

lemma length_code_bits [simp]: "length (code_bits c l) = l"
  by (induction l arbitrary: c) simp_all

lemma nth_code_bits: "i < l \<Longrightarrow> code_bits c l ! i = bit c (l - 1 - i)"
proof (induction l arbitrary: c)
  case (Suc l)
  show ?case
  proof (cases "i = l")
    case True
    then show ?thesis by (simp add: nth_append bit_0)
  next
    case False
    with Suc have "code_bits (c div 2) l ! i = bit c (Suc (l - 1 - i))" by (simp add: bit_Suc)
    moreover have "Suc (l - 1 - i) = Suc l - 1 - i" using False Suc.prems by simp
    ultimately show ?thesis using False Suc.prems by (simp add: nth_append)
  qed
qed simp

lemma code_bits_append:
  "0 \<le> b \<Longrightarrow> b < 2 ^ m \<Longrightarrow> code_bits a l @ code_bits b m = code_bits (a * 2 ^ m + b) (l + m)"
proof (induction m arbitrary: b)
  case (Suc m)
  have "(a * 2 ^ Suc m + b) div 2 = a * 2 ^ m + b div 2"
    using div_mult_self1 [of 2 b "a * 2 ^ m"] by (simp add: algebra_simps)
  moreover have "odd (a * 2 ^ Suc m + b) = odd b" by simp
  moreover have "0 \<le> b div 2" "b div 2 < 2 ^ m" using Suc.prems by simp_all
  then have "code_bits a l @ code_bits (b div 2) m = code_bits (a * 2 ^ m + b div 2) (l + m)"
    by (rule Suc.IH)
  ultimately show ?case by simp
next
  case 0
  then have "b = 0" by simp
  then show ?case by simp
qed

lemma code_bits_ones: "code_bits (2 ^ l - 1) l = replicate l True"
proof (induction l)
  case (Suc l)
  have "(2 ^ Suc l - 1 :: int) div 2 = 2 ^ l - 1" by simp
  moreover have "odd (2 ^ Suc l - 1 :: int)" by simp
  ultimately show ?case using Suc by (simp add: replicate_append_same del: power_Suc)
qed simp

lemma code_bits_inj: "code_bits a l = code_bits b l \<Longrightarrow> 0 \<le> a \<Longrightarrow> a < 2 ^ l \<Longrightarrow> 0 \<le> b \<Longrightarrow> b < 2 ^ l \<Longrightarrow> a = b"
proof (induction l arbitrary: a b)
  case (Suc l)
  then have "a div 2 = b div 2" by (intro Suc.IH) simp_all
  moreover have "odd a = odd b" using Suc.prems(1) by simp
  ultimately show ?case by presburger
qed simp

section \<open>The table of transitions\<close>

text \<open>
  The bits that each state stands for, as a number and a length, and the code table again, both as
  decision trees that evaluate quickly.
\<close>

definition huff_node_0 :: "int \<Rightarrow> int \<times> int" where
  "huff_node_0 i =
     (if i < 8 then (if i < 4 then (if i < 2 then (if i < 1 then (0x0, 0) else (0x0, 1))
       else (if i < 3 then (0x0, 2) else (0x0, 3)))
      else (if i < 6 then (if i < 5 then (0x0, 4) else (0x1, 4))
       else (if i < 7 then (0x1, 3) else (0x2, 4))))
     else (if i < 12 then (if i < 10 then (if i < 9 then (0x3, 4) else (0x1, 2))
       else (if i < 11 then (0x2, 3) else (0x4, 4)))
      else (if i < 14 then (if i < 13 then (0x5, 4) else (0xa, 5))
       else (if i < 15 then (0xb, 5) else (0x3, 3)))))"

definition huff_node_1 :: "int \<Rightarrow> int \<times> int" where
  "huff_node_1 i =
     (if i < 24 then (if i < 20 then (if i < 18 then (if i < 17 then (0x6, 4) else (0xc, 5))
       else (if i < 19 then (0xd, 5) else (0x7, 4)))
      else (if i < 22 then (if i < 21 then (0xe, 5) else (0xf, 5))
       else (if i < 23 then (0x1, 1) else (0x2, 2))))
     else (if i < 28 then (if i < 26 then (if i < 25 then (0x4, 3) else (0x8, 4))
       else (if i < 27 then (0x10, 5) else (0x11, 5)))
      else (if i < 30 then (if i < 29 then (0x9, 4) else (0x12, 5))
       else (if i < 31 then (0x13, 5) else (0x5, 3)))))"

definition huff_node_2 :: "int \<Rightarrow> int \<times> int" where
  "huff_node_2 i =
     (if i < 40 then (if i < 36 then (if i < 34 then (if i < 33 then (0xa, 4) else (0x14, 5))
       else (if i < 35 then (0x15, 5) else (0xb, 4)))
      else (if i < 38 then (if i < 37 then (0x16, 5) else (0x17, 5))
       else (if i < 39 then (0x2e, 6) else (0x2f, 6))))
     else (if i < 44 then (if i < 42 then (if i < 41 then (0x3, 2) else (0x6, 3))
       else (if i < 43 then (0xc, 4) else (0x18, 5)))
      else (if i < 46 then (if i < 45 then (0x30, 6) else (0x31, 6))
       else (if i < 47 then (0x19, 5) else (0x32, 6)))))"

definition huff_node_3 :: "int \<Rightarrow> int \<times> int" where
  "huff_node_3 i =
     (if i < 56 then (if i < 52 then (if i < 50 then (if i < 49 then (0x33, 6) else (0xd, 4))
       else (if i < 51 then (0x1a, 5) else (0x34, 6)))
      else (if i < 54 then (if i < 53 then (0x35, 6) else (0x1b, 5))
       else (if i < 55 then (0x36, 6) else (0x37, 6))))
     else (if i < 60 then (if i < 58 then (if i < 57 then (0x7, 3) else (0xe, 4))
       else (if i < 59 then (0x1c, 5) else (0x38, 6)))
      else (if i < 62 then (if i < 61 then (0x39, 6) else (0x1d, 5))
       else (if i < 63 then (0x3a, 6) else (0x3b, 6)))))"

definition huff_node_4 :: "int \<Rightarrow> int \<times> int" where
  "huff_node_4 i =
     (if i < 72 then (if i < 68 then (if i < 66 then (if i < 65 then (0xf, 4) else (0x1e, 5))
       else (if i < 67 then (0x3c, 6) else (0x3d, 6)))
      else (if i < 70 then (if i < 69 then (0x1f, 5) else (0x3e, 6))
       else (if i < 71 then (0x7c, 7) else (0x7d, 7))))
     else (if i < 76 then (if i < 74 then (if i < 73 then (0x3f, 6) else (0x7e, 7))
       else (if i < 75 then (0x7f, 7) else (0xfe, 8)))
      else (if i < 78 then (if i < 77 then (0x1fc, 9) else (0x1fd, 9))
       else (if i < 79 then (0xff, 8) else (0x1fe, 9)))))"

definition huff_node_5 :: "int \<Rightarrow> int \<times> int" where
  "huff_node_5 i =
     (if i < 88 then (if i < 84 then (if i < 82 then (if i < 81 then (0x3fd, 10) else (0x1ff, 9))
       else (if i < 83 then (0x3fe, 10) else (0x7fd, 11)))
      else (if i < 86 then (if i < 85 then (0x3ff, 10) else (0x7fe, 11))
       else (if i < 87 then (0xffc, 12) else (0xffd, 12))))
     else (if i < 92 then (if i < 90 then (if i < 89 then (0x7ff, 11) else (0xffe, 12))
       else (if i < 91 then (0xfff, 12) else (0x1ffe, 13)))
      else (if i < 94 then (if i < 93 then (0x1fff, 13) else (0x3ffe, 14))
       else (if i < 95 then (0x3fff, 14) else (0x7fff, 15)))))"

definition huff_node_6 :: "int \<Rightarrow> int \<times> int" where
  "huff_node_6 i =
     (if i < 104 then (if i < 100 then (if i < 98 then (if i < 97 then (0xfffe, 16) else (0x1fffc, 17))
       else (if i < 99 then (0x3fff8, 18) else (0x3fff9, 18)))
      else (if i < 102 then (if i < 101 then (0x7fff3, 19) else (0x1fffd, 17))
       else (if i < 103 then (0x3fffa, 18) else (0x7fff4, 19))))
     else (if i < 108 then (if i < 106 then (if i < 105 then (0x7fff5, 19) else (0x3fffb, 18))
       else (if i < 107 then (0x7fff6, 19) else (0x7fff7, 19)))
      else (if i < 110 then (if i < 109 then (0xfffee, 20) else (0xfffef, 20))
       else (if i < 111 then (0xffff, 16) else (0x1fffe, 17)))))"

definition huff_node_7 :: "int \<Rightarrow> int \<times> int" where
  "huff_node_7 i =
     (if i < 120 then (if i < 116 then (if i < 114 then (if i < 113 then (0x3fffc, 18) else (0x7fff8, 19))
       else (if i < 115 then (0xffff0, 20) else (0xffff1, 20)))
      else (if i < 118 then (if i < 117 then (0x7fff9, 19) else (0xffff2, 20))
       else (if i < 119 then (0xffff3, 20) else (0x3fffd, 18))))
     else (if i < 124 then (if i < 122 then (if i < 121 then (0x7fffa, 19) else (0xffff4, 20))
       else (if i < 123 then (0x1fffe9, 21) else (0xffff5, 20)))
      else (if i < 126 then (if i < 125 then (0x1fffea, 21) else (0x1fffeb, 21))
       else (if i < 127 then (0x7fffb, 19) else (0xffff6, 20)))))"

definition huff_node_8 :: "int \<Rightarrow> int \<times> int" where
  "huff_node_8 i =
     (if i < 136 then (if i < 132 then (if i < 130 then (if i < 129 then (0x1fffec, 21) else (0x1fffed, 21))
       else (if i < 131 then (0xffff7, 20) else (0x1fffee, 21)))
      else (if i < 134 then (if i < 133 then (0x1fffef, 21) else (0x1ffff, 17))
       else (if i < 135 then (0x3fffe, 18) else (0x7fffc, 19))))
     else (if i < 140 then (if i < 138 then (if i < 137 then (0xffff8, 20) else (0x1ffff0, 21))
       else (if i < 139 then (0x1ffff1, 21) else (0xffff9, 20)))
      else (if i < 142 then (if i < 141 then (0x1ffff2, 21) else (0x1ffff3, 21))
       else (if i < 143 then (0x7fffd, 19) else (0xffffa, 20)))))"

definition huff_node_9 :: "int \<Rightarrow> int \<times> int" where
  "huff_node_9 i =
     (if i < 152 then (if i < 148 then (if i < 146 then (if i < 145 then (0x1ffff4, 21) else (0x1ffff5, 21))
       else (if i < 147 then (0xffffb, 20) else (0x1ffff6, 21)))
      else (if i < 150 then (if i < 149 then (0x3fffec, 22) else (0x3fffed, 22))
       else (if i < 151 then (0x1ffff7, 21) else (0x3fffee, 22))))
     else (if i < 156 then (if i < 154 then (if i < 153 then (0x3fffef, 22) else (0x3ffff, 18))
       else (if i < 155 then (0x7fffe, 19) else (0xffffc, 20)))
      else (if i < 158 then (if i < 157 then (0x1ffff8, 21) else (0x3ffff0, 22))
       else (if i < 159 then (0x3ffff1, 22) else (0x1ffff9, 21)))))"

definition huff_node_10 :: "int \<Rightarrow> int \<times> int" where
  "huff_node_10 i =
     (if i < 168 then (if i < 164 then (if i < 162 then (if i < 161 then (0x3ffff2, 22) else (0x3ffff3, 22))
       else (if i < 163 then (0xffffd, 20) else (0x1ffffa, 21)))
      else (if i < 166 then (if i < 165 then (0x3ffff4, 22) else (0x3ffff5, 22))
       else (if i < 167 then (0x1ffffb, 21) else (0x3ffff6, 22))))
     else (if i < 172 then (if i < 170 then (if i < 169 then (0x3ffff7, 22) else (0x7ffff, 19))
       else (if i < 171 then (0xffffe, 20) else (0x1ffffc, 21)))
      else (if i < 174 then (if i < 173 then (0x3ffff8, 22) else (0x3ffff9, 22))
       else (if i < 175 then (0x1ffffd, 21) else (0x3ffffa, 22)))))"

definition huff_node_11 :: "int \<Rightarrow> int \<times> int" where
  "huff_node_11 i =
     (if i < 184 then (if i < 180 then (if i < 178 then (if i < 177 then (0x7ffff5, 23) else (0x3ffffb, 22))
       else (if i < 179 then (0x7ffff6, 23) else (0x7ffff7, 23)))
      else (if i < 182 then (if i < 181 then (0xfffff, 20) else (0x1ffffe, 21))
       else (if i < 183 then (0x3ffffc, 22) else (0x7ffff8, 23))))
     else (if i < 188 then (if i < 186 then (if i < 185 then (0x7ffff9, 23) else (0x3ffffd, 22))
       else (if i < 187 then (0x7ffffa, 23) else (0x7ffffb, 23)))
      else (if i < 190 then (if i < 189 then (0xfffff6, 24) else (0xfffff7, 24))
       else (if i < 191 then (0x1fffff, 21) else (0x3ffffe, 22)))))"

definition huff_node_12 :: "int \<Rightarrow> int \<times> int" where
  "huff_node_12 i =
     (if i < 200 then (if i < 196 then (if i < 194 then (if i < 193 then (0x7ffffc, 23) else (0xfffff8, 24))
       else (if i < 195 then (0x1fffff0, 25) else (0x1fffff1, 25)))
      else (if i < 198 then (if i < 197 then (0xfffff9, 24) else (0x1fffff2, 25))
       else (if i < 199 then (0x1fffff3, 25) else (0x7ffffd, 23))))
     else (if i < 204 then (if i < 202 then (if i < 201 then (0xfffffa, 24) else (0x1fffff4, 25))
       else (if i < 203 then (0x1fffff5, 25) else (0xfffffb, 24)))
      else (if i < 206 then (if i < 205 then (0x1fffff6, 25) else (0x1fffff7, 25))
       else (if i < 207 then (0x3ffffef, 26) else (0x3fffff, 22)))))"

definition huff_node_13 :: "int \<Rightarrow> int \<times> int" where
  "huff_node_13 i =
     (if i < 216 then (if i < 212 then (if i < 210 then (if i < 209 then (0x7ffffe, 23) else (0xfffffc, 24))
       else (if i < 211 then (0x1fffff8, 25) else (0x3fffff0, 26)))
      else (if i < 214 then (if i < 213 then (0x3fffff1, 26) else (0x1fffff9, 25))
       else (if i < 215 then (0x3fffff2, 26) else (0x3fffff3, 26))))
     else (if i < 220 then (if i < 218 then (if i < 217 then (0xfffffd, 24) else (0x1fffffa, 25))
       else (if i < 219 then (0x3fffff4, 26) else (0x3fffff5, 26)))
      else (if i < 222 then (if i < 221 then (0x1fffffb, 25) else (0x3fffff6, 26))
       else (if i < 223 then (0x3fffff7, 26) else (0x7fffff, 23)))))"

definition huff_node_14 :: "int \<Rightarrow> int \<times> int" where
  "huff_node_14 i =
     (if i < 232 then (if i < 228 then (if i < 226 then (if i < 225 then (0xfffffe, 24) else (0x1fffffc, 25))
       else (if i < 227 then (0x3fffff8, 26) else (0x7fffff1, 27)))
      else (if i < 230 then (if i < 229 then (0x3fffff9, 26) else (0x7fffff2, 27))
       else (if i < 231 then (0x7fffff3, 27) else (0x1fffffd, 25))))
     else (if i < 236 then (if i < 234 then (if i < 233 then (0x3fffffa, 26) else (0x7fffff4, 27))
       else (if i < 235 then (0x7fffff5, 27) else (0x3fffffb, 26)))
      else (if i < 238 then (if i < 237 then (0x7fffff6, 27) else (0x7fffff7, 27))
       else (if i < 239 then (0xffffff, 24) else (0x1fffffe, 25)))))"

definition huff_node_15 :: "int \<Rightarrow> int \<times> int" where
  "huff_node_15 i =
     (if i < 248 then (if i < 244 then (if i < 242 then (if i < 241 then (0x3fffffc, 26) else (0x7fffff8, 27))
       else (if i < 243 then (0x7fffff9, 27) else (0x3fffffd, 26)))
      else (if i < 246 then (if i < 245 then (0x7fffffa, 27) else (0x7fffffb, 27))
       else (if i < 247 then (0x1ffffff, 25) else (0x3fffffe, 26))))
     else (if i < 252 then (if i < 250 then (if i < 249 then (0x7fffffc, 27) else (0x7fffffd, 27))
       else (if i < 251 then (0x3ffffff, 26) else (0x7fffffe, 27)))
      else (if i < 254 then (if i < 253 then (0x7ffffff, 27) else (0xfffffff, 28))
       else (if i < 255 then (0x1ffffffe, 29) else (0x1fffffff, 29)))))"

definition huff_node :: "int \<Rightarrow> int \<times> int" where
  "huff_node i =
     (if i < 128 then (if i < 64 then (if i < 32 then (if i < 16 then huff_node_0 i else huff_node_1 i)
       else (if i < 48 then huff_node_2 i else huff_node_3 i))
      else (if i < 96 then (if i < 80 then huff_node_4 i else huff_node_5 i)
       else (if i < 112 then huff_node_6 i else huff_node_7 i)))
     else (if i < 192 then (if i < 160 then (if i < 144 then huff_node_8 i else huff_node_9 i)
       else (if i < 176 then huff_node_10 i else huff_node_11 i))
      else (if i < 224 then (if i < 208 then huff_node_12 i else huff_node_13 i)
       else (if i < 240 then huff_node_14 i else huff_node_15 i))))"

definition huff_code_0 :: "int \<Rightarrow> int \<times> int" where
  "huff_code_0 i =
     (if i < 8 then (if i < 4 then (if i < 2 then (if i < 1 then (0x1ff8, 13) else (0x7fffd8, 23))
       else (if i < 3 then (0xfffffe2, 28) else (0xfffffe3, 28)))
      else (if i < 6 then (if i < 5 then (0xfffffe4, 28) else (0xfffffe5, 28))
       else (if i < 7 then (0xfffffe6, 28) else (0xfffffe7, 28))))
     else (if i < 12 then (if i < 10 then (if i < 9 then (0xfffffe8, 28) else (0xffffea, 24))
       else (if i < 11 then (0x3ffffffc, 30) else (0xfffffe9, 28)))
      else (if i < 14 then (if i < 13 then (0xfffffea, 28) else (0x3ffffffd, 30))
       else (if i < 15 then (0xfffffeb, 28) else (0xfffffec, 28)))))"

definition huff_code_1 :: "int \<Rightarrow> int \<times> int" where
  "huff_code_1 i =
     (if i < 24 then (if i < 20 then (if i < 18 then (if i < 17 then (0xfffffed, 28) else (0xfffffee, 28))
       else (if i < 19 then (0xfffffef, 28) else (0xffffff0, 28)))
      else (if i < 22 then (if i < 21 then (0xffffff1, 28) else (0xffffff2, 28))
       else (if i < 23 then (0x3ffffffe, 30) else (0xffffff3, 28))))
     else (if i < 28 then (if i < 26 then (if i < 25 then (0xffffff4, 28) else (0xffffff5, 28))
       else (if i < 27 then (0xffffff6, 28) else (0xffffff7, 28)))
      else (if i < 30 then (if i < 29 then (0xffffff8, 28) else (0xffffff9, 28))
       else (if i < 31 then (0xffffffa, 28) else (0xffffffb, 28)))))"

definition huff_code_2 :: "int \<Rightarrow> int \<times> int" where
  "huff_code_2 i =
     (if i < 40 then (if i < 36 then (if i < 34 then (if i < 33 then (0x14, 6) else (0x3f8, 10))
       else (if i < 35 then (0x3f9, 10) else (0xffa, 12)))
      else (if i < 38 then (if i < 37 then (0x1ff9, 13) else (0x15, 6))
       else (if i < 39 then (0xf8, 8) else (0x7fa, 11))))
     else (if i < 44 then (if i < 42 then (if i < 41 then (0x3fa, 10) else (0x3fb, 10))
       else (if i < 43 then (0xf9, 8) else (0x7fb, 11)))
      else (if i < 46 then (if i < 45 then (0xfa, 8) else (0x16, 6))
       else (if i < 47 then (0x17, 6) else (0x18, 6)))))"

definition huff_code_3 :: "int \<Rightarrow> int \<times> int" where
  "huff_code_3 i =
     (if i < 56 then (if i < 52 then (if i < 50 then (if i < 49 then (0x0, 5) else (0x1, 5))
       else (if i < 51 then (0x2, 5) else (0x19, 6)))
      else (if i < 54 then (if i < 53 then (0x1a, 6) else (0x1b, 6))
       else (if i < 55 then (0x1c, 6) else (0x1d, 6))))
     else (if i < 60 then (if i < 58 then (if i < 57 then (0x1e, 6) else (0x1f, 6))
       else (if i < 59 then (0x5c, 7) else (0xfb, 8)))
      else (if i < 62 then (if i < 61 then (0x7ffc, 15) else (0x20, 6))
       else (if i < 63 then (0xffb, 12) else (0x3fc, 10)))))"

definition huff_code_4 :: "int \<Rightarrow> int \<times> int" where
  "huff_code_4 i =
     (if i < 72 then (if i < 68 then (if i < 66 then (if i < 65 then (0x1ffa, 13) else (0x21, 6))
       else (if i < 67 then (0x5d, 7) else (0x5e, 7)))
      else (if i < 70 then (if i < 69 then (0x5f, 7) else (0x60, 7))
       else (if i < 71 then (0x61, 7) else (0x62, 7))))
     else (if i < 76 then (if i < 74 then (if i < 73 then (0x63, 7) else (0x64, 7))
       else (if i < 75 then (0x65, 7) else (0x66, 7)))
      else (if i < 78 then (if i < 77 then (0x67, 7) else (0x68, 7))
       else (if i < 79 then (0x69, 7) else (0x6a, 7)))))"

definition huff_code_5 :: "int \<Rightarrow> int \<times> int" where
  "huff_code_5 i =
     (if i < 88 then (if i < 84 then (if i < 82 then (if i < 81 then (0x6b, 7) else (0x6c, 7))
       else (if i < 83 then (0x6d, 7) else (0x6e, 7)))
      else (if i < 86 then (if i < 85 then (0x6f, 7) else (0x70, 7))
       else (if i < 87 then (0x71, 7) else (0x72, 7))))
     else (if i < 92 then (if i < 90 then (if i < 89 then (0xfc, 8) else (0x73, 7))
       else (if i < 91 then (0xfd, 8) else (0x1ffb, 13)))
      else (if i < 94 then (if i < 93 then (0x7fff0, 19) else (0x1ffc, 13))
       else (if i < 95 then (0x3ffc, 14) else (0x22, 6)))))"

definition huff_code_6 :: "int \<Rightarrow> int \<times> int" where
  "huff_code_6 i =
     (if i < 104 then (if i < 100 then (if i < 98 then (if i < 97 then (0x7ffd, 15) else (0x3, 5))
       else (if i < 99 then (0x23, 6) else (0x4, 5)))
      else (if i < 102 then (if i < 101 then (0x24, 6) else (0x5, 5))
       else (if i < 103 then (0x25, 6) else (0x26, 6))))
     else (if i < 108 then (if i < 106 then (if i < 105 then (0x27, 6) else (0x6, 5))
       else (if i < 107 then (0x74, 7) else (0x75, 7)))
      else (if i < 110 then (if i < 109 then (0x28, 6) else (0x29, 6))
       else (if i < 111 then (0x2a, 6) else (0x7, 5)))))"

definition huff_code_7 :: "int \<Rightarrow> int \<times> int" where
  "huff_code_7 i =
     (if i < 120 then (if i < 116 then (if i < 114 then (if i < 113 then (0x2b, 6) else (0x76, 7))
       else (if i < 115 then (0x2c, 6) else (0x8, 5)))
      else (if i < 118 then (if i < 117 then (0x9, 5) else (0x2d, 6))
       else (if i < 119 then (0x77, 7) else (0x78, 7))))
     else (if i < 124 then (if i < 122 then (if i < 121 then (0x79, 7) else (0x7a, 7))
       else (if i < 123 then (0x7b, 7) else (0x7ffe, 15)))
      else (if i < 126 then (if i < 125 then (0x7fc, 11) else (0x3ffd, 14))
       else (if i < 127 then (0x1ffd, 13) else (0xffffffc, 28)))))"

definition huff_code_8 :: "int \<Rightarrow> int \<times> int" where
  "huff_code_8 i =
     (if i < 136 then (if i < 132 then (if i < 130 then (if i < 129 then (0xfffe6, 20) else (0x3fffd2, 22))
       else (if i < 131 then (0xfffe7, 20) else (0xfffe8, 20)))
      else (if i < 134 then (if i < 133 then (0x3fffd3, 22) else (0x3fffd4, 22))
       else (if i < 135 then (0x3fffd5, 22) else (0x7fffd9, 23))))
     else (if i < 140 then (if i < 138 then (if i < 137 then (0x3fffd6, 22) else (0x7fffda, 23))
       else (if i < 139 then (0x7fffdb, 23) else (0x7fffdc, 23)))
      else (if i < 142 then (if i < 141 then (0x7fffdd, 23) else (0x7fffde, 23))
       else (if i < 143 then (0xffffeb, 24) else (0x7fffdf, 23)))))"

definition huff_code_9 :: "int \<Rightarrow> int \<times> int" where
  "huff_code_9 i =
     (if i < 152 then (if i < 148 then (if i < 146 then (if i < 145 then (0xffffec, 24) else (0xffffed, 24))
       else (if i < 147 then (0x3fffd7, 22) else (0x7fffe0, 23)))
      else (if i < 150 then (if i < 149 then (0xffffee, 24) else (0x7fffe1, 23))
       else (if i < 151 then (0x7fffe2, 23) else (0x7fffe3, 23))))
     else (if i < 156 then (if i < 154 then (if i < 153 then (0x7fffe4, 23) else (0x1fffdc, 21))
       else (if i < 155 then (0x3fffd8, 22) else (0x7fffe5, 23)))
      else (if i < 158 then (if i < 157 then (0x3fffd9, 22) else (0x7fffe6, 23))
       else (if i < 159 then (0x7fffe7, 23) else (0xffffef, 24)))))"

definition huff_code_10 :: "int \<Rightarrow> int \<times> int" where
  "huff_code_10 i =
     (if i < 168 then (if i < 164 then (if i < 162 then (if i < 161 then (0x3fffda, 22) else (0x1fffdd, 21))
       else (if i < 163 then (0xfffe9, 20) else (0x3fffdb, 22)))
      else (if i < 166 then (if i < 165 then (0x3fffdc, 22) else (0x7fffe8, 23))
       else (if i < 167 then (0x7fffe9, 23) else (0x1fffde, 21))))
     else (if i < 172 then (if i < 170 then (if i < 169 then (0x7fffea, 23) else (0x3fffdd, 22))
       else (if i < 171 then (0x3fffde, 22) else (0xfffff0, 24)))
      else (if i < 174 then (if i < 173 then (0x1fffdf, 21) else (0x3fffdf, 22))
       else (if i < 175 then (0x7fffeb, 23) else (0x7fffec, 23)))))"

definition huff_code_11 :: "int \<Rightarrow> int \<times> int" where
  "huff_code_11 i =
     (if i < 184 then (if i < 180 then (if i < 178 then (if i < 177 then (0x1fffe0, 21) else (0x1fffe1, 21))
       else (if i < 179 then (0x3fffe0, 22) else (0x1fffe2, 21)))
      else (if i < 182 then (if i < 181 then (0x7fffed, 23) else (0x3fffe1, 22))
       else (if i < 183 then (0x7fffee, 23) else (0x7fffef, 23))))
     else (if i < 188 then (if i < 186 then (if i < 185 then (0xfffea, 20) else (0x3fffe2, 22))
       else (if i < 187 then (0x3fffe3, 22) else (0x3fffe4, 22)))
      else (if i < 190 then (if i < 189 then (0x7ffff0, 23) else (0x3fffe5, 22))
       else (if i < 191 then (0x3fffe6, 22) else (0x7ffff1, 23)))))"

definition huff_code_12 :: "int \<Rightarrow> int \<times> int" where
  "huff_code_12 i =
     (if i < 200 then (if i < 196 then (if i < 194 then (if i < 193 then (0x3ffffe0, 26) else (0x3ffffe1, 26))
       else (if i < 195 then (0xfffeb, 20) else (0x7fff1, 19)))
      else (if i < 198 then (if i < 197 then (0x3fffe7, 22) else (0x7ffff2, 23))
       else (if i < 199 then (0x3fffe8, 22) else (0x1ffffec, 25))))
     else (if i < 204 then (if i < 202 then (if i < 201 then (0x3ffffe2, 26) else (0x3ffffe3, 26))
       else (if i < 203 then (0x3ffffe4, 26) else (0x7ffffde, 27)))
      else (if i < 206 then (if i < 205 then (0x7ffffdf, 27) else (0x3ffffe5, 26))
       else (if i < 207 then (0xfffff1, 24) else (0x1ffffed, 25)))))"

definition huff_code_13 :: "int \<Rightarrow> int \<times> int" where
  "huff_code_13 i =
     (if i < 216 then (if i < 212 then (if i < 210 then (if i < 209 then (0x7fff2, 19) else (0x1fffe3, 21))
       else (if i < 211 then (0x3ffffe6, 26) else (0x7ffffe0, 27)))
      else (if i < 214 then (if i < 213 then (0x7ffffe1, 27) else (0x3ffffe7, 26))
       else (if i < 215 then (0x7ffffe2, 27) else (0xfffff2, 24))))
     else (if i < 220 then (if i < 218 then (if i < 217 then (0x1fffe4, 21) else (0x1fffe5, 21))
       else (if i < 219 then (0x3ffffe8, 26) else (0x3ffffe9, 26)))
      else (if i < 222 then (if i < 221 then (0xffffffd, 28) else (0x7ffffe3, 27))
       else (if i < 223 then (0x7ffffe4, 27) else (0x7ffffe5, 27)))))"

definition huff_code_14 :: "int \<Rightarrow> int \<times> int" where
  "huff_code_14 i =
     (if i < 232 then (if i < 228 then (if i < 226 then (if i < 225 then (0xfffec, 20) else (0xfffff3, 24))
       else (if i < 227 then (0xfffed, 20) else (0x1fffe6, 21)))
      else (if i < 230 then (if i < 229 then (0x3fffe9, 22) else (0x1fffe7, 21))
       else (if i < 231 then (0x1fffe8, 21) else (0x7ffff3, 23))))
     else (if i < 236 then (if i < 234 then (if i < 233 then (0x3fffea, 22) else (0x3fffeb, 22))
       else (if i < 235 then (0x1ffffee, 25) else (0x1ffffef, 25)))
      else (if i < 238 then (if i < 237 then (0xfffff4, 24) else (0xfffff5, 24))
       else (if i < 239 then (0x3ffffea, 26) else (0x7ffff4, 23)))))"

definition huff_code_15 :: "int \<Rightarrow> int \<times> int" where
  "huff_code_15 i =
     (if i < 248 then (if i < 244 then (if i < 242 then (if i < 241 then (0x3ffffeb, 26) else (0x7ffffe6, 27))
       else (if i < 243 then (0x3ffffec, 26) else (0x3ffffed, 26)))
      else (if i < 246 then (if i < 245 then (0x7ffffe7, 27) else (0x7ffffe8, 27))
       else (if i < 247 then (0x7ffffe9, 27) else (0x7ffffea, 27))))
     else (if i < 252 then (if i < 250 then (if i < 249 then (0x7ffffeb, 27) else (0xffffffe, 28))
       else (if i < 251 then (0x7ffffec, 27) else (0x7ffffed, 27)))
      else (if i < 254 then (if i < 253 then (0x7ffffee, 27) else (0x7ffffef, 27))
       else (if i < 255 then (0x7fffff0, 27) else (0x3ffffee, 26)))))"

definition huff_code :: "int \<Rightarrow> int \<times> int" where
  "huff_code i =
     (if i < 128 then (if i < 64 then (if i < 32 then (if i < 16 then huff_code_0 i else huff_code_1 i)
       else (if i < 48 then huff_code_2 i else huff_code_3 i))
      else (if i < 96 then (if i < 80 then huff_code_4 i else huff_code_5 i)
       else (if i < 112 then huff_code_6 i else huff_code_7 i)))
     else (if i < 192 then (if i < 160 then (if i < 144 then huff_code_8 i else huff_code_9 i)
       else (if i < 176 then huff_code_10 i else huff_code_11 i))
      else (if i < 224 then (if i < 208 then huff_code_12 i else huff_code_13 i)
       else (if i < 240 then huff_code_14 i else huff_code_15 i))))"

text \<open>
  What a transition has to be: with the bits of the state followed by the four bits read, it
  stands for those bits, or for what is left of them after the code of the symbol that it emits; it is an
  error when they begin with 30 ones, the code that ends no string.
\<close>

definition huff_check :: "int \<Rightarrow> int \<Rightarrow> ngx_http_v2_huff_decode_code_t \<Rightarrow> bool" where
  "huff_check q n e = (case e of (nx, emit, sy, en) \<Rightarrow> case huff_node q of (v, l) \<Rightarrow>
     0 \<le> l \<and> l < 30 \<and>
     (if nx = q then 26 \<le> l \<and> v = 2 ^ nat l - 1 \<and> 16 - 2 ^ nat (l - 26) \<le> n
      else 0 \<le> nx \<and> nx < 256 \<and> (case huff_node nx of (v', l') \<Rightarrow>
        0 \<le> l' \<and> 0 \<le> v' \<and> v' < 2 ^ nat l' \<and> en = (if v' = 2 ^ nat l' - 1 then 1 else 0) \<and>
        (if emit = 0 then v' = v * 16 + n \<and> l' = l + 4
         else 0 \<le> sy \<and> sy < 256 \<and> l' < 4 \<and>
           (case huff_code sy of (c, cl) \<Rightarrow> cl = l + 4 - l' \<and> c * 2 ^ nat l' + v' = v * 16 + n)))))"

definition huff_check_rows :: "int list \<Rightarrow> ngx_http_v2_huff_decode_code_t list list \<Rightarrow> bool" where
  "huff_check_rows qs rows =
     list_all2 (\<lambda>q. list_all2 (huff_check q) [0..15]) qs rows"

lemma huff_check_0: "huff_check_rows [0..15] huff_decode_codes_0"
  by code_simp

lemma huff_check_1: "huff_check_rows [16..31] huff_decode_codes_1"
  by code_simp

lemma huff_check_2: "huff_check_rows [32..47] huff_decode_codes_2"
  by code_simp

lemma huff_check_3: "huff_check_rows [48..63] huff_decode_codes_3"
  by code_simp

lemma huff_check_4: "huff_check_rows [64..79] huff_decode_codes_4"
  by code_simp

lemma huff_check_5: "huff_check_rows [80..95] huff_decode_codes_5"
  by code_simp

lemma huff_check_6: "huff_check_rows [96..111] huff_decode_codes_6"
  by code_simp

lemma huff_check_7: "huff_check_rows [112..127] huff_decode_codes_7"
  by code_simp

lemma huff_check_8: "huff_check_rows [128..143] huff_decode_codes_8"
  by code_simp

lemma huff_check_9: "huff_check_rows [144..159] huff_decode_codes_9"
  by code_simp

lemma huff_check_10: "huff_check_rows [160..175] huff_decode_codes_10"
  by code_simp

lemma huff_check_11: "huff_check_rows [176..191] huff_decode_codes_11"
  by code_simp

lemma huff_check_12: "huff_check_rows [192..207] huff_decode_codes_12"
  by code_simp

lemma huff_check_13: "huff_check_rows [208..223] huff_decode_codes_13"
  by code_simp

lemma huff_check_14: "huff_check_rows [224..239] huff_decode_codes_14"
  by code_simp

lemma huff_check_15: "huff_check_rows [240..255] huff_decode_codes_15"
  by code_simp

lemma huff_check_rows_join:
  assumes "huff_check_rows [a..m] rows" "huff_check_rows [k..n] rows'" "k = m + 1" "a \<le> k" "m \<le> n"
  shows "huff_check_rows [a..n] (rows @ rows')"
proof -
  have "[a..n] = [a..m] @ [k..n]" using assms(3-5) by (cases "a = k") (simp_all add: upto_split2)
  with assms(1,2) show ?thesis by (simp add: huff_check_rows_def list_all2_appendI)
qed

lemma huff_check_all: "huff_check_rows [0..255] ngx_http_v2_huff_decode_codes"
  unfolding ngx_http_v2_huff_decode_codes_def concat.simps append_Nil2
  by (rule huff_check_rows_join [OF huff_check_0 huff_check_rows_join [OF huff_check_1 huff_check_rows_join [OF huff_check_2 huff_check_rows_join [OF huff_check_3
      huff_check_rows_join [OF huff_check_4 huff_check_rows_join [OF huff_check_5 huff_check_rows_join [OF huff_check_6
      huff_check_rows_join [OF huff_check_7 huff_check_rows_join [OF huff_check_8 huff_check_rows_join [OF huff_check_9
      huff_check_rows_join [OF huff_check_10 huff_check_rows_join [OF huff_check_11 huff_check_rows_join [OF huff_check_12
      huff_check_rows_join [OF huff_check_13 huff_check_rows_join [OF huff_check_14 huff_check_15]]]]]]]]]]]]]]]) simp_all

lemma huff_code_table: "map (\<lambda>(c, l). (c, int l)) ngx_http_v2_huff_encode_table = map huff_code [0..255]"
  by code_simp

lemma huff_code_table_lc:
  "map (\<lambda>(c, l). (c, int l)) ngx_http_v2_huff_encode_table_lc =
   map (\<lambda>i. huff_code (if 65 \<le> i \<and> i \<le> 90 then i + 32 else i)) [0..255]"
  by code_simp

section \<open>The code is prefix free\<close>

text \<open>
  The code is canonical: the codes of one length are consecutive numbers, and a longer code begins with a
  greater number than every code of a smaller length. \<open>huff_lims\<close> has for each length the first number
  above the codes of that length; \<open>huff_unrank\<close> and \<open>huff_bases\<close> find the symbol of a code.
\<close>

definition huff_unrank_0 :: "int \<Rightarrow> int" where
  "huff_unrank_0 i =
     (if i < 8 then (if i < 4 then (if i < 2 then (if i < 1 then 48 else 49)
       else (if i < 3 then 50 else 97))
      else (if i < 6 then (if i < 5 then 99 else 101)
       else (if i < 7 then 105 else 111)))
     else (if i < 12 then (if i < 10 then (if i < 9 then 115 else 116)
       else (if i < 11 then 32 else 37))
      else (if i < 14 then (if i < 13 then 45 else 46)
       else (if i < 15 then 47 else 51))))"

definition huff_unrank_1 :: "int \<Rightarrow> int" where
  "huff_unrank_1 i =
     (if i < 24 then (if i < 20 then (if i < 18 then (if i < 17 then 52 else 53)
       else (if i < 19 then 54 else 55))
      else (if i < 22 then (if i < 21 then 56 else 57)
       else (if i < 23 then 61 else 65)))
     else (if i < 28 then (if i < 26 then (if i < 25 then 95 else 98)
       else (if i < 27 then 100 else 102))
      else (if i < 30 then (if i < 29 then 103 else 104)
       else (if i < 31 then 108 else 109))))"

definition huff_unrank_2 :: "int \<Rightarrow> int" where
  "huff_unrank_2 i =
     (if i < 40 then (if i < 36 then (if i < 34 then (if i < 33 then 110 else 112)
       else (if i < 35 then 114 else 117))
      else (if i < 38 then (if i < 37 then 58 else 66)
       else (if i < 39 then 67 else 68)))
     else (if i < 44 then (if i < 42 then (if i < 41 then 69 else 70)
       else (if i < 43 then 71 else 72))
      else (if i < 46 then (if i < 45 then 73 else 74)
       else (if i < 47 then 75 else 76))))"

definition huff_unrank_3 :: "int \<Rightarrow> int" where
  "huff_unrank_3 i =
     (if i < 56 then (if i < 52 then (if i < 50 then (if i < 49 then 77 else 78)
       else (if i < 51 then 79 else 80))
      else (if i < 54 then (if i < 53 then 81 else 82)
       else (if i < 55 then 83 else 84)))
     else (if i < 60 then (if i < 58 then (if i < 57 then 85 else 86)
       else (if i < 59 then 87 else 89))
      else (if i < 62 then (if i < 61 then 106 else 107)
       else (if i < 63 then 113 else 118))))"

definition huff_unrank_4 :: "int \<Rightarrow> int" where
  "huff_unrank_4 i =
     (if i < 72 then (if i < 68 then (if i < 66 then (if i < 65 then 119 else 120)
       else (if i < 67 then 121 else 122))
      else (if i < 70 then (if i < 69 then 38 else 42)
       else (if i < 71 then 44 else 59)))
     else (if i < 76 then (if i < 74 then (if i < 73 then 88 else 90)
       else (if i < 75 then 33 else 34))
      else (if i < 78 then (if i < 77 then 40 else 41)
       else (if i < 79 then 63 else 39))))"

definition huff_unrank_5 :: "int \<Rightarrow> int" where
  "huff_unrank_5 i =
     (if i < 88 then (if i < 84 then (if i < 82 then (if i < 81 then 43 else 124)
       else (if i < 83 then 35 else 62))
      else (if i < 86 then (if i < 85 then 0 else 36)
       else (if i < 87 then 64 else 91)))
     else (if i < 92 then (if i < 90 then (if i < 89 then 93 else 126)
       else (if i < 91 then 94 else 125))
      else (if i < 94 then (if i < 93 then 60 else 96)
       else (if i < 95 then 123 else 92))))"

definition huff_unrank_6 :: "int \<Rightarrow> int" where
  "huff_unrank_6 i =
     (if i < 104 then (if i < 100 then (if i < 98 then (if i < 97 then 195 else 208)
       else (if i < 99 then 128 else 130))
      else (if i < 102 then (if i < 101 then 131 else 162)
       else (if i < 103 then 184 else 194)))
     else (if i < 108 then (if i < 106 then (if i < 105 then 224 else 226)
       else (if i < 107 then 153 else 161))
      else (if i < 110 then (if i < 109 then 167 else 172)
       else (if i < 111 then 176 else 177))))"

definition huff_unrank_7 :: "int \<Rightarrow> int" where
  "huff_unrank_7 i =
     (if i < 120 then (if i < 116 then (if i < 114 then (if i < 113 then 179 else 209)
       else (if i < 115 then 216 else 217))
      else (if i < 118 then (if i < 117 then 227 else 229)
       else (if i < 119 then 230 else 129)))
     else (if i < 124 then (if i < 122 then (if i < 121 then 132 else 133)
       else (if i < 123 then 134 else 136))
      else (if i < 126 then (if i < 125 then 146 else 154)
       else (if i < 127 then 156 else 160))))"

definition huff_unrank_8 :: "int \<Rightarrow> int" where
  "huff_unrank_8 i =
     (if i < 136 then (if i < 132 then (if i < 130 then (if i < 129 then 163 else 164)
       else (if i < 131 then 169 else 170))
      else (if i < 134 then (if i < 133 then 173 else 178)
       else (if i < 135 then 181 else 185)))
     else (if i < 140 then (if i < 138 then (if i < 137 then 186 else 187)
       else (if i < 139 then 189 else 190))
      else (if i < 142 then (if i < 141 then 196 else 198)
       else (if i < 143 then 228 else 232))))"

definition huff_unrank_9 :: "int \<Rightarrow> int" where
  "huff_unrank_9 i =
     (if i < 152 then (if i < 148 then (if i < 146 then (if i < 145 then 233 else 1)
       else (if i < 147 then 135 else 137))
      else (if i < 150 then (if i < 149 then 138 else 139)
       else (if i < 151 then 140 else 141)))
     else (if i < 156 then (if i < 154 then (if i < 153 then 143 else 147)
       else (if i < 155 then 149 else 150))
      else (if i < 158 then (if i < 157 then 151 else 152)
       else (if i < 159 then 155 else 157))))"

definition huff_unrank_10 :: "int \<Rightarrow> int" where
  "huff_unrank_10 i =
     (if i < 168 then (if i < 164 then (if i < 162 then (if i < 161 then 158 else 165)
       else (if i < 163 then 166 else 168))
      else (if i < 166 then (if i < 165 then 174 else 175)
       else (if i < 167 then 180 else 182)))
     else (if i < 172 then (if i < 170 then (if i < 169 then 183 else 188)
       else (if i < 171 then 191 else 197))
      else (if i < 174 then (if i < 173 then 231 else 239)
       else (if i < 175 then 9 else 142))))"

definition huff_unrank_11 :: "int \<Rightarrow> int" where
  "huff_unrank_11 i =
     (if i < 184 then (if i < 180 then (if i < 178 then (if i < 177 then 144 else 145)
       else (if i < 179 then 148 else 159))
      else (if i < 182 then (if i < 181 then 171 else 206)
       else (if i < 183 then 215 else 225)))
     else (if i < 188 then (if i < 186 then (if i < 185 then 236 else 237)
       else (if i < 187 then 199 else 207))
      else (if i < 190 then (if i < 189 then 234 else 235)
       else (if i < 191 then 192 else 193))))"

definition huff_unrank_12 :: "int \<Rightarrow> int" where
  "huff_unrank_12 i =
     (if i < 200 then (if i < 196 then (if i < 194 then (if i < 193 then 200 else 201)
       else (if i < 195 then 202 else 205))
      else (if i < 198 then (if i < 197 then 210 else 213)
       else (if i < 199 then 218 else 219)))
     else (if i < 204 then (if i < 202 then (if i < 201 then 238 else 240)
       else (if i < 203 then 242 else 243))
      else (if i < 206 then (if i < 205 then 255 else 203)
       else (if i < 207 then 204 else 211))))"

definition huff_unrank_13 :: "int \<Rightarrow> int" where
  "huff_unrank_13 i =
     (if i < 216 then (if i < 212 then (if i < 210 then (if i < 209 then 212 else 214)
       else (if i < 211 then 221 else 222))
      else (if i < 214 then (if i < 213 then 223 else 241)
       else (if i < 215 then 244 else 245)))
     else (if i < 220 then (if i < 218 then (if i < 217 then 246 else 247)
       else (if i < 219 then 248 else 250))
      else (if i < 222 then (if i < 221 then 251 else 252)
       else (if i < 223 then 253 else 254))))"

definition huff_unrank_14 :: "int \<Rightarrow> int" where
  "huff_unrank_14 i =
     (if i < 232 then (if i < 228 then (if i < 226 then (if i < 225 then 2 else 3)
       else (if i < 227 then 4 else 5))
      else (if i < 230 then (if i < 229 then 6 else 7)
       else (if i < 231 then 8 else 11)))
     else (if i < 236 then (if i < 234 then (if i < 233 then 12 else 14)
       else (if i < 235 then 15 else 16))
      else (if i < 238 then (if i < 237 then 17 else 18)
       else (if i < 239 then 19 else 20))))"

definition huff_unrank_15 :: "int \<Rightarrow> int" where
  "huff_unrank_15 i =
     (if i < 248 then (if i < 244 then (if i < 242 then (if i < 241 then 21 else 23)
       else (if i < 243 then 24 else 25))
      else (if i < 246 then (if i < 245 then 26 else 27)
       else (if i < 247 then 28 else 29)))
     else (if i < 252 then (if i < 250 then (if i < 249 then 30 else 31)
       else (if i < 251 then 127 else 220))
      else (if i < 254 then (if i < 253 then 249 else 10)
       else (if i < 255 then 13 else 22))))"

definition huff_unrank :: "int \<Rightarrow> int" where
  "huff_unrank i =
     (if i < 128 then (if i < 64 then (if i < 32 then (if i < 16 then huff_unrank_0 i else huff_unrank_1 i)
       else (if i < 48 then huff_unrank_2 i else huff_unrank_3 i))
      else (if i < 96 then (if i < 80 then huff_unrank_4 i else huff_unrank_5 i)
       else (if i < 112 then huff_unrank_6 i else huff_unrank_7 i)))
     else (if i < 192 then (if i < 160 then (if i < 144 then huff_unrank_8 i else huff_unrank_9 i)
       else (if i < 176 then huff_unrank_10 i else huff_unrank_11 i))
      else (if i < 224 then (if i < 208 then huff_unrank_12 i else huff_unrank_13 i)
       else (if i < 240 then huff_unrank_14 i else huff_unrank_15 i))))"

definition huff_lims :: "int list" where
  "huff_lims =
    [0, 0, 0, 0, 0, 10, 46, 124, 254, 508,
     1021, 2045, 4092, 8190, 16382, 32767, 65534, 131068, 262136, 524275,
     1048558, 2097129, 4194284, 8388597, 16777206, 33554416, 67108847, 134217713, 268435455, 536870910,
     1073741824]"

definition huff_bases :: "int list" where
  "huff_bases =
    [0, 0, 0, 0, 0, 0, 10, 56, 180, 0,
     942, 1963, 4008, 8100, 16290, 32672, 0, 0, 0, 524177,
     1048452, 2097010, 4194139, 8388423, 16777020, 33554226, 67108642, 134217489, 268435202, 0,
     1073741567]"

definition huff_canonical :: "int \<Rightarrow> int \<Rightarrow> bool" where
  "huff_canonical c l \<longleftrightarrow> 1 \<le> l \<and> l \<le> 30 \<and> 2 * huff_lims ! nat (l - 1) \<le> c \<and> c < huff_lims ! nat l"

lemma huff_codes_canonical:
  "list_all (\<lambda>i. case huff_code i of (c, l) \<Rightarrow> huff_canonical c l \<and> (l = 30 \<longrightarrow> c < 2 ^ 30 - 1)
     \<and> huff_unrank (c - huff_bases ! nat l) = i) [0..255]"
  by code_simp

lemma huff_lims_grow: "list_all (\<lambda>l. 2 * huff_lims ! nat l \<le> huff_lims ! nat (l + 1)) [0..29]"
  by code_simp

lemma huff_lims_bound: "list_all (\<lambda>l. 0 \<le> huff_lims ! nat l \<and> huff_lims ! nat l \<le> 2 ^ nat l) [0..30]"
  by code_simp

lemma huff_eos_canonical: "huff_canonical (2 ^ 30 - 1) 30"
  by code_simp

lemma huff_lims_mult: "l + d \<le> 30 \<Longrightarrow> 2 ^ d * huff_lims ! l \<le> huff_lims ! (l + d)"
proof (induction d)
  case (Suc d)
  have "int (l + d) \<in> set [0..29]" using Suc.prems by simp
  then have "2 * huff_lims ! (l + d) \<le> huff_lims ! (l + Suc d)"
    using huff_lims_grow unfolding list_all_iff by (metis add_Suc_right int_Suc nat_int of_nat_Suc)
  moreover have "2 ^ d * huff_lims ! l \<le> huff_lims ! (l + d)" using Suc by simp
  ultimately show ?case by simp
qed simp

lemma huff_canonical_range: "huff_canonical c l \<Longrightarrow> 0 \<le> c \<and> c < 2 ^ nat l"
proof -
  assume a: "huff_canonical c l"
  then have "l \<in> set [0..30]" "l - 1 \<in> set [0..30]" by (auto simp: huff_canonical_def)
  then have "huff_lims ! nat l \<le> 2 ^ nat l" "0 \<le> huff_lims ! nat (l - 1)"
    using huff_lims_bound unfolding list_all_iff by blast+
  with a show ?thesis unfolding huff_canonical_def by linarith
qed

lemma div_less_prod: "a < x * y \<Longrightarrow> 0 < y \<Longrightarrow> a div y < x" for a x y :: int
proof (rule ccontr)
  assume a: "a < x * y" "0 < y" "\<not> a div y < x"
  then have "x * y \<le> a div y * y" by simp
  also have "\<dots> \<le> a" using a(2) by (simp add: minus_mod_eq_div_mult [symmetric])
  finally show False using a(1) by simp
qed

lemma huff_canonical_prefix:
  assumes "huff_canonical c l" "huff_canonical c' l'" "prefix (code_bits c (nat l)) (code_bits c' (nat l'))"
  shows "c = c' \<and> l = l'"
proof -
  define d where "d = nat l' - nat l"
  have l: "nat l \<le> nat l'" using prefix_length_le [OF assms(3)] by simp
  then have l': "nat l' = nat l + d" by (simp add: d_def)
  note r = huff_canonical_range [OF assms(1)] huff_canonical_range [OF assms(2)]
  have "code_bits c' (nat l') = code_bits (c' div 2 ^ d) (nat l) @ code_bits (c' mod 2 ^ d) d"
    by (subst code_bits_append) (simp_all add: l' div_mult_mod_eq)
  with assms(3) have "code_bits c (nat l) = code_bits (c' div 2 ^ d) (nat l)"
    by (auto simp: prefix_def)
  moreover have "0 \<le> c' div 2 ^ d" "c' div 2 ^ d < 2 ^ nat l"
    using r(2) div_less_prod [of c' "2 ^ nat l" "2 ^ d"] by (simp_all add: pos_imp_zdiv_nonneg_iff l' power_add)
  ultimately have c: "c = c' div 2 ^ d" using r(1) code_bits_inj by blast
  show ?thesis
  proof (cases d)
    case 0
    with c l' assms(1,2) show ?thesis by (auto simp: huff_canonical_def)
  next
    case (Suc e)
    have "nat l' \<le> 30" using assms(2) by (auto simp: huff_canonical_def)
    then have "2 ^ e * huff_lims ! nat l \<le> huff_lims ! (nat l + e)"
      using huff_lims_mult [of "nat l" e] l' Suc by simp
    moreover have "nat (l' - 1) = nat l + e" using l' Suc assms(2) by (simp add: huff_canonical_def)
    moreover have "huff_lims ! nat l * 2 ^ d = 2 * (2 ^ e * huff_lims ! nat l)" by (simp add: Suc)
    moreover have "2 * huff_lims ! nat (l' - 1) \<le> c'" using assms(2) by (simp add: huff_canonical_def)
    ultimately have "huff_lims ! nat l * 2 ^ d \<le> c'" by (simp only:)
    then have "huff_lims ! nat l \<le> c' div 2 ^ d" using zdiv_mono1 [of "huff_lims ! nat l * 2 ^ d" c' "2 ^ d"] by simp
    with c assms(1) show ?thesis by (simp add: huff_canonical_def)
  qed
qed

lemma nth_upto_0: "0 \<le> i \<Longrightarrow> i \<le> n \<Longrightarrow> [0..n] ! nat i = i"
  by (simp add: nth_upto)

lemma length_encode_table: "length ngx_http_v2_huff_encode_table = 256" "length ngx_http_v2_huff_encode_table_lc = 256"
  using arg_cong [OF huff_code_table, of length] arg_cong [OF huff_code_table_lc, of length] by simp_all

lemma uint_u_char: "0 \<le> uint c" "uint c \<le> 255" for c :: u_char
  using uint_lt2p [of c] by simp_all

lemma huff_table_code:
  assumes "ngx_http_v2_huff_encode_table ! unat (c :: u_char) = (v, l)"
  shows "huff_code (uint c) = (v, int l)" "huff_sym_bits c = code_bits v l"
proof -
  have "unat c < 256" using u_char_less_256 [of c] by simp
  then have "huff_code ([0..255] ! unat c) = (\<lambda>(v, l). (v, int l)) (ngx_http_v2_huff_encode_table ! unat c)"
    using arg_cong [OF huff_code_table, of "\<lambda>xs. xs ! unat c"] length_encode_table by simp
  moreover have "[0..255] ! unat c = uint c" using nth_upto_0 [of "uint c" 255] uint_u_char [of c] by simp
  ultimately show "huff_code (uint c) = (v, int l)" using assms by simp
  show "huff_sym_bits c = code_bits v l" using assms by (simp add: huff_sym_bits_def)
qed

lemma huff_sym:
  "\<exists>v l. huff_code (uint c) = (v, int l) \<and> huff_sym_bits c = code_bits v l \<and> huff_canonical v (int l)
     \<and> (l = 30 \<longrightarrow> v < 2 ^ 30 - 1) \<and> huff_unrank (v - huff_bases ! l) = uint c"
proof -
  obtain v l where e: "ngx_http_v2_huff_encode_table ! unat c = (v, l)" by (metis surj_pair)
  have "uint c \<in> set [0..255]" using uint_u_char [of c] by simp
  from bspec [OF huff_codes_canonical [unfolded list_all_iff] this] huff_table_code [OF e]
  show ?thesis by auto
qed

lemma huff_eos_bits: "huff_eos = code_bits (2 ^ 30 - 1) (nat 30)"
  by (simp only: nat_numeral code_bits_ones)

text \<open>No code is the beginning of another one or of the 30 ones, nor are these of a code.\<close>

lemma huff_prefix_free:
  "prefix (huff_sym_bits c) (huff_sym_bits c') \<Longrightarrow> c = c'"
  "\<not> prefix (huff_sym_bits c) huff_eos" "\<not> prefix huff_eos (huff_sym_bits c)"
proof -
  obtain v l where c: "huff_sym_bits c = code_bits v l" "huff_canonical v (int l)" "l = 30 \<longrightarrow> v < 2 ^ 30 - 1"
    "huff_unrank (v - huff_bases ! l) = uint c" using huff_sym [of c] by blast
  obtain v' l' where c': "huff_sym_bits c' = code_bits v' l'" "huff_canonical v' (int l')"
    "huff_unrank (v' - huff_bases ! l') = uint c'" using huff_sym [of c'] by blast
  show "c = c'" if "prefix (huff_sym_bits c) (huff_sym_bits c')"
  proof -
    have "v = v' \<and> l = l'" using huff_canonical_prefix [OF c(2) c'(2)] that by (simp add: c(1) c'(1))
    with c(4) c'(3) show ?thesis by (simp add: word_uint_eq_iff)
  qed
  show "\<not> prefix (huff_sym_bits c) huff_eos"
    using huff_canonical_prefix [OF c(2) huff_eos_canonical] c(3) unfolding huff_eos_bits c(1) by auto
  show "\<not> prefix huff_eos (huff_sym_bits c)"
    using huff_canonical_prefix [OF huff_eos_canonical c(2)] c(3) unfolding huff_eos_bits c(1) by auto
qed

text \<open>The specification of a transition, over strings of bits.\<close>

definition node_bits :: "int \<Rightarrow> bool list" where
  "node_bits q = code_bits (fst (huff_node q)) (nat (snd (huff_node q)))"

lemma list_all_id: "list_all id xs \<longleftrightarrow> xs = replicate (length xs) True"
  by (induction xs) auto

lemma code_bits_nibble: "n < 16 \<Longrightarrow> code_bits v l @ code_bits (int n) 4 = code_bits (v * 16 + int n) (l + 4)"
  using code_bits_append [of "int n" 4 v l] by simp

lemma huff_eos_nibble:
  assumes "26 \<le> l" "l < 30" "16 - 2 ^ nat (l - 26) \<le> int n" "n < 16"
  shows "prefix huff_eos (code_bits (2 ^ nat l - 1) (nat l) @ code_bits (int n) 4)"
proof -
  define d where "d = nat (l - 26)"
  define r where "r = int n - (16 - 2 ^ d)"
  have l: "nat l = 26 + d" "d < 4" using assms(1,2) by (auto simp: d_def)
  have r: "0 \<le> r" "r < 2 ^ d" using assms(3,4) by (simp_all add: r_def d_def)
  have "(2 ^ nat l - 1) * 16 + int n = (2 ^ 30 - 1) * 2 ^ d + r" by (simp add: l(1) r_def power_add algebra_simps)
  then have "code_bits (2 ^ nat l - 1) (nat l) @ code_bits (int n) 4 = code_bits (2 ^ 30 - 1) 30 @ code_bits r d"
    using code_bits_nibble [OF assms(4)] code_bits_append [OF r] l by simp
  then show ?thesis using code_bits_ones [of 30] by simp
qed

lemma huff_transition:
  assumes "0 \<le> q" "q < 256" "n < 16" "ngx_http_v2_huff_decode_codes ! nat q ! n = (nx, emit, sy, en)"
  shows "length (node_bits q) < 30 \<and>
    (if nx = q then prefix huff_eos (node_bits q @ code_bits (int n) 4)
     else 0 \<le> nx \<and> nx < 256 \<and> (en \<noteq> 0 \<longleftrightarrow> list_all id (node_bits nx)) \<and>
       (if emit = 0 then node_bits nx = node_bits q @ code_bits (int n) 4
        else length (node_bits nx) < 4 \<and> huff_sym_bits (word_of_int sy) @ node_bits nx = node_bits q @ code_bits (int n) 4))"
proof -
  obtain v l where q: "huff_node q = (v, l)" by (metis surj_pair)
  obtain v' l' where nx: "huff_node nx = (v', l')" by (metis surj_pair)
  have row: "list_all2 (huff_check q) [0..15] (ngx_http_v2_huff_decode_codes ! nat q)"
    using list_all2_nthD [OF huff_check_all [unfolded huff_check_rows_def], of "nat q"] assms(1,2) nth_upto_0 [of q 255] by simp
  have "[0..15] ! n = int n" using nth_upto_0 [of "int n" 15] assms(3) by simp
  then have chk: "huff_check q (int n) (nx, emit, sy, en)"
    using list_all2_nthD [OF row, of n] assms(3,4) by simp
  have l: "0 \<le> l" "l < 30" using chk by (auto simp: huff_check_def q nx)
  have nq: "node_bits q = code_bits v (nat l)" and nn: "node_bits nx = code_bits v' (nat l')"
    by (simp_all add: node_bits_def q nx)
  have app: "node_bits q @ code_bits (int n) 4 = code_bits (v * 16 + int n) (nat l + 4)"
    using code_bits_nibble [OF assms(3)] by (simp add: nq)
  show ?thesis
  proof (cases "nx = q")
    case True
    with chk have "26 \<le> l" "v = 2 ^ nat l - 1" "16 - 2 ^ nat (l - 26) \<le> int n" by (auto simp: huff_check_def q)
    with huff_eos_nibble [OF _ l(2) _ assms(3)] True l nq show ?thesis by simp
  next
    case False
    with chk have b: "0 \<le> nx" "nx < 256" "0 \<le> l'" "0 \<le> v'" "v' < 2 ^ nat l'" "en = (if v' = 2 ^ nat l' - 1 then 1 else 0)"
      by (auto simp: huff_check_def q nx)
    have "list_all id (node_bits nx) \<longleftrightarrow> node_bits nx = code_bits (2 ^ nat l' - 1) (nat l')"
      unfolding code_bits_ones list_all_id by (simp add: nn)
    also have "\<dots> \<longleftrightarrow> v' = 2 ^ nat l' - 1" using code_bits_inj [OF _ b(4,5)] by (auto simp: nn)
    finally have en: "en \<noteq> 0 \<longleftrightarrow> list_all id (node_bits nx)" using b(6) by simp
    show ?thesis
    proof (cases "emit = 0")
      case True
      with False chk have "v' = v * 16 + int n" "l' = l + 4" by (auto simp: huff_check_def q nx)
      then have "node_bits nx = node_bits q @ code_bits (int n) 4" using app nn l by (simp add: nat_add_distrib)
      with True False b en l nq show ?thesis by simp
    next
      case emit: False
      obtain c cl where c: "huff_code sy = (c, cl)" by (metis surj_pair)
      with False emit chk have sy: "0 \<le> sy" "sy < 256" "l' < 4" "cl = l + 4 - l'" "c * 2 ^ nat l' + v' = v * 16 + int n"
        by (auto simp: huff_check_def q nx)
      have u: "uint (word_of_int sy :: u_char) = sy" using sy(1,2) by (simp add: uint_word_of_int)
      obtain vs ls where vs: "huff_code (uint (word_of_int sy :: u_char)) = (vs, int ls)"
        "huff_sym_bits (word_of_int sy) = code_bits vs ls" using huff_sym [of "word_of_int sy"] by blast
      have "vs = c" "ls = nat cl" using vs(1) c u by auto
      then have "huff_sym_bits (word_of_int sy) @ node_bits nx = code_bits (c * 2 ^ nat l' + v') (nat cl + nat l')"
        using code_bits_append [OF b(4,5)] by (simp add: vs(2) nn)
      moreover have "nat cl + nat l' = nat l + 4" using sy(3,4) l b(3) by simp
      ultimately have "huff_sym_bits (word_of_int sy) @ node_bits nx = node_bits q @ code_bits (int n) 4"
        using sy(5) app by simp
      moreover have "nat l < 30" "nat l' < 4" using l sy(3) by simp_all
      ultimately show ?thesis using emit False b en nq nn by simp
    qed
  qed
qed

section \<open>The decoder decodes\<close>

lemma huff_bits_simps [simp]:
  "huff_bits [] = []" "huff_bits (c # cs) = huff_sym_bits c @ huff_bits cs" "huff_bits (cs @ ds) = huff_bits cs @ huff_bits ds"
  by (simp_all add: huff_bits_def)

lemma bits_of_bytes_simps [simp]:
  "bits_of_bytes [] = []" "bits_of_bytes (b # bs) = byte_bits b @ bits_of_bytes bs"
  "bits_of_bytes (bs @ cs) = bits_of_bytes bs @ bits_of_bytes cs"
  by (simp_all add: bits_of_bytes_def)

lemma byte_bits_nibbles: "byte_bits ch = code_bits (int (unat (drop_bit 4 ch))) 4 @ code_bits (int (unat (ch AND 0xf))) 4"
proof -
  have "int (unat (drop_bit 4 ch)) * 2 ^ 4 + int (unat (ch AND 0xf)) = uint ch"
    using uint_high_nibble [of ch] uint_low_nibble [of ch] by simp
  moreover have "int (unat (ch AND 0xf)) < 2 ^ 4" using uint_low_nibble [of ch] by simp
  ultimately show ?thesis unfolding byte_bits_def by (subst code_bits_append) simp_all
qed

lemma huff_head:
  assumes "huff_sym_bits s @ ys = huff_bits src @ replicate k True" "k < 30"
  shows "\<exists>src'. src = s # src' \<and> ys = huff_bits src' @ replicate k True"
proof (cases src)
  case Nil
  have "prefix (replicate k True) huff_eos" using assms(2) by (auto simp: prefix_def intro!: exI [of _ "replicate (30 - k) True"] simp flip: replicate_add)
  moreover have "prefix (huff_sym_bits s) (replicate k True)" using assms(1) Nil by (metis append_Nil huff_bits_simps(1) prefixI)
  ultimately show ?thesis using huff_prefix_free(2) prefix_order.order_trans by blast
next
  case (Cons c cs)
  have "prefix (huff_sym_bits s) (huff_bits src @ replicate k True)" using assms(1) by (metis prefixI)
  moreover have "prefix (huff_sym_bits c) (huff_bits src @ replicate k True)" using Cons by simp
  ultimately have "c = s" using prefix_same_cases huff_prefix_free(1) by blast
  with assms(1) Cons show ?thesis by simp
qed

lemma huff_no_eos:
  assumes "k < 30"
  shows "\<not> prefix huff_eos (huff_bits src @ replicate k True)"
proof
  assume p: "prefix huff_eos (huff_bits src @ replicate k True)"
  show False
  proof (cases src)
    case Nil
    with p prefix_length_le [OF p] assms show False by simp
  next
    case (Cons c cs)
    then have "prefix (huff_sym_bits c) (huff_bits src @ replicate k True)" by simp
    with p have "prefix huff_eos (huff_sym_bits c) \<or> prefix (huff_sym_bits c) huff_eos" using prefix_same_cases by blast
    then show False using huff_prefix_free by blast
  qed
qed

text \<open>A state stands for no complete code.\<close>

lemma node_no_code: "0 \<le> q \<Longrightarrow> q < 256 \<Longrightarrow> \<not> prefix (huff_sym_bits c) (node_bits q)"
proof (induction "30 - length (node_bits q)" arbitrary: q rule: less_induct)
  case less
  obtain nx emit sy en where e: "ngx_http_v2_huff_decode_codes ! nat q ! 0 = (nx, emit, sy, en)" by (metis surj_pair)
  note t = huff_transition [OF less.prems _ e]
  show ?case
  proof
    assume p: "prefix (huff_sym_bits c) (node_bits q)"
    then have p4: "prefix (huff_sym_bits c) (node_bits q @ code_bits 0 4)" by (rule prefix_prefix)
    consider "nx = q" | "nx \<noteq> q" "emit = 0" | "nx \<noteq> q" "emit \<noteq> 0" by blast
    then show False
    proof cases
      case 1
      with t have "prefix huff_eos (node_bits q @ code_bits 0 4)" by simp
      with p4 show False using prefix_same_cases huff_prefix_free(2,3) by blast
    next
      case 2
      with t have n: "node_bits nx = node_bits q @ code_bits 0 4" "0 \<le> nx" "nx < 256" "length (node_bits q) < 30" by simp_all
      then have "30 - length (node_bits nx) < 30 - length (node_bits q)" by simp
      with less.hyps [of nx] n p4 show False by simp
    next
      case 3
      with t have n: "huff_sym_bits (word_of_int sy) @ node_bits nx = node_bits q @ code_bits 0 4" "length (node_bits nx) < 4"
        by simp_all
      then have "prefix (huff_sym_bits (word_of_int sy)) (node_bits q @ code_bits 0 4)" by (metis prefixI)
      with p4 have "c = word_of_int sy" using prefix_same_cases huff_prefix_free(1) by blast
      moreover have "length (huff_sym_bits (word_of_int sy)) > length (node_bits q)"
        using arg_cong [OF n(1), of length] n(2) by simp
      ultimately show False using prefix_length_le [OF p] by simp
    qed
  qed
qed

definition huff_state :: "int \<Rightarrow> int \<Rightarrow> bool" where
  "huff_state q en \<longleftrightarrow> 0 \<le> q \<and> q < 256 \<and> (en \<noteq> 0 \<longleftrightarrow> list_all id (node_bits q))"

lemma huff_decode_bits_sound:
  assumes "huff_state q en" "n < 16" "ngx_http_v2_huff_decode_bits q n dst = Some (q', en', dst')"
  shows "huff_state q' en' \<and> (\<exists>out. dst' = dst @ out \<and> node_bits q @ code_bits (int n) 4 = huff_bits out @ node_bits q')"
proof -
  obtain nx emit sy en'' where e: "ngx_http_v2_huff_decode_codes ! nat q ! n = (nx, emit, sy, en'')" by (metis surj_pair)
  have "nx \<noteq> q" "q' = nx" "en' = en''" "dst' = (if emit \<noteq> 0 then dst @ [word_of_int sy] else dst)"
    using assms(3) by (auto simp: ngx_http_v2_huff_decode_bits_def e split: if_splits)
  with huff_transition [OF _ _ assms(2) e] assms(1) show ?thesis
    by (cases "emit = 0") (auto simp: huff_state_def)
qed

lemma huff_decode_bits_complete:
  assumes "huff_state q en" "n < 16" "node_bits q @ code_bits (int n) 4 @ rest = huff_bits src @ replicate k True" "k < 30"
  shows "\<exists>q' en' out src'. ngx_http_v2_huff_decode_bits q n dst = Some (q', en', dst @ out) \<and> huff_state q' en'
    \<and> src = out @ src' \<and> node_bits q' @ rest = huff_bits src' @ replicate k True"
proof -
  obtain nx emit sy en' where e: "ngx_http_v2_huff_decode_codes ! nat q ! n = (nx, emit, sy, en')" by (metis surj_pair)
  note t = huff_transition [OF _ _ assms(2) e]
  have "nx \<noteq> q"
  proof
    assume "nx = q"
    with t assms(1) have "prefix huff_eos (node_bits q @ code_bits (int n) 4)" by (simp add: huff_state_def)
    then have "prefix huff_eos (huff_bits src @ replicate k True)"
      unfolding assms(3) [symmetric] by (metis append_assoc prefix_prefix)
    with huff_no_eos [OF assms(4)] show False by blast
  qed
  show ?thesis
  proof (cases "emit = 0")
    case True
    with \<open>nx \<noteq> q\<close> t assms(1,3) show ?thesis
      by (intro exI [of _ nx] exI [of _ en'] exI [of _ "[]"] exI [of _ src])
        (auto simp: ngx_http_v2_huff_decode_bits_def e huff_state_def)
  next
    case False
    with \<open>nx \<noteq> q\<close> t assms(1) have s: "huff_sym_bits (word_of_int sy) @ node_bits nx = node_bits q @ code_bits (int n) 4"
      "huff_state nx en'" by (simp_all add: huff_state_def)
    then have "huff_sym_bits (word_of_int sy) @ node_bits nx @ rest = huff_bits src @ replicate k True"
      using assms(3) by (metis append_assoc)
    from huff_head [OF this assms(4)] obtain src' where "src = word_of_int sy # src'" "node_bits nx @ rest = huff_bits src' @ replicate k True"
      by blast
    with False \<open>nx \<noteq> q\<close> s show ?thesis
      by (intro exI [of _ nx] exI [of _ en'] exI [of _ "[word_of_int sy]"] exI [of _ src'])
        (auto simp: ngx_http_v2_huff_decode_bits_def e)
  qed
qed

lemma huff_decode_loop_sound:
  "huff_state q en \<Longrightarrow> huff_decode_loop q en src dst = (NGX_OK, q', en', dst') \<Longrightarrow>
     huff_state q' en' \<and> (\<exists>out. dst' = dst @ out \<and> node_bits q @ bits_of_bytes src = huff_bits out @ node_bits q')"
proof (induction q en src dst rule: huff_decode_loop.induct)
  case (2 q en ch src dst)
  from "2.prems"(2) obtain q1 e1 d1 q2 e2 d2 where
    h: "ngx_http_v2_huff_decode_bits q (unat (drop_bit 4 ch)) dst = Some (q1, e1, d1)"
    "ngx_http_v2_huff_decode_bits q1 (unat (ch AND 0xf)) d1 = Some (q2, e2, d2)"
    "huff_decode_loop q2 e2 src d2 = (NGX_OK, q', en', dst')"
    by (auto split: option.splits)
  from huff_decode_bits_sound [OF "2.prems"(1) unat_nibbles(1) h(1)] obtain o1 where o1: "huff_state q1 e1" "d1 = dst @ o1"
    "node_bits q @ code_bits (int (unat (drop_bit 4 ch))) 4 = huff_bits o1 @ node_bits q1" by blast
  from huff_decode_bits_sound [OF o1(1) unat_nibbles(2) h(2)] obtain o2 where o2: "huff_state q2 e2" "d2 = d1 @ o2"
    "node_bits q1 @ code_bits (int (unat (ch AND 0xf))) 4 = huff_bits o2 @ node_bits q2" by blast
  from "2.IH" [OF h(1) refl refl h(2) refl refl o2(1) h(3)] obtain o3 where o3: "huff_state q' en'" "dst' = d2 @ o3"
    "node_bits q2 @ bits_of_bytes src = huff_bits o3 @ node_bits q'" by blast
  have "node_bits q @ bits_of_bytes (ch # src) = huff_bits (o1 @ o2 @ o3) @ node_bits q'"
    using o1(3) o2(3) o3(3) by (simp add: byte_bits_nibbles) (metis append_assoc)
  with o1(2) o2(2) o3(1,2) show ?case by auto
qed auto

lemma huff_decode_loop_complete:
  "huff_state q en \<Longrightarrow> node_bits q @ bits_of_bytes src = huff_bits out @ replicate k True \<Longrightarrow> k < 30 \<Longrightarrow>
     \<exists>q' en'. huff_decode_loop q en src dst = (NGX_OK, q', en', dst @ out) \<and> huff_state q' en' \<and> node_bits q' = replicate k True"
proof (induction src arbitrary: q en out dst)
  case Nil
  have "out = []"
  proof (rule ccontr)
    assume "out \<noteq> []"
    then obtain c cs where "out = c # cs" by (cases out) auto
    with Nil(2) have "prefix (huff_sym_bits c) (node_bits q)" by (simp add: prefix_def)
    with node_no_code Nil(1) show False by (auto simp: huff_state_def)
  qed
  with Nil show ?case by simp
next
  case (Cons ch src)
  have "node_bits q @ code_bits (int (unat (drop_bit 4 ch))) 4 @ (code_bits (int (unat (ch AND 0xf))) 4 @ bits_of_bytes src)
      = huff_bits out @ replicate k True" using Cons.prems(2) by (simp add: byte_bits_nibbles)
  from huff_decode_bits_complete [OF Cons.prems(1) unat_nibbles(1) this Cons.prems(3)] obtain q1 e1 o1 r1 where
    s1: "ngx_http_v2_huff_decode_bits q (unat (drop_bit 4 ch)) dst = Some (q1, e1, dst @ o1)" "huff_state q1 e1" "out = o1 @ r1"
    "node_bits q1 @ code_bits (int (unat (ch AND 0xf))) 4 @ bits_of_bytes src = huff_bits r1 @ replicate k True" by blast
  from huff_decode_bits_complete [OF s1(2) unat_nibbles(2) s1(4) Cons.prems(3)] obtain q2 e2 o2 r2 where
    s2: "ngx_http_v2_huff_decode_bits q1 (unat (ch AND 0xf)) (dst @ o1) = Some (q2, e2, (dst @ o1) @ o2)" "huff_state q2 e2"
    "r1 = o2 @ r2" "node_bits q2 @ bits_of_bytes src = huff_bits r2 @ replicate k True" by blast
  from Cons.IH [OF s2(2,4) Cons.prems(3), of "(dst @ o1) @ o2"] s1(1,3) s2(1,3) show ?case by simp
qed

lemma huff_state_0: "huff_state 0 1" "node_bits 0 = []"
proof -
  show "node_bits 0 = []" by code_simp
  then show "huff_state 0 1" by (simp add: huff_state_def)
qed

lemma huff_decode_exact:
  "ngx_http_v2_huff_decode 0 src dst True = (NGX_OK, 0, dst @ out) \<longleftrightarrow>
     (\<exists>k<30. bits_of_bytes src = huff_bits out @ replicate k True)"
proof
  assume "ngx_http_v2_huff_decode 0 src dst True = (NGX_OK, 0, dst @ out)"
  then obtain q' en' where l: "huff_decode_loop 0 1 src dst = (NGX_OK, q', en', dst @ out)" "en' \<noteq> 0"
    by (auto simp: ngx_http_v2_huff_decode_def split: prod.splits if_splits)
  from huff_decode_loop_sound [OF huff_state_0(1) l(1)] have s: "huff_state q' en'"
    "bits_of_bytes src = huff_bits out @ node_bits q'" by (auto simp: huff_state_0)
  obtain nx emit sy en where e: "ngx_http_v2_huff_decode_codes ! nat q' ! 0 = (nx, emit, sy, en)" by (metis surj_pair)
  have "length (node_bits q') < 30" using huff_transition [OF _ _ _ e] s(1) by (simp add: huff_state_def)
  moreover have "node_bits q' = replicate (length (node_bits q')) True"
    using s(1) l(2) list_all_id by (simp add: huff_state_def)
  ultimately show "\<exists>k<30. bits_of_bytes src = huff_bits out @ replicate k True" using s(2) by metis
next
  assume "\<exists>k<30. bits_of_bytes src = huff_bits out @ replicate k True"
  then obtain k where "k < 30" "node_bits 0 @ bits_of_bytes src = huff_bits out @ replicate k True" by (auto simp: huff_state_0)
  from huff_decode_loop_complete [OF huff_state_0(1) this(2,1), of dst] show "ngx_http_v2_huff_decode 0 src dst True = (NGX_OK, 0, dst @ out)"
    by (auto simp: ngx_http_v2_huff_decode_def huff_state_def list_all_id)
qed

text \<open>
  C29: The Huffman decoder is exact. Started at the beginning of a string, it accepts a sequence of bytes
  with the output \<open>out\<close> exactly when the bits of the bytes are the codes of the symbols of \<open>out\<close>
  followed by fewer than 30 ones. (The format allows at most 7 ones.)
\<close>

theorem ngx_http_v2_huff_decode_exact:
  "ngx_http_v2_huff_decode 0 src dst True = (NGX_OK, 0, dst @ out) \<longleftrightarrow>
     (\<exists>k<30. bits_of_bytes src = huff_bits out @ replicate k True)"
  by (rule huff_decode_exact)

section \<open>The encoder encodes\<close>

text \<open>The bits of the accumulator, the highest first: the bits that are pending, then zeros.\<close>

definition word_bits :: "64 word \<Rightarrow> bool list" where
  "word_bits w = map (\<lambda>i. bit w (63 - i)) [0..<64]"

lemma length_word_bits [simp]: "length (word_bits w) = 64"
  by (simp add: word_bits_def)

lemma nth_word_bits [simp]: "i < 64 \<Longrightarrow> word_bits w ! i = bit w (63 - i)"
  by (simp add: word_bits_def)

lemma byte_bits_nth: "byte_bits b = map (\<lambda>i. bit b (7 - i)) [0..<8]"
  by (rule nth_equalityI) (auto simp: byte_bits_def nth_code_bits bit_uint_iff)

lemma encode_buf_bits: "bits_of_bytes (ngx_http_v2_huff_encode_buf w) = word_bits w"
  by (simp add: ngx_http_v2_huff_encode_buf_def byte_bits_nth word_bits_def upt_rec bit_simps)

lemma code_bit_less:
  assumes "0 \<le> (v :: int)" "v < 2 ^ l" "bit v n"
  shows "n < l"
proof -
  have "take_bit l v = v" using assms(1,2) by (simp add: take_bit_int_eq_self)
  with assms(3) show ?thesis by (metis bit_take_bit_iff)
qed

lemma bit_push_code:
  "k \<le> 64 \<Longrightarrow> i < 64 \<Longrightarrow> bit (push_bit (64 - k) (word_of_int v :: 64 word)) (63 - i) \<longleftrightarrow> i < k \<and> bit v (k - 1 - i)"
  by (cases "i < k") (auto simp: bit_simps)

lemma bit_drop_code:
  "m < 64 \<Longrightarrow> i < 64 \<Longrightarrow> bit (drop_bit m (word_of_int v :: 64 word)) (63 - i) \<longleftrightarrow> m \<le> i \<and> bit v (m + 63 - i)"
  by (cases "m \<le> i") (auto simp: bit_simps)

lemma word_bits_nth_pend:
  "word_bits buf = pend @ replicate (64 - length pend) False \<Longrightarrow> i < 64 \<Longrightarrow> bit buf (63 - i) \<longleftrightarrow> i < length pend \<and> pend ! i"
  by (drule arg_cong [where f = "\<lambda>xs. xs ! i"]) (auto simp: nth_append)

lemma encode_accumulate:
  assumes "word_bits buf = pend @ replicate (64 - length pend) False" "0 \<le> v" "v < 2 ^ l" "length pend + l \<le> 64"
  shows "word_bits (buf OR push_bit (64 - (length pend + l)) (word_of_int v)) =
    (pend @ code_bits v l) @ replicate (64 - length (pend @ code_bits v l)) False" (is "?l = ?r")
proof (rule nth_equalityI)
  fix i assume "i < length ?l"
  then have i: "i < 64" by simp
  have "?l ! i \<longleftrightarrow> i < length pend \<and> pend ! i \<or> i < length pend + l \<and> bit v (length pend + l - 1 - i)"
    using i by (simp add: bit_or_iff bit_push_code assms(4) word_bits_nth_pend [OF assms(1)])
  moreover have "\<not> bit v (length pend + l - 1 - i)" if "i < length pend"
    using code_bit_less [OF assms(2,3)] that by fastforce
  ultimately show "?l ! i = ?r ! i"
    using i by (cases "i < length pend"; cases "i < length pend + l") (auto simp: nth_append nth_code_bits add.commute)
qed (use assms in simp)

lemma encode_overflow:
  assumes "word_bits buf = pend @ replicate (64 - length pend) False" "0 \<le> v" "v < 2 ^ l"
    and "length pend < 64" "length pend + l = 64 + m" "m < 64" "l \<le> 64"
  shows "word_bits (buf OR drop_bit m (word_of_int v)) = pend @ take (l - m) (code_bits v l)" (is "?l = ?r")
    and "word_bits (if m \<noteq> 0 then push_bit (64 - m) (word_of_int v) else 0) =
      drop (l - m) (code_bits v l) @ replicate (64 - m) False" (is "?l' = ?r'")
proof -
  show "?l = ?r"
  proof (rule nth_equalityI)
    fix i assume "i < length ?l"
    then have i: "i < 64" by simp
    have "?l ! i \<longleftrightarrow> i < length pend \<and> pend ! i \<or> m \<le> i \<and> bit v (m + 63 - i)"
      using i by (simp add: bit_or_iff bit_drop_code assms(6) word_bits_nth_pend [OF assms(1)])
    moreover have "\<not> bit v (m + 63 - i)" if "i < length pend"
      using code_bit_less [OF assms(2,3)] that assms(5) by fastforce
    moreover have "bit v (m + 63 - i) \<longleftrightarrow> code_bits v l ! (i - length pend)" if "length pend \<le> i"
      using that i assms(5) nth_code_bits [of "i - length pend" l v] by (simp add: add.commute)
    moreover have "m \<le> i" if "length pend \<le> i" using that assms(5,7) by simp
    ultimately show "?l ! i = ?r ! i" using i assms(5)
      by (cases "i < length pend") (auto simp: nth_append)
  qed (use assms in simp)
  show "?l' = ?r'"
  proof (rule nth_equalityI)
    fix i assume "i < length ?l'"
    then have i: "i < 64" by simp
    have "?l' ! i \<longleftrightarrow> i < m \<and> bit v (m - 1 - i)"
      using i assms(6) by (cases "m = 0") (simp_all add: bit_push_code)
    moreover have "code_bits v l ! (l - m + i) \<longleftrightarrow> bit v (m - 1 - i)" if "i < m"
      using that assms(4,5) nth_code_bits [of "l - m + i" l v] by simp
    ultimately show "?l' ! i = ?r' ! i" using i assms(4,5) by (auto simp: nth_append)
  qed (use assms in simp)
qed

lemma encode_tail_bits:
  "8 * n \<le> 64 \<Longrightarrow> bits_of_bytes (huff_encode_tail w n) = map (\<lambda>i. bit w (8 * n - 1 - i)) [0..<8 * n]"
proof (induction n)
  case (Suc n)
  have "[0..<8 * Suc n] = [0..<8] @ map (\<lambda>i. i + 8) [0..<8 * n]"
    by (simp add: map_add_upt flip: upt_add_eq_append) (metis add.commute upt_add_eq_append zero_le)
  moreover have "byte_bits (ucast (drop_bit (8 * n) w)) = map (\<lambda>i. bit w (8 * Suc n - 1 - i)) [0..<8]"
    using Suc.prems by (auto simp: byte_bits_nth bit_simps add.commute)
  ultimately show ?case using Suc by simp
qed simp

text \<open>
  The loop of the encoder: what it has written, followed by what is pending, are the codes of what it has
  read. It is generic in the table; \<open>sym\<close> is the symbol whose code the table has.
\<close>

definition huff_table_for :: "ngx_http_v2_huff_encode_code_t list \<Rightarrow> (u_char \<Rightarrow> u_char) \<Rightarrow> bool" where
  "huff_table_for table f \<longleftrightarrow> (\<forall>c. table ! unat c = ngx_http_v2_huff_encode_table ! unat (f c))"

lemma huff_entry:
  assumes "huff_table_for table f"
  obtains v l where "table ! unat c = (v, l)" "huff_sym_bits (f c) = code_bits v l" "0 \<le> v" "v < 2 ^ l" "0 < l" "l \<le> 30"
proof -
  obtain v l where e: "table ! unat c = (v, l)" by (metis surj_pair)
  then have e': "ngx_http_v2_huff_encode_table ! unat (f c) = (v, l)" using assms by (simp add: huff_table_for_def)
  obtain v' l' where "huff_code (uint (f c)) = (v', int l')" "huff_canonical v' (int l')" using huff_sym [of "f c"] by blast
  with huff_table_code [OF e'] have can: "huff_canonical v (int l)" by simp
  show ?thesis
    using that [OF e] huff_table_code(2) [OF e'] huff_canonical_range [OF can] can by (simp add: huff_canonical_def)
qed

lemma huff_encode_loop_bits:
  assumes table: "huff_table_for table f"
  shows "word_bits buf = pend @ replicate (64 - length pend) False \<Longrightarrow> length pend < 64 \<Longrightarrow>
    (case huff_encode_loop table len buf (length pend) dst src of
       None \<Rightarrow> length (bits_of_bytes dst @ pend @ huff_bits (map f src)) \<ge> 8 * len
     | Some (buf', pending', dst') \<Rightarrow> (\<exists>pend'. pending' = length pend' \<and> length pend' < 64
         \<and> word_bits buf' = pend' @ replicate (64 - length pend') False
         \<and> bits_of_bytes dst' @ pend' = bits_of_bytes dst @ pend @ huff_bits (map f src)
         \<and> (length dst < len \<longrightarrow> length dst' < len)))"
proof (induction src arbitrary: buf pend dst)
  case Nil
  then show ?case by auto
next
  case (Cons c src)
  obtain v l where e: "table ! unat c = (v, l)" "huff_sym_bits (f c) = code_bits v l" "0 \<le> v" "v < 2 ^ l" "0 < l" "l \<le> 30"
    by (rule huff_entry [OF table])
  show ?case
  proof (cases "length pend + l < 64")
    case True
    define buf' where "buf' = buf OR push_bit (64 - (length pend + l)) (word_of_int v)"
    have "word_bits buf' = (pend @ code_bits v l) @ replicate (64 - length (pend @ code_bits v l)) False"
      unfolding buf'_def using encode_accumulate [OF Cons.prems(1) e(3,4)] True by simp
    from Cons.IH [OF this, of dst] True show ?thesis by (auto simp: e(1,2) Let_def buf'_def split: option.splits)
  next
    case False
    define m where "m = length pend + l - 64"
    have m: "length pend + l = 64 + m" "m < 64" "m \<le> l" "l \<le> 64" using False e(6) Cons.prems(2) by (simp_all add: m_def)
    note ov = encode_overflow [OF Cons.prems(1) e(3,4) Cons.prems(2) m(1,2,4)]
    show ?thesis
    proof (cases "length dst + 8 \<ge> len")
      case True
      have "length (bits_of_bytes dst) = 8 * length dst" by (induction dst) (simp_all add: byte_bits_def)
      with True m(1) have "8 * len \<le> length (bits_of_bytes dst @ pend @ huff_bits (map f (c # src)))" by (simp add: e(2))
      with True False show ?thesis by (simp add: e(1) Let_def)
    next
      case dst: False
      define buf1 where "buf1 = buf OR drop_bit m (word_of_int v)"
      define buf2 where "buf2 = (if m \<noteq> 0 then push_bit (64 - m) (word_of_int v) else (0 :: 64 word))"
      let ?rest = "drop (l - m) (code_bits v l)"
      have len: "length ?rest = m" using m(3) by simp
      have "word_bits buf2 = ?rest @ replicate (64 - length ?rest) False" using ov(2) by (simp only: buf2_def len)
      note IH = Cons.IH [OF this, unfolded len, OF m(2), of "dst @ ngx_http_v2_huff_encode_buf buf1"]
      have eq: "bits_of_bytes (dst @ ngx_http_v2_huff_encode_buf buf1) @ ?rest @ huff_bits (map f src)
          = bits_of_bytes dst @ pend @ huff_bits (map f (c # src))"
        using ov(1) by (simp add: encode_buf_bits buf1_def e(2) flip: append_assoc) (simp add: append_assoc)
      have step: "huff_encode_loop table len buf (length pend) dst (c # src) =
          huff_encode_loop table len buf2 m (dst @ ngx_http_v2_huff_encode_buf buf1) src"
        using False dst by (simp add: e(1) Let_def m_def buf1_def buf2_def)
      have "length (dst @ ngx_http_v2_huff_encode_buf buf1) < len" using dst by (simp add: ngx_http_v2_huff_encode_buf_def)
      with IH show ?thesis unfolding step eq by (auto split: option.splits)
    qed
  qed
qed

text \<open>\<^verbatim>\<open>ngx_tolower\<close> of \<^verbatim>\<open>core/ngx_string.h\<close>; the second table has the codes of the small letters for the capitals.\<close>

definition ngx_tolower :: "u_char \<Rightarrow> u_char" where
  "ngx_tolower c = (if c \<ge> ch_A \<and> c \<le> ch_Z then c OR 0x20 else c)"

lemma uint_tolower: "uint (ngx_tolower c) = (if 65 \<le> uint c \<and> uint c \<le> 90 then uint c + 32 else uint c)"
proof -
  have "\<forall>c :: u_char. uint (ngx_tolower c) = (if 65 \<le> uint c \<and> uint c \<le> 90 then uint c + 32 else uint c)"
    unfolding all_u_char by code_simp
  then show ?thesis by blast
qed

lemma huff_table_for_plain: "huff_table_for ngx_http_v2_huff_encode_table id"
  by (simp add: huff_table_for_def)

lemma huff_table_for_lc: "huff_table_for ngx_http_v2_huff_encode_table_lc ngx_tolower"
  unfolding huff_table_for_def
proof
  fix c :: u_char
  have c: "unat c < 256" using u_char_less_256 [of c] by simp
  have "[0..255] ! unat c = uint c" using nth_upto_0 [of "uint c" 255] uint_u_char [of c] by simp
  then have "(\<lambda>(v, l). (v, int l)) (ngx_http_v2_huff_encode_table_lc ! unat c) = huff_code (uint (ngx_tolower c))"
    using arg_cong [OF huff_code_table_lc, of "\<lambda>xs. xs ! unat c"] c length_encode_table by (simp add: uint_tolower)
  also have "\<dots> = (\<lambda>(v, l). (v, int l)) (ngx_http_v2_huff_encode_table ! unat (ngx_tolower c))"
    using huff_table_code(1) [of "ngx_tolower c"] by (cases "ngx_http_v2_huff_encode_table ! unat (ngx_tolower c)") simp
  finally show "ngx_http_v2_huff_encode_table_lc ! unat c = ngx_http_v2_huff_encode_table ! unat (ngx_tolower c)"
    by (auto split: prod.splits)
qed

lemma length_bits_of_bytes: "length (bits_of_bytes bs) = 8 * length bs"
  by (induction bs) (simp_all add: byte_bits_def)

lemma word_bits_pad:
  assumes "word_bits buf = pend @ replicate (64 - length pend) False" "length pend < 64"
  shows "word_bits (buf OR drop_bit (length pend) (- 1)) = pend @ replicate (64 - length pend) True"
proof (rule nth_equalityI)
  fix i assume "i < length (word_bits (buf OR drop_bit (length pend) (- 1)))"
  then have i: "i < 64" by simp
  show "word_bits (buf OR drop_bit (length pend) (- 1)) ! i = (pend @ replicate (64 - length pend) True) ! i"
    using i assms(2) by (auto simp: bit_simps nth_append word_bits_nth_pend [OF assms(1)])
qed (use assms in simp)

lemma encode_tail_word:
  assumes "8 * n \<le> 64"
  shows "bits_of_bytes (huff_encode_tail (drop_bit (64 - 8 * n) w) n) = take (8 * n) (word_bits w)"
  unfolding encode_tail_bits [OF assms]
  by (rule nth_equalityI) (use assms in \<open>auto simp: bit_simps\<close>)

text \<open>What the encoder returns: 0 when the encoding is not shorter, otherwise the padded string of codes.\<close>

lemma huff_encode_bits:
  fixes src lower
  defines "bits \<equiv> huff_bits (if lower then map ngx_tolower src else src)"
  defines "n \<equiv> (length bits + 7) div 8"
  shows "case ngx_http_v2_huff_encode src lower of (hlen, dst) \<Rightarrow>
    hlen = length dst \<and> (if length src \<le> n then hlen = 0
      else hlen = n \<and> bits_of_bytes dst = bits @ replicate (8 * n - length bits) True)"
proof -
  define table where "table = (if lower then ngx_http_v2_huff_encode_table_lc else ngx_http_v2_huff_encode_table)"
  define f where "f = (if lower then ngx_tolower else id)"
  have table: "huff_table_for table f" by (simp add: table_def f_def huff_table_for_plain huff_table_for_lc)
  have bits: "bits = huff_bits (map f src)" by (simp add: bits_def f_def)
  have z: "word_bits 0 = [] @ replicate (64 - length ([] :: bool list)) False" by (simp add: word_bits_def map_replicate_trivial)
  show ?thesis
  proof (cases "huff_encode_loop table (length src) 0 0 [] src")
    case None
    with huff_encode_loop_bits [OF table z, of "length src" "[]" src] have "8 * length src \<le> length bits" by (simp add: bits)
    then have "length src \<le> n" by (simp add: n_def)
    with None show ?thesis by (simp add: ngx_http_v2_huff_encode_def table_def [symmetric])
  next
    case (Some r)
    obtain buf pending dst where r: "r = (buf, pending, dst)" by (metis prod_cases3)
    with huff_encode_loop_bits [OF table z, of "length src" "[]" src] Some obtain pend where
      p: "pending = length pend" "length pend < 64" "word_bits buf = pend @ replicate (64 - length pend) False"
      "bits_of_bytes dst @ pend = bits" "src \<noteq> [] \<longrightarrow> length dst < length src" by (auto simp: bits)
    have lb: "length bits = 8 * length dst + length pend" using p(4) length_bits_of_bytes [of dst] by (metis length_append)
    show ?thesis
    proof (cases "pend = []")
      case True
      with p lb Some r show ?thesis
        by (cases "src = []") (auto simp: ngx_http_v2_huff_encode_def table_def [symmetric] n_def)
    next
      case False
      define k where "k = (length pend + 7) div 8"
      have n: "n = length dst + k" by (simp add: n_def lb k_def)
      have k: "8 * k \<le> 64" "length pend \<le> 8 * k" "(length pend + 7) div 8 * 8 = 8 * k" using p(2) by (simp_all add: k_def)
      define w where "w = buf OR drop_bit (length pend) (- 1)"
      have wb: "word_bits w = pend @ replicate (64 - length pend) True" unfolding w_def by (rule word_bits_pad [OF p(3,2)])
      have t: "bits_of_bytes (huff_encode_tail (drop_bit (64 - 8 * k) w) k) = pend @ replicate (8 * k - length pend) True"
        using encode_tail_word [OF k(1), of w] k(1,2) by (simp add: wb min_def)
      then have "length (huff_encode_tail (drop_bit (64 - 8 * k) w) k) = k"
        using length_bits_of_bytes [of "huff_encode_tail (drop_bit (64 - 8 * k) w) k"] k(2) by simp
      moreover have "ngx_http_v2_huff_encode src lower =
          (if length src \<le> length dst + k then (0, [])
           else (length (dst @ huff_encode_tail (drop_bit (64 - 8 * k) w) k), dst @ huff_encode_tail (drop_bit (64 - 8 * k) w) k))"
        using Some False by (simp add: ngx_http_v2_huff_encode_def table_def [symmetric] r p(1) k(3) w_def Let_def)
      ultimately show ?thesis using n k t lb p(4) by auto
    qed
  qed
qed

lemma huff_encode_decode:
  assumes "ngx_http_v2_huff_encode src lower = (hlen, dst)"
  shows "(hlen = 0 \<longleftrightarrow> length src \<le> (length (huff_bits (if lower then map ngx_tolower src else src)) + 7) div 8)
    \<and> (hlen \<noteq> 0 \<longrightarrow> hlen = length dst \<and> hlen < length src
        \<and> ngx_http_v2_huff_decode 0 dst [] True = (NGX_OK, 0, if lower then map ngx_tolower src else src))"
proof -
  define out where "out = (if lower then map ngx_tolower src else src)"
  define n where "n = (length (huff_bits out) + 7) div 8"
  have e: "hlen = length dst" "if length src \<le> n then hlen = 0
      else hlen = n \<and> bits_of_bytes dst = huff_bits out @ replicate (8 * n - length (huff_bits out)) True"
    using huff_encode_bits [of src lower] unfolding assms out_def [symmetric] n_def [symmetric] prod.case by blast+
  have z: "length src \<le> n" if "n = 0"
  proof (cases src)
    case (Cons c cs)
    obtain v l where "huff_sym_bits (if lower then ngx_tolower c else c) = code_bits v l" "0 < l"
      using huff_entry [OF huff_table_for_plain, of "if lower then ngx_tolower c else c"] by (metis id_apply)
    then have "length (huff_bits out) > 0" using Cons by (cases lower) (auto simp: out_def)
    then obtain m where "length (huff_bits out) = Suc m" by (cases "length (huff_bits out)") auto
    with that show ?thesis by (simp add: n_def)
  qed simp
  have "8 * n - length (huff_bits out) < 30" by (simp add: n_def)
  then have "ngx_http_v2_huff_decode 0 dst [] True = (NGX_OK, 0, [] @ out)"
    if "bits_of_bytes dst = huff_bits out @ replicate (8 * n - length (huff_bits out)) True"
    using that huff_decode_exact [of dst "[]" out] by blast
  with e z show ?thesis unfolding out_def [symmetric] n_def [symmetric] by (cases "length src \<le> n") auto
qed

text \<open>
  C28: What the encoder produces, the decoder reads back: whenever the encoder returns a length other than 0,
  it is the length of the output, less than that of the input, and the decoder gives back the
  input, in lower case when that was asked for. It returns 0 exactly when the
  codes take no fewer bytes than the input has.
\<close>

theorem ngx_http_v2_huff_roundtrip:
  assumes "ngx_http_v2_huff_encode src lower = (hlen, dst)"
  shows "(hlen = 0 \<longleftrightarrow> length src \<le> (length (huff_bits (if lower then map ngx_tolower src else src)) + 7) div 8)
    \<and> (hlen \<noteq> 0 \<longrightarrow> hlen = length dst \<and> hlen < length src
        \<and> ngx_http_v2_huff_decode 0 dst [] True = (NGX_OK, 0, if lower then map ngx_tolower src else src))"
  by (rule huff_encode_decode [OF assms])

theorem ngx_http_v2_huff_roundtrip_witness:
  "\<exists>dst. ngx_http_v2_huff_encode (bytes ''Www.Example.com'') True = (12, dst) \<and>
     ngx_http_v2_huff_decode 0 dst [] True = (NGX_OK, 0, bytes ''www.example.com'')"
proof -
  let ?e = "ngx_http_v2_huff_encode (bytes ''Www.Example.com'') True"
  have "fst ?e = 12" "map ngx_tolower (bytes ''Www.Example.com'') = bytes ''www.example.com''" by code_simp+
  moreover from this(1) obtain dst where "?e = (12, dst)" by (metis prod.collapse)
  ultimately show ?thesis using ngx_http_v2_huff_roundtrip [of "bytes ''Www.Example.com''" True 12 dst] by auto
qed

text \<open>The decoder takes a padding that the format forbids: a whole byte of ones.\<close>

lemma huff_long_padding: "ngx_http_v2_huff_decode 0 [0xff] [] True = (NGX_OK, 0, [])"
  by code_simp

end
