(* ===== verification/Ngx_Http_V2_Hpack.thy ===== *)
theory Ngx_Http_V2_Hpack
  imports Ngx_Http_V2_Huff
begin

text \<open>
  The primitive types of HPACK: integers (\<^verbatim>\<open>ngx_http_v2_write_int\<close> of \<^verbatim>\<open>http/v2/ngx_http_v2_filter_module.c\<close>
  and \<^verbatim>\<open>ngx_http_v2_parse_int\<close> of \<^verbatim>\<open>http/v2/ngx_http_v2.c\<close>) and strings (\<^verbatim>\<open>ngx_http_v2_string_encode\<close>
  and the handlers \<^verbatim>\<open>ngx_http_v2_state_field_len\<close>, \<^verbatim>\<open>_huff\<close> and \<^verbatim>\<open>_raw\<close>), which arrive in pieces.
\<close>

section \<open>Integers\<close>

abbreviation (input) NGX_HTTP_V2_INT_OCTETS :: nat where "NGX_HTTP_V2_INT_OCTETS \<equiv> 4"

fun write_int_loop :: "nat \<Rightarrow> u_char list" where
  "write_int_loop value =
     (if value \<ge> 128 then word_of_nat (value mod 128 + 128) # write_int_loop (value div 128)
      else [word_of_nat value])"

declare write_int_loop.simps [simp del]

text \<open>\<open>first\<close> is the byte at \<^verbatim>\<open>pos\<close>, into which the prefix is merged.\<close>

definition ngx_http_v2_write_int :: "u_char \<Rightarrow> nat \<Rightarrow> nat \<Rightarrow> u_char list" where
  "ngx_http_v2_write_int first pfx value =
     (if value < pfx then [first OR word_of_nat value]
      else (first OR word_of_nat pfx) # write_int_loop (value - pfx))"

text \<open>
  The loop of the reader from \<open>p\<close> up to \<open>e\<close>; \<open>None\<close> is the end of the loop without an octet below 128.
\<close>

function parse_int_loop :: "u_char list \<Rightarrow> nat \<Rightarrow> nat \<Rightarrow> nat \<Rightarrow> nat \<Rightarrow> (nat \<times> nat) option" where
  "parse_int_loop b p e shift v =
     (if p < e then
        (let octet = unat (b ! p); v = v + push_bit shift (octet AND 0x7f) in
         if octet < 128 then Some (v, p + 1) else parse_int_loop b (p + 1) e (shift + 7) v)
      else None)"
  by pat_completeness auto
termination
  by (relation "measure (\<lambda>(b, p, e, shift, v). e - p)") auto

declare parse_int_loop.simps [simp del]

text \<open>
  The reader, with the bytes of the buffer up to \<^verbatim>\<open>end\<close>, \<^verbatim>\<open>*pos\<close>, the prefix and \<^verbatim>\<open>h2c->state.length\<close>; the result is the value
  or the code, the new \<^verbatim>\<open>*pos\<close> and the new length. There is at least one byte at \<^verbatim>\<open>*pos\<close>.
\<close>

definition ngx_http_v2_parse_int :: "u_char list \<Rightarrow> nat \<Rightarrow> nat \<Rightarrow> nat \<Rightarrow> int \<times> nat \<times> nat" where
  "ngx_http_v2_parse_int b start pfx len =
     (let v = unat (b ! start) AND pfx in
      if v \<noteq> pfx then (if len = 0 then (NGX_ERROR, start, len) else (int v, start + 1, len - 1))
      else
        let e = (if length b - start > NGX_HTTP_V2_INT_OCTETS then start + NGX_HTTP_V2_INT_OCTETS else length b) in
        case parse_int_loop b (start + 1) e 0 v of
          Some (v, p) \<Rightarrow> if p - start > len then (NGX_ERROR, start, len) else (int v, p, len - (p - start))
        | None \<Rightarrow>
            if e - start \<ge> len then (NGX_ERROR, start, len)
            else if e = start + NGX_HTTP_V2_INT_OCTETS then (NGX_DECLINED, start, len)
            else (NGX_AGAIN, start, len))"

lemma unat_word_of_nat_byte: "n < 256 \<Longrightarrow> unat (word_of_nat n :: u_char) = n"
  by (simp add: unat_of_nat)

lemma and_7f: "n AND 0x7f = n mod 128" for n :: nat
proof -
  have "n AND 0x7f = take_bit 7 n" by (simp add: take_bit_eq_mask mask_numeral)
  then show ?thesis by (simp add: take_bit_eq_mod)
qed

lemma write_int_loop_length: "v < 128 ^ Suc k \<Longrightarrow> length (write_int_loop v) \<le> Suc k"
proof (induction k arbitrary: v)
  case 0
  then show ?case by (subst write_int_loop.simps) simp
next
  case (Suc k)
  then show ?case
    using Suc.IH [of "v div 128"] by (subst write_int_loop.simps) (simp add: div_less_iff_less_mult mult.commute)
qed

text \<open>Reading what was written, with anything behind it.\<close>

lemma parse_int_loop_write:
  "drop p b = write_int_loop v @ rest \<Longrightarrow> p \<le> length b \<Longrightarrow> p + length (write_int_loop v) \<le> e \<Longrightarrow>
     parse_int_loop b p e shift w = Some (w + v * 2 ^ shift, p + length (write_int_loop v))"
proof (induction v arbitrary: p shift w rule: write_int_loop.induct)
  case (1 v)
  show ?case
  proof (cases "v \<ge> 128")
    case False
    then have l: "write_int_loop v = [word_of_nat v]" by (subst write_int_loop.simps) simp
    then have "drop p b = word_of_nat v # rest" using 1(2) by simp
    then have "b ! p = word_of_nat v" by (rule nth_via_drop)
    with False l 1(4) show ?thesis
      by (subst parse_int_loop.simps) (simp add: unat_word_of_nat_byte and_7f push_bit_eq_mult Let_def)
  next
    case True
    define x where "x = (word_of_nat (v mod 128 + 128) :: u_char)"
    have l: "write_int_loop v = x # write_int_loop (v div 128)" using True by (subst write_int_loop.simps) (simp add: x_def)
    have d0: "drop p b = x # (write_int_loop (v div 128) @ rest)" using 1(2) l by simp
    have bp: "b ! p = x" by (rule nth_via_drop [OF d0])
    have o: "unat x = v mod 128 + 128" unfolding x_def by (rule unat_word_of_nat_byte) simp
    have d: "drop (Suc p) b = write_int_loop (v div 128) @ rest" and p: "p < length b" using drop_Suc_Cons [OF d0] by simp_all
    have e: "Suc p + length (write_int_loop (v div 128)) \<le> e" using 1(4) l by simp
    have "parse_int_loop b (p + 1) e (shift + 7) (w + v mod 128 * 2 ^ shift) =
        Some (w + v mod 128 * 2 ^ shift + v div 128 * 2 ^ (shift + 7), p + 1 + length (write_int_loop (v div 128)))"
      using 1(1) [OF True, of "p + 1"] d p e by simp
    moreover have "w + v mod 128 * 2 ^ shift + v div 128 * 2 ^ (shift + 7) = w + v * 2 ^ shift"
    proof -
      have "m * 2 ^ shift + d * 2 ^ (shift + 7) = (m + d * 128) * 2 ^ shift" for m d :: nat by (simp add: power_add algebra_simps)
      from this [of "v mod 128" "v div 128"] show ?thesis by simp
    qed
    ultimately show ?thesis using e l
      by (subst parse_int_loop.simps) (simp add: bp o and_7f push_bit_eq_mult Let_def)
  qed
qed

lemma prefix_bits:
  assumes "k \<le> 7" "take_bit k first = 0" "v \<le> 2 ^ k - 1"
  shows "unat (first OR word_of_nat v :: u_char) AND (2 ^ k - 1) = v"
proof -
  have v: "v < 2 ^ k" using assms(3) by (metis Suc_diff_1 le_imp_less_Suc zero_less_numeral zero_less_power)
  moreover have "(2 :: nat) ^ k \<le> 2 ^ 7" using assms(1) by (rule power_increasing) simp
  ultimately have u: "unat (word_of_nat v :: u_char) = v" by (intro unat_word_of_nat_byte) simp
  have "unat (first OR word_of_nat v) AND (2 ^ k - 1) = take_bit k (unat (first OR word_of_nat v))"
    by (simp add: take_bit_eq_mask mask_eq_exp_minus_1)
  also have "\<dots> = unat (take_bit k (first OR word_of_nat v))" by (simp only: unsigned_take_bit_eq)
  also have "\<dots> = unat (take_bit k (word_of_nat v :: u_char))" using assms(2) by simp
  also have "\<dots> = take_bit k v" using u by (simp add: unsigned_take_bit_eq)
  also have "\<dots> = v" using v by (simp add: take_bit_nat_eq_self)
  finally show ?thesis .
qed

lemma write_int_length:
  assumes "v < 2 ^ k - 1 + 2 ^ 21"
  shows "1 \<le> length (ngx_http_v2_write_int first (2 ^ k - 1) v)" "length (ngx_http_v2_write_int first (2 ^ k - 1) v) \<le> 4"
proof -
  have "length (write_int_loop (v - (2 ^ k - 1))) \<le> Suc 2" using assms by (intro write_int_loop_length) simp
  then show "length (ngx_http_v2_write_int first (2 ^ k - 1) v) \<le> 4" by (simp add: ngx_http_v2_write_int_def)
qed (simp add: ngx_http_v2_write_int_def)

lemma parse_write_int:
  assumes "k \<le> 7" "take_bit k first = 0" "v < 2 ^ k - 1 + 2 ^ 21"
    and "drop start b = ngx_http_v2_write_int first (2 ^ k - 1) v @ rest"
    and "length (ngx_http_v2_write_int first (2 ^ k - 1) v) \<le> len"
  shows "ngx_http_v2_parse_int b start (2 ^ k - 1) len =
    (int v, start + length (ngx_http_v2_write_int first (2 ^ k - 1) v), len - length (ngx_http_v2_write_int first (2 ^ k - 1) v))"
proof (cases "v < 2 ^ k - 1")
  case True
  then have w: "ngx_http_v2_write_int first (2 ^ k - 1) v = [first OR word_of_nat v]" by (simp add: ngx_http_v2_write_int_def)
  then have "b ! start = first OR word_of_nat v" using assms(4) by (metis append_Cons nth_via_drop)
  with True w assms(5) prefix_bits [OF assms(1,2), of v] show ?thesis by (simp add: ngx_http_v2_parse_int_def)
next
  case False
  define ws where "ws = write_int_loop (v - (2 ^ k - 1))"
  have w: "ngx_http_v2_write_int first (2 ^ k - 1) v = (first OR word_of_nat (2 ^ k - 1)) # ws"
    using False by (simp add: ngx_http_v2_write_int_def ws_def)
  have d0: "drop start b = (first OR word_of_nat (2 ^ k - 1)) # (ws @ rest)" using assms(4) w by simp
  note d = drop_Suc_Cons [OF d0]
  have pb: "unat (b ! start) AND (2 ^ k - 1) = 2 ^ k - 1" using d prefix_bits [OF assms(1,2), of "2 ^ k - 1"] by simp
  define e where "e = (if length b - start > 4 then start + 4 else length b)"
  have "length ws \<le> 3" using write_int_length(2) [OF assms(3), of first] w by simp
  moreover have "start + 1 + length ws \<le> length b" using d by (metis add.commute add_diff_cancel_right' append_eq_conv_conj
        le_add_diff_inverse2 length_append length_drop less_eq_Suc_le nat_add_left_cancel_le le_add1 plus_1_eq_Suc)
  ultimately have "start + 1 + length ws \<le> e" by (simp add: e_def)
  then have "parse_int_loop b (start + 1) e 0 (2 ^ k - 1) = Some (2 ^ k - 1 + (v - (2 ^ k - 1)), start + 1 + length ws)"
    using parse_int_loop_write [of "start + 1" b "v - (2 ^ k - 1)" rest e 0 "2 ^ k - 1"] d by (simp add: ws_def)
  then show ?thesis using False w assms(5) pb by (simp add: ngx_http_v2_parse_int_def e_def Let_def)
qed

text \<open>
  An integer that was written with a prefix of up to 7 bits, into a byte whose low bits are clear, is read back, wherever it
  stands in the buffer and whatever follows; the position and the rest of the header block move
  behind it. Values below \<^verbatim>\<open>2^k - 1 + 2^21\<close> take at most the four octets that the reader allows.
\<close>

lemma ngx_http_v2_int_roundtrip:
  assumes "k \<le> 7" "take_bit k first = 0" "v < 2 ^ k - 1 + 2 ^ 21"
    and "length (ngx_http_v2_write_int first (2 ^ k - 1) v) \<le> len"
  shows "length (ngx_http_v2_write_int first (2 ^ k - 1) v) \<le> NGX_HTTP_V2_INT_OCTETS
    \<and> ngx_http_v2_parse_int (pre @ ngx_http_v2_write_int first (2 ^ k - 1) v @ rest) (length pre) (2 ^ k - 1) len =
      (int v, length pre + length (ngx_http_v2_write_int first (2 ^ k - 1) v),
       len - length (ngx_http_v2_write_int first (2 ^ k - 1) v))"
  using write_int_length(2) [OF assms(3)] parse_write_int [OF assms(1-3) _ assms(4), of "length pre"] by simp

lemma example_int_roundtrip:
  "ngx_http_v2_parse_int ([1, 2] @ [0x1f, 0x9a, 0x0a] @ [3]) 2 31 100 = (1337, 5, 97)"
proof -
  have "ngx_http_v2_write_int 0 (2 ^ 5 - 1) 1337 = [0x1f, 0x9a, 0x0a]" by code_simp
  with ngx_http_v2_int_roundtrip [of 5 0 1337 100 "[1, 2]" "[3]"] show ?thesis
    by (simp add: Suc_eq_plus1 del: One_nat_def)
qed

section \<open>Strings\<close>

definition ngx_http_v2_string_encode :: "u_char list \<Rightarrow> bool \<Rightarrow> u_char list" where
  "ngx_http_v2_string_encode src lower =
     (case ngx_http_v2_huff_encode src lower of (hlen, tmp) \<Rightarrow>
        if hlen > 0 then ngx_http_v2_write_int 0x80 127 hlen @ take hlen tmp
        else ngx_http_v2_write_int 0 127 (length src) @ (if lower then map ngx_tolower src else src))"

text \<open>
  The part of \<^verbatim>\<open>h2c->state\<close> that the handlers of a string use: the bytes left in the frame, the bytes left of
  the string, the state of the Huffman decoder, what has been written from \<^verbatim>\<open>field_start\<close> on and how
  many bytes were allocated there.
\<close>

record h2_field =
  fl_length :: nat
  fl_rest :: nat
  fl_state :: int
  fl_field :: "u_char list"
  fl_alloc :: nat

datatype h2_handler = H2_field_len | H2_field_huff | H2_field_raw | H2_field_skip

text \<open>
  How a handler ends: in \<^verbatim>\<open>ngx_http_v2_state_process_header\<close>, waiting for bytes, waiting for a continuation frame, or with
  an error of the connection.
\<close>

datatype h2_outcome = H2_process | H2_save h2_handler | H2_continuation h2_handler | H2_error nat

abbreviation (input) NGX_HTTP_V2_SIZE_ERROR :: nat where "NGX_HTTP_V2_SIZE_ERROR \<equiv> 6"
abbreviation (input) NGX_HTTP_V2_COMP_ERROR :: nat where "NGX_HTTP_V2_COMP_ERROR \<equiv> 9"
abbreviation (input) NGX_HTTP_V2_ENHANCE_YOUR_CALM :: nat where "NGX_HTTP_V2_ENHANCE_YOUR_CALM \<equiv> 11"

definition fl_size :: "h2_field \<Rightarrow> u_char list \<Rightarrow> nat \<Rightarrow> nat" where
  "fl_size s b pos = min (min (length b - pos) (fl_rest s)) (fl_length s)"

text \<open>The end that the three handlers share.\<close>

definition fl_finish :: "bool \<Rightarrow> h2_handler \<Rightarrow> h2_field \<Rightarrow> nat \<Rightarrow> h2_outcome \<times> h2_field \<times> nat" where
  "fl_finish end_headers handler s pos =
     (if fl_rest s = 0 then (H2_process, s, pos)
      else if fl_length s \<noteq> 0 then (H2_save handler, s, pos)
      else if end_headers then (H2_error NGX_HTTP_V2_SIZE_ERROR, s, pos)
      else (H2_continuation handler, s, pos))"

definition ngx_http_v2_state_field_huff ::
  "bool \<Rightarrow> h2_field \<Rightarrow> u_char list \<Rightarrow> nat \<Rightarrow> h2_outcome \<times> h2_field \<times> nat"
where
  "ngx_http_v2_state_field_huff end_headers s b pos =
     (let n = fl_size s b pos; s = s\<lparr>fl_length := fl_length s - n, fl_rest := fl_rest s - n\<rparr> in
      case ngx_http_v2_huff_decode (fl_state s) (take n (drop pos b)) (fl_field s) (fl_rest s = 0) of (rc, state, field) \<Rightarrow>
        let s = s\<lparr>fl_state := state, fl_field := field\<rparr> in
        if rc \<noteq> NGX_OK then (H2_error NGX_HTTP_V2_COMP_ERROR, s, pos)
        else fl_finish end_headers H2_field_huff s (pos + n))"

definition ngx_http_v2_state_field_raw ::
  "bool \<Rightarrow> h2_field \<Rightarrow> u_char list \<Rightarrow> nat \<Rightarrow> h2_outcome \<times> h2_field \<times> nat"
where
  "ngx_http_v2_state_field_raw end_headers s b pos =
     (let n = fl_size s b pos;
          s = s\<lparr>fl_length := fl_length s - n, fl_rest := fl_rest s - n, fl_field := fl_field s @ take n (drop pos b)\<rparr>
      in fl_finish end_headers H2_field_raw s (pos + n))"

definition ngx_http_v2_state_field_skip ::
  "bool \<Rightarrow> h2_field \<Rightarrow> u_char list \<Rightarrow> nat \<Rightarrow> h2_outcome \<times> h2_field \<times> nat"
where
  "ngx_http_v2_state_field_skip end_headers s b pos =
     (let n = fl_size s b pos; s = s\<lparr>fl_length := fl_length s - n, fl_rest := fl_rest s - n\<rparr>
      in fl_finish end_headers H2_field_skip s (pos + n))"

text \<open>
  \<open>keep\<close> says whether the header is wanted (there is a stream, or it goes into the table), \<open>max_field\<close> is
  \<^verbatim>\<open>http2_max_field_size\<close>.
\<close>

definition ngx_http_v2_state_field_len ::
  "bool \<Rightarrow> bool \<Rightarrow> int \<Rightarrow> h2_field \<Rightarrow> u_char list \<Rightarrow> nat \<Rightarrow> h2_outcome \<times> h2_field \<times> nat"
where
  "ngx_http_v2_state_field_len end_headers keep max_field s b pos =
     (if \<not> end_headers \<and> fl_length s < NGX_HTTP_V2_INT_OCTETS then (H2_continuation H2_field_len, s, pos)
      else if fl_length s < 1 then (H2_error NGX_HTTP_V2_SIZE_ERROR, s, pos)
      else if length b - pos < 1 then (H2_save H2_field_len, s, pos)
      else
        let huff = drop_bit 7 (b ! pos) in
        case ngx_http_v2_parse_int b pos 127 (fl_length s) of (len, pos', length') \<Rightarrow>
          if len < 0 then
            (if len = NGX_AGAIN then (H2_save H2_field_len, s, pos)
             else if len = NGX_DECLINED then (H2_error NGX_HTTP_V2_COMP_ERROR, s, pos)
             else (H2_error NGX_HTTP_V2_SIZE_ERROR, s, pos))
          else if len > max_field then (H2_error NGX_HTTP_V2_ENHANCE_YOUR_CALM, s\<lparr>fl_length := length'\<rparr>, pos')
          else
            let s = s\<lparr>fl_length := length', fl_rest := nat len\<rparr> in
            if \<not> keep then ngx_http_v2_state_field_skip end_headers s b pos'
            else
              let s = s\<lparr>fl_alloc := (if huff \<noteq> 0 then nat len * 8 div 5 else nat len) + 1, fl_field := []\<rparr> in
              if huff \<noteq> 0 then ngx_http_v2_state_field_huff end_headers s b pos'
              else ngx_http_v2_state_field_raw end_headers s b pos')"

fun h2_handle ::
  "bool \<Rightarrow> bool \<Rightarrow> int \<Rightarrow> h2_handler \<Rightarrow> h2_field \<Rightarrow> u_char list \<Rightarrow> nat \<Rightarrow> h2_outcome \<times> h2_field \<times> nat"
where
  "h2_handle end_headers keep max_field H2_field_len s b pos = ngx_http_v2_state_field_len end_headers keep max_field s b pos"
| "h2_handle end_headers keep max_field H2_field_huff s b pos = ngx_http_v2_state_field_huff end_headers s b pos"
| "h2_handle end_headers keep max_field H2_field_raw s b pos = ngx_http_v2_state_field_raw end_headers s b pos"
| "h2_handle end_headers keep max_field H2_field_skip s b pos = ngx_http_v2_state_field_skip end_headers s b pos"

text \<open>
  The bytes of the connection arrive in pieces: \<^verbatim>\<open>ngx_http_v2_state_save\<close> keeps what a handler has left, and the
  handler that it names goes on with these bytes and the next piece.
\<close>

fun h2_field_run ::
  "bool \<Rightarrow> bool \<Rightarrow> int \<Rightarrow> h2_handler \<Rightarrow> h2_field \<Rightarrow> u_char list \<Rightarrow> u_char list list
     \<Rightarrow> h2_outcome \<times> h2_field \<times> u_char list"
where
  "h2_field_run end_headers keep max_field handler s saved [] = (H2_save handler, s, saved)"
| "h2_field_run end_headers keep max_field handler s saved (f # fs) =
     (case h2_handle end_headers keep max_field handler s (saved @ f) 0 of (res, s', pos) \<Rightarrow>
        case res of
          H2_save handler' \<Rightarrow> h2_field_run end_headers keep max_field handler' s' (drop pos (saved @ f)) fs
        | _ \<Rightarrow> (res, s', drop pos (saved @ f) @ concat fs))"

section \<open>A string arrives as it was sent\<close>

lemma huff_decode_loop_append:
  "huff_decode_loop q en (xs @ ys) dst =
     (case huff_decode_loop q en xs dst of (rc, q', en', dst') \<Rightarrow>
        if rc = NGX_OK then huff_decode_loop q' en' ys dst' else (rc, q', en', dst'))"
  by (induction q en xs dst rule: huff_decode_loop.induct) (auto split: option.split)

lemma huff_decode_loop_ending: "ys \<noteq> [] \<Longrightarrow> huff_decode_loop q en ys dst = (NGX_OK, r) \<Longrightarrow> huff_decode_loop q en' ys dst = (NGX_OK, r)"
  by (cases ys) (auto split: option.splits)

text \<open>A string that is decoded as a whole is decoded in two parts, if the last one is not empty.\<close>

lemma huff_decode_split:
  assumes "ngx_http_v2_huff_decode q (xs @ ys) dst True = (NGX_OK, 0, out)" "ys \<noteq> []"
  shows "\<exists>q' dst'. ngx_http_v2_huff_decode q xs dst False = (NGX_OK, q', dst') \<and> ngx_http_v2_huff_decode q' ys dst' True = (NGX_OK, 0, out)"
proof -
  obtain q1 en1 d1 where l1: "huff_decode_loop q 1 xs dst = (NGX_OK, q1, en1, d1)"
    and l: "\<exists>q2 en2. huff_decode_loop q1 en1 ys d1 = (NGX_OK, q2, en2, out) \<and> en2 \<noteq> 0"
    using assms(1) by (auto simp: ngx_http_v2_huff_decode_def huff_decode_loop_append split: prod.splits if_splits)
  from l obtain q2 en2 where l2: "huff_decode_loop q1 1 ys d1 = (NGX_OK, q2, en2, out)" "en2 \<noteq> 0"
    using huff_decode_loop_ending [OF assms(2)] by blast
  show ?thesis using l1 l2 by (intro exI [of _ q1] exI [of _ d1]) (simp add: ngx_http_v2_huff_decode_def)
qed

text \<open>What the handlers of the body need to finish with the string \<open>out\<close>: the bytes \<open>r\<close> are still to come.\<close>

fun fl_pending :: "h2_handler \<Rightarrow> h2_field \<Rightarrow> u_char list \<Rightarrow> u_char list \<Rightarrow> bool" where
  "fl_pending H2_field_huff s r out \<longleftrightarrow> r \<noteq> [] \<and> ngx_http_v2_huff_decode (fl_state s) r (fl_field s) True = (NGX_OK, 0, out)"
| "fl_pending H2_field_raw s r out \<longleftrightarrow> fl_state s = 0 \<and> fl_field s @ r = out"
| "fl_pending _ s r out \<longleftrightarrow> False"

definition fl_ready :: "h2_handler \<Rightarrow> h2_field \<Rightarrow> u_char list \<Rightarrow> u_char list \<Rightarrow> bool" where
  "fl_ready h s r out \<longleftrightarrow> fl_pending h s r out \<and> fl_rest s = length r \<and> length r \<le> fl_length s"

lemma fl_body_all:
  assumes "fl_ready h s r out" "drop pos b = r @ zs"
  shows "\<exists>s'. h2_handle eh keep mx h s b pos = (H2_process, s', pos + length r) \<and> fl_field s' = out \<and> fl_state s' = 0
    \<and> fl_length s' = fl_length s - length r \<and> fl_alloc s' = fl_alloc s"
proof -
  have "length b - pos = length r + length zs" using arg_cong [OF assms(2), of length] by simp
  then have n: "fl_size s b pos = length r" using assms(1) by (simp add: fl_size_def fl_ready_def)
  have t: "take (length r) (drop pos b) = r" using assms(2) by simp
  show ?thesis
    using assms(1) n t by (cases h)
      (auto simp: fl_ready_def ngx_http_v2_state_field_huff_def ngx_http_v2_state_field_raw_def fl_finish_def Let_def)
qed

lemma fl_body_part:
  assumes "fl_ready h s (drop pos b @ r') out" "r' \<noteq> []" "pos \<le> length b"
  shows "\<exists>s'. h2_handle eh keep mx h s b pos = (H2_save h, s', length b) \<and> fl_ready h s' r' out
    \<and> fl_length s' = fl_length s - (length b - pos) \<and> fl_alloc s' = fl_alloc s"
proof -
  define m where "m = length b - pos"
  have n: "fl_size s b pos = m" "take m (drop pos b) = drop pos b" using assms by (simp_all add: fl_size_def fl_ready_def min_def m_def)
  have "length r' > 0" using assms(2) by simp
  then have l: "fl_rest s - m = length r'" "fl_length s - m \<ge> length r'" "pos + m = length b" "length r' > 0" "m < fl_length s"
    using assms(1,3) unfolding fl_ready_def m_def length_append length_drop by linarith+
  consider "h = H2_field_huff" | "h = H2_field_raw" using assms(1) by (cases h) (simp_all add: fl_ready_def)
  then show ?thesis
  proof cases
    case 1
    then have "ngx_http_v2_huff_decode (fl_state s) (drop pos b @ r') (fl_field s) True = (NGX_OK, 0, out)"
      using assms(1) by (simp add: fl_ready_def)
    from huff_decode_split [OF this assms(2)] obtain q' dst' where
      "ngx_http_v2_huff_decode (fl_state s) (drop pos b) (fl_field s) False = (NGX_OK, q', dst')"
      "ngx_http_v2_huff_decode q' r' dst' True = (NGX_OK, 0, out)" by blast
    with 1 n l show ?thesis unfolding m_def [symmetric]
      by (auto simp: ngx_http_v2_state_field_huff_def fl_finish_def Let_def fl_ready_def simp del: diff_is_0_eq diff_is_0_eq')
  next
    case 2
    then have "fl_state s = 0" "fl_field s @ drop pos b @ r' = out" using assms(1) by (simp_all add: fl_ready_def)
    with 2 n l show ?thesis unfolding m_def [symmetric]
      by (auto simp: ngx_http_v2_state_field_raw_def fl_finish_def Let_def fl_ready_def simp del: diff_is_0_eq diff_is_0_eq')
  qed
qed

lemma append_split_cases:
  assumes "xs @ ys = us @ vs"
  obtains (all) ws where "xs = us @ ws" "vs = ws @ ys" | (part) ws where "us = xs @ ws" "ws \<noteq> []" "ys = ws @ vs"
proof -
  from assms consider ws where "xs = us @ ws" "vs = ws @ ys" | ws where "us = xs @ ws" "ys = ws @ vs"
    by (auto simp: append_eq_append_conv2)
  then show ?thesis
  proof cases
    case (2 ws)
    then show ?thesis by (cases "ws = []") (auto intro: all part)
  qed (rule all)
qed

lemma fl_body_run:
  "fl_ready h s r out \<Longrightarrow> r \<noteq> [] \<Longrightarrow> concat fs = r @ tail \<Longrightarrow>
     \<exists>s'. h2_field_run eh keep mx h s [] fs = (H2_process, s', tail) \<and> fl_field s' = out \<and> fl_state s' = 0
       \<and> fl_length s' = fl_length s - length r \<and> fl_alloc s' = fl_alloc s"
proof (induction fs arbitrary: s r)
  case (Cons f fs)
  have "f @ concat fs = r @ tail" using Cons.prems(3) by simp
  then show ?case
  proof (cases rule: append_split_cases)
    case (all ws)
    from fl_body_all [OF Cons.prems(1), of 0 f ws eh keep mx] all(1) obtain s' where
      "h2_handle eh keep mx h s f 0 = (H2_process, s', length r)" "fl_field s' = out" "fl_state s' = 0"
      "fl_length s' = fl_length s - length r" "fl_alloc s' = fl_alloc s" by auto
    with all show ?thesis by simp
  next
    case (part ws)
    have "fl_ready h s (drop 0 f @ ws) out" using Cons.prems(1) part(1) by simp
    from fl_body_part [OF this part(2), of eh keep mx] obtain s1 where
      s1: "h2_handle eh keep mx h s f 0 = (H2_save h, s1, length f)" "fl_ready h s1 ws out"
      "fl_length s1 = fl_length s - length f" "fl_alloc s1 = fl_alloc s" by auto
    from Cons.IH [OF s1(2) part(2,3)] s1 part(1) show ?thesis by auto
  qed
qed simp

text \<open>The length in front of the string: a part of it does not say anything yet.\<close>

lemma parse_int_loop_part:
  "write_int_loop v = drop p b @ ws \<Longrightarrow> ws \<noteq> [] \<Longrightarrow> p \<le> length b \<Longrightarrow> parse_int_loop b p (length b) shift w = None"
proof (induction v arbitrary: p shift w rule: write_int_loop.induct)
  case (1 v)
  show ?case
  proof (cases "p < length b")
    case False
    then show ?thesis by (subst parse_int_loop.simps) simp
  next
    case p: True
    have len: "length (write_int_loop v) > 1" using 1(2,3) p by (cases ws) simp_all
    have v: "v \<ge> 128"
    proof (rule ccontr)
      assume "\<not> v \<ge> 128"
      then have "write_int_loop v = [word_of_nat v]" by (subst write_int_loop.simps) simp
      with len show False by simp
    qed
    define x where "x = (word_of_nat (v mod 128 + 128) :: u_char)"
    have l: "write_int_loop v = x # write_int_loop (v div 128)" using v by (subst write_int_loop.simps) (simp add: x_def)
    have o: "unat x = v mod 128 + 128" unfolding x_def by (rule unat_word_of_nat_byte) simp
    have "drop p b = b ! p # drop (Suc p) b" using p by (rule Cons_nth_drop_Suc [symmetric])
    then have d: "b ! p = x" "write_int_loop (v div 128) = drop (Suc p) b @ ws" using 1(2) l by simp_all
    have "parse_int_loop b (Suc p) (length b) (shift + 7) w' = None" for w'
      using 1(1) [OF v, of "Suc p"] d(2) 1(3) p by simp
    then show ?thesis using p by (subst parse_int_loop.simps) (simp add: d(1) o Let_def)
  qed
qed

lemma drop_bit_7: "drop_bit 7 c \<noteq> 0 \<longleftrightarrow> c \<ge> 0x80" for c :: u_char
proof -
  have "\<forall>c :: u_char. drop_bit 7 c \<noteq> 0 \<longleftrightarrow> c \<ge> 0x80" unfolding all_u_char by code_simp
  then show ?thesis by blast
qed

text \<open>The first octet of the length keeps the flag.\<close>

lemma write_int_flag:
  assumes "flag \<in> {0, 0x80 :: u_char}" "ngx_http_v2_write_int flag 127 v = x # xs"
  shows "drop_bit 7 x \<noteq> 0 \<longleftrightarrow> flag = 0x80"
proof -
  define w where "w = min v 127"
  have w: "x = flag OR word_of_nat w" "w \<le> 127"
    using assms(2) by (auto simp: ngx_http_v2_write_int_def w_def min_def split: if_splits)
  have "drop_bit 7 (word_of_nat w :: u_char) = 0" using drop_bit_7 [of "word_of_nat w"] w(2)
    by (simp add: word_le_nat_alt unat_of_nat)
  then have "drop_bit 7 x = drop_bit 7 flag" by (simp add: w(1))
  with assms(1) show ?thesis by (auto simp: drop_bit_eq_div)
qed

lemma parse_part_int:
  assumes "v < 127 + 2 ^ 21" "ngx_http_v2_write_int flag 127 v = b @ ws" "ws \<noteq> []" "b \<noteq> []" "flag \<in> {0, 0x80}"
    and "length (ngx_http_v2_write_int flag 127 v) \<le> len"
  shows "ngx_http_v2_parse_int b 0 127 len = (NGX_AGAIN, 0, len)"
proof -
  have "\<not> v < 127" using assms(2-4) by (cases b; cases ws) (auto simp: ngx_http_v2_write_int_def)
  then have w: "(flag OR word_of_nat 127) # write_int_loop (v - 127) = b @ ws" using assms(2) by (simp add: ngx_http_v2_write_int_def)
  then obtain b' where b: "b = (flag OR word_of_nat 127) # b'" "write_int_loop (v - 127) = b' @ ws" using assms(4) by (cases b) auto
  have "take_bit 7 flag = 0" using assms(5) by (auto simp: take_bit_eq_mod)
  then have f: "unat (b ! 0) AND 127 = 127" using prefix_bits [of 7 flag 127] b(1) by simp
  have "length b < length (ngx_http_v2_write_int flag 127 v)" using assms(2,3) by simp
  then have l: "length b < 4" "length b < len" using write_int_length(2) [of v 7 flag] assms(1,6) by simp_all
  have "parse_int_loop b 1 (length b) 0 127 = None" using b by (intro parse_int_loop_part [of "v - 127"]) (use assms(3) in simp_all)
  then show ?thesis using f l by (simp add: ngx_http_v2_parse_int_def Let_def)
qed

definition string_body :: "u_char list \<Rightarrow> bool \<Rightarrow> u_char \<times> u_char list" where
  "string_body src lower =
     (case ngx_http_v2_huff_encode src lower of (hlen, tmp) \<Rightarrow>
        if hlen > 0 then (0x80, take hlen tmp) else (0, if lower then map ngx_tolower src else src))"

lemma string_encode_body:
  assumes "string_body src lower = (flag, body)"
  shows "ngx_http_v2_string_encode src lower = ngx_http_v2_write_int flag 127 (length body) @ body"
    and "flag \<in> {0, 0x80}" and "length body \<le> length src"
    and "flag = 0x80 \<Longrightarrow> body \<noteq> [] \<and> ngx_http_v2_huff_decode 0 body [] True = (NGX_OK, 0, if lower then map ngx_tolower src else src)"
    and "flag = 0 \<Longrightarrow> body = (if lower then map ngx_tolower src else src)"
proof -
  obtain hlen dst where e: "ngx_http_v2_huff_encode src lower = (hlen, dst)" by (metis surj_pair)
  note r = huff_encode_decode [OF e]
  show "ngx_http_v2_string_encode src lower = ngx_http_v2_write_int flag 127 (length body) @ body"
    using assms r e by (auto simp: string_body_def ngx_http_v2_string_encode_def split: if_splits)
  show "flag \<in> {0, 0x80}" "length body \<le> length src" using assms r e by (auto simp: string_body_def split: if_splits)
  show "body \<noteq> [] \<and> ngx_http_v2_huff_decode 0 body [] True = (NGX_OK, 0, if lower then map ngx_tolower src else src)" if "flag = 0x80"
    using assms r e that by (auto simp: string_body_def split: if_splits)
  show "body = (if lower then map ngx_tolower src else src)" if "flag = 0" using assms r e that by (auto simp: string_body_def split: if_splits)
qed

text \<open>The handler of the length, with a part of the length, and with the whole of it.\<close>

lemma fl_len_part:
  assumes "v < 127 + 2 ^ 21" "ngx_http_v2_write_int flag 127 v = b @ ws" "ws \<noteq> []" "flag \<in> {0, 0x80}"
    and "length (ngx_http_v2_write_int flag 127 v) \<le> fl_length s" "eh \<or> 4 \<le> fl_length s"
  shows "ngx_http_v2_state_field_len eh keep mx s b 0 = (H2_save H2_field_len, s, 0)"
proof (cases "b = []")
  case True
  then show ?thesis using assms(5,6) write_int_length(1) [of v 7 flag] assms(1) by (auto simp: ngx_http_v2_state_field_len_def)
next
  case False
  from parse_part_int [OF assms(1-3) False assms(4,5)] assms(5,6) False write_int_length(1) [of v 7 flag] assms(1)
  show ?thesis by (auto simp: ngx_http_v2_state_field_len_def Let_def)
qed

lemma fl_len_all:
  assumes "length body < 127 + 2 ^ 21" "flag \<in> {0, 0x80}" "int (length body) \<le> mx"
    and "drop 0 b = ngx_http_v2_write_int flag 127 (length body) @ zs"
    and "length (ngx_http_v2_write_int flag 127 (length body)) \<le> fl_length s" "eh \<or> 4 \<le> fl_length s"
  defines "n \<equiv> length (ngx_http_v2_write_int flag 127 (length body))"
  shows "ngx_http_v2_state_field_len eh True mx s b 0 =
    h2_handle eh True mx (if flag = 0x80 then H2_field_huff else H2_field_raw)
      (s\<lparr>fl_length := fl_length s - n, fl_rest := length body,
         fl_alloc := (if flag = 0x80 then length body * 8 div 5 else length body) + 1, fl_field := []\<rparr>) b n"
proof -
  have "take_bit 7 flag = 0" using assms(2) by (auto simp: take_bit_eq_mod)
  then have p: "ngx_http_v2_parse_int b 0 127 (fl_length s) = (int (length body), n, fl_length s - n)"
    using parse_write_int [of 7 flag "length body" 0 b zs "fl_length s"] assms(1,4,5) by (simp add: n_def)
  obtain x xs where x: "ngx_http_v2_write_int flag 127 (length body) = x # xs"
    using write_int_length(1) [of "length body" 7 flag] assms(1) by (cases "ngx_http_v2_write_int flag 127 (length body)") auto
  then have b: "b ! 0 = x" "b \<noteq> []" using assms(4) by auto
  have "1 \<le> fl_length s" using assms(5) x by simp
  then show ?thesis using p b write_int_flag [OF assms(2) x] assms(3,6)
    by (auto simp: ngx_http_v2_state_field_len_def Let_def)
qed

lemma fl_string_run:
  assumes body: "string_body src lower = (flag, body)" and small: "length body < 127 + 2 ^ 21" "int (length body) \<le> mx"
  defines "w \<equiv> ngx_http_v2_write_int flag 127 (length body)"
  shows "saved @ concat fs = w @ body @ tail \<Longrightarrow> saved = [] \<or> length saved < length w \<Longrightarrow> concat fs \<noteq> [] \<Longrightarrow>
    length w + length body \<le> fl_length s \<Longrightarrow> eh \<or> 4 \<le> fl_length s \<Longrightarrow> fl_state s = 0 \<Longrightarrow>
    \<exists>s'. h2_field_run eh True mx H2_field_len s saved fs = (H2_process, s', tail)
      \<and> fl_field s' = (if lower then map ngx_tolower src else src) \<and> fl_state s' = 0
      \<and> fl_length s' = fl_length s - (length w + length body)
      \<and> fl_alloc s' = (if flag = 0x80 then length body * 8 div 5 else length body) + 1"
proof (induction fs arbitrary: saved)
  case (Cons f fs)
  note sb = string_encode_body [OF body]
  have w1: "length w \<ge> 1" using write_int_length(1) [of "length body" 7 flag] small(1) by (simp add: w_def)
  have "(saved @ f) @ concat fs = w @ (body @ tail)" using Cons.prems(1) by simp
  then show ?case
  proof (cases rule: append_split_cases)
    case (part ws)
    have "ngx_http_v2_state_field_len eh True mx s (saved @ f) 0 = (H2_save H2_field_len, s, 0)"
      using fl_len_part [OF small(1), of flag "saved @ f" ws s eh] part(1,2) sb(2) Cons.prems(4,5) by (simp add: w_def)
    moreover have "concat fs \<noteq> []" using part by auto
    moreover have "length (saved @ f) < length w" using part(1,2) by simp
    ultimately show ?thesis using Cons.IH [of "saved @ f"] Cons.prems(4-6) part by auto
  next
    case (all zs)
    define s1 where "s1 = s\<lparr>fl_length := fl_length s - length w, fl_rest := length body,
         fl_alloc := (if flag = 0x80 then length body * 8 div 5 else length body) + 1, fl_field := []\<rparr>"
    define h where "h = (if flag = 0x80 then H2_field_huff else H2_field_raw)"
    have len: "ngx_http_v2_state_field_len eh True mx s (saved @ f) 0 = h2_handle eh True mx h s1 (saved @ f) (length w)"
      using fl_len_all [OF small(1) sb(2) small(2), of "saved @ f" zs s eh] all(1) Cons.prems(4,5) by (simp add: w_def s1_def h_def)
    have ready: "fl_ready h s1 body (if lower then map ngx_tolower src else src)"
      using sb(2,4,5) Cons.prems(4,6) by (auto simp: fl_ready_def h_def s1_def)
    have d: "drop (length w) (saved @ f) = zs" using all(1) by simp
    have "zs @ concat fs = body @ tail" using all(2) by simp
    then show ?thesis
    proof (cases rule: append_split_cases)
      case (all ws)
      have "drop (length w) (saved @ f) = body @ ws" using d all(1) by simp
      from fl_body_all [OF ready this, of eh True mx] obtain s' where
        "h2_handle eh True mx h s1 (saved @ f) (length w) = (H2_process, s', length w + length body)"
        "fl_field s' = (if lower then map ngx_tolower src else src)" "fl_state s' = 0"
        "fl_length s' = fl_length s1 - length body" "fl_alloc s' = fl_alloc s1" by blast
      moreover have "drop (length w + length body) (saved @ f) = ws" using d all(1) by (metis add.commute append_eq_conv_conj drop_drop)
      ultimately show ?thesis using len all(2) by (simp add: s1_def)
    next
      case (part ws)
      have "fl_ready h s1 (drop (length w) (saved @ f) @ ws) (if lower then map ngx_tolower src else src)" using ready part(1) d by simp
      moreover have "length w \<le> length (saved @ f)" using \<open>saved @ f = w @ zs\<close> by simp
      ultimately obtain s2 where s2: "h2_handle eh True mx h s1 (saved @ f) (length w) = (H2_save h, s2, length (saved @ f))"
        "fl_ready h s2 ws (if lower then map ngx_tolower src else src)"
        "fl_length s2 = fl_length s1 - (length (saved @ f) - length w)" "fl_alloc s2 = fl_alloc s1"
        using fl_body_part [OF _ part(2), of h s1 "length w" "saved @ f" _ eh True mx] by blast
      from fl_body_run [OF s2(2) part(2,3), of eh True mx] obtain s' where
        "h2_field_run eh True mx h s2 [] fs = (H2_process, s', tail)" "fl_field s' = (if lower then map ngx_tolower src else src)"
        "fl_state s' = 0" "fl_length s' = fl_length s2 - length ws" "fl_alloc s' = fl_alloc s2" by blast
      moreover have "length (saved @ f) - length w = length zs" using \<open>saved @ f = w @ zs\<close> by simp
      ultimately show ?thesis using len s2(1,3,4) part(1) by (simp add: s1_def)
    qed
  qed
qed simp

text \<open>Every code has at least five bits, so the decoded string fits in eight fifths of the bytes.\<close>

lemma huff_sym_bits_length: "5 \<le> length (huff_sym_bits c)"
proof -
  obtain v l where c: "huff_sym_bits c = code_bits v l" "huff_canonical v (int l)" using huff_sym [of c] by blast
  have "\<not> l < 5"
  proof
    assume "l < 5"
    then have "l = 0 \<or> l = 1 \<or> l = 2 \<or> l = 3 \<or> l = 4" by linarith
    then have "huff_lims ! l = 0" by (auto simp: huff_lims_def)
    with c(2) huff_canonical_range [OF c(2)] show False by (simp add: huff_canonical_def)
  qed
  with c(1) show ?thesis by simp
qed

lemma huff_bits_length: "5 * length cs \<le> length (huff_bits cs)"
proof (induction cs)
  case (Cons c cs)
  then show ?case using huff_sym_bits_length [of c] by simp
qed simp

lemma huff_decode_bits_grow:
  assumes "huff_state q en" "n < 16" "ngx_http_v2_huff_decode_bits q n dst = Some (q', en', dst')"
  shows "5 * length dst' + length (node_bits q') \<le> 5 * length dst + length (node_bits q) + 4"
proof -
  from huff_decode_bits_sound [OF assms] obtain out where o: "dst' = dst @ out" "node_bits q @ code_bits (int n) 4 = huff_bits out @ node_bits q'"
    by blast
  from arg_cong [OF o(2), of length] huff_bits_length [of out] show ?thesis by (simp add: o(1))
qed

lemma huff_decode_loop_grow:
  "huff_state q en \<Longrightarrow> huff_decode_loop q en src dst = (rc, q', en', dst') \<Longrightarrow>
     huff_state q' en' \<and> 5 * length dst' + length (node_bits q') \<le> 5 * length dst + length (node_bits q) + 8 * length src"
proof (induction q en src dst rule: huff_decode_loop.induct)
  case (2 q en ch src dst)
  show ?case
  proof (cases "ngx_http_v2_huff_decode_bits q (unat (drop_bit 4 ch)) dst")
    case None
    with 2 show ?thesis by simp
  next
    case (Some r1)
    obtain q1 e1 d1 where r1: "r1 = (q1, e1, d1)" by (metis prod_cases3)
    note h1 = Some [unfolded r1]
    note s1 = conjunct1 [OF huff_decode_bits_sound [OF "2.prems"(1) unat_nibbles(1) h1]] and g1 = huff_decode_bits_grow [OF "2.prems"(1) unat_nibbles(1) h1]
    show ?thesis
    proof (cases "ngx_http_v2_huff_decode_bits q1 (unat (ch AND 0xf)) d1")
      case None
      with 2(3) h1 s1 g1 show ?thesis by auto
    next
      case (Some r2)
      obtain q2 e2 d2 where r2: "r2 = (q2, e2, d2)" by (metis prod_cases3)
      note h2 = Some [unfolded r2]
      note s2 = conjunct1 [OF huff_decode_bits_sound [OF s1 unat_nibbles(2) h2]] and g2 = huff_decode_bits_grow [OF s1 unat_nibbles(2) h2]
      from 2(3) h1 h2 have "huff_decode_loop q2 e2 src d2 = (rc, q', en', dst')" by simp
      from "2.IH" [OF h1 refl refl h2 refl refl s2 this] g1 g2 show ?thesis by simp
    qed
  qed
qed simp

lemma huff_decode_grow:
  assumes "0 \<le> q" "q < 256" "ngx_http_v2_huff_decode q src dst is_last = (rc, q', dst')"
  shows "0 \<le> q' \<and> q' < 256 \<and> 5 * length dst' + length (node_bits q') \<le> 5 * length dst + length (node_bits q) + 8 * length src"
proof -
  have *: "huff_decode_loop q en src dst = (r, p, en', d) \<Longrightarrow> 0 \<le> p \<and> p < 256 \<and>
      5 * length d + length (node_bits p) \<le> 5 * length dst + length (node_bits q) + 8 * length src"
    if "en \<noteq> 0 \<longleftrightarrow> list_all id (node_bits q)" for en r p en' d
    using huff_decode_loop_grow [of q en src dst r p en' d] that assms(1,2) by (simp add: huff_state_def)
  obtain r p en' d where l: "huff_decode_loop q 1 src dst = (r, p, en', d)" by (metis prod_cases4)
  define en where "en = (if list_all id (node_bits q) then 1 else 0 :: int)"
  obtain r2 p2 en2 d2 where l2: "huff_decode_loop q en src dst = (r2, p2, en2, d2)" by (metis prod_cases4)
  have "p2 = p \<and> d2 = d" using l l2 by (cases src) (auto split: option.splits)
  with * [OF _ l2] have g: "0 \<le> p \<and> p < 256 \<and> 5 * length d + length (node_bits p) \<le> 5 * length dst + length (node_bits q) + 8 * length src"
    by (simp add: en_def)
  then show ?thesis using assms(3) l by (auto simp: ngx_http_v2_huff_decode_def huff_state_0 split: if_splits)
qed

text \<open>What holds of the output buffer in each handler; \<open>s0\<close> is the state before the string.\<close>

fun fl_fits :: "h2_field \<Rightarrow> h2_handler \<Rightarrow> h2_field \<Rightarrow> bool" where
  "fl_fits s0 H2_field_len s \<longleftrightarrow> fl_state s = 0 \<and> fl_field s = fl_field s0 \<and> fl_alloc s = fl_alloc s0"
| "fl_fits s0 H2_field_skip s \<longleftrightarrow> fl_field s = fl_field s0 \<and> fl_alloc s = fl_alloc s0"
| "fl_fits s0 H2_field_raw s \<longleftrightarrow> fl_alloc s = length (fl_field s) + fl_rest s + 1"
| "fl_fits s0 H2_field_huff s \<longleftrightarrow> 0 \<le> fl_state s \<and> fl_state s < 256 \<and> (\<exists>len. fl_alloc s = len * 8 div 5 + 1
     \<and> 5 * length (fl_field s) + length (node_bits (fl_state s)) + 8 * fl_rest s \<le> 8 * len)"

definition fl_inside :: "h2_field \<Rightarrow> h2_field \<Rightarrow> bool" where
  "fl_inside s0 s \<longleftrightarrow> fl_field s = fl_field s0 \<and> fl_alloc s = fl_alloc s0 \<or> length (fl_field s) < fl_alloc s"

definition fl_result_ok :: "h2_field \<Rightarrow> h2_outcome \<Rightarrow> h2_field \<Rightarrow> bool" where
  "fl_result_ok s0 res s \<longleftrightarrow> fl_inside s0 s \<and> (case res of H2_save h \<Rightarrow> fl_fits s0 h s | _ \<Rightarrow> True)"

lemma fl_fits_inside: "fl_fits s0 h s \<Longrightarrow> fl_inside s0 s"
proof (cases h)
  case H2_field_huff
  moreover assume "fl_fits s0 h s"
  ultimately obtain len where "fl_alloc s = len * 8 div 5 + 1" "5 * length (fl_field s) \<le> 8 * len" by auto
  then show ?thesis by (simp add: fl_inside_def) linarith
qed (auto simp: fl_inside_def)

lemma fl_finish_ok:
  assumes "fl_fits s0 h s" "fl_finish eh h s pos = (res, s', pos')"
  shows "fl_result_ok s0 res s'"
  using assms fl_fits_inside [OF assms(1)] by (auto simp: fl_finish_def fl_result_ok_def split: if_splits)

lemma fl_huff_ok:
  assumes "fl_fits s0 H2_field_huff s" "ngx_http_v2_state_field_huff eh s b pos = (res, s', pos')"
  shows "fl_result_ok s0 res s'"
proof -
  define n where "n = fl_size s b pos"
  have n: "n \<le> fl_rest s" "length (take n (drop pos b)) = n" by (auto simp: n_def fl_size_def)
  obtain rc st field where d: "ngx_http_v2_huff_decode (fl_state s) (take n (drop pos b)) (fl_field s) (fl_rest s - n = 0) = (rc, st, field)"
    by (metis prod_cases3)
  have f: "0 \<le> fl_state s" "fl_state s < 256" using assms(1) by simp_all
  from assms(1) obtain len where len: "fl_alloc s = len * 8 div 5 + 1"
    "5 * length (fl_field s) + length (node_bits (fl_state s)) + 8 * fl_rest s \<le> 8 * len" by auto
  define s1 where "s1 = s\<lparr>fl_length := fl_length s - n, fl_rest := fl_rest s - n, fl_state := st, fl_field := field\<rparr>"
  have fits: "fl_fits s0 H2_field_huff s1"
    using huff_decode_grow [OF f d] n len by (auto simp: s1_def intro!: exI [of _ len])
  have eq: "(res, s', pos') = (if rc \<noteq> NGX_OK then (H2_error NGX_HTTP_V2_COMP_ERROR, s1, pos) else fl_finish eh H2_field_huff s1 (pos + n))"
    using assms(2) d by (auto simp: ngx_http_v2_state_field_huff_def n_def [symmetric] Let_def s1_def)
  show ?thesis
  proof (cases "rc = NGX_OK")
    case True
    then have "fl_finish eh H2_field_huff s1 (pos + n) = (res, s', pos')" using eq by simp
    then show ?thesis by (rule fl_finish_ok [OF fits])
  next
    case False
    with eq fl_fits_inside [OF fits] show ?thesis by (simp add: fl_result_ok_def)
  qed
qed

lemma fl_raw_ok:
  assumes "fl_fits s0 H2_field_raw s" "ngx_http_v2_state_field_raw eh s b pos = (res, s', pos')"
  shows "fl_result_ok s0 res s'"
proof -
  define n where "n = fl_size s b pos"
  have n: "n \<le> fl_rest s" "length (take n (drop pos b)) = n" by (auto simp: n_def fl_size_def)
  define s1 where "s1 = s\<lparr>fl_length := fl_length s - n, fl_rest := fl_rest s - n, fl_field := fl_field s @ take n (drop pos b)\<rparr>"
  have "fl_fits s0 H2_field_raw s1" using assms(1) n by (simp add: s1_def)
  moreover have "fl_finish eh H2_field_raw s1 (pos + n) = (res, s', pos')"
    using assms(2) by (simp add: ngx_http_v2_state_field_raw_def n_def [symmetric] Let_def s1_def)
  ultimately show ?thesis by (rule fl_finish_ok)
qed

lemma fl_skip_ok:
  assumes "fl_fits s0 H2_field_skip s" "ngx_http_v2_state_field_skip eh s b pos = (res, s', pos')"
  shows "fl_result_ok s0 res s'"
  by (rule fl_finish_ok [OF _ assms(2) [unfolded ngx_http_v2_state_field_skip_def Let_def]]) (use assms(1) in simp)

lemma fl_handle_ok:
  assumes "fl_fits s0 h s" "h2_handle eh keep mx h s b pos = (res, s', pos')"
  shows "fl_result_ok s0 res s'"
proof (cases h)
  case H2_field_len
  then have f: "fl_state s = 0" "fl_field s = fl_field s0" "fl_alloc s = fl_alloc s0" using assms(1) by simp_all
  obtain len pos1 l1 where p: "ngx_http_v2_parse_int b pos 127 (fl_length s) = (len, pos1, l1)" by (metis prod_cases3)
  have e: "ngx_http_v2_state_field_len eh keep mx s b pos = (res, s', pos')" using assms(2) H2_field_len by simp
  have skip: "fl_fits s0 H2_field_skip (s\<lparr>fl_length := l1, fl_rest := nat len\<rparr>)" using f by simp
  have huff: "fl_fits s0 H2_field_huff (s\<lparr>fl_length := l1, fl_rest := nat len, fl_alloc := nat len * 8 div 5 + 1, fl_field := []\<rparr>)"
    using f huff_state_0 by (auto intro!: exI [of _ "nat len"])
  have raw: "fl_fits s0 H2_field_raw (s\<lparr>fl_length := l1, fl_rest := nat len, fl_alloc := nat len + 1, fl_field := []\<rparr>)" by simp
  from e f show ?thesis
    by (auto simp: ngx_http_v2_state_field_len_def p Let_def fl_result_ok_def fl_inside_def split: if_splits
        dest!: fl_skip_ok [OF skip] fl_huff_ok [OF huff, simplified] fl_raw_ok [OF raw, simplified])
qed (use assms fl_huff_ok fl_raw_ok fl_skip_ok in auto)

lemma fl_run_ok:
  "fl_fits s0 h s \<Longrightarrow> h2_field_run eh keep mx h s saved fs = (res, s', rest) \<Longrightarrow> fl_inside s0 s'"
proof (induction fs arbitrary: h s saved)
  case Nil
  then show ?case using fl_fits_inside by auto
next
  case (Cons f fs)
  obtain r s1 pos where h: "h2_handle eh keep mx h s (saved @ f) 0 = (r, s1, pos)" by (metis prod_cases3)
  note ok = fl_handle_ok [OF Cons.prems(1) h]
  show ?case
  proof (cases r)
    case (H2_save h')
    then have "fl_fits s0 h' s1" using ok by (simp add: fl_result_ok_def)
    from Cons.IH [OF this] Cons.prems(2) h H2_save show ?thesis by simp
  qed (use ok Cons.prems(2) h in \<open>auto simp: fl_result_ok_def\<close>)
qed

text \<open>
  C30: The buffer of a string is never overrun. Whatever bytes arrive, in whatever pieces, and however the reading of the
  string ends, also with an error, either nothing has been written or the string is shorter than
  what \<^verbatim>\<open>ngx_http_v2_state_field_len\<close> allocated, so that the final NUL fits.
\<close>

theorem ngx_http_v2_field_fits:
  assumes "fl_state s = 0" "h2_field_run end_headers keep max_field H2_field_len s [] fs = (res, s', rest)"
  shows "fl_field s' = fl_field s \<and> fl_alloc s' = fl_alloc s \<or> length (fl_field s') < fl_alloc s'"
  using fl_run_ok [OF _ assms(2), of s] assms(1) by (simp add: fl_inside_def)

theorem ngx_http_v2_field_fits_witness:
  "\<exists>s'. h2_field_run True True 4096 H2_field_len \<lparr>fl_length = 9, fl_rest = 0, fl_state = 0, fl_field = [], fl_alloc = 0\<rparr> []
       [[0x83], [0xf1], [0xe3, 0xff, 1]] = (H2_process, s', [1]) \<and> length (fl_field s') < fl_alloc s'"
proof -
  let ?s = "\<lparr>fl_length = 9, fl_rest = 0, fl_state = 0, fl_field = [], fl_alloc = 0\<rparr>"
  let ?r = "h2_field_run True True 4096 H2_field_len ?s [] [[0x83], [0xf1], [0xe3, 0xff, 1]]"
  have "fst ?r = H2_process" "snd (snd ?r) = [1]" "fl_alloc (fst (snd ?r)) \<noteq> 0" by code_simp+
  then obtain s' where r: "?r = (H2_process, s', [1])" "fl_alloc s' \<noteq> 0" by (metis prod.collapse)
  from ngx_http_v2_field_fits [OF _ r(1)] r show ?thesis by auto
qed

text \<open>
  C31: A string that was encoded, with or without the Huffman code, arrives as it was sent, in lower case when that was asked for. The
  encoding may be cut into any pieces and anything may follow it; the handlers then stop at its end, have taken its length
  from the rest of the frame and have written less than was allocated.
\<close>

theorem ngx_http_v2_string_roundtrip:
  assumes "length src < 127 + 2 ^ 21" "int (length src) \<le> max_field" "fl_state s = 0"
    and "concat fs = ngx_http_v2_string_encode src lower @ tail"
    and "length (ngx_http_v2_string_encode src lower) \<le> fl_length s" "end_headers \<or> 4 \<le> fl_length s"
  shows "\<exists>s'. h2_field_run end_headers True max_field H2_field_len s [] fs = (H2_process, s', tail)
    \<and> fl_field s' = (if lower then map ngx_tolower src else src) \<and> fl_state s' = 0
    \<and> fl_length s' = fl_length s - length (ngx_http_v2_string_encode src lower)
    \<and> length (fl_field s') < fl_alloc s'"
proof -
  obtain flag body where body: "string_body src lower = (flag, body)" by (metis surj_pair)
  note sb = string_encode_body [OF body]
  have small: "length body < 127 + 2 ^ 21" "int (length body) \<le> max_field" using sb(3) assms(1,2) by linarith+
  have "1 \<le> length (ngx_http_v2_write_int flag 127 (length body))" using write_int_length(1) [of "length body" 7 flag] small(1) by simp
  then have "concat fs \<noteq> []" using assms(4) sb(1) by auto
  with fl_string_run [OF body small, of "[]" fs tail s end_headers] assms(3-6) sb(1) obtain s' where
    s': "h2_field_run end_headers True max_field H2_field_len s [] fs = (H2_process, s', tail)"
    "fl_field s' = (if lower then map ngx_tolower src else src)" "fl_state s' = 0"
    "fl_length s' = fl_length s - length (ngx_http_v2_string_encode src lower)"
    "fl_alloc s' = (if flag = 0x80 then length body * 8 div 5 else length body) + 1" by auto
  have "length (fl_field s') < fl_alloc s'"
  proof (cases "flag = 0x80")
    case True
    have "5 * length (fl_field s') \<le> 8 * length body"
      using huff_decode_grow [of 0 body "[]" True NGX_OK 0 "fl_field s'"] sb(4) [OF True] s'(2) by (simp add: huff_state_0)
    then show ?thesis using s'(5) True by simp
  next
    case False
    with sb(2,5) s'(2,5) show ?thesis by auto
  qed
  with s' show ?thesis by blast
qed

theorem ngx_http_v2_string_roundtrip_witness:
  "\<exists>s'. h2_field_run True True 4096 H2_field_len \<lparr>fl_length = 90, fl_rest = 0, fl_state = 0, fl_field = [], fl_alloc = 0\<rparr> []
       [[0x8c, 0xf1, 0xe3], [0xc2, 0xe5, 0xf2, 0x3a, 0x6b, 0xa0, 0xab, 0x90], [0xf4, 0xff, 7]] = (H2_process, s', [7])
     \<and> fl_field s' = bytes ''www.example.com'' \<and> fl_length s' = 77"
proof -
  have "ngx_http_v2_string_encode (bytes ''WWW.example.com'') True =
      [0x8c, 0xf1, 0xe3, 0xc2, 0xe5, 0xf2, 0x3a, 0x6b, 0xa0, 0xab, 0x90, 0xf4, 0xff]"
    "map ngx_tolower (bytes ''WWW.example.com'') = bytes ''www.example.com''" by code_simp+
  with ngx_http_v2_string_roundtrip [of "bytes ''WWW.example.com''" 4096
      "\<lparr>fl_length = 90, fl_rest = 0, fl_state = 0, fl_field = [], fl_alloc = 0\<rparr>"
      "[[0x8c, 0xf1, 0xe3], [0xc2, 0xe5, 0xf2, 0x3a, 0x6b, 0xa0, 0xab, 0x90], [0xf4, 0xff, 7]]" True "[7]" True]
  show ?thesis by auto
qed

end
