(* ===== verification/Ngx_Http_V2_Table.thy ===== *)
theory Ngx_Http_V2_Table
  imports Ngx_Prelude
begin

text \<open>
  The header table of HPACK, \<^verbatim>\<open>http/v2/ngx_http_v2_table.c\<close>: the static table and the dynamic table, whose
  strings lie in a ring of bytes and whose entries are reached through a growing ring of
  pointers; the structures of evicted entries are used again. The specification is a list of headers, newest
  first, as RFC 7541 has it.
\<close>

section \<open>State\<close>

definition ngx_http_v2_static_table :: "(u_char list \<times> u_char list) list" where
  "ngx_http_v2_static_table =
   [(bytes '':authority'', []),
    (bytes '':method'', bytes ''GET''),
    (bytes '':method'', bytes ''POST''),
    (bytes '':path'', bytes ''/''),
    (bytes '':path'', bytes ''/index.html''),
    (bytes '':scheme'', bytes ''http''),
    (bytes '':scheme'', bytes ''https''),
    (bytes '':status'', bytes ''200''),
    (bytes '':status'', bytes ''204''),
    (bytes '':status'', bytes ''206''),
    (bytes '':status'', bytes ''304''),
    (bytes '':status'', bytes ''400''),
    (bytes '':status'', bytes ''404''),
    (bytes '':status'', bytes ''500''),
    (bytes ''accept-charset'', []),
    (bytes ''accept-encoding'', bytes ''gzip, deflate''),
    (bytes ''accept-language'', []),
    (bytes ''accept-ranges'', []),
    (bytes ''accept'', []),
    (bytes ''access-control-allow-origin'', []),
    (bytes ''age'', []),
    (bytes ''allow'', []),
    (bytes ''authorization'', []),
    (bytes ''cache-control'', []),
    (bytes ''content-disposition'', []),
    (bytes ''content-encoding'', []),
    (bytes ''content-language'', []),
    (bytes ''content-length'', []),
    (bytes ''content-location'', []),
    (bytes ''content-range'', []),
    (bytes ''content-type'', []),
    (bytes ''cookie'', []),
    (bytes ''date'', []),
    (bytes ''etag'', []),
    (bytes ''expect'', []),
    (bytes ''expires'', []),
    (bytes ''from'', []),
    (bytes ''host'', []),
    (bytes ''if-match'', []),
    (bytes ''if-modified-since'', []),
    (bytes ''if-none-match'', []),
    (bytes ''if-range'', []),
    (bytes ''if-unmodified-since'', []),
    (bytes ''last-modified'', []),
    (bytes ''link'', []),
    (bytes ''location'', []),
    (bytes ''max-forwards'', []),
    (bytes ''proxy-authenticate'', []),
    (bytes ''proxy-authorization'', []),
    (bytes ''range'', []),
    (bytes ''referer'', []),
    (bytes ''refresh'', []),
    (bytes ''retry-after'', []),
    (bytes ''server'', []),
    (bytes ''set-cookie'', []),
    (bytes ''strict-transport-security'', []),
    (bytes ''transfer-encoding'', []),
    (bytes ''user-agent'', []),
    (bytes ''vary'', []),
    (bytes ''via'', []),
    (bytes ''www-authenticate'', [])]"

abbreviation (input) NGX_HTTP_V2_TABLE_SIZE :: nat where "NGX_HTTP_V2_TABLE_SIZE \<equiv> 4096"

text \<open>
  A structure \<^verbatim>\<open>ngx_http_v2_header_t\<close> of the dynamic table: its pointers into \<^verbatim>\<open>storage\<close> are offsets. A
  pointer to such a structure is its number in the heap \<open>hp_heap\<close>, to which every allocation appends. The
  table \<^verbatim>\<open>entries\<close> is absent as long as it is \<^verbatim>\<open>NULL\<close>. The counters are natural numbers: \<^verbatim>\<open>2^64\<close>
  insertions are out of reach.
\<close>

record ngx_http_v2_header_t =
  name_data :: nat
  name_len :: nat
  value_data :: nat
  value_len :: nat

record ngx_http_v2_hpack_t =
  hp_entries :: "nat list option"
  hp_added :: nat
  hp_deleted :: nat
  hp_reused :: nat
  hp_allocated :: nat
  hp_size :: int
  hp_free :: int
  hp_storage :: "u_char list"
  hp_pos :: nat
  hp_heap :: "ngx_http_v2_header_t list"

definition new_hpack :: ngx_http_v2_hpack_t where
  "new_hpack = \<lparr>hp_entries = None, hp_added = 0, hp_deleted = 0, hp_reused = 0, hp_allocated = 0,
     hp_size = 0, hp_free = 0, hp_storage = [], hp_pos = 0, hp_heap = []\<rparr>"

text \<open>The structure that the slot of number \<open>i\<close> points to.\<close>

definition hp_entry :: "ngx_http_v2_hpack_t \<Rightarrow> nat \<Rightarrow> ngx_http_v2_header_t" where
  "hp_entry h i =
     (case hp_entries h of
        None \<Rightarrow> \<lparr>name_data = 0, name_len = 0, value_data = 0, value_len = 0\<rparr>
      | Some es \<Rightarrow> hp_heap h ! (es ! (i mod hp_allocated h)))"

definition hp_entry_size :: "ngx_http_v2_header_t \<Rightarrow> int" where
  "hp_entry_size e = 32 + int (name_len e) + int (value_len e)"

section \<open>Operations\<close>

text \<open>The copy out of the ring.\<close>

definition hp_ring_read :: "u_char list \<Rightarrow> nat \<Rightarrow> nat \<Rightarrow> u_char list" where
  "hp_ring_read storage data len =
     (let rest = NGX_HTTP_V2_TABLE_SIZE - data in
      if len > rest then take rest (drop data storage) @ take (len - rest) storage
      else take len (drop data storage))"

text \<open>\<open>None\<close> is \<^verbatim>\<open>NGX_ERROR\<close>; with \<^verbatim>\<open>name_only\<close> the value of a dynamic entry is not copied.\<close>

definition ngx_http_v2_get_indexed_header ::
  "ngx_http_v2_hpack_t \<Rightarrow> nat \<Rightarrow> bool \<Rightarrow> (u_char list \<times> u_char list option) option"
where
  "ngx_http_v2_get_indexed_header h index name_only =
     (if index = 0 then None
      else let index = index - 1 in
        if index < length ngx_http_v2_static_table
        then Some (fst (ngx_http_v2_static_table ! index), Some (snd (ngx_http_v2_static_table ! index)))
        else let index = index - length ngx_http_v2_static_table in
          if index < hp_added h - hp_deleted h then
            (let entry = hp_entry h (hp_added h - index - 1);
                 name = hp_ring_read (hp_storage h) (name_data entry) (name_len entry)
             in Some (name, if name_only then None
                            else Some (hp_ring_read (hp_storage h) (value_data entry) (value_len entry))))
          else None)"

text \<open>The loops that evict: once at least in \<^verbatim>\<open>ngx_http_v2_table_account\<close>, on demand in \<^verbatim>\<open>ngx_http_v2_table_size\<close>.\<close>

definition hp_evict_one :: "ngx_http_v2_hpack_t \<Rightarrow> ngx_http_v2_hpack_t" where
  "hp_evict_one h =
     h\<lparr>hp_deleted := hp_deleted h + 1, hp_free := hp_free h + hp_entry_size (hp_entry h (hp_deleted h))\<rparr>"

lemma hp_evict_one_free: "hp_free h < hp_free (hp_evict_one h)"
  by (simp add: hp_evict_one_def hp_entry_size_def)

function hp_evict :: "int \<Rightarrow> ngx_http_v2_hpack_t \<Rightarrow> ngx_http_v2_hpack_t" where
  "hp_evict need h = (if need > hp_free h then hp_evict need (hp_evict_one h) else h)"
  by pat_completeness auto
termination
  by (relation "measure (\<lambda>(need, h). nat (need - hp_free h))") (use hp_evict_one_free in auto)

declare hp_evict.simps [simp del]

definition ngx_http_v2_table_account :: "ngx_http_v2_hpack_t \<Rightarrow> int \<Rightarrow> int \<times> ngx_http_v2_hpack_t" where
  "ngx_http_v2_table_account h need =
     (let need = need + 32 in
      if need \<le> hp_free h then (NGX_OK, h\<lparr>hp_free := hp_free h - need\<rparr>)
      else if need > hp_size h then (NGX_DECLINED, h\<lparr>hp_deleted := hp_added h, hp_free := hp_size h\<rparr>)
      else let h = hp_evict need (hp_evict_one h) in (NGX_OK, h\<lparr>hp_free := hp_free h - need\<rparr>))"

text \<open>The copy into the ring at \<^verbatim>\<open>pos\<close>, with the new \<^verbatim>\<open>pos\<close> and \<^verbatim>\<open>avail\<close>, from which the length is still to be taken.\<close>

definition mem_copy :: "u_char list \<Rightarrow> nat \<Rightarrow> u_char list \<Rightarrow> u_char list" where
  "mem_copy mem at xs = take at mem @ xs @ drop (at + length xs) mem"

definition hp_ring_write :: "u_char list \<Rightarrow> nat \<Rightarrow> nat \<Rightarrow> u_char list \<Rightarrow> u_char list \<times> nat \<times> nat" where
  "hp_ring_write storage pos avail data =
     (if avail \<ge> length data then (mem_copy storage pos data, pos + length data, avail)
      else (mem_copy (mem_copy storage pos (take avail data)) 0 (drop avail data), length data - avail,
            NGX_HTTP_V2_TABLE_SIZE))"

text \<open>
  The table of pointers when it is full: a copy in order, with 64 more slots. What the allocator leaves in
  new memory is given by \<open>junk\<close>, for pointers, and \<open>junk_storage\<close>.
\<close>

definition hp_grow :: "(nat \<Rightarrow> nat list) \<Rightarrow> ngx_http_v2_hpack_t \<Rightarrow> nat list \<Rightarrow> ngx_http_v2_hpack_t" where
  "hp_grow junk h es =
     (let index = hp_deleted h mod hp_allocated h;
          entries = take (hp_allocated h - index) (drop index es) @ take index es
      in h\<lparr>hp_entries := Some (entries @ junk 64), hp_added := hp_allocated h, hp_deleted := 0, hp_reused := 0,
           hp_allocated := hp_allocated h + 64\<rparr>)"

definition hp_init :: "(nat \<Rightarrow> nat list) \<Rightarrow> u_char list \<Rightarrow> ngx_http_v2_hpack_t \<Rightarrow> ngx_http_v2_hpack_t" where
  "hp_init junk junk_storage h =
     (case hp_entries h of
        Some es \<Rightarrow> h
      | None \<Rightarrow> h\<lparr>hp_allocated := 64, hp_size := int NGX_HTTP_V2_TABLE_SIZE, hp_free := int NGX_HTTP_V2_TABLE_SIZE,
          hp_entries := Some (junk 64), hp_storage := junk_storage, hp_pos := 0\<rparr>)"

text \<open>The pointer to the structure of the new entry: an evicted one or a new one.\<close>

definition hp_take_entry :: "ngx_http_v2_hpack_t \<Rightarrow> nat list \<Rightarrow> nat \<times> ngx_http_v2_hpack_t" where
  "hp_take_entry h es =
     (if hp_reused h = hp_deleted h
      then (length (hp_heap h),
            h\<lparr>hp_heap := hp_heap h @ [\<lparr>name_data = 0, name_len = 0, value_data = 0, value_len = 0\<rparr>]\<rparr>)
      else (es ! (hp_reused h mod hp_allocated h), h\<lparr>hp_reused := hp_reused h + 1\<rparr>))"

definition hp_store :: "ngx_http_v2_hpack_t \<Rightarrow> nat \<Rightarrow> u_char list \<Rightarrow> u_char list \<Rightarrow> ngx_http_v2_hpack_t" where
  "hp_store h entry name value =
     (case hp_ring_write (hp_storage h) (hp_pos h) (NGX_HTTP_V2_TABLE_SIZE - hp_pos h) name of (st1, pos1, avail) \<Rightarrow>
      case hp_ring_write st1 pos1 (avail - length name) value of (st2, pos2, _) \<Rightarrow>
        h\<lparr>hp_storage := st2, hp_pos := pos2,
          hp_heap := (hp_heap h)[entry := \<lparr>name_data = hp_pos h, name_len = length name,
                                          value_data = pos1, value_len = length value\<rparr>]\<rparr>)"

definition hp_link :: "(nat \<Rightarrow> nat list) \<Rightarrow> ngx_http_v2_hpack_t \<Rightarrow> nat \<Rightarrow> ngx_http_v2_hpack_t" where
  "hp_link junk h entry =
     (case hp_entries h of
        None \<Rightarrow> h
      | Some es \<Rightarrow>
          let h = (if hp_allocated h = hp_added h - hp_deleted h then hp_grow junk h es else h) in
          h\<lparr>hp_entries := map_option (\<lambda>es. es[hp_added h mod hp_allocated h := entry]) (hp_entries h),
            hp_added := hp_added h + 1\<rparr>)"

definition ngx_http_v2_add_header ::
  "(nat \<Rightarrow> nat list) \<Rightarrow> u_char list \<Rightarrow> ngx_http_v2_hpack_t \<Rightarrow> u_char list \<Rightarrow> u_char list \<Rightarrow> int \<times> ngx_http_v2_hpack_t"
where
  "ngx_http_v2_add_header junk junk_storage h name value =
     (case ngx_http_v2_table_account (hp_init junk junk_storage h) (int (length name + length value)) of (rc, h) \<Rightarrow>
        if rc \<noteq> NGX_OK then (NGX_OK, h)
        else case hp_entries h of
          None \<Rightarrow> (NGX_OK, h)
        | Some es \<Rightarrow> (case hp_take_entry h es of (entry, h) \<Rightarrow> (NGX_OK, hp_link junk (hp_store h entry name value) entry)))"

definition ngx_http_v2_table_size :: "ngx_http_v2_hpack_t \<Rightarrow> int \<Rightarrow> int \<times> ngx_http_v2_hpack_t" where
  "ngx_http_v2_table_size h new_size =
     (if new_size > int NGX_HTTP_V2_TABLE_SIZE then (NGX_ERROR, h)
      else let needed = hp_size h - new_size; h = hp_evict needed h in
        (NGX_OK, h\<lparr>hp_size := new_size, hp_free := hp_free h - needed\<rparr>))"

section \<open>The ring of bytes\<close>

text \<open>
  Reading and writing by position modulo the size of the ring. The size is a variable here.
\<close>

lemma mod_shift_neq: "0 < d \<Longrightarrow> d < n \<Longrightarrow> (a + d) mod n \<noteq> a mod n" for a d n :: nat
  using mod_eq_dvd_iff_nat [of a "a + d" n] by (auto dest: dvd_imp_le)

lemma hp_ring_read_nth:
  assumes "length st = 4096" "p \<le> 4096" "n \<le> 4096"
  shows "hp_ring_read st p n = map (\<lambda>k. st ! ((p + k) mod 4096)) [0..<n]"
proof (rule nth_equalityI)
  show "length (hp_ring_read st p n) = length (map (\<lambda>k. st ! ((p + k) mod 4096)) [0..<n])"
    using assms by (auto simp: hp_ring_read_def Let_def min_def)
next
  fix k assume "k < length (hp_ring_read st p n)"
  then have k: "k < n" using assms by (simp add: hp_ring_read_def Let_def min_def split: if_splits)
  show "hp_ring_read st p n ! k = map (\<lambda>k. st ! ((p + k) mod 4096)) [0..<n] ! k"
  proof (cases "p + k < 4096")
    case True
    with k assms show ?thesis by (auto simp: hp_ring_read_def Let_def nth_append)
  next
    case False
    then have "(p + k) mod 4096 = p + k - 4096" using k assms by (simp add: mod_if)
    with False k assms show ?thesis by (auto simp: hp_ring_read_def Let_def nth_append add.commute)
  qed
qed

lemma nth_mem_copy:
  "p + length xs \<le> length m \<Longrightarrow> a < length m \<Longrightarrow>
     mem_copy m p xs ! a = (if p \<le> a \<and> a < p + length xs then xs ! (a - p) else m ! a)"
  by (auto simp: mem_copy_def nth_append min_def)

lemma length_mem_copy: "p + length xs \<le> length m \<Longrightarrow> length (mem_copy m p xs) = length m"
  by (simp add: mem_copy_def)

definition ring_written :: "u_char list \<Rightarrow> nat \<Rightarrow> u_char list \<Rightarrow> u_char list \<Rightarrow> bool" where
  "ring_written st p xs st' \<longleftrightarrow> length st' = 4096 \<and> (\<forall>k<length xs. st' ! ((p + k) mod 4096) = xs ! k)
     \<and> (\<forall>a<4096. (\<forall>k<length xs. (p + k) mod 4096 \<noteq> a) \<longrightarrow> st' ! a = st ! a)"

lemma hp_ring_write_written:
  assumes "length st = 4096" "p \<le> 4096" "length xs \<le> 4096" "avail = 4096 - p \<or> avail \<ge> length xs \<and> avail \<le> 4096 - p"
    and "hp_ring_write st p avail xs = (st', p', avail')"
  shows "ring_written st p xs st' \<and> p' \<le> 4096 \<and> p' mod 4096 = (p + length xs) mod 4096
    \<and> (avail = 4096 - p \<longrightarrow> avail' - length xs = 4096 - p' \<or> avail' = 4096 \<and> p' \<le> length xs)"
proof (cases "avail \<ge> length xs")
  case True
  then have r: "st' = mem_copy st p xs" "p' = p + length xs" "avail' = avail" "p + length xs \<le> 4096"
    using assms(2,4,5) by (auto simp: hp_ring_write_def)
  have "ring_written st p xs st'" unfolding ring_written_def
  proof (intro conjI allI impI)
    show "length st' = 4096" using r assms(1) by (simp add: length_mem_copy)
  next
    fix k assume k: "k < length xs"
    then show "st' ! ((p + k) mod 4096) = xs ! k" using r assms(1) by (simp add: nth_mem_copy)
  next
    fix a assume a: "a < 4096" "\<forall>k<length xs. (p + k) mod 4096 \<noteq> a"
    have "\<not> (p \<le> a \<and> a < p + length xs)"
    proof
      assume "p \<le> a \<and> a < p + length xs"
      then have "a - p < length xs" "(p + (a - p)) mod 4096 = a" using a(1) by auto
      with a(2) show False by blast
    qed
    then show "st' ! a = st ! a" using r assms(1) a(1) by (auto simp: nth_mem_copy)
  qed
  with r show ?thesis by simp
next
  case False
  with assms(4) have av: "avail = 4096 - p" "avail < length xs" by auto
  define st1 where "st1 = mem_copy st p (take avail xs)"
  have r: "st' = mem_copy st1 0 (drop avail xs)" "p' = length xs - avail" "avail' = 4096"
    using False assms(5) by (auto simp: hp_ring_write_def st1_def)
  have l1: "length st1 = 4096" using av assms(1,2) by (simp add: st1_def length_mem_copy)
  have n: "st' ! a = (if a < length xs - avail then xs ! (avail + a) else if p \<le> a then xs ! (a - p) else st ! a)" if "a < 4096" for a
    using that av assms(1-3) l1 by (simp add: r(1) nth_mem_copy) (auto simp: st1_def nth_mem_copy)
  have "ring_written st p xs st'" unfolding ring_written_def
  proof (intro conjI allI impI)
    show "length st' = 4096" using r(1) l1 av assms(2,3) by (simp add: length_mem_copy)
  next
    fix k assume k: "k < length xs"
    show "st' ! ((p + k) mod 4096) = xs ! k"
    proof (cases "p + k < 4096")
      case True
      then have "\<not> p + k < length xs - avail" using av assms(2,3) by simp
      with True show ?thesis by (simp add: n)
    next
      case f: False
      then have "(p + k) mod 4096 = p + k - 4096" using k assms(2,3) by (simp add: mod_if)
      moreover have "p + k - 4096 < length xs - avail" "avail + (p + k - 4096) = k" "p + k - 4096 < 4096"
        using f k av assms(2,3) by simp_all
      ultimately show ?thesis by (simp add: n)
    qed
  next
    fix a assume a: "a < 4096" "\<forall>k<length xs. (p + k) mod 4096 \<noteq> a"
    have "\<not> a < length xs - avail"
    proof
      assume "a < length xs - avail"
      then have "avail + a < length xs" "(p + (avail + a)) mod 4096 = a" using a(1) av assms(2) by simp_all
      with a(2) show False by blast
    qed
    moreover have "\<not> p \<le> a"
    proof
      assume "p \<le> a"
      then have "a - p < length xs" "(p + (a - p)) mod 4096 = a" using a(1) av assms(2) by simp_all
      with a(2) show False by blast
    qed
    ultimately show "st' ! a = st ! a" using n [OF a(1)] by simp
  qed
  moreover have "p + length xs = p' + 4096" "p' \<le> 4096" "p' \<le> length xs" using r av assms(2,3) by auto
  ultimately show ?thesis using r(3) by simp
qed

section \<open>The invariant\<close>

text \<open>The entries in the table, the newest first, and the headers they stand for.\<close>

definition hp_live :: "ngx_http_v2_hpack_t \<Rightarrow> ngx_http_v2_header_t list" where
  "hp_live h = map (hp_entry h) (rev [hp_deleted h..<hp_added h])"

definition hp_header :: "u_char list \<Rightarrow> ngx_http_v2_header_t \<Rightarrow> u_char list \<times> u_char list" where
  "hp_header st e = (hp_ring_read st (name_data e) (name_len e), hp_ring_read st (value_data e) (value_len e))"

definition hp_headers :: "ngx_http_v2_hpack_t \<Rightarrow> (u_char list \<times> u_char list) list" where
  "hp_headers h = map (hp_header (hp_storage h)) (hp_live h)"

text \<open>
  The strings of the entries lie one behind the other in the ring and end \<open>d\<close> bytes before the position \<open>pos\<close>.
\<close>

fun hp_chain :: "nat \<Rightarrow> nat \<Rightarrow> ngx_http_v2_header_t list \<Rightarrow> bool" where
  "hp_chain pos d [] \<longleftrightarrow> True"
| "hp_chain pos d (e # es) \<longleftrightarrow> name_data e \<le> 4096 \<and> value_data e \<le> 4096
     \<and> (name_data e + (d + name_len e + value_len e)) mod 4096 = pos mod 4096
     \<and> (value_data e + (d + value_len e)) mod 4096 = pos mod 4096
     \<and> hp_chain pos (d + name_len e + value_len e) es"

definition hp_total :: "ngx_http_v2_header_t list \<Rightarrow> int" where
  "hp_total es = sum_list (map hp_entry_size es)"

definition hp_bytes :: "ngx_http_v2_header_t list \<Rightarrow> nat" where
  "hp_bytes es = sum_list (map (\<lambda>e. name_len e + value_len e) es)"

lemma hp_total_simps [simp]: "hp_total [] = 0" "hp_total (e # es) = hp_entry_size e + hp_total es"
    "hp_total (es @ fs) = hp_total es + hp_total fs"
  by (simp_all add: hp_total_def)

lemma hp_bytes_simps [simp]: "hp_bytes [] = 0" "hp_bytes (e # es) = name_len e + value_len e + hp_bytes es"
  by (simp_all add: hp_bytes_def)

lemma hp_bytes_total: "int (hp_bytes es) + 32 * int (length es) = hp_total es"
  by (induction es) (simp_all add: hp_entry_size_def)

lemma hp_total_nonneg: "0 \<le> hp_total es"
  using hp_bytes_total [of es] by simp

lemma hp_chain_shift:
  "hp_chain pos d es \<Longrightarrow> pos' mod 4096 = (pos + t) mod 4096 \<Longrightarrow> hp_chain pos' (d + t) es"
proof (induction es arbitrary: d)
  case (Cons e es)
  have *: "(x + (y + t)) mod 4096 = pos' mod 4096" if "(x + y) mod 4096 = pos mod 4096" for x y :: nat
    using mod_add_cong [OF that refl, of t] Cons.prems(2) by (simp add: add.assoc)
  from Cons have "hp_chain pos' (d + name_len e + value_len e + t) es" by simp
  with Cons.prems(1) * [of "name_data e" "d + name_len e + value_len e"] * [of "value_data e" "d + value_len e"]
  show ?case by (simp add: algebra_simps)
qed simp

lemma ring_read_kept:
  assumes "length st = 4096" "ring_written st p xs st'" "q \<le> 4096" "(q + d) mod 4096 = p mod 4096" "n \<le> d" "d + length xs \<le> 4096"
  shows "hp_ring_read st' q n = hp_ring_read st q n"
proof -
  have "st' ! ((q + k) mod 4096) = st ! ((q + k) mod 4096)" if k: "k < n" for k
  proof -
    have "(p + j) mod 4096 \<noteq> (q + k) mod 4096" if j: "j < length xs" for j
    proof -
      have "(p + j) mod 4096 = (q + d + j) mod 4096" using assms(4) by (intro mod_add_cong) simp_all
      moreover have "q + d + j = q + k + (d - k + j)" using assms(5) k by simp
      ultimately have "(p + j) mod 4096 = (q + k + (d - k + j)) mod 4096" by simp
      then show ?thesis using mod_shift_neq [of "d - k + j" 4096 "q + k"] assms(5,6) k j by simp
    qed
    then show ?thesis using assms(2) by (simp add: ring_written_def)
  qed
  moreover have "length st' = 4096" "n \<le> 4096" using assms by (simp_all add: ring_written_def)
  ultimately show ?thesis using assms(1,3) by (simp add: hp_ring_read_nth)
qed

lemma hp_chain_kept:
  assumes "length st = 4096" "ring_written st pos xs st'"
  shows "hp_chain pos d es \<Longrightarrow> d + hp_bytes es + length xs \<le> 4096 \<Longrightarrow> map (hp_header st') es = map (hp_header st) es"
proof (induction es arbitrary: d)
  case (Cons e es)
  have "hp_ring_read st' (name_data e) (name_len e) = hp_ring_read st (name_data e) (name_len e)"
    by (rule ring_read_kept [OF assms, of _ "d + name_len e + value_len e"]) (use Cons.prems in auto)
  moreover have "hp_ring_read st' (value_data e) (value_len e) = hp_ring_read st (value_data e) (value_len e)"
    by (rule ring_read_kept [OF assms, of _ "d + value_len e"]) (use Cons.prems in auto)
  moreover have "map (hp_header st') es = map (hp_header st) es" by (rule Cons.IH) (use Cons.prems in auto)
  ultimately show ?case by (simp add: hp_header_def)
qed simp

text \<open>
  The invariant. The slots from \<^verbatim>\<open>reused\<close> to \<^verbatim>\<open>added\<close> hold different pointers, those up to
  \<^verbatim>\<open>deleted\<close> to structures that may be used again; \<open>x\<close> bytes are accounted for an entry to come.
\<close>

definition hp_slots :: "ngx_http_v2_hpack_t \<Rightarrow> nat list \<Rightarrow> bool" where
  "hp_slots h es \<longleftrightarrow> length es = hp_allocated h \<and> 0 < hp_allocated h
     \<and> hp_reused h \<le> hp_deleted h \<and> hp_deleted h \<le> hp_added h \<and> hp_added h \<le> hp_reused h + hp_allocated h
     \<and> (\<forall>i\<in>{hp_reused h..<hp_added h}. es ! (i mod hp_allocated h) < length (hp_heap h))
     \<and> inj_on (\<lambda>i. es ! (i mod hp_allocated h)) {hp_reused h..<hp_added h}"

definition hp_data :: "int \<Rightarrow> ngx_http_v2_hpack_t \<Rightarrow> bool" where
  "hp_data x h \<longleftrightarrow> length (hp_storage h) = 4096 \<and> hp_pos h \<le> 4096 \<and> hp_size h \<le> 4096 \<and> 0 \<le> hp_free h
     \<and> hp_free h = hp_size h - hp_total (hp_live h) - x \<and> hp_chain (hp_pos h) 0 (hp_live h)"

definition hp_inv :: "ngx_http_v2_hpack_t \<Rightarrow> bool" where
  "hp_inv h \<longleftrightarrow>
     (case hp_entries h of
        Some es \<Rightarrow> hp_slots h es \<and> hp_data 0 h
      | None \<Rightarrow> hp_added h = 0 \<and> hp_deleted h = 0 \<and> hp_reused h = 0 \<and> 0 \<le> hp_size h \<and> hp_free h = hp_size h)"

section \<open>Eviction\<close>

text \<open>The newest entries that fit in \<open>m\<close> bytes.\<close>

fun hp_fit :: "int \<Rightarrow> (u_char list \<times> u_char list) list \<Rightarrow> (u_char list \<times> u_char list) list" where
  "hp_fit m [] = []"
| "hp_fit m ((n, v) # hs) =
     (let s = 32 + int (length n) + int (length v) in if s \<le> m then (n, v) # hp_fit (m - s) hs else [])"

fun hp_fit_entries :: "int \<Rightarrow> ngx_http_v2_header_t list \<Rightarrow> ngx_http_v2_header_t list" where
  "hp_fit_entries m [] = []"
| "hp_fit_entries m (e # es) = (if hp_entry_size e \<le> m then e # hp_fit_entries (m - hp_entry_size e) es else [])"

lemma hp_entry_size_pos: "0 < hp_entry_size e"
  by (simp add: hp_entry_size_def)

lemma hp_fit_all: "hp_total es \<le> m \<Longrightarrow> hp_fit_entries m es = es"
proof (induction es arbitrary: m)
  case (Cons e es)
  then show ?case using hp_total_nonneg [of es] by simp
qed simp

lemma hp_fit_last: "m < hp_total (es @ [e]) \<Longrightarrow> hp_fit_entries m (es @ [e]) = hp_fit_entries m es"
  by (induction es arbitrary: m) simp_all

lemma hp_fit_total: "0 \<le> m \<Longrightarrow> hp_total (hp_fit_entries m es) \<le> m"
proof (induction es arbitrary: m)
  case (Cons e es)
  show ?case using Cons.prems Cons.IH [of "m - hp_entry_size e"] by auto
qed simp

lemma hp_entry_cong:
  "hp_entries h' = hp_entries h \<Longrightarrow> hp_heap h' = hp_heap h \<Longrightarrow> hp_allocated h' = hp_allocated h \<Longrightarrow> hp_entry h' i = hp_entry h i"
  unfolding hp_entry_def by (simp only:)

lemma hp_entry_frame [simp]:
  "hp_entry (h\<lparr>hp_deleted := d\<rparr>) i = hp_entry h i" "hp_entry (h\<lparr>hp_free := f\<rparr>) i = hp_entry h i"
  "hp_entry (h\<lparr>hp_size := z\<rparr>) i = hp_entry h i" "hp_entry (h\<lparr>hp_added := d\<rparr>) i = hp_entry h i"
  "hp_entry (h\<lparr>hp_reused := d\<rparr>) i = hp_entry h i" "hp_entry (h\<lparr>hp_storage := st\<rparr>) i = hp_entry h i"
  "hp_entry (h\<lparr>hp_pos := d\<rparr>) i = hp_entry h i"
  by (rule hp_entry_cong; simp)+

lemma hp_live_evict_one:
  assumes "hp_deleted h < hp_added h"
  shows "hp_live h = hp_live (hp_evict_one h) @ [hp_entry h (hp_deleted h)]"
proof -
  have "[hp_deleted h..<hp_added h] = hp_deleted h # [Suc (hp_deleted h)..<hp_added h]" using assms by (rule upt_conv_Cons)
  then show ?thesis by (simp add: hp_live_def hp_evict_one_def)
qed

lemma hp_chain_append: "hp_chain pos d (es @ fs) \<Longrightarrow> hp_chain pos d es"
  by (induction es arbitrary: d) auto

lemma hp_evict_one_inv:
  assumes "hp_slots h es" "hp_data x h" "hp_live h \<noteq> []"
  shows "hp_slots (hp_evict_one h) es \<and> hp_data x (hp_evict_one h) \<and> hp_deleted h < hp_added h"
proof -
  have d: "hp_deleted h < hp_added h" using assms(3) by (simp add: hp_live_def)
  note l = hp_live_evict_one [OF d]
  have "hp_slots (hp_evict_one h) es" using assms(1) d by (auto simp: hp_slots_def hp_evict_one_def)
  moreover have "hp_data x (hp_evict_one h)"
    using assms(2) l hp_chain_append [of "hp_pos h" 0 "hp_live (hp_evict_one h)" "[hp_entry h (hp_deleted h)]"]
      hp_entry_size_pos [of "hp_entry h (hp_deleted h)"]
    by (auto simp: hp_data_def hp_evict_one_def)
  ultimately show ?thesis using d by simp
qed

lemma hp_evict_fit:
  assumes "hp_slots h es" "hp_data x h" "need \<le> hp_size h - x"
  shows "hp_slots (hp_evict need h) es \<and> hp_data x (hp_evict need h) \<and> need \<le> hp_free (hp_evict need h)
    \<and> hp_live (hp_evict need h) = hp_fit_entries (hp_size h - x - need) (hp_live h)
    \<and> hp_evict need h = h\<lparr>hp_deleted := hp_deleted (hp_evict need h), hp_free := hp_free (hp_evict need h)\<rparr>"
  using assms
proof (induction need h rule: hp_evict.induct)
  case (1 need h)
  show ?case
  proof (cases "need > hp_free h")
    case False
    with 1 show ?thesis by (subst (1 2 3 4 5 6 7) hp_evict.simps) (simp add: hp_data_def hp_fit_all)
  next
    case True
    have "hp_live h \<noteq> []" using True 1 by (auto simp: hp_data_def)
    note o = hp_evict_one_inv [OF 1(2,3) this]
    have sz: "hp_size (hp_evict_one h) = hp_size h" by (simp add: hp_evict_one_def)
    have "hp_fit_entries (hp_size h - x - need) (hp_live h) = hp_fit_entries (hp_size h - x - need) (hp_live (hp_evict_one h))"
      unfolding hp_live_evict_one [OF conjunct2 [OF conjunct2 [OF o]]]
      by (rule hp_fit_last) (use True 1(3) hp_live_evict_one [OF conjunct2 [OF conjunct2 [OF o]]] in \<open>simp add: hp_data_def\<close>)
    moreover have "hp_evict need h = hp_evict need (hp_evict_one h)" using True by (subst hp_evict.simps) simp
    ultimately show ?thesis using 1(1) [OF True] o 1(4) sz by (simp add: hp_evict_one_def)
  qed
qed

lemma hp_live_frame [simp]:
  "hp_live (h\<lparr>hp_free := f\<rparr>) = hp_live h" "hp_live (h\<lparr>hp_size := z\<rparr>) = hp_live h"
  by (simp_all add: hp_live_def)

lemma hp_slots_frame [simp]:
  "hp_slots (h\<lparr>hp_free := f\<rparr>) es = hp_slots h es" "hp_slots (h\<lparr>hp_size := z\<rparr>) es = hp_slots h es"
  by (simp_all add: hp_slots_def)

section \<open>The operations keep the invariant and implement the list\<close>

lemma hp_account:
  assumes "hp_slots h es" "hp_data 0 h" "0 \<le> need" "hp_entries h = Some es"
  shows "\<exists>h'. ngx_http_v2_table_account h need = (if need + 32 \<le> hp_size h then NGX_OK else NGX_DECLINED, h')
    \<and> hp_slots h' es \<and> hp_entries h' = Some es \<and> hp_size h' = hp_size h \<and> hp_storage h' = hp_storage h \<and> hp_pos h' = hp_pos h
    \<and> hp_live h' = (if need + 32 \<le> hp_size h then hp_fit_entries (hp_size h - (need + 32)) (hp_live h) else [])
    \<and> hp_data (if need + 32 \<le> hp_size h then need + 32 else 0) h'"
proof -
  let ?n = "need + 32"
  have free: "hp_free h = hp_size h - hp_total (hp_live h)" "0 \<le> hp_free h" using assms(2) by (simp_all add: hp_data_def)
  consider "?n \<le> hp_free h" | "hp_size h < ?n" | "hp_free h < ?n" "?n \<le> hp_size h" by linarith
  then show ?thesis
  proof cases
    case 1
    then have "?n \<le> hp_size h" using free hp_total_nonneg [of "hp_live h"] by simp
    with 1 assms free show ?thesis
      by (intro exI [of _ "h\<lparr>hp_free := hp_free h - ?n\<rparr>"])
        (simp add: ngx_http_v2_table_account_def hp_data_def hp_fit_all)
  next
    case 2
    then have "\<not> ?n \<le> hp_free h" "0 \<le> hp_size h" using free hp_total_nonneg [of "hp_live h"] by simp_all
    with 2 assms free show ?thesis
      by (intro exI [of _ "h\<lparr>hp_deleted := hp_added h, hp_free := hp_size h\<rparr>"])
        (auto simp: ngx_http_v2_table_account_def hp_data_def hp_live_def hp_slots_def)
  next
    case 3
    then have ne: "hp_live h \<noteq> []" using free by auto
    have ev: "hp_evict ?n h = hp_evict ?n (hp_evict_one h)" using 3 by (subst hp_evict.simps) simp
    have "?n \<le> hp_size h - 0" using 3 by simp
    note f = hp_evict_fit [OF assms(1,2) this]
    define h1 where "h1 = hp_evict ?n h"
    from f obtain d' f' where h1: "h1 = h\<lparr>hp_deleted := d', hp_free := f'\<rparr>" by (metis h1_def)
    from 3 have "ngx_http_v2_table_account h need = (NGX_OK, h1\<lparr>hp_free := hp_free h1 - ?n\<rparr>)"
      by (simp add: ngx_http_v2_table_account_def Let_def ev [symmetric] h1_def)
    moreover have "hp_slots h1 es" "hp_data 0 h1" "?n \<le> hp_free h1" "hp_live h1 = hp_fit_entries (hp_size h - ?n) (hp_live h)"
      using f by (simp_all add: h1_def)
    ultimately show ?thesis using 3 h1 assms(4)
      by (intro exI [of _ "h1\<lparr>hp_free := hp_free h1 - ?n\<rparr>"]) (auto simp: hp_data_def)
  qed
qed

lemma hp_take_entry_fresh:
  assumes "hp_slots h es" "hp_take_entry h es = (p, h')" "hp_entries h = Some es"
  shows "hp_slots h' es \<and> p < length (hp_heap h') \<and> (\<forall>i\<in>{hp_reused h'..<hp_added h'}. es ! (i mod hp_allocated h') \<noteq> p)
    \<and> hp_live h' = hp_live h \<and> hp_added h' < hp_reused h' + hp_allocated h' \<or>
    hp_slots h' es \<and> p < length (hp_heap h') \<and> (\<forall>i\<in>{hp_reused h'..<hp_added h'}. es ! (i mod hp_allocated h') \<noteq> p)
    \<and> hp_live h' = hp_live h \<and> hp_reused h' = hp_deleted h' \<and> hp_added h' - hp_deleted h' = hp_allocated h'"
proof (cases "hp_reused h = hp_deleted h")
  case True
  define e0 where "e0 = \<lparr>name_data = 0, name_len = 0, value_data = 0, value_len = (0 :: nat)\<rparr>"
  have r: "p = length (hp_heap h)" "h' = h\<lparr>hp_heap := hp_heap h @ [e0]\<rparr>"
    using True assms(2) by (simp_all add: hp_take_entry_def e0_def)
  have in_heap: "es ! (i mod hp_allocated h) < length (hp_heap h)" if "i \<in> {hp_reused h..<hp_added h}" for i
    using assms(1) that by (simp add: hp_slots_def)
  have "hp_slots h' es" using assms(1) in_heap by (fastforce simp: hp_slots_def r)
  moreover have "hp_live h' = hp_live h"
    using in_heap True by (auto simp: hp_live_def r hp_entry_def assms(3) nth_append)
  moreover have "\<forall>i\<in>{hp_reused h'..<hp_added h'}. es ! (i mod hp_allocated h') \<noteq> p" using in_heap by (fastforce simp: r)
  moreover have "hp_added h' \<le> hp_reused h' + hp_allocated h'" using assms(1) by (simp add: hp_slots_def r)
  moreover have "p < length (hp_heap h')" "hp_reused h' = hp_deleted h'" using True by (simp_all add: r)
  ultimately show ?thesis by (cases "hp_added h' = hp_reused h' + hp_allocated h'") auto
next
  case False
  then have lt: "hp_reused h < hp_deleted h" using assms(1) by (simp add: hp_slots_def)
  have r: "p = es ! (hp_reused h mod hp_allocated h)" "h' = h\<lparr>hp_reused := hp_reused h + 1\<rparr>"
    using False assms(2) by (simp_all add: hp_take_entry_def)
  have inj: "inj_on (\<lambda>i. es ! (i mod hp_allocated h)) {hp_reused h..<hp_added h}" and d: "hp_deleted h \<le> hp_added h"
    using assms(1) by (simp_all add: hp_slots_def)
  have "inj_on (\<lambda>i. es ! (i mod hp_allocated h)) {Suc (hp_reused h)..<hp_added h}" by (rule inj_on_subset [OF inj]) auto
  then have "hp_slots h' es" using assms(1) lt by (simp add: hp_slots_def r)
  moreover have "p < length (hp_heap h')" using assms(1) lt by (auto simp: hp_slots_def r)
  moreover have "\<forall>i\<in>{hp_reused h'..<hp_added h'}. es ! (i mod hp_allocated h') \<noteq> p"
  proof
    fix i assume i: "i \<in> {hp_reused h'..<hp_added h'}"
    then have *: "i \<noteq> hp_reused h" "i \<in> {hp_reused h..<hp_added h}" "hp_reused h \<in> {hp_reused h..<hp_added h}"
      using lt d by (auto simp: r)
    show "es ! (i mod hp_allocated h') \<noteq> p"
    proof
      assume "es ! (i mod hp_allocated h') = p"
      then have "es ! (i mod hp_allocated h) = es ! (hp_reused h mod hp_allocated h)" by (simp add: r)
      from inj_onD [OF inj this *(2,3)] *(1) show False by simp
    qed
  qed
  moreover have "hp_live h' = hp_live h" by (simp add: hp_live_def r)
  moreover have "hp_added h' < hp_reused h' + hp_allocated h'" using assms(1) by (simp add: hp_slots_def r)
  ultimately show ?thesis by simp
qed

text \<open>Storing a header writes behind the strings of the table, which keep their bytes.\<close>

lemma hp_store_data:
  assumes "hp_data x h" "x = 32 + int (length name) + int (length value)" "hp_entries h = Some es"
    and "hp_slots h es" "p < length (hp_heap h)" "\<forall>i\<in>{hp_reused h..<hp_added h}. es ! (i mod hp_allocated h) \<noteq> p"
  shows "\<exists>h' e. hp_store h p name value = h' \<and> hp_slots h' es \<and> hp_entries h' = Some es \<and> hp_heap h' ! p = e
    \<and> hp_added h' = hp_added h \<and> hp_deleted h' = hp_deleted h \<and> hp_reused h' = hp_reused h \<and> hp_allocated h' = hp_allocated h
    \<and> hp_size h' = hp_size h \<and> hp_free h' = hp_free h \<and> hp_live h' = hp_live h \<and> p < length (hp_heap h')
    \<and> length (hp_storage h') = 4096 \<and> hp_pos h' \<le> 4096 \<and> hp_chain (hp_pos h') 0 (e # hp_live h)
    \<and> hp_entry_size e = x \<and> hp_headers h' = hp_headers h \<and> hp_header (hp_storage h') e = (name, value)"
proof -
  have room: "hp_bytes (hp_live h) + (length name + length value) + 32 \<le> 4096"
    using hp_bytes_total [of "hp_live h"] assms(1,2) by (simp add: hp_data_def)
  have st: "length (hp_storage h) = 4096" "hp_pos h \<le> 4096" and chain: "hp_chain (hp_pos h) 0 (hp_live h)"
    using assms(1) by (simp_all add: hp_data_def)
  obtain st1 pos1 av1 where w1: "hp_ring_write (hp_storage h) (hp_pos h) (4096 - hp_pos h) name = (st1, pos1, av1)" by (metis prod_cases3)
  obtain st2 pos2 av2 where w2: "hp_ring_write st1 pos1 (av1 - length name) value = (st2, pos2, av2)" by (metis prod_cases3)
  from hp_ring_write_written [OF st _ _ w1] room have r1: "ring_written (hp_storage h) (hp_pos h) name st1" "pos1 \<le> 4096"
    "pos1 mod 4096 = (hp_pos h + length name) mod 4096" "av1 - length name = 4096 - pos1 \<or> av1 = 4096 \<and> pos1 \<le> length name" by auto
  then have l1: "length st1 = 4096" by (simp add: ring_written_def)
  have "av1 - length name = 4096 - pos1 \<or> av1 - length name \<ge> length value \<and> av1 - length name \<le> 4096 - pos1"
    using r1(4) room by auto
  from hp_ring_write_written [OF l1 r1(2) _ this w2] room have r2: "ring_written st1 pos1 value st2" "pos2 \<le> 4096"
    "pos2 mod 4096 = (pos1 + length value) mod 4096" by auto
  then have l2: "length st2 = 4096" by (simp add: ring_written_def)
  define e where "e = \<lparr>name_data = hp_pos h, name_len = length name, value_data = pos1, value_len = length value\<rparr>"
  define h' where "h' = h\<lparr>hp_storage := st2, hp_pos := pos2, hp_heap := (hp_heap h)[p := e]\<rparr>"
  have "hp_store h p name value = h'" by (simp add: hp_store_def w1 w2 h'_def e_def)
  moreover have live: "hp_live h' = hp_live h"
  proof -
    have "hp_entry h' i = hp_entry h i" if "i \<in> {hp_deleted h..<hp_added h}" for i
    proof -
      have "es ! (i mod hp_allocated h) \<noteq> p" using that assms(4,6) by (auto simp: hp_slots_def)
      then show ?thesis by (simp add: hp_entry_def h'_def assms(3))
    qed
    then show ?thesis by (auto simp: hp_live_def h'_def)
  qed
  moreover have c1: "hp_chain pos1 (length name) (hp_live h)" using hp_chain_shift [OF chain r1(3)] by simp
  have "pos2 mod 4096 = (hp_pos h + (length name + length value)) mod 4096"
    using r1(3) r2(3) mod_add_cong [OF r1(3) refl, of "length value"] by (simp add: add.assoc)
  then have "hp_chain pos2 0 (e # hp_live h)"
    using hp_chain_shift [OF chain, of pos2 "length name + length value"] r1(2) r2(3) st by (simp add: e_def add.assoc)
  moreover have "hp_headers h' = hp_headers h"
  proof -
    have "map (hp_header st1) (hp_live h) = map (hp_header (hp_storage h)) (hp_live h)"
      by (rule hp_chain_kept [OF st(1) r1(1) chain]) (use room in simp)
    moreover have "map (hp_header st2) (hp_live h) = map (hp_header st1) (hp_live h)"
      by (rule hp_chain_kept [OF l1 r2(1) c1]) (use room in simp)
    ultimately show ?thesis unfolding hp_headers_def live by (simp add: h'_def)
  qed
  moreover have "hp_header st2 e = (name, value)"
  proof -
    have "hp_ring_read st2 (hp_pos h) (length name) = hp_ring_read st1 (hp_pos h) (length name)"
      by (rule ring_read_kept [OF l1 r2(1) st(2), of "length name"]) (use r1(3) room in auto)
    also have "\<dots> = name" using r1(1) l1 st(2) room
      by (subst hp_ring_read_nth) (auto simp: ring_written_def intro!: nth_equalityI)
    finally have "hp_ring_read st2 (hp_pos h) (length name) = name" .
    moreover have "hp_ring_read st2 pos1 (length value) = value" using r2(1) l2 r1(2) room
      by (subst hp_ring_read_nth) (auto simp: ring_written_def intro!: nth_equalityI)
    ultimately show ?thesis by (simp add: hp_header_def e_def)
  qed
  moreover have "hp_slots h' es" using assms(4) by (simp add: hp_slots_def h'_def)
  ultimately show ?thesis using assms(2,3,5) l2 r2(2)
    by (intro exI [of _ h'] exI [of _ e]) (simp add: h'_def e_def hp_entry_size_def)
qed

lemma hp_link_slots:
  assumes "hp_entries h = Some es" "hp_slots h es" "p < length (hp_heap h)"
    and "\<forall>i\<in>{hp_reused h..<hp_added h}. es ! (i mod hp_allocated h) \<noteq> p"
    and "hp_added h - hp_deleted h \<noteq> hp_allocated h" "hp_added h < hp_reused h + hp_allocated h"
  defines "h' \<equiv> h\<lparr>hp_entries := Some (es[hp_added h mod hp_allocated h := p]), hp_added := hp_added h + 1\<rparr>"
  shows "hp_slots h' (es[hp_added h mod hp_allocated h := p]) \<and> hp_live h' = hp_heap h ! p # hp_live h"
proof -
  define A where "A = hp_allocated h"
  define es' where "es' = es[hp_added h mod A := p]"
  have sl: "length es = A" "0 < A" "hp_reused h \<le> hp_deleted h" "hp_deleted h \<le> hp_added h"
    "\<forall>i\<in>{hp_reused h..<hp_added h}. es ! (i mod A) < length (hp_heap h)"
    "inj_on (\<lambda>i. es ! (i mod A)) {hp_reused h..<hp_added h}" using assms(2) by (simp_all add: hp_slots_def A_def)
  have old: "es' ! (i mod A) = es ! (i mod A)" if "i \<in> {hp_reused h..<hp_added h}" for i
  proof -
    have "(i + (hp_added h - i)) mod A \<noteq> i mod A" using that assms(6) by (intro mod_shift_neq) (auto simp: A_def)
    then show ?thesis using that by (simp add: es'_def)
  qed
  have new: "es' ! (hp_added h mod A) = p" using sl(1,2) by (simp add: es'_def)
  have ins: "{hp_reused h..<Suc (hp_added h)} = insert (hp_added h) {hp_reused h..<hp_added h}" using sl(3,4) by auto
  have "inj_on (\<lambda>i. es' ! (i mod A)) {hp_reused h..<hp_added h} \<longleftrightarrow> inj_on (\<lambda>i. es ! (i mod A)) {hp_reused h..<hp_added h}"
    by (rule inj_on_cong) (rule old)
  with sl(6) have "inj_on (\<lambda>i. es' ! (i mod A)) {hp_reused h..<hp_added h}" by simp
  moreover have "p \<notin> (\<lambda>i. es' ! (i mod A)) ` {hp_reused h..<hp_added h}" using assms(4) old by (auto simp: A_def)
  ultimately have "inj_on (\<lambda>i. es' ! (i mod A)) {hp_reused h..<Suc (hp_added h)}" unfolding ins by (auto simp: new)
  moreover have "\<forall>i\<in>{hp_reused h..<Suc (hp_added h)}. es' ! (i mod A) < length (hp_heap h)"
    unfolding ins using sl(5) old new assms(3) by simp
  moreover have "length es' = A" using sl(1) by (simp add: es'_def)
  ultimately have "hp_slots h' es'" using sl(2-4) assms(6) by (simp add: hp_slots_def h'_def A_def [symmetric])
  moreover have "hp_entry h' i = hp_entry h i" if "i \<in> {hp_deleted h..<hp_added h}" for i
    using old [of i] that sl(3) by (simp add: hp_entry_def h'_def assms(1) A_def [symmetric] es'_def [symmetric])
  moreover have "hp_entry h' (hp_added h) = hp_heap h ! p"
    by (simp add: hp_entry_def h'_def A_def [symmetric] es'_def [symmetric] new)
  ultimately show ?thesis using sl(4) by (simp add: hp_live_def h'_def es'_def A_def)
qed

lemma hp_grow_slots:
  assumes "hp_entries h = Some es" "hp_slots h es" "hp_added h - hp_deleted h = hp_allocated h" "hp_reused h = hp_deleted h"
    and "length (junk 64) = 64" "\<forall>i\<in>{hp_reused h..<hp_added h}. es ! (i mod hp_allocated h) \<noteq> p"
  shows "\<exists>es'. hp_entries (hp_grow junk h es) = Some es' \<and> hp_slots (hp_grow junk h es) es' \<and> hp_live (hp_grow junk h es) = hp_live h
    \<and> hp_added (hp_grow junk h es) - hp_deleted (hp_grow junk h es) \<noteq> hp_allocated (hp_grow junk h es)
    \<and> hp_added (hp_grow junk h es) < hp_reused (hp_grow junk h es) + hp_allocated (hp_grow junk h es)
    \<and> (\<forall>i\<in>{hp_reused (hp_grow junk h es)..<hp_added (hp_grow junk h es)}. es' ! (i mod hp_allocated (hp_grow junk h es)) \<noteq> p)"
proof -
  define A where "A = hp_allocated h"
  define k where "k = hp_deleted h mod A"
  define es' where "es' = (take (A - k) (drop k es) @ take k es) @ junk 64"
  have sl: "length es = A" "0 < A" "hp_deleted h \<le> hp_added h" "hp_added h = hp_deleted h + A"
    using assms(2,3) by (auto simp: hp_slots_def A_def)
  have k: "k < A" using sl(2) by (simp add: k_def)
  have g: "hp_grow junk h es = h\<lparr>hp_entries := Some es', hp_added := A, hp_deleted := 0, hp_reused := 0, hp_allocated := A + 64\<rparr>"
    by (simp add: hp_grow_def Let_def A_def k_def es'_def)
  have nth: "es' ! i = es ! ((hp_deleted h + i) mod A)" if "i < A" for i
  proof -
    have "(hp_deleted h + i) mod A = (k + i) mod A" by (simp add: k_def mod_add_left_eq)
    also have "\<dots> = (if i < A - k then k + i else i - (A - k))" using that k by (auto simp: mod_if)
    finally show ?thesis using that k sl(1) by (auto simp: es'_def nth_append add.commute)
  qed
  have img: "hp_deleted h + i \<in> {hp_deleted h..<hp_added h}" if "i < A" for i using that sl(4) by simp
  have "inj_on (\<lambda>i. es' ! (i mod (A + 64))) {0..<A}"
  proof (rule inj_onI)
    fix i j assume ij: "i \<in> {0..<A}" "j \<in> {0..<A}" "es' ! (i mod (A + 64)) = es' ! (j mod (A + 64))"
    then have "es ! ((hp_deleted h + i) mod A) = es ! ((hp_deleted h + j) mod A)" by (simp add: nth)
    moreover have "inj_on (\<lambda>i. es ! (i mod A)) {hp_deleted h..<hp_added h}" using assms(2,4) by (simp add: hp_slots_def A_def)
    ultimately show "i = j" using img ij(1,2) by (auto dest: inj_onD)
  qed
  moreover have "es' ! i < length (hp_heap h)" if "i < A" for i
    using assms(2,4) img [OF that] by (simp add: nth [OF that] hp_slots_def A_def)
  moreover have "length es' = A + 64" using sl(1) k assms(5) by (simp add: es'_def)
  ultimately have "hp_slots (hp_grow junk h es) es'" by (simp add: hp_slots_def g)
  moreover have "hp_live (hp_grow junk h es) = hp_live h"
  proof -
    have "hp_entry (hp_grow junk h es) i = hp_entry h (i + hp_deleted h)" if "i < A" for i
      using that by (simp add: hp_entry_def g assms(1) nth A_def [symmetric] add.commute)
    then have "map (hp_entry (hp_grow junk h es)) [0..<A] = map (hp_entry h) (map (\<lambda>i. i + hp_deleted h) [0..<A])" by simp
    also have "map (\<lambda>i. i + hp_deleted h) [0..<A] = [hp_deleted h..<hp_added h]" by (simp add: map_add_upt sl(4) add.commute)
    finally show ?thesis by (simp add: hp_live_def g flip: rev_map)
  qed
  moreover have "es' ! i \<noteq> p" if "i < A" for i
    using assms(4,6) img [OF that] by (simp add: nth [OF that] A_def)
  ultimately show ?thesis by (intro exI [of _ es']) (simp add: g)
qed

lemma hp_link_live:
  assumes "hp_entries h = Some es" "hp_slots h es" "p < length (hp_heap h)" "length (junk 64) = 64"
    and "\<forall>i\<in>{hp_reused h..<hp_added h}. es ! (i mod hp_allocated h) \<noteq> p"
    and "hp_added h < hp_reused h + hp_allocated h \<or> hp_reused h = hp_deleted h \<and> hp_added h - hp_deleted h = hp_allocated h"
  shows "\<exists>es'. hp_entries (hp_link junk h p) = Some es' \<and> hp_slots (hp_link junk h p) es'
    \<and> hp_live (hp_link junk h p) = hp_heap h ! p # hp_live h \<and> hp_heap (hp_link junk h p) = hp_heap h
    \<and> hp_storage (hp_link junk h p) = hp_storage h \<and> hp_pos (hp_link junk h p) = hp_pos h
    \<and> hp_size (hp_link junk h p) = hp_size h \<and> hp_free (hp_link junk h p) = hp_free h"
proof (cases "hp_added h - hp_deleted h = hp_allocated h")
  case True
  have r: "hp_reused h = hp_deleted h" using True assms(2,6) by (auto simp: hp_slots_def)
  from hp_grow_slots [where junk = junk, OF assms(1,2) True r assms(4,5)] obtain es1 where
    g: "hp_entries (hp_grow junk h es) = Some es1" "hp_slots (hp_grow junk h es) es1" "hp_live (hp_grow junk h es) = hp_live h"
    "hp_added (hp_grow junk h es) - hp_deleted (hp_grow junk h es) \<noteq> hp_allocated (hp_grow junk h es)"
    "hp_added (hp_grow junk h es) < hp_reused (hp_grow junk h es) + hp_allocated (hp_grow junk h es)"
    "\<forall>i\<in>{hp_reused (hp_grow junk h es)..<hp_added (hp_grow junk h es)}. es1 ! (i mod hp_allocated (hp_grow junk h es)) \<noteq> p"
    by blast
  have f: "hp_heap (hp_grow junk h es) = hp_heap h" "hp_storage (hp_grow junk h es) = hp_storage h" "hp_pos (hp_grow junk h es) = hp_pos h"
    "hp_size (hp_grow junk h es) = hp_size h" "hp_free (hp_grow junk h es) = hp_free h" by (simp_all add: hp_grow_def Let_def)
  show ?thesis using hp_link_slots [OF g(1,2) _ g(6,4,5)] assms(1,3) True g(1,3) f by (auto simp: hp_link_def Let_def)
next
  case False
  with assms(6) have "hp_added h < hp_reused h + hp_allocated h" by blast
  from hp_link_slots [OF assms(1-3,5) False this] assms(1) False show ?thesis by (auto simp: hp_link_def Let_def)
qed

text \<open>The effect of an insertion, on the list of headers and the maximal size.\<close>

definition hp_max :: "ngx_http_v2_hpack_t \<Rightarrow> int" where
  "hp_max h = (if hp_entries h = None then 4096 else hp_size h)"

lemma hp_fit_headers:
  assumes "length st = 4096" "hp_chain pos d es" "d + hp_bytes es \<le> 4096"
  shows "map (hp_header st) (hp_fit_entries m es) = hp_fit m (map (hp_header st) es)"
  using assms
proof (induction es arbitrary: m d)
  case (Cons e es)
  obtain n v where hv: "hp_header st e = (n, v)" by (metis surj_pair)
  have "length (hp_ring_read st (name_data e) (name_len e)) = name_len e" "length (hp_ring_read st (value_data e) (value_len e)) = value_len e"
    using Cons.prems by (subst hp_ring_read_nth; simp)+
  then have "length n = name_len e" "length v = value_len e" using hv by (simp_all add: hp_header_def)
  moreover have "map (hp_header st) (hp_fit_entries (m - hp_entry_size e) es) = hp_fit (m - hp_entry_size e) (map (hp_header st) es)"
    by (rule Cons.IH) (use Cons.prems in auto)
  ultimately show ?case by (simp add: hv hp_entry_size_def Let_def)
qed simp

lemma hp_data_fit:
  assumes "hp_data x h" "0 \<le> x"
  shows "map (hp_header (hp_storage h)) (hp_fit_entries m (hp_live h)) = hp_fit m (hp_headers h)"
proof -
  have "hp_bytes (hp_live h) \<le> 4096" using hp_bytes_total [of "hp_live h"] assms by (simp add: hp_data_def)
  with hp_fit_headers [of "hp_storage h" "hp_pos h" 0 "hp_live h" m] assms(1) show ?thesis
    by (simp add: hp_data_def hp_headers_def)
qed

lemma hp_add_header:
  assumes "hp_inv h" "\<And>k. length (junk k) = k" "length junk_storage = 4096"
  shows "\<exists>h'. ngx_http_v2_add_header junk junk_storage h name value = (NGX_OK, h') \<and> hp_inv h' \<and> hp_entries h' \<noteq> None
    \<and> hp_max h' = hp_max h
    \<and> hp_headers h' = (let s = 32 + int (length name) + int (length value) in
        if s \<le> hp_max h then (name, value) # hp_fit (hp_max h - s) (hp_headers h) else [])"
proof -
  define h0 where "h0 = hp_init junk junk_storage h"
  obtain es where es: "hp_entries h0 = Some es" "hp_slots h0 es" "hp_data 0 h0" "hp_size h0 = hp_max h" "hp_headers h0 = hp_headers h"
  proof (cases "hp_entries h")
    case (Some es)
    with assms(1) that [of es] show ?thesis by (simp add: h0_def hp_init_def hp_inv_def hp_max_def)
  next
    case None
    then have "hp_live h0 = []" "hp_live h = []" using assms(1) by (simp_all add: hp_live_def h0_def hp_init_def hp_inv_def)
    with None assms that [of "junk 64"] show ?thesis
      by (simp add: h0_def hp_init_def hp_inv_def hp_max_def hp_headers_def hp_slots_def hp_data_def)
  qed
  let ?n = "int (length name + length value)"
  let ?s = "32 + int (length name) + int (length value)"
  have s: "?n + 32 = ?s" "0 \<le> ?n" by simp_all
  from hp_account [OF es(2,3) s(2) es(1), unfolded s(1) es(4)] obtain h1 where
    h1: "ngx_http_v2_table_account h0 ?n = (if ?s \<le> hp_max h then NGX_OK else NGX_DECLINED, h1)" "hp_slots h1 es"
    "hp_entries h1 = Some es" "hp_size h1 = hp_max h" "hp_storage h1 = hp_storage h0" "hp_pos h1 = hp_pos h0"
    "hp_live h1 = (if ?s \<le> hp_max h then hp_fit_entries (hp_max h - ?s) (hp_live h0) else [])"
    "hp_data (if ?s \<le> hp_max h then ?s else 0) h1" by auto
  show ?thesis
  proof (cases "?s \<le> hp_max h")
    case False
    with h1 show ?thesis
      by (intro exI [of _ h1]) (simp add: ngx_http_v2_add_header_def h0_def [symmetric] hp_inv_def hp_headers_def hp_max_def Let_def)
  next
    case True
    have hd1: "hp_headers h1 = hp_fit (hp_max h - ?s) (hp_headers h)"
      using hp_data_fit [OF es(3), of "hp_max h - ?s"] True by (simp add: hp_headers_def h1(5,7) es(5) [unfolded hp_headers_def])
    obtain p h2 where t: "hp_take_entry h1 es = (p, h2)" by (metis surj_pair)
    have f2: "hp_entries h2 = Some es" "hp_size h2 = hp_size h1" "hp_free h2 = hp_free h1" "hp_storage h2 = hp_storage h1" "hp_pos h2 = hp_pos h1"
      using t h1(3) by (auto simp: hp_take_entry_def split: if_splits)
    note fr = hp_take_entry_fresh [OF h1(2) t h1(3)]
    then have l2: "hp_live h2 = hp_live h1" "hp_slots h2 es" "p < length (hp_heap h2)"
      "\<forall>i\<in>{hp_reused h2..<hp_added h2}. es ! (i mod hp_allocated h2) \<noteq> p" by blast+
    have d2: "hp_data ?s h2" using h1(8) True f2 l2(1) by (simp add: hp_data_def)
    from hp_store_data [OF d2 refl f2(1) l2(2-4)] obtain h3 e where
      h3: "hp_store h2 p name value = h3" "hp_slots h3 es" "hp_entries h3 = Some es" "hp_heap h3 ! p = e"
      "hp_added h3 = hp_added h2" "hp_deleted h3 = hp_deleted h2" "hp_reused h3 = hp_reused h2" "hp_allocated h3 = hp_allocated h2"
      "hp_size h3 = hp_size h2" "hp_free h3 = hp_free h2" "hp_live h3 = hp_live h2" "p < length (hp_heap h3)"
      "length (hp_storage h3) = 4096" "hp_pos h3 \<le> 4096" "hp_chain (hp_pos h3) 0 (e # hp_live h2)"
      "hp_entry_size e = ?s" "hp_headers h3 = hp_headers h2" "hp_header (hp_storage h3) e = (name, value)" by blast
    have "\<forall>i\<in>{hp_reused h3..<hp_added h3}. es ! (i mod hp_allocated h3) \<noteq> p"
      "hp_added h3 < hp_reused h3 + hp_allocated h3 \<or> hp_reused h3 = hp_deleted h3 \<and> hp_added h3 - hp_deleted h3 = hp_allocated h3"
      using fr l2(4) by (auto simp: h3(5-8))
    from hp_link_live [where junk = junk, OF h3(3,2,12) assms(2) this] obtain es' where
      h4: "hp_entries (hp_link junk h3 p) = Some es'" "hp_slots (hp_link junk h3 p) es'"
      "hp_live (hp_link junk h3 p) = e # hp_live h3" "hp_storage (hp_link junk h3 p) = hp_storage h3" "hp_pos (hp_link junk h3 p) = hp_pos h3"
      "hp_size (hp_link junk h3 p) = hp_size h3" "hp_free (hp_link junk h3 p) = hp_free h3" unfolding h3(4) by blast
    have "hp_data 0 (hp_link junk h3 p)" using d2 h3 h4 by (simp add: hp_data_def)
    moreover have "hp_headers (hp_link junk h3 p) = (name, value) # hp_headers h1"
      using h3(17,18) h4(3,4) l2(1) f2(4) by (simp add: hp_headers_def)
    ultimately show ?thesis using True h1(1,3,4) t h3(1) h3(9) h4 f2(2) hd1
      by (intro exI [of _ "hp_link junk h3 p"])
        (simp add: ngx_http_v2_add_header_def h0_def [symmetric] hp_inv_def hp_max_def Let_def)
  qed
qed

lemma hp_table_size:
  assumes "hp_inv h" "0 \<le> z"
  shows "\<exists>h'. ngx_http_v2_table_size h z = (if z \<le> 4096 then NGX_OK else NGX_ERROR, h') \<and> hp_inv h'
    \<and> (hp_entries h' = None \<longleftrightarrow> hp_entries h = None)
    \<and> (if z \<le> 4096 \<and> hp_entries h \<noteq> None then hp_max h' = z \<and> hp_headers h' = hp_fit z (hp_headers h)
       else hp_max h' = hp_max h \<and> hp_headers h' = hp_headers h)"
proof (cases "z \<le> 4096")
  case False
  with assms show ?thesis by (simp add: ngx_http_v2_table_size_def)
next
  case z: True
  show ?thesis
  proof (cases "hp_entries h")
    case None
    then have f: "hp_free h = hp_size h" "hp_added h = 0" "hp_deleted h = 0" "hp_reused h = 0" using assms(1) by (simp_all add: hp_inv_def)
    have "hp_evict (hp_size h - z) h = h" using f(1) assms(2) by (subst hp_evict.simps) simp
    with z None f assms(2) show ?thesis
      by (intro exI [of _ "h\<lparr>hp_size := z, hp_free := z\<rparr>"])
        (simp add: ngx_http_v2_table_size_def Let_def hp_inv_def hp_max_def hp_headers_def hp_live_def)
  next
    case (Some es)
    then have i: "hp_slots h es" "hp_data 0 h" using assms(1) by (simp_all add: hp_inv_def)
    have "hp_size h - z \<le> hp_size h - 0" using assms(2) by simp
    note e = hp_evict_fit [OF i this]
    define h1 where "h1 = hp_evict (hp_size h - z) h"
    from e obtain d' f' where h1: "h1 = h\<lparr>hp_deleted := d', hp_free := f'\<rparr>" by (metis h1_def)
    define h2 where "h2 = h1\<lparr>hp_size := z, hp_free := hp_free h1 - (hp_size h - z)\<rparr>"
    have h1e: "hp_slots h1 es" "hp_data 0 h1" "hp_size h - z \<le> hp_free h1" "hp_live h1 = hp_fit_entries z (hp_live h)"
      using e by (simp_all add: h1_def)
    have "hp_data 0 h2" using h1e z by (auto simp: hp_data_def h2_def h1)
    moreover have "hp_slots h2 es" using h1e by (simp add: h2_def)
    moreover have "hp_headers h2 = hp_fit z (hp_headers h)"
      using hp_data_fit [OF i(2), of z] h1e(4) by (simp add: hp_headers_def h2_def h1)
    ultimately show ?thesis using z Some
      by (intro exI [of _ h2]) (simp add: ngx_http_v2_table_size_def Let_def h1_def [symmetric] h2_def [symmetric] hp_inv_def hp_max_def,
        simp add: h2_def h1)
  qed
qed

text \<open>A lookup as the specification has it: the static table, then the dynamic one with the newest first.\<close>

definition hpack_lookup ::
  "(u_char list \<times> u_char list) list \<Rightarrow> nat \<Rightarrow> bool \<Rightarrow> (u_char list \<times> u_char list option) option"
where
  "hpack_lookup table index name_only =
     (if index = 0 then None
      else if index \<le> 61
      then Some (fst (ngx_http_v2_static_table ! (index - 1)), Some (snd (ngx_http_v2_static_table ! (index - 1))))
      else if index - 62 < length table
      then Some (fst (table ! (index - 62)), if name_only then None else Some (snd (table ! (index - 62))))
      else None)"

lemma length_static_table: "length ngx_http_v2_static_table = 61"
  by (simp add: ngx_http_v2_static_table_def)

lemma hp_get_indexed: "hp_inv h \<Longrightarrow> ngx_http_v2_get_indexed_header h i name_only = hpack_lookup (hp_headers h) i name_only"
proof -
  have len: "length (hp_headers h) = hp_added h - hp_deleted h" by (simp add: hp_headers_def hp_live_def)
  have "hp_headers h ! k = hp_header (hp_storage h) (hp_entry h (hp_added h - k - 1))" if "k < hp_added h - hp_deleted h" for k
    using that by (simp add: hp_headers_def hp_live_def rev_nth)
  then show ?thesis
    by (auto simp: ngx_http_v2_get_indexed_header_def hpack_lookup_def length_static_table Let_def len hp_header_def)
qed

section \<open>Sequences of operations\<close>

text \<open>
  The interface that the header block parser relies on: a table in some representation, with the view that is a
  flag (something was inserted), the maximal size and the list of headers.
\<close>

type_synonym hpack_view = "bool \<times> int \<times> (u_char list \<times> u_char list) list"

datatype hpack_op = Hp_add "u_char list" "u_char list" | Hp_size nat | Hp_get nat bool

datatype hpack_result = Hp_rc int | Hp_found "(u_char list \<times> u_char list option) option"

definition spec_add :: "hpack_view \<Rightarrow> u_char list \<Rightarrow> u_char list \<Rightarrow> hpack_view" where
  "spec_add w n v = (case w of (used, m, table) \<Rightarrow>
     let s = 32 + int (length n) + int (length v) in (True, m, if s \<le> m then (n, v) # hp_fit (m - s) table else []))"

text \<open>
  The flag is not in RFC 7541: this code forgets a new maximal size that comes before the first insertion. The view with the flag describes the code in all sequences; the
  list of the standard, which has no flag, follows below.
\<close>

definition spec_size :: "hpack_view \<Rightarrow> nat \<Rightarrow> hpack_view" where
  "spec_size w z = (case w of (used, m, table) \<Rightarrow>
     if z \<le> 4096 \<and> used then (used, int z, hp_fit (int z) table) else (used, m, table))"

fun spec_do :: "hpack_view \<Rightarrow> hpack_op \<Rightarrow> hpack_result \<times> hpack_view" where
  "spec_do w (Hp_add n v) = (Hp_rc NGX_OK, spec_add w n v)"
| "spec_do w (Hp_size z) = (Hp_rc (if z \<le> 4096 then NGX_OK else NGX_ERROR), spec_size w z)"
| "spec_do w (Hp_get i name_only) = (Hp_found (hpack_lookup (snd (snd w)) i name_only), w)"

fun spec_run :: "hpack_view \<Rightarrow> hpack_op list \<Rightarrow> hpack_result list" where
  "spec_run w [] = []"
| "spec_run w (x # xs) = (case spec_do w x of (r, w') \<Rightarrow> r # spec_run w' xs)"

fun table_run ::
  "('s \<Rightarrow> u_char list \<Rightarrow> u_char list \<Rightarrow> int \<times> 's) \<Rightarrow> ('s \<Rightarrow> int \<Rightarrow> int \<times> 's)
     \<Rightarrow> ('s \<Rightarrow> nat \<Rightarrow> bool \<Rightarrow> (u_char list \<times> u_char list option) option) \<Rightarrow> 's \<Rightarrow> hpack_op list \<Rightarrow> hpack_result list"
where
  "table_run add set_size get h [] = []"
| "table_run add set_size get h (x # xs) =
     (case x of
        Hp_add n v \<Rightarrow> (case add h n v of (rc, h') \<Rightarrow> Hp_rc rc # table_run add set_size get h' xs)
      | Hp_size z \<Rightarrow> (case set_size h (int z) of (rc, h') \<Rightarrow> Hp_rc rc # table_run add set_size get h' xs)
      | Hp_get i name_only \<Rightarrow> Hp_found (get h i name_only) # table_run add set_size get h xs)"

locale header_table =
  fixes inv :: "'s \<Rightarrow> bool"
    and view :: "'s \<Rightarrow> hpack_view"
    and add :: "'s \<Rightarrow> u_char list \<Rightarrow> u_char list \<Rightarrow> int \<times> 's"
    and set_size :: "'s \<Rightarrow> int \<Rightarrow> int \<times> 's"
    and get :: "'s \<Rightarrow> nat \<Rightarrow> bool \<Rightarrow> (u_char list \<times> u_char list option) option"
  assumes add_law: "inv h \<Longrightarrow> add h n v = (rc, h') \<Longrightarrow> rc = NGX_OK \<and> inv h' \<and> view h' = spec_add (view h) n v"
    and size_law: "inv h \<Longrightarrow> set_size h (int z) = (rc, h') \<Longrightarrow>
      rc = (if z \<le> 4096 then NGX_OK else NGX_ERROR) \<and> inv h' \<and> view h' = spec_size (view h) z"
    and get_law: "inv h \<Longrightarrow> get h i name_only = hpack_lookup (snd (snd (view h))) i name_only"
begin

lemma run_refines: "inv h \<Longrightarrow> table_run add set_size get h xs = spec_run (view h) xs"
proof (induction xs arbitrary: h)
  case (Cons x xs)
  show ?case
  proof (cases x)
    case (Hp_add n v)
    obtain rc h' where "add h n v = (rc, h')" by (metis surj_pair)
    with Hp_add add_law [OF Cons.prems this] Cons.IH [of h'] show ?thesis by simp
  next
    case (Hp_size z)
    obtain rc h' where "set_size h (int z) = (rc, h')" by (metis surj_pair)
    with Hp_size size_law [OF Cons.prems this] Cons.IH [of h'] show ?thesis by simp
  next
    case (Hp_get i name_only)
    with get_law [OF Cons.prems] Cons show ?thesis by simp
  qed
qed simp

end

text \<open>The memory that the allocator gives: slots and bytes with any contents.\<close>

locale hpack_memory =
  fixes junk :: "nat \<Rightarrow> nat list" and junk_storage :: "u_char list"
  assumes length_junk: "length (junk k) = k"
    and length_junk_storage: "length junk_storage = 4096"

definition hp_view :: "ngx_http_v2_hpack_t \<Rightarrow> hpack_view" where
  "hp_view h = (hp_entries h \<noteq> None, hp_max h, hp_headers h)"

sublocale hpack_memory \<subseteq> tbl: header_table hp_inv hp_view "ngx_http_v2_add_header junk junk_storage"
  ngx_http_v2_table_size ngx_http_v2_get_indexed_header
proof
  fix h n v rc h' assume "hp_inv h" "ngx_http_v2_add_header junk junk_storage h n v = (rc, h')"
  then show "rc = NGX_OK \<and> hp_inv h' \<and> hp_view h' = spec_add (hp_view h) n v"
    using hp_add_header [of h junk junk_storage n v] length_junk length_junk_storage
    by (auto simp: hp_view_def spec_add_def Let_def)
next
  fix h z rc h' assume "hp_inv h" "ngx_http_v2_table_size h (int z) = (rc, h')"
  then show "rc = (if z \<le> 4096 then NGX_OK else NGX_ERROR) \<and> hp_inv h' \<and> hp_view h' = spec_size (hp_view h) z"
    using hp_table_size [of h "int z"] by (auto simp: hp_view_def spec_size_def split: if_splits)
next
  fix h i name_only assume "hp_inv h"
  then show "ngx_http_v2_get_indexed_header h i name_only = hpack_lookup (snd (snd (hp_view h))) i name_only"
    by (simp add: hp_view_def hp_get_indexed)
qed

interpretation zeroed: hpack_memory "\<lambda>k. replicate k 0" "replicate 4096 0"
  by unfold_locales simp_all

lemma hp_inv_new: "hp_inv new_hpack" "hp_view new_hpack = (False, 4096, [])"
  by (simp_all add: hp_inv_def new_hpack_def hp_view_def hp_max_def hp_headers_def hp_live_def)

context hpack_memory begin

lemma new_table_refines:
  "table_run (ngx_http_v2_add_header junk junk_storage) ngx_http_v2_table_size ngx_http_v2_get_indexed_header new_hpack xs =
    spec_run (False, 4096, []) xs"
  using tbl.run_refines [OF hp_inv_new(1)] by (simp add: hp_inv_new(2))

end

text \<open>
  The dynamic table of RFC 7541, section 4: a list with the newest header first and its maximal size; an insertion evicts from the end until the new header
  fits and a header that is larger than the table empties it; a new maximal size up to the agreed 4,096 evicts at once.
\<close>

fun rfc_do :: "int \<times> (u_char list \<times> u_char list) list \<Rightarrow> hpack_op \<Rightarrow> hpack_result \<times> int \<times> (u_char list \<times> u_char list) list" where
  "rfc_do (m, table) (Hp_add n v) =
     (let s = 32 + int (length n) + int (length v) in (Hp_rc NGX_OK, m, if s \<le> m then (n, v) # hp_fit (m - s) table else []))"
| "rfc_do (m, table) (Hp_size z) =
     (if z \<le> 4096 then (Hp_rc NGX_OK, int z, hp_fit (int z) table) else (Hp_rc NGX_ERROR, m, table))"
| "rfc_do (m, table) (Hp_get i name_only) = (Hp_found (hpack_lookup table i name_only), m, table)"

fun rfc_run :: "int \<times> (u_char list \<times> u_char list) list \<Rightarrow> hpack_op list \<Rightarrow> hpack_result list" where
  "rfc_run w [] = []"
| "rfc_run w (x # xs) = (case rfc_do w x of (r, w') \<Rightarrow> r # rfc_run w' xs)"

text \<open>No new maximal size below 4,096 comes before the first insertion.\<close>

fun no_early_size :: "hpack_op list \<Rightarrow> bool" where
  "no_early_size [] = True"
| "no_early_size (Hp_add n v # xs) = True"
| "no_early_size (Hp_size z # xs) = (4096 \<le> z \<and> no_early_size xs)"
| "no_early_size (Hp_get i name_only # xs) = no_early_size xs"

lemma spec_run_used: "spec_run (True, m, table) xs = rfc_run (m, table) xs"
proof (induction xs arbitrary: m table)
  case (Cons x xs)
  then show ?case by (cases x) (simp_all add: spec_add_def spec_size_def Let_def)
qed simp

lemma spec_run_new: "no_early_size xs \<Longrightarrow> spec_run (False, 4096, []) xs = rfc_run (4096, []) xs"
proof (induction xs rule: no_early_size.induct)
  case (2 n v xs)
  then show ?case by (simp add: spec_add_def Let_def spec_run_used)
next
  case (3 z xs)
  then show ?case by (cases "z = 4096") (simp_all add: spec_size_def)
qed simp_all

text \<open>
  C13: The dynamic table implements the list of RFC 7541, provided that no new maximal size below 4,096 comes before the first insertion (the code forgets
  such a size, \<open>hpack_size_forgotten\<close>). Whatever sequence of insertions, size updates and lookups with this restriction is
  run on a new table, and whatever the memory held before, every result is that of the list with the
  newest header first and the oldest evicted, although the strings share a ring of 4,096 bytes and
  the structures and slots of evicted entries are used again.
\<close>

theorem hpack_table_refines:
  assumes "\<And>k. length (junk k) = k" "length junk_storage = 4096" "no_early_size xs"
  shows "table_run (ngx_http_v2_add_header junk junk_storage) ngx_http_v2_table_size ngx_http_v2_get_indexed_header new_hpack xs =
    rfc_run (4096, []) xs"
  using hpack_memory.new_table_refines [OF hpack_memory.intro [OF assms(1,2)]] spec_run_new [OF assms(3)] by simp

theorem hpack_table_refines_witness:
  "table_run (ngx_http_v2_add_header (\<lambda>k. replicate k 7) (replicate 4096 1)) ngx_http_v2_table_size
     ngx_http_v2_get_indexed_header new_hpack
     [Hp_add (bytes ''a'') (bytes ''bc''), Hp_add (bytes ''d'') [], Hp_get 63 False, Hp_size 40, Hp_get 62 True, Hp_get 63 False] =
   [Hp_rc NGX_OK, Hp_rc NGX_OK, Hp_found (Some (bytes ''a'', Some (bytes ''bc''))), Hp_rc NGX_OK,
    Hp_found (Some (bytes ''d'', None)), Hp_found None]"
proof -
  have "rfc_run (4096, [])
      [Hp_add (bytes ''a'') (bytes ''bc''), Hp_add (bytes ''d'') [], Hp_get 63 False, Hp_size 40, Hp_get 62 True, Hp_get 63 False] =
   [Hp_rc NGX_OK, Hp_rc NGX_OK, Hp_found (Some (bytes ''a'', Some (bytes ''bc''))), Hp_rc NGX_OK,
    Hp_found (Some (bytes ''d'', None)), Hp_found None]" by code_simp
  then show ?thesis by (subst hpack_table_refines) simp_all
qed

text \<open>
  C32: The invariant of the dynamic table is kept by an insertion, whatever the header, and by a change of the size, so
  it holds in every state that is reached: the slots in use hold pointers to different structures, the counters are in
  order, the strings of the table lie one behind the other in the ring without overlap, and the
  sizes of the entries add up to no more than the maximal size, which is at most 4,096.
\<close>

theorem hpack_table_invariant:
  assumes "hp_inv h" "\<And>k. length (junk k) = k" "length junk_storage = 4096"
    and "h' = snd (ngx_http_v2_add_header junk junk_storage h name value) \<or> h' = snd (ngx_http_v2_table_size h (int z))"
  shows "hp_inv h' \<and> hp_total (hp_live h') \<le> hp_max h' \<and> hp_max h' \<le> 4096"
proof -
  have inv: "hp_inv h'"
    using assms(4) hp_add_header [OF assms(1-3), of name "value"] hp_table_size [OF assms(1), of "int z"] by auto
  have "hp_total (hp_live h') \<le> hp_max h' \<and> hp_max h' \<le> 4096"
  proof (cases "hp_entries h'")
    case None
    with inv have "hp_live h' = []" by (simp add: hp_inv_def hp_live_def)
    with None show ?thesis by (simp add: hp_max_def)
  next
    case (Some es)
    with inv show ?thesis by (simp add: hp_inv_def hp_data_def hp_max_def)
  qed
  with inv show ?thesis by simp
qed

theorem hpack_table_invariant_witness:
  "hp_inv (snd (ngx_http_v2_add_header (\<lambda>k. replicate k 0) (replicate 4096 0) new_hpack (bytes ''a'') (bytes ''bc'')))"
  using hpack_table_invariant [OF hp_inv_new(1), of "\<lambda>k. replicate k 0" "replicate 4096 0" _ "bytes ''a''" "bytes ''bc''" 0] by simp

text \<open>
  A new maximal size that comes before the first insertion is lost, because the table is set up with its
  full size then: a client that has set the size to 0 finds the header in the table.
\<close>

lemma hpack_size_forgotten:
  "table_run (ngx_http_v2_add_header (\<lambda>k. replicate k 0) (replicate 4096 0)) ngx_http_v2_table_size
     ngx_http_v2_get_indexed_header new_hpack [Hp_size 0, Hp_add (bytes ''a'') (bytes ''b''), Hp_get 62 False] =
   [Hp_rc NGX_OK, Hp_rc NGX_OK, Hp_found (Some (bytes ''a'', Some (bytes ''b'')))]"
proof -
  have "spec_run (False, 4096, []) [Hp_size 0, Hp_add (bytes ''a'') (bytes ''b''), Hp_get 62 False] =
    [Hp_rc NGX_OK, Hp_rc NGX_OK, Hp_found (Some (bytes ''a'', Some (bytes ''b'')))]" by code_simp
  then show ?thesis by (subst zeroed.tbl.run_refines [OF hp_inv_new(1)]) (simp add: hp_inv_new(2))
qed

end
