(* ===== verification/Ngx_Http_Upstream_Rr.thy ===== *)
theory Ngx_Http_Upstream_Rr
  imports Ngx_Prelude
begin

text \<open>
  The choice of an upstream server, \<^verbatim>\<open>http/ngx_http_upstream_round_robin.c\<close>: the peers made from the
  configuration, the smooth weighted round robin of \<^verbatim>\<open>ngx_http_upstream_get_peer\<close> and the callbacks
  \<^verbatim>\<open>get\<close> and \<^verbatim>\<open>free\<close> that a request calls. The groups of peers are shared by all requests: they are
  the list \<open>us\<close>, the servers first and the backup servers, if any, second, and \<^verbatim>\<open>peers->next\<close> is the next
  group of the list. An address stands for the socket address of a peer and for its printed form, \<^verbatim>\<open>peer->name\<close>. A pointer to a group is its number, a pointer to a peer the number of its group
  and its position. The locks of a shared zone make each operation atomic and are left out. A weight is an
  \<open>int\<close> in the place of \<^verbatim>\<open>ngx_int_t\<close>, with \<open>s64\<close> around the arithmetic; the counters are words.
\<close>

section \<open>State\<close>

abbreviation (input) NGX_BUSY :: int where "NGX_BUSY \<equiv> - 3"
abbreviation (input) NGX_PEER_FAILED :: "64 word" where "NGX_PEER_FAILED \<equiv> 4"

record ngx_http_upstream_server_t =
  srv_name :: ngx_str_t
  srv_addrs :: "ngx_str_t list"
  srv_weight :: int
  srv_max_conns :: "64 word"
  srv_max_fails :: "64 word"
  srv_fail_timeout :: int
  srv_down :: bool
  srv_backup :: bool

record ngx_http_upstream_rr_peer_t =
  rp_sockaddr :: ngx_str_t
  rp_server :: ngx_str_t
  rp_current_weight :: int
  rp_effective_weight :: int
  rp_weight :: int
  rp_conns :: "64 word"
  rp_max_conns :: "64 word"
  rp_fails :: "64 word"
  rp_accessed :: int
  rp_checked :: int
  rp_max_fails :: "64 word"
  rp_fail_timeout :: int
  rp_down :: bool

record ngx_http_upstream_rr_peers_t =
  rps_number :: nat
  rps_total_weight :: "64 word"
  rps_single :: bool
  rps_weighted :: bool
  rps_name :: ngx_str_t
  rps_peer :: "ngx_http_upstream_rr_peer_t list"

type_synonym upstream = "ngx_http_upstream_rr_peers_t list"

text \<open>The balancing state of one request; \<^verbatim>\<open>tried\<close> is a bitmap of words.\<close>

record ngx_http_upstream_rr_peer_data_t =
  rrp_peers :: nat
  rrp_current :: "(nat \<times> nat) option"
  rrp_tried :: "64 word list"

record ngx_peer_connection_t =
  pc_sockaddr :: "ngx_str_t option"
  pc_name :: ngx_str_t
  pc_tries :: nat
  pc_cached :: bool
  pc_connection :: bool

section \<open>Configuration\<close>

definition rr_new_peer :: "ngx_http_upstream_server_t \<Rightarrow> ngx_str_t \<Rightarrow> ngx_http_upstream_rr_peer_t" where
  "rr_new_peer server addr =
     \<lparr>rp_sockaddr = addr, rp_server = srv_name server, rp_current_weight = 0,
      rp_effective_weight = srv_weight server, rp_weight = srv_weight server, rp_conns = 0,
      rp_max_conns = srv_max_conns server, rp_fails = 0, rp_accessed = 0, rp_checked = 0,
      rp_max_fails = srv_max_fails server, rp_fail_timeout = srv_fail_timeout server, rp_down = srv_down server\<rparr>"

definition rr_new_peers :: "ngx_str_t \<Rightarrow> ngx_http_upstream_server_t list \<Rightarrow> ngx_http_upstream_rr_peers_t" where
  "rr_new_peers host servers =
     (let n = sum_list (map (\<lambda>s. length (srv_addrs s)) servers);
          w = sum_list (map (\<lambda>s. of_nat (length (srv_addrs s)) * word_of_int (srv_weight s)) servers)
      in \<lparr>rps_number = n, rps_total_weight = w, rps_single = (n = 1), rps_weighted = (w \<noteq> of_nat n),
          rps_name = host, rps_peer = concat (map (\<lambda>s. map (rr_new_peer s) (srv_addrs s)) servers)\<rparr>)"

text \<open>A peer of an upstream that no \<^verbatim>\<open>upstream\<close> block defines.\<close>

definition rr_default_peer :: "ngx_str_t \<Rightarrow> ngx_http_upstream_rr_peer_t" where
  "rr_default_peer addr =
     \<lparr>rp_sockaddr = addr, rp_server = [], rp_current_weight = 0, rp_effective_weight = 1, rp_weight = 1, rp_conns = 0,
      rp_max_conns = 0, rp_fails = 0, rp_accessed = 0, rp_checked = 0, rp_max_fails = 1, rp_fail_timeout = 10,
      rp_down = False\<rparr>"

text \<open>
  \<open>None\<close> is \<^verbatim>\<open>NGX_ERROR\<close>. The servers of the block are absent for an upstream that is only named, whose host is then
  resolved; \<open>resolved\<close> is what the resolver answers.
\<close>

definition ngx_http_upstream_init_round_robin ::
  "ngx_str_t \<Rightarrow> ngx_http_upstream_server_t list option \<Rightarrow> nat \<Rightarrow> ngx_str_t list option \<Rightarrow> upstream option"
where
  "ngx_http_upstream_init_round_robin host servers port resolved =
     (case servers of
        Some servers \<Rightarrow>
          (let peers = rr_new_peers host (filter (\<lambda>s. \<not> srv_backup s) servers);
               backup = rr_new_peers host (filter srv_backup servers)
           in if rps_number peers = 0 then None
              else if rps_number backup = 0 then Some [peers]
              else Some [peers\<lparr>rps_single := False\<rparr>, backup\<lparr>rps_single := False\<rparr>])
      | None \<Rightarrow>
          if port = 0 then None
          else case resolved of
            None \<Rightarrow> None
          | Some addrs \<Rightarrow>
              let n = length addrs in
              Some [\<lparr>rps_number = n, rps_total_weight = of_nat n, rps_single = (n = 1), rps_weighted = False,
                     rps_name = host, rps_peer = map rr_default_peer addrs\<rparr>])"

text \<open>The number of words of the bitmap: one is part of the structure.\<close>

definition rr_tried_words :: "nat \<Rightarrow> nat" where
  "rr_tried_words n = (if n \<le> 64 then 1 else (n + 63) div 64)"

definition ngx_http_upstream_tries :: "upstream \<Rightarrow> nat" where
  "ngx_http_upstream_tries us = rps_number (us ! 0) + (if 1 < length us then rps_number (us ! 1) else 0)"

definition rr_new_connection :: "upstream \<Rightarrow> ngx_peer_connection_t" where
  "rr_new_connection us = \<lparr>pc_sockaddr = None, pc_name = [], pc_tries = ngx_http_upstream_tries us,
     pc_cached = False, pc_connection = False\<rparr>"

definition ngx_http_upstream_init_round_robin_peer ::
  "upstream \<Rightarrow> ngx_peer_connection_t \<times> ngx_http_upstream_rr_peer_data_t"
where
  "ngx_http_upstream_init_round_robin_peer us =
     (let n = rps_number (us ! 0);
          m = (if 1 < length us \<and> rps_number (us ! 1) > n then rps_number (us ! 1) else n)
      in (rr_new_connection us,
          \<lparr>rrp_peers = 0, rrp_current = None, rrp_tried = replicate (rr_tried_words m) 0\<rparr>))"

text \<open>
  An upstream of the request alone, made from the addresses of a host name that was resolved for it;
  \<^verbatim>\<open>total_weight\<close> and \<^verbatim>\<open>weighted\<close> stay zero.
\<close>

definition ngx_http_upstream_create_round_robin_peer ::
  "ngx_str_t \<Rightarrow> ngx_str_t list \<Rightarrow> upstream \<times> ngx_peer_connection_t \<times> ngx_http_upstream_rr_peer_data_t"
where
  "ngx_http_upstream_create_round_robin_peer host addrs =
     (let n = length addrs;
          us = [\<lparr>rps_number = n, rps_total_weight = 0, rps_single = (n = 1), rps_weighted = False,
                 rps_name = host, rps_peer = map rr_default_peer addrs\<rparr>]
      in (us, rr_new_connection us,
          \<lparr>rrp_peers = 0, rrp_current = None, rrp_tried = replicate (rr_tried_words n) 0\<rparr>))"

section \<open>Choosing a peer\<close>

definition rr_tried :: "64 word list \<Rightarrow> nat \<Rightarrow> bool" where
  "rr_tried tried i \<longleftrightarrow> tried ! (i div 64) AND push_bit (i mod 64) 1 \<noteq> 0"

definition rr_set_tried :: "64 word list \<Rightarrow> nat \<Rightarrow> 64 word list" where
  "rr_set_tried tried i = tried[i div 64 := tried ! (i div 64) OR push_bit (i mod 64) 1]"

text \<open>The checks that every balancer makes on a peer.\<close>

definition rp_failed :: "int \<Rightarrow> ngx_http_upstream_rr_peer_t \<Rightarrow> bool" where
  "rp_failed now p \<longleftrightarrow> rp_max_fails p \<noteq> 0 \<and> rp_fails p \<ge> rp_max_fails p \<and> now - rp_checked p \<le> rp_fail_timeout p"

definition rp_full :: "ngx_http_upstream_rr_peer_t \<Rightarrow> bool" where
  "rp_full p \<longleftrightarrow> rp_max_conns p \<noteq> 0 \<and> rp_conns p \<ge> rp_max_conns p"

definition rr_skip :: "int \<Rightarrow> 64 word list \<Rightarrow> nat \<Rightarrow> ngx_http_upstream_rr_peer_t \<Rightarrow> bool" where
  "rr_skip now tried i p \<longleftrightarrow> rr_tried tried i \<or> rp_down p \<or> rp_failed now p \<or> rp_full p"

definition rr_weigh :: "ngx_http_upstream_rr_peer_t \<Rightarrow> ngx_http_upstream_rr_peer_t" where
  "rr_weigh p = p\<lparr>rp_current_weight := s64 (rp_current_weight p + rp_effective_weight p),
     rp_effective_weight := (if rp_effective_weight p < rp_weight p then s64 (rp_effective_weight p + 1)
                             else rp_effective_weight p)\<rparr>"

text \<open>
  The loop over the peers from number \<open>i\<close> on, which updates them in place. It is shared with other
  balancers, which skip different peers; \<open>best\<close> is \<open>None\<close> for \<^verbatim>\<open>NULL\<close>.
\<close>

function rr_loop ::
  "(nat \<Rightarrow> ngx_http_upstream_rr_peer_t \<Rightarrow> bool) \<Rightarrow> ngx_http_upstream_rr_peer_t list \<Rightarrow> nat \<Rightarrow> nat option \<Rightarrow> int
     \<Rightarrow> ngx_http_upstream_rr_peer_t list \<times> nat option \<times> int"
where
  "rr_loop skip ps i best tot =
     (if i < length ps then
        if skip i (ps ! i) then rr_loop skip ps (i + 1) best tot
        else
          let tot = s64 (tot + rp_effective_weight (ps ! i)); ps = ps[i := rr_weigh (ps ! i)];
              best = (case best of
                        None \<Rightarrow> Some i
                      | Some b \<Rightarrow> if rp_current_weight (ps ! i) > rp_current_weight (ps ! b) then Some i else Some b)
          in rr_loop skip ps (i + 1) best tot
      else (ps, best, tot))"
  by pat_completeness auto
termination
  by (relation "measure (\<lambda>(skip, ps, i, best, tot). length ps - i)") auto

declare rr_loop.simps [simp del]

text \<open>What is done to the best peer, after the loop and by the caller.\<close>

definition rp_touch :: "int \<Rightarrow> ngx_http_upstream_rr_peer_t \<Rightarrow> ngx_http_upstream_rr_peer_t" where
  "rp_touch now p = (if now - rp_checked p > rp_fail_timeout p then p\<lparr>rp_checked := now\<rparr> else p)"

definition rp_charge :: "int \<Rightarrow> ngx_http_upstream_rr_peer_t \<Rightarrow> ngx_http_upstream_rr_peer_t" where
  "rp_charge tot p = p\<lparr>rp_current_weight := s64 (rp_current_weight p - tot)\<rparr>"

definition rp_connect :: "ngx_http_upstream_rr_peer_t \<Rightarrow> ngx_http_upstream_rr_peer_t" where
  "rp_connect p = p\<lparr>rp_conns := rp_conns p + 1\<rparr>"

definition ngx_http_upstream_get_peer ::
  "int \<Rightarrow> ngx_http_upstream_rr_peer_t list \<Rightarrow> 64 word list
     \<Rightarrow> nat option \<times> ngx_http_upstream_rr_peer_t list \<times> 64 word list"
where
  "ngx_http_upstream_get_peer now ps tried =
     (case rr_loop (rr_skip now tried) ps 0 None 0 of (ps, best, tot) \<Rightarrow>
        case best of
          None \<Rightarrow> (None, ps, tried)
        | Some p \<Rightarrow> (Some p, ps[p := rp_touch now (rp_charge tot (ps ! p))], rr_set_tried tried p))"

text \<open>The switch to the backup servers, with a clean bitmap.\<close>

definition rr_backup ::
  "upstream \<Rightarrow> 'a ngx_http_upstream_rr_peer_data_t_scheme \<Rightarrow> 'a ngx_http_upstream_rr_peer_data_t_scheme"
where
  "rr_backup us d =
     (let n = (rps_number (us ! (rrp_peers d + 1)) + 63) div 64 in
      d\<lparr>rrp_peers := rrp_peers d + 1, rrp_tried := replicate n 0 @ drop n (rrp_tried d)\<rparr>)"

definition rr_found ::
  "upstream \<Rightarrow> nat \<Rightarrow> nat \<Rightarrow> ngx_peer_connection_t \<Rightarrow> upstream \<times> ngx_peer_connection_t"
where
  "rr_found us g i pc =
     (let peers = us ! g; p = rps_peer peers ! i in
      (us[g := peers\<lparr>rps_peer := (rps_peer peers)[i := rp_connect p]\<rparr>],
       pc\<lparr>pc_sockaddr := Some (rp_sockaddr p), pc_name := rp_sockaddr p\<rparr>))"

text \<open>The choice in the group \<open>peers\<close>: the peer, or \<open>None\<close> for \<^verbatim>\<open>goto failed\<close>, the peers after it and the request.\<close>

definition rr_choose ::
  "int \<Rightarrow> ngx_http_upstream_rr_peers_t \<Rightarrow> 'a ngx_http_upstream_rr_peer_data_t_scheme
     \<Rightarrow> nat option \<times> ngx_http_upstream_rr_peer_t list \<times> 'a ngx_http_upstream_rr_peer_data_t_scheme"
where
  "rr_choose now peers d =
     (if rps_single peers then
        (let p = rps_peer peers ! 0 in
         if rp_down p then (None, rps_peer peers, d)
         else if rp_full p then (None, rps_peer peers, d)
         else (Some 0, rps_peer peers, d\<lparr>rrp_current := Some (rrp_peers d, 0)\<rparr>))
      else
        (case ngx_http_upstream_get_peer now (rps_peer peers) (rrp_tried d) of (best, ps, tried) \<Rightarrow>
           case best of
             None \<Rightarrow> (None, ps, d)
           | Some p \<Rightarrow> (Some p, ps, d\<lparr>rrp_current := Some (rrp_peers d, p), rrp_tried := tried\<rparr>)))"

text \<open>
  The callback with the choice as a parameter: \<^verbatim>\<open>ngx_http_upstream_get_round_robin_peer\<close> and
  \<^verbatim>\<open>ngx_http_upstream_get_least_conn_peer\<close> have the same frame around it. A group with a single peer is always
  left to the round robin, which then goes on by itself.
\<close>

function get_peer_with ::
  "(int \<Rightarrow> ngx_http_upstream_rr_peers_t \<Rightarrow> 'a ngx_http_upstream_rr_peer_data_t_scheme
      \<Rightarrow> nat option \<times> ngx_http_upstream_rr_peer_t list \<times> 'a ngx_http_upstream_rr_peer_data_t_scheme)
   \<Rightarrow> int \<Rightarrow> upstream \<Rightarrow> ngx_peer_connection_t \<Rightarrow> 'a ngx_http_upstream_rr_peer_data_t_scheme
     \<Rightarrow> int \<times> upstream \<times> ngx_peer_connection_t \<times> 'a ngx_http_upstream_rr_peer_data_t_scheme"
where
  "get_peer_with pick now us pc d =
     (let g = rrp_peers d; pc = pc\<lparr>pc_cached := False, pc_connection := False\<rparr> in
      case pick now (us ! g) d of (best, ps, d1) \<Rightarrow>
        let us1 = us[g := (us ! g)\<lparr>rps_peer := ps\<rparr>] in
        case best of
          Some i \<Rightarrow> (case rr_found us1 g i pc of (us2, pc2) \<Rightarrow> (NGX_OK, us2, pc2, d1))
        | None \<Rightarrow>
            if g + 1 < length us1 then
              (case get_peer_with (if rps_single (us ! g) then rr_choose else pick) now us1 pc (rr_backup us1 d) of (rc, us2, pc2, d2) \<Rightarrow>
                 if rc \<noteq> NGX_BUSY then (rc, us2, pc2, d2)
                 else (NGX_BUSY, us2, pc2\<lparr>pc_name := rps_name (us ! g)\<rparr>, d2))
            else (NGX_BUSY, us1, pc\<lparr>pc_name := rps_name (us ! g)\<rparr>, d))"
  by pat_completeness auto
termination
  by (relation "measure (\<lambda>(pick, now, us, pc, d). length us - rrp_peers d)") (auto simp: rr_backup_def Let_def)

declare get_peer_with.simps [simp del]

definition ngx_http_upstream_get_round_robin_peer ::
  "int \<Rightarrow> upstream \<Rightarrow> ngx_peer_connection_t \<Rightarrow> 'a ngx_http_upstream_rr_peer_data_t_scheme
     \<Rightarrow> int \<times> upstream \<times> ngx_peer_connection_t \<times> 'a ngx_http_upstream_rr_peer_data_t_scheme"
where
  "ngx_http_upstream_get_round_robin_peer = get_peer_with rr_choose"

section \<open>Releasing a peer\<close>

definition rp_blame :: "int \<Rightarrow> ngx_http_upstream_rr_peer_t \<Rightarrow> ngx_http_upstream_rr_peer_t" where
  "rp_blame now p =
     (let p = p\<lparr>rp_fails := rp_fails p + 1, rp_accessed := now, rp_checked := now\<rparr>;
          p = (if rp_max_fails p \<noteq> 0
               then p\<lparr>rp_effective_weight :=
                        s64 (rp_effective_weight p - uint (word_of_int (rp_weight p) div rp_max_fails p))\<rparr>
               else p)
      in if rp_effective_weight p < 0 then p\<lparr>rp_effective_weight := 0\<rparr> else p)"

definition rp_free :: "int \<Rightarrow> 64 word \<Rightarrow> ngx_http_upstream_rr_peer_t \<Rightarrow> ngx_http_upstream_rr_peer_t" where
  "rp_free now state p =
     (let p = (if state AND NGX_PEER_FAILED \<noteq> 0 then rp_blame now p
               else if rp_accessed p < rp_checked p then p\<lparr>rp_fails := 0\<rparr> else p)
      in p\<lparr>rp_conns := rp_conns p - 1\<rparr>)"

text \<open>\<open>None\<close> is the use of \<^verbatim>\<open>rrp->current\<close> when it is \<^verbatim>\<open>NULL\<close>.\<close>

definition ngx_http_upstream_free_round_robin_peer ::
  "int \<Rightarrow> upstream \<Rightarrow> ngx_peer_connection_t \<Rightarrow> 'a ngx_http_upstream_rr_peer_data_t_scheme \<Rightarrow> 64 word
     \<Rightarrow> (upstream \<times> ngx_peer_connection_t) option"
where
  "ngx_http_upstream_free_round_robin_peer now us pc d state =
     (case rrp_current d of
        None \<Rightarrow> None
      | Some (g, i) \<Rightarrow>
          let upd = (\<lambda>f. us[g := (us ! g)\<lparr>rps_peer := (rps_peer (us ! g))[i := f (rps_peer (us ! g) ! i)]\<rparr>]) in
          if rps_single (us ! rrp_peers d) then Some (upd (\<lambda>p. p\<lparr>rp_conns := rp_conns p - 1\<rparr>), pc\<lparr>pc_tries := 0\<rparr>)
          else Some (upd (rp_free now state), pc\<lparr>pc_tries := pc_tries pc - 1\<rparr>))"

section \<open>What the loop computes\<close>

lemma s64_add_left [simp]: "s64 (s64 a + b) = s64 (a + b)"
  unfolding s64_def by (metis signed_take_bit_add signed_take_bit_signed_take_bit min.idem)

definition rr_loop_post ::
  "(nat \<Rightarrow> ngx_http_upstream_rr_peer_t \<Rightarrow> bool) \<Rightarrow> ngx_http_upstream_rr_peer_t list \<Rightarrow> nat \<Rightarrow> nat option \<Rightarrow> int
     \<Rightarrow> ngx_http_upstream_rr_peer_t list \<Rightarrow> nat option \<Rightarrow> int \<Rightarrow> bool"
where
  "rr_loop_post skip ps i best tot ps' best' tot' \<longleftrightarrow>
     length ps' = length ps
     \<and> (\<forall>k<length ps. ps' ! k = (if i \<le> k \<and> \<not> skip k (ps ! k) then rr_weigh (ps ! k) else ps ! k))
     \<and> (best' = None \<longleftrightarrow> best = None \<and> (\<forall>k. i \<le> k \<longrightarrow> k < length ps \<longrightarrow> skip k (ps ! k)))
     \<and> (\<forall>b. best' = Some b \<longrightarrow> b < length ps \<and> (best = Some b \<or> i \<le> b \<and> \<not> skip b (ps ! b))
          \<and> (\<forall>c. best = Some c \<longrightarrow> rp_current_weight (ps ! c) \<le> rp_current_weight (ps' ! b))
          \<and> (\<forall>k. i \<le> k \<longrightarrow> k < length ps \<longrightarrow> \<not> skip k (ps ! k)
                \<longrightarrow> rp_current_weight (ps' ! k) \<le> rp_current_weight (ps' ! b)))
     \<and> tot' = s64 (tot + (\<Sum>k\<in>{i..<length ps}. if skip k (ps ! k) then 0 else rp_effective_weight (ps ! k)))"

lemma rr_from_Suc: "i \<le> k \<longleftrightarrow> k = i \<or> i + 1 \<le> k" for i k :: nat
  by auto

lemma rr_sum_Suc: "i < n \<Longrightarrow> (\<Sum>k\<in>{i..<n}. f k) = f i + (\<Sum>k\<in>{i+1..<n}. f k)" for f :: "nat \<Rightarrow> int"
  by (simp add: sum.atLeast_Suc_lessThan)

lemma rr_loop_post_skip:
  "i < length ps \<Longrightarrow> skip i (ps ! i) \<Longrightarrow> rr_loop_post skip ps (i + 1) best tot ps' best' tot' \<Longrightarrow>
     rr_loop_post skip ps i best tot ps' best' tot'"
  unfolding rr_loop_post_def by (auto simp: rr_from_Suc [of i] rr_sum_Suc)

lemma rr_loop_post_weigh:
  assumes i: "i < length ps" and "\<not> skip i (ps ! i)" and old: "\<forall>b. best = Some b \<longrightarrow> b < i"
    and ps1: "ps1 = ps[i := rr_weigh (ps ! i)]" and tot1: "tot1 = s64 (tot + rp_effective_weight (ps ! i))"
    and best1: "best1 = (case best of None \<Rightarrow> Some i
        | Some b \<Rightarrow> if rp_current_weight (ps1 ! i) > rp_current_weight (ps1 ! b) then Some i else Some b)"
    and p: "rr_loop_post skip ps1 (i + 1) best1 tot1 ps' best' tot'"
  shows "rr_loop_post skip ps i best tot ps' best' tot'"
proof -
  have n: "ps1 ! k = (if k = i then rr_weigh (ps ! i) else ps ! k)" "length ps1 = length ps" for k
    using i by (auto simp: ps1)
  have "(\<Sum>k\<in>{i+1..<length ps}. if skip k (ps1 ! k) then 0 else rp_effective_weight (ps1 ! k))
     = (\<Sum>k\<in>{i+1..<length ps}. if skip k (ps ! k) then 0 else rp_effective_weight (ps ! k))"
    by (rule sum.cong) (auto simp: n)
  with p assms(2) have t: "tot' = s64 (tot + (\<Sum>k\<in>{i..<length ps}. if skip k (ps ! k) then 0 else rp_effective_weight (ps ! k)))"
    unfolding rr_loop_post_def rr_sum_Suc [OF i] n(2) tot1 by (simp add: add.assoc)
  have b1: "best1 \<noteq> None" by (simp add: best1 split: option.split)
  from p have l: "length ps' = length ps"
    and nth: "\<And>k. k < length ps \<Longrightarrow> ps' ! k = (if i + 1 \<le> k \<and> \<not> skip k (ps1 ! k) then rr_weigh (ps1 ! k) else ps1 ! k)"
    and some: "best' \<noteq> None"
    and b: "\<And>b. best' = Some b \<Longrightarrow> b < length ps \<and> (best1 = Some b \<or> i + 1 \<le> b \<and> \<not> skip b (ps1 ! b))"
    and bc: "\<And>b c. best' = Some b \<Longrightarrow> best1 = Some c \<Longrightarrow> rp_current_weight (ps1 ! c) \<le> rp_current_weight (ps' ! b)"
    and bk: "\<And>b k. best' = Some b \<Longrightarrow> i + 1 \<le> k \<Longrightarrow> k < length ps \<Longrightarrow> \<not> skip k (ps1 ! k) \<Longrightarrow>
               rp_current_weight (ps' ! k) \<le> rp_current_weight (ps' ! b)"
    using b1 unfolding rr_loop_post_def n(2) by blast+
  have c: "rp_current_weight (ps ! c) \<le> rp_current_weight (ps' ! b)" if "best' = Some b" "best = Some c" for b c
    using bc[OF that(1)] old that(2) n by (fastforce simp: best1 split: if_splits)
  have ki: "rp_current_weight (ps' ! i) \<le> rp_current_weight (ps' ! b)" if "best' = Some b" for b
    using bc[OF that] n nth[OF i] by (fastforce simp: best1 split: if_splits option.splits)
  have kk: "rp_current_weight (ps' ! k) \<le> rp_current_weight (ps' ! b)"
    if "best' = Some b" "i \<le> k" "k < length ps" "\<not> skip k (ps ! k)" for b k
    using bk[OF that(1), of k] ki[OF that(1)] that n by (cases "k = i") auto
  have bi: "best = Some b \<or> i \<le> b \<and> \<not> skip b (ps ! b)" if "best' = Some b" for b
    using b[OF that] assms(2) n by (auto simp: best1 split: option.splits if_splits)
  have nk: "ps' ! k = (if i \<le> k \<and> \<not> skip k (ps ! k) then rr_weigh (ps ! k) else ps ! k)" if "k < length ps" for k
    using nth[OF that] n assms(2) by (auto simp: rr_from_Suc [of i])
  show ?thesis unfolding rr_loop_post_def
    by (intro conjI allI impI l t nk) (use some assms(2) i c kk bi b in auto)
qed

lemma rr_loop_correct:
  assumes "\<forall>b. best = Some b \<longrightarrow> b < i \<and> i \<le> length ps" and "s64 tot = tot"
  shows "case rr_loop skip ps i best tot of (ps', best', tot') \<Rightarrow> rr_loop_post skip ps i best tot ps' best' tot'"
  using assms
proof (induction skip ps i best tot rule: rr_loop.induct)
  case (1 skip ps i best tot)
  consider (over) "\<not> i < length ps" | (skipped) "i < length ps" "skip i (ps ! i)" | (weighed) "i < length ps" "\<not> skip i (ps ! i)"
    by blast
  then show ?case
  proof cases
    case over
    with 1(3) have "best = Some b \<Longrightarrow> b < length ps" for b by fastforce
    with over 1(4) show ?thesis by (subst rr_loop.simps) (simp add: rr_loop_post_def)
  next
    case skipped
    have "rr_loop skip ps i best tot = rr_loop skip ps (i + 1) best tot"
      using skipped by (subst rr_loop.simps) simp
    moreover have "case rr_loop skip ps (i + 1) best tot of
        (ps', best', tot') \<Rightarrow> rr_loop_post skip ps (i + 1) best tot ps' best' tot'"
      using 1(1)[OF skipped] 1(3,4) skipped(1) by fastforce
    ultimately show ?thesis using skipped by (auto split: prod.splits intro: rr_loop_post_skip)
  next
    case weighed
    define ps1 where "ps1 = ps[i := rr_weigh (ps ! i)]"
    define tot1 where "tot1 = s64 (tot + rp_effective_weight (ps ! i))"
    define best1 where "best1 = (case best of None \<Rightarrow> Some i
      | Some b \<Rightarrow> if rp_current_weight (ps1 ! i) > rp_current_weight (ps1 ! b) then Some i else Some b)"
    have eq: "rr_loop skip ps i best tot = rr_loop skip ps1 (i + 1) best1 tot1"
      unfolding best1_def ps1_def tot1_def using weighed by (subst rr_loop.simps) (simp add: Let_def)
    have "\<forall>b. best1 = Some b \<longrightarrow> b < i + 1 \<and> i + 1 \<le> length ps1"
      using 1(3) weighed(1) by (auto simp: best1_def ps1_def split: option.splits if_splits)
    moreover have "s64 tot1 = tot1" by (simp add: tot1_def s64_def)
    ultimately have "case rr_loop skip ps1 (i + 1) best1 tot1 of
        (ps', best', tot') \<Rightarrow> rr_loop_post skip ps1 (i + 1) best1 tot1 ps' best' tot'"
      unfolding best1_def ps1_def tot1_def by (intro 1(2)[OF weighed refl refl refl])
    with eq weighed 1(3) show ?thesis
      by (auto split: prod.splits intro: rr_loop_post_weigh [OF _ _ _ ps1_def tot1_def best1_def])
  qed
qed

end
