(* ===== verification/Ngx_Http_Upstream_Fair.thy ===== *)
theory Ngx_Http_Upstream_Fair
  imports Ngx_Http_Upstream_Rr
begin

text \<open>
  The shares of the round robin of \<^verbatim>\<open>http/ngx_http_upstream_round_robin.c\<close>. The current weights after any number of
  choices are determined by how often each peer was chosen; they sum to zero and none is below minus the
  total weight, and so the counts follow the weights.
\<close>

section \<open>Runs without failures\<close>

text \<open>
  Requests come one after the other, each with its own bitmap, and end without a failure in any order:
  the peers that were chosen and the state at the end.
\<close>

datatype rr_event = Rr_get int | Rr_done int nat

fun rr_serve :: "upstream \<Rightarrow> rr_event list \<Rightarrow> nat list \<times> upstream" where
  "rr_serve us [] = ([], us)"
| "rr_serve us (Rr_get now # es) =
     (case ngx_http_upstream_init_round_robin_peer us of (pc, d) \<Rightarrow>
      case ngx_http_upstream_get_round_robin_peer now us pc d of (rc, us1, pc1, d1) \<Rightarrow>
      case rr_serve us1 es of (picks, us2) \<Rightarrow>
        ((case rrp_current d1 of Some (g, i) \<Rightarrow> i # picks | None \<Rightarrow> picks), us2))"
| "rr_serve us (Rr_done now i # es) =
     (case ngx_http_upstream_init_round_robin_peer us of (pc, d) \<Rightarrow>
      case ngx_http_upstream_free_round_robin_peer now us pc (d\<lparr>rrp_current := Some (0, i)\<rparr>) 0 of
        Some (us1, pc1) \<Rightarrow> rr_serve us1 es
      | None \<Rightarrow> ([], us))"

section \<open>The weights\<close>

text \<open>After \<open>t\<close> choices, \<open>n k\<close> of which were for peer \<open>k\<close>, the current weights are known.\<close>

definition rr_even_peer :: "int \<Rightarrow> int \<Rightarrow> nat \<Rightarrow> nat \<Rightarrow> ngx_http_upstream_rr_peer_t \<Rightarrow> bool" where
  "rr_even_peer W w t n p \<longleftrightarrow> rp_weight p = w \<and> rp_effective_weight p = w \<and> \<not> rp_down p \<and> rp_max_conns p = 0
     \<and> rp_fails p = 0 \<and> rp_current_weight p = int t * w - W * int n \<and> - W < rp_current_weight p"

definition rr_even :: "int list \<Rightarrow> nat \<Rightarrow> (nat \<Rightarrow> nat) \<Rightarrow> ngx_http_upstream_rr_peer_t list \<Rightarrow> bool" where
  "rr_even ws t n ps \<longleftrightarrow> length ps = length ws \<and> t = (\<Sum>k<length ws. n k)
     \<and> (\<forall>k<length ws. rr_even_peer (\<Sum>k<length ws. ws ! k) (ws ! k) t (n k) (ps ! k))"

lemma rr_even_sum:
  assumes "rr_even ws t n ps"
  shows "(\<Sum>k<length ws. rp_current_weight (ps ! k)) = 0"
proof -
  let ?W = "\<Sum>k<length ws. ws ! k"
  have "(\<Sum>k<length ws. rp_current_weight (ps ! k)) = (\<Sum>k<length ws. int t * ws ! k - ?W * int (n k))"
    using assms by (intro sum.cong) (auto simp: rr_even_def rr_even_peer_def)
  also have "\<dots> = int t * ?W - ?W * int (\<Sum>k<length ws. n k)"
    by (simp add: sum_subtractf sum_distrib_left of_nat_sum)
  also have "\<dots> = 0" using assms by (simp add: rr_even_def algebra_simps)
  finally show ?thesis .
qed

text \<open>No current weight can overflow.\<close>

lemma rr_even_bound:
  assumes "rr_even ws t n ps" and "k < length ws" and pos: "\<forall>w\<in>set ws. 0 < w"
  shows "rp_current_weight (ps ! k) < int (length ws) * (\<Sum>k<length ws. ws ! k)"
proof -
  let ?W = "\<Sum>k<length ws. ws ! k" and ?c = "\<lambda>k. rp_current_weight (ps ! k)"
  have "?c k + (\<Sum>j\<in>{..<length ws} - {k}. ?c j) = 0"
    using rr_even_sum [OF assms(1)] assms(2) by (simp add: sum.remove [of _ k])
  moreover have "(\<Sum>j\<in>{..<length ws} - {k}. - ?W) \<le> (\<Sum>j\<in>{..<length ws} - {k}. ?c j)"
    using assms(1) by (intro sum_mono) (auto simp: rr_even_def rr_even_peer_def less_imp_le)
  moreover have "0 < ?W" using assms(2) pos by (intro sum_pos) auto
  ultimately show ?thesis using assms(2) by (simp add: of_nat_diff algebra_simps)
qed

lemma rr_even_peer_weigh:
  "rr_even_peer W w t n p \<Longrightarrow> 0 < w \<Longrightarrow> rp_current_weight (rr_weigh p) = rp_current_weight p + w \<Longrightarrow>
     rr_even_peer W w (t + 1) n (rr_weigh p)"
  by (auto simp: rr_even_peer_def rr_weigh_def algebra_simps)

lemma rr_even_peer_charge:
  "rr_even_peer W w t n p \<Longrightarrow> 0 < rp_current_weight p \<Longrightarrow> s64 (rp_current_weight p - W) = rp_current_weight p - W \<Longrightarrow>
     rr_even_peer W w t (n + 1) (rp_touch now (rp_charge W p))"
  by (auto simp: rr_even_peer_def rp_touch_def rp_charge_def algebra_simps)

lemma sum_pos_exists: "0 < (\<Sum>k<n. f k) \<Longrightarrow> \<exists>k<n. 0 < f k" for f :: "nat \<Rightarrow> int" and n :: nat
  by (meson lessThan_iff not_less sum_nonpos)

lemma rr_even_get:
  assumes even: "rr_even ws t n ps" and pos: "\<forall>w\<in>set ws. 0 < w" and "ws \<noteq> []"
    and big: "int (length ws + 1) * (\<Sum>k<length ws. ws ! k) < 2 ^ 63"
    and untried: "\<forall>k<length ws. \<not> rr_tried tried k"
    and get: "ngx_http_upstream_get_peer now ps tried = (best, ps', tried')"
  obtains b where "best = Some b" "b < length ws" "rr_even ws (t + 1) (n(b := n b + 1)) ps'"
proof -
  let ?W = "\<Sum>k<length ws. ws ! k"
  obtain ps1 best1 tot where loop: "rr_loop (rr_skip now tried) ps 0 None 0 = (ps1, best1, tot)" by (metis prod_cases3)
  have post: "rr_loop_post (rr_skip now tried) ps 0 None 0 ps1 best1 tot"
    using rr_loop_correct [of None 0 ps 0 "rr_skip now tried"] loop by simp
  have l: "length ps = length ws" using even by (simp add: rr_even_def)
  have p: "rr_even_peer ?W (ws ! k) t (n k) (ps ! k)" if "k < length ws" for k
    using even that unfolding rr_even_def by blast
  have skip: "\<not> rr_skip now tried k (ps ! k)" if "k < length ws" for k
    using p [OF that] untried that by (auto simp: rr_skip_def rp_failed_def rp_full_def rr_even_peer_def)
  have W: "0 < ?W" using pos \<open>ws \<noteq> []\<close> by (intro sum_pos) auto
  have wW: "0 < ws ! k" "ws ! k \<le> ?W" if "k < length ws" for k
    using pos that member_le_sum [of k "{..<length ws}" "(!) ws"] by (simp_all add: less_imp_le)
  have "2 * ?W \<le> int (length ws + 1) * ?W" using W \<open>ws \<noteq> []\<close> by (intro mult_right_mono) (auto simp: Suc_le_eq)
  then have W63: "2 * ?W < 2 ^ 63" using big by linarith
  have cw: "rp_current_weight (rr_weigh (ps ! k)) = rp_current_weight (ps ! k) + ws ! k"
    "rp_current_weight (ps ! k) + ws ! k < 2 ^ 63" if "k < length ws" for k
  proof -
    have "rp_current_weight (ps ! k) < int (length ws) * ?W" by (rule rr_even_bound [OF even that pos])
    then show lt: "rp_current_weight (ps ! k) + ws ! k < 2 ^ 63" using wW [OF that] big by (simp add: algebra_simps)
    have "- (2 ^ 63) \<le> rp_current_weight (ps ! k) + ws ! k"
      using p [OF that] wW [OF that] W63 unfolding rr_even_peer_def by linarith
    with lt show "rp_current_weight (rr_weigh (ps ! k)) = rp_current_weight (ps ! k) + ws ! k"
      using p [OF that] by (simp add: rr_weigh_def rr_even_peer_def)
  qed
  have ps1: "ps1 ! k = rr_weigh (ps ! k)" "length ps1 = length ws" if "k < length ws" for k
    using post skip [OF that] that l by (simp_all add: rr_loop_post_def)
  have "best1 \<noteq> None" using post skip [of 0] \<open>ws \<noteq> []\<close> l unfolding rr_loop_post_def by auto
  then obtain b where b: "best1 = Some b" by blast
  have bl: "b < length ws" using post b l unfolding rr_loop_post_def by simp
  have "(\<Sum>k\<in>{0..<length ps}. if rr_skip now tried k (ps ! k) then 0 else rp_effective_weight (ps ! k)) = ?W"
    using skip p by (intro sum.cong) (auto simp: l rr_even_peer_def)
  then have tot: "tot = ?W" using post W W63 unfolding rr_loop_post_def by simp
  have "(\<Sum>k<length ws. rp_current_weight (ps ! k) + ws ! k) = ?W"
    using rr_even_sum [OF even] by (simp add: sum.distrib)
  then obtain k where k: "k < length ws" "0 < rp_current_weight (ps ! k) + ws ! k"
    using sum_pos_exists [of "\<lambda>k. rp_current_weight (ps ! k) + ws ! k" "length ws"] W by auto
  have top: "0 < rp_current_weight (ps ! b) + ws ! b"
    using post b k skip [OF k(1)] l bl cw ps1 unfolding rr_loop_post_def by fastforce
  have ps': "ps' = ps1[b := rp_touch now (rp_charge ?W (ps1 ! b))]" "best = Some b"
    using get loop b tot by (simp_all add: ngx_http_upstream_get_peer_def)
  have s: "s64 (rp_current_weight (ps ! b) + ws ! b - ?W) = rp_current_weight (ps ! b) + ws ! b - ?W"
    using top cw(2) [OF bl] W W63 by (intro s64_id) linarith+
  have "rr_even_peer ?W (ws ! k) (t + 1) ((n(b := n b + 1)) k) (ps' ! k)" if "k < length ws" for k
  proof -
    have "rr_even_peer ?W (ws ! k) (t + 1) (n k) (ps1 ! k)"
      using rr_even_peer_weigh [OF p [OF that]] wW(1) cw(1) ps1(1) that by simp
    with rr_even_peer_charge [of ?W "ws ! b" "t + 1" "n b" "ps1 ! b" now] top s cw(1) [OF bl] ps1 [OF bl] that bl
    show ?thesis by (cases "k = b") (simp_all add: ps')
  qed
  moreover have "(\<Sum>k<length ws. (n(b := n b + 1)) k) = t + 1"
    using bl even by (simp add: sum.remove [of _ b] rr_even_def)
  ultimately have "rr_even ws (t + 1) (n(b := n b + 1)) ps'" using ps1(2) [OF bl] by (simp add: rr_even_def ps')
  with ps'(2) bl show ?thesis by (rule that)
qed

text \<open>The bitmap of a new request is empty and long enough.\<close>

lemma rr_tried_words_enough: "i < n \<Longrightarrow> i div 64 < rr_tried_words n"
  by (auto simp: rr_tried_words_def div_less_iff_less_mult)

lemma rr_untried_zero: "i div 64 < m \<Longrightarrow> \<not> rr_tried (replicate m 0) i"
  by (simp add: rr_tried_def)

lemma rr_untried_new:
  assumes "ngx_http_upstream_init_round_robin_peer us = (pc, d)"
  shows "rrp_peers d = 0" "rrp_current d = None" "i < rps_number (us ! 0) \<Longrightarrow> \<not> rr_tried (rrp_tried d) i"
proof -
  define m where "m = (if 1 < length us \<and> rps_number (us ! 1) > rps_number (us ! 0) then rps_number (us ! 1) else rps_number (us ! 0))"
  have d: "d = \<lparr>rrp_peers = 0, rrp_current = None, rrp_tried = replicate (rr_tried_words m) 0\<rparr>"
    using assms unfolding ngx_http_upstream_init_round_robin_peer_def m_def Let_def by simp
  then show "rrp_peers d = 0" "rrp_current d = None" by simp_all
  assume "i < rps_number (us ! 0)"
  then have "i < m" by (simp add: m_def)
  with d show "\<not> rr_tried (rrp_tried d) i" by (simp add: rr_untried_zero rr_tried_words_enough)
qed

lemma rr_even_update:
  assumes "rr_even ws t n ps" "\<And>W w m p. rr_even_peer W w t m p \<Longrightarrow> rr_even_peer W w t m (f p)"
  shows "rr_even ws t n (ps[b := f (ps ! b)])"
  unfolding rr_even_def
proof (intro conjI allI impI)
  show "rr_even_peer (\<Sum>k<length ws. ws ! k) (ws ! k) t (n k) (ps[b := f (ps ! b)] ! k)" if "k < length ws" for k
  proof -
    have "rr_even_peer (\<Sum>k<length ws. ws ! k) (ws ! k) t (n k) (ps ! k)" "length ps = length ws"
      using assms(1) that unfolding rr_even_def by blast+
    with assms(2) that show ?thesis by (cases "k = b") auto
  qed
qed (use assms(1) in \<open>auto simp: rr_even_def\<close>)

definition rr_even_us :: "int list \<Rightarrow> nat \<Rightarrow> (nat \<Rightarrow> nat) \<Rightarrow> upstream \<Rightarrow> bool" where
  "rr_even_us ws t n us \<longleftrightarrow> us \<noteq> [] \<and> rps_number (us ! 0) = length ws \<and> \<not> rps_single (us ! 0) \<and> rr_even ws t n (rps_peer (us ! 0))"

lemma rr_even_us_get:
  assumes "rr_even_us ws t n us" and "\<forall>w\<in>set ws. 0 < w" and "ws \<noteq> []"
    and "int (length ws + 1) * (\<Sum>k<length ws. ws ! k) < 2 ^ 63"
    and "ngx_http_upstream_init_round_robin_peer us = (pc, d)"
    and "ngx_http_upstream_get_round_robin_peer now us pc d = (rc, us1, pc1, d1)"
  obtains b where "rrp_current d1 = Some (0, b)" "b < length ws" "rr_even_us ws (t + 1) (n(b := n b + 1)) us1"
proof -
  note us = assms(1) [unfolded rr_even_us_def]
  have d: "rrp_peers d = 0" "\<forall>k<length ws. \<not> rr_tried (rrp_tried d) k"
    using rr_untried_new [OF assms(5)] us \<open>ws \<noteq> []\<close> by auto
  obtain best ps' tried' where g: "ngx_http_upstream_get_peer now (rps_peer (us ! 0)) (rrp_tried d) = (best, ps', tried')"
    by (metis prod_cases3)
  obtain b where b: "best = Some b" "b < length ws" "rr_even ws (t + 1) (n(b := n b + 1)) ps'"
    by (rule rr_even_get [of ws t n "rps_peer (us ! 0)" "rrp_tried d" now best ps' tried']) (use us d g assms in auto)
  have "rr_even ws (t + 1) (n(b := n b + 1)) (ps'[b := rp_connect (ps' ! b)])"
    by (rule rr_even_update [OF b(3)]) (simp add: rr_even_peer_def rp_connect_def)
  moreover have "us1 = us[0 := (us ! 0)\<lparr>rps_peer := ps'[b := rp_connect (ps' ! b)]\<rparr>] \<and> rrp_current d1 = Some (0, b)"
    using assms(6) us d g b
    by (auto simp: ngx_http_upstream_get_round_robin_peer_def get_peer_with.simps rr_choose_def rr_found_def Let_def)
  ultimately show ?thesis using that [of b] b us by (simp add: rr_even_us_def)
qed

lemma rr_even_us_done:
  assumes "rr_even_us ws t n us" "i < length ws" "ngx_http_upstream_init_round_robin_peer us = (pc, d)"
  obtains us1 pc1 where "ngx_http_upstream_free_round_robin_peer now us pc (d\<lparr>rrp_current := Some (0, i)\<rparr>) 0 = Some (us1, pc1)"
    "rr_even_us ws t n us1"
proof -
  note us = assms(1) [unfolded rr_even_us_def]
  have "rrp_peers d = 0" by (rule rr_untried_new [OF assms(3)])
  moreover have "rr_even ws t n ((rps_peer (us ! 0))[i := rp_free now 0 (rps_peer (us ! 0) ! i)])"
    by (rule rr_even_update) (use us in \<open>auto simp: rr_even_peer_def rp_free_def Let_def\<close>)
  ultimately show ?thesis
    using that us by (simp add: ngx_http_upstream_free_round_robin_peer_def rr_even_us_def)
qed

lemma rr_even_serve:
  assumes "rr_even_us ws t n us" and "\<forall>w\<in>set ws. 0 < w" and "ws \<noteq> []"
    and "int (length ws + 1) * (\<Sum>k<length ws. ws ! k) < 2 ^ 63"
    and "\<forall>now i. Rr_done now i \<in> set es \<longrightarrow> i < length ws"
    and "rr_serve us es = (picks, us')"
  shows "length picks = length (filter (\<lambda>e. \<exists>now. e = Rr_get now) es)
    \<and> rr_even_us ws (t + length picks) (\<lambda>k. n k + count_list picks k) us'"
  using assms
proof (induction us es arbitrary: t n picks us' rule: rr_serve.induct)
  case (2 us now es)
  obtain pc d where i: "ngx_http_upstream_init_round_robin_peer us = (pc, d)" by fastforce
  obtain rc us1 pc1 d1 where g: "ngx_http_upstream_get_round_robin_peer now us pc d = (rc, us1, pc1, d1)" by (metis prod_cases4)
  obtain b where b: "rrp_current d1 = Some (0, b)" "rr_even_us ws (t + 1) (n(b := n b + 1)) us1"
    using rr_even_us_get [OF 2(2-5) i g] by blast
  obtain picks1 where r: "rr_serve us1 es = (picks1, us')" "picks = b # picks1"
    using 2(7) i g b by (auto split: prod.splits)
  have "length picks1 = length (filter (\<lambda>e. \<exists>now. e = Rr_get now) es)
    \<and> rr_even_us ws (t + 1 + length picks1) (\<lambda>k. (n(b := n b + 1)) k + count_list picks1 k) us'"
    by (rule 2(1) [OF i [symmetric] g [symmetric] refl refl b(2) 2(3-5) _ r(1)]) (use 2(6) in auto)
  moreover have "(\<lambda>k. (n(b := n b + 1)) k + count_list picks1 k) = (\<lambda>k. n k + count_list picks k)"
    by (auto simp: r)
  ultimately show ?case by (auto simp: r)
next
  case (3 us now i es)
  obtain pc d where d: "ngx_http_upstream_init_round_robin_peer us = (pc, d)" by fastforce
  have "i < length ws" using 3(6) by auto
  then obtain us1 pc1 where f: "ngx_http_upstream_free_round_robin_peer now us pc (d\<lparr>rrp_current := Some (0, i)\<rparr>) 0 = Some (us1, pc1)"
    "rr_even_us ws t n us1"
    using rr_even_us_done [OF 3(2) _ d] by metis
  have "rr_serve us1 es = (picks, us')" using 3(7) d f by simp
  then show ?case using 3(1) [OF d [symmetric] f(1) refl f(2) 3(3-5)] 3(6) by auto
qed auto


section \<open>Shares\<close>

text \<open>What a run with known weights says of the counts.\<close>

lemma rr_even_counts:
  assumes "rr_even ws t n ps" and pos: "\<forall>w\<in>set ws. 0 < w" and "k < length ws"
  shows "(\<Sum>k<length ws. ws ! k) * (int (n k) - 1) < int t * ws ! k"
    and "int t = m * (\<Sum>k<length ws. ws ! k) \<Longrightarrow> int (n k) = m * ws ! k"
proof -
  let ?W = "\<Sum>k<length ws. ws ! k"
  have c: "rp_current_weight (ps ! j) = int t * ws ! j - ?W * int (n j)" "- ?W < rp_current_weight (ps ! j)" if "j < length ws" for j
    using assms(1) that unfolding rr_even_def rr_even_peer_def by blast+
  show "?W * (int (n k) - 1) < int t * ws ! k" using c [OF assms(3)] by (simp add: algebra_simps)
  assume t: "int t = m * ?W"
  have W: "0 < ?W" using pos assms(3) by (intro sum_pos) auto
  have f: "rp_current_weight (ps ! j) = ?W * (m * ws ! j - int (n j))" "0 \<le> m * ws ! j - int (n j)" if "j < length ws" for j
  proof -
    show e: "rp_current_weight (ps ! j) = ?W * (m * ws ! j - int (n j))" using c(1) [OF that] by (simp add: t algebra_simps)
    have "?W * (- 1) < ?W * (m * ws ! j - int (n j))" using c(2) [OF that] unfolding e by simp
    then show "0 \<le> m * ws ! j - int (n j)" using W by (simp only: mult_less_cancel_left_pos)
  qed
  have "?W * (\<Sum>j<length ws. m * ws ! j - int (n j)) = 0"
    using rr_even_sum [OF assms(1)] f(1) by (simp add: sum_distrib_left)
  with W have "(\<Sum>j<length ws. m * ws ! j - int (n j)) = 0" by simp
  then have "\<forall>j\<in>{..<length ws}. m * ws ! j - int (n j) = 0" using f(2) by (subst (asm) sum_nonneg_eq_0_iff) auto
  then show "int (n k) = m * ws ! k" using assms(3) by simp
qed

lemma rr_init_peers:
  assumes "ngx_http_upstream_init_round_robin host (Some servers) port resolved = Some us"
  shows "us \<noteq> []" "rps_number (us ! 0) = length (rps_peer (us ! 0))" "rps_peer (us ! 0) \<noteq> []"
    and "rps_single (us ! 0) \<Longrightarrow> length (rps_peer (us ! 0)) = 1"
    and "\<forall>p\<in>set (rps_peer (us ! 0)). \<exists>s\<in>set servers. \<exists>a. p = rr_new_peer s a"
proof -
  have n: "rps_number (rr_new_peers host ss) = length (rps_peer (rr_new_peers host ss))" for ss
    by (simp add: rr_new_peers_def Let_def length_concat comp_def)
  have e: "us ! 0 = rr_new_peers host (filter (\<lambda>s. \<not> srv_backup s) servers) \<or>
      us ! 0 = (rr_new_peers host (filter (\<lambda>s. \<not> srv_backup s) servers))\<lparr>rps_single := False\<rparr>" "us \<noteq> []"
    "rps_number (rr_new_peers host (filter (\<lambda>s. \<not> srv_backup s) servers)) \<noteq> 0"
    using assms by (auto simp: ngx_http_upstream_init_round_robin_def Let_def split: if_splits)
  from e(2) show "us \<noteq> []" .
  from e show "rps_number (us ! 0) = length (rps_peer (us ! 0))" "rps_peer (us ! 0) \<noteq> []"
    using n by auto
  from e(1) show "length (rps_peer (us ! 0)) = 1" if "rps_single (us ! 0)"
    using that n by (auto simp: rr_new_peers_def Let_def)
  from e(1) show "\<forall>p\<in>set (rps_peer (us ! 0)). \<exists>s\<in>set servers. \<exists>a. p = rr_new_peer s a"
    by (fastforce simp: rr_new_peers_def Let_def)
qed

lemma count_list_replicate [simp]: "count_list (replicate n a) a = n"
  by (induction n) simp_all

lemma rr_single_serve:
  assumes "us \<noteq> []" "rps_single (us ! 0)" "rps_peer (us ! 0) = [p]" "\<not> rp_down p" "rp_max_conns p = 0"
    and "\<forall>now i. Rr_done now i \<in> set es \<longrightarrow> i = 0" "rr_serve us es = (picks, us')"
  shows "picks = replicate (length (filter (\<lambda>e. \<exists>now. e = Rr_get now) es)) 0"
  using assms
proof (induction us es arbitrary: p picks us' rule: rr_serve.induct)
  case (2 us now es)
  obtain pc d where i: "ngx_http_upstream_init_round_robin_peer us = (pc, d)" by fastforce
  let ?us1 = "us[0 := (us ! 0)\<lparr>rps_peer := [rp_connect p]\<rparr>]"
  obtain pc1 d1 where g: "ngx_http_upstream_get_round_robin_peer now us pc d = (NGX_OK, ?us1, pc1, d1)" "rrp_current d1 = Some (0, 0)"
    using 2(2-6) rr_untried_new(1) [OF i]
    by (simp add: ngx_http_upstream_get_round_robin_peer_def get_peer_with.simps rr_choose_def rr_found_def rp_full_def Let_def)
  obtain picks1 where r: "rr_serve ?us1 es = (picks1, us')" "picks = 0 # picks1"
    using 2(8) i g by (auto split: prod.splits)
  have "picks1 = replicate (length (filter (\<lambda>e. \<exists>now. e = Rr_get now) es)) 0"
    by (rule 2(1) [OF i [symmetric] g(1) [symmetric] refl refl, of "rp_connect p"]) (use 2(2-7) r in \<open>auto simp: rp_connect_def\<close>)
  with r show ?case by simp
next
  case (3 us now i es)
  obtain pc d where d: "ngx_http_upstream_init_round_robin_peer us = (pc, d)" by fastforce
  have i: "i = 0" using 3(7) by auto
  let ?p = "p\<lparr>rp_conns := rp_conns p - 1\<rparr>"
  let ?us1 = "us[0 := (us ! 0)\<lparr>rps_peer := [?p]\<rparr>]"
  obtain pc1 where f: "ngx_http_upstream_free_round_robin_peer now us pc (d\<lparr>rrp_current := Some (0, i)\<rparr>) 0 = Some (?us1, pc1)"
    using 3(2-6) rr_untried_new(1) [OF d] i by (simp add: ngx_http_upstream_free_round_robin_peer_def Let_def)
  have "rr_serve ?us1 es = (picks, us')" using 3(8) d f by simp
  then have "picks = replicate (length (filter (\<lambda>e. \<exists>now. e = Rr_get now) es)) 0"
    by (intro 3(1) [OF d [symmetric] f refl, of ?p]) (use 3(2-7) in auto)
  then show ?case by simp
qed simp

text \<open>
  C14: The round robin is exactly fair. When the servers of an upstream are up, without connection limits and
  without failures, and any number of requests is spread over them, with requests ending in between in any
  order, then at no time a server has got more than one request above its share by weight; and after any
  multiple of the total weight every server has got exactly its share. No weight overflows on the way.
\<close>

theorem ngx_http_upstream_round_robin_fair:
  assumes "ngx_http_upstream_init_round_robin host (Some servers) port resolved = Some us"
    and "\<forall>s\<in>set servers. 0 < srv_weight s \<and> \<not> srv_down s \<and> srv_max_conns s = 0"
    and "ws = map rp_weight (rps_peer (us ! 0))"
    and "int (length ws + 1) * sum_list ws < 2 ^ 63"
    and "\<forall>now i. Rr_done now i \<in> set es \<longrightarrow> i < length ws"
    and "k < length ws"
  shows "sum_list ws * (int (count_list (fst (rr_serve us es)) k) - 1) < int (length (fst (rr_serve us es))) * ws ! k
    \<and> length (fst (rr_serve us es)) = length (filter (\<lambda>e. \<exists>now. e = Rr_get now) es)
    \<and> (\<forall>m. int (length (fst (rr_serve us es))) = m * sum_list ws \<longrightarrow> int (count_list (fst (rr_serve us es)) k) = m * ws ! k)"
proof -
  note i = rr_init_peers [OF assms(1)]
  obtain picks us' where r: "rr_serve us es = (picks, us')" by fastforce
  have W: "sum_list ws = (\<Sum>k<length ws. ws ! k)" by (simp add: sum_list_sum_nth atLeast0LessThan)
  have new: "\<exists>s a. p = rr_new_peer s a \<and> 0 < srv_weight s \<and> \<not> srv_down s \<and> srv_max_conns s = 0" if "p \<in> set (rps_peer (us ! 0))" for p
    using i(5) assms(2) that by blast
  have ne: "ws \<noteq> []" using assms(6) by auto
  have pos: "\<forall>w\<in>set ws. 0 < w" using new by (fastforce simp: assms(3) rr_new_peer_def)
  show ?thesis
  proof (cases "rps_single (us ! 0)")
    case True
    then obtain p where p: "rps_peer (us ! 0) = [p]" using i(4) by (auto simp: length_Suc_conv)
    then have "picks = replicate (length (filter (\<lambda>e. \<exists>now. e = Rr_get now) es)) 0"
      using new [of p] assms(3,5) by (intro rr_single_serve [OF i(1) True p _ _ _ r]) (auto simp: rr_new_peer_def)
    moreover have "0 < rp_weight p" using pos p assms(3) by simp
    ultimately show ?thesis using p assms(3,6) r by (simp add: algebra_simps count_list_replicate)
  next
    case False
    have "rr_even_us ws 0 (\<lambda>_. 0) us"
    proof -
      have "rr_even_peer (\<Sum>k<length ws. ws ! k) (ws ! k) 0 0 (rps_peer (us ! 0) ! k)" if "k < length ws" for k
      proof -
        have "rps_peer (us ! 0) ! k \<in> set (rps_peer (us ! 0))" "ws ! k = rp_weight (rps_peer (us ! 0) ! k)"
          using that assms(3) by auto
        moreover have "0 < (\<Sum>k<length ws. ws ! k)" using pos that by (intro sum_pos) auto
        ultimately show ?thesis using new by (fastforce simp: rr_even_peer_def rr_new_peer_def)
      qed
      then show ?thesis using i False assms(3) by (simp add: rr_even_us_def rr_even_def)
    qed
    then have e: "length picks = length (filter (\<lambda>e. \<exists>now. e = Rr_get now) es)"
      "rr_even ws (length picks) (count_list picks) (rps_peer (us' ! 0))"
      using rr_even_serve [OF _ pos ne _ assms(5) r, of 0 "\<lambda>_. 0"] assms(4,6) W by (auto simp: rr_even_us_def)
    show ?thesis using rr_even_counts [OF e(2) pos assms(6)] e(1) r W by auto
  qed
qed

definition example_server :: "string \<Rightarrow> int \<Rightarrow> ngx_http_upstream_server_t" where
  "example_server name w = \<lparr>srv_name = bytes name, srv_addrs = [bytes name], srv_weight = w, srv_max_conns = 0,
     srv_max_fails = 1, srv_fail_timeout = 10, srv_down = False, srv_backup = False\<rparr>"

theorem ngx_http_upstream_round_robin_fair_witness:
  "\<exists>us. ngx_http_upstream_init_round_robin (bytes ''backend'')
       (Some [example_server ''a'' 5, example_server ''b'' 1, example_server ''c'' 1]) 0 None = Some us
     \<and> fst (rr_serve us [Rr_get 1, Rr_get 2, Rr_done 3 0, Rr_get 4, Rr_get 5, Rr_get 5, Rr_get 6, Rr_get 7]) = [0, 0, 1, 0, 2, 0, 0]
     \<and> int (count_list [0, 0, 1, 0, 2, 0, 0] (0 :: nat)) = 5"
proof -
  let ?servers = "[example_server ''a'' 5, example_server ''b'' 1, example_server ''c'' 1]"
  let ?es = "[Rr_get 1, Rr_get 2, Rr_done 3 0, Rr_get 4, Rr_get 5, Rr_get 5, Rr_get 6, Rr_get 7]"
  let ?us = "the (ngx_http_upstream_init_round_robin (bytes ''backend'') (Some ?servers) 0 None)"
  have i: "ngx_http_upstream_init_round_robin (bytes ''backend'') (Some ?servers) 0 None = Some ?us" by code_simp
  have p: "fst (rr_serve ?us ?es) = [0, 0, 1, 0, 2, 0, 0]" by code_simp
  have w: "[5, 1, 1] = map rp_weight (rps_peer (?us ! 0))" by code_simp
  have "\<forall>m. int (length (fst (rr_serve ?us ?es))) = m * sum_list [5, 1, 1]
      \<longrightarrow> int (count_list (fst (rr_serve ?us ?es)) 0) = m * [5, 1, 1] ! 0"
    using ngx_http_upstream_round_robin_fair [OF i _ w, of ?es 0] by (simp add: example_server_def)
  from this [rule_format, of 1] have "int (count_list (fst (rr_serve ?us ?es)) 0) = 5" unfolding p by simp
  then show ?thesis using i p by metis
qed

end
