(* ===== verification/Ngx_Http_Upstream_Balance.thy ===== *)
theory Ngx_Http_Upstream_Balance
  imports Ngx_Http_Upstream_Rr
begin

text \<open>
  The other balancers and what all of them keep: \<^verbatim>\<open>least_conn\<close> and \<^verbatim>\<open>ip_hash\<close> of \<^verbatim>\<open>http/modules\<close>, and the
  protocol of \<^verbatim>\<open>http/ngx_http_upstream.c\<close>, in which any number of requests take and release peers in any
  order. The locale \<open>balancer\<close> is the interface \<^verbatim>\<open>peer.get\<close>; the lemmas on the connection counts are
  proved in it once.
\<close>

section \<open>Least connections\<close>

definition lc_less :: "ngx_http_upstream_rr_peer_t \<Rightarrow> ngx_http_upstream_rr_peer_t \<Rightarrow> bool" where
  "lc_less p q \<longleftrightarrow> rp_conns p * word_of_int (rp_weight q) < rp_conns q * word_of_int (rp_weight p)"

definition lc_equal :: "ngx_http_upstream_rr_peer_t \<Rightarrow> ngx_http_upstream_rr_peer_t \<Rightarrow> bool" where
  "lc_equal p q \<longleftrightarrow> rp_conns p * word_of_int (rp_weight q) = rp_conns q * word_of_int (rp_weight p)"

text \<open>The first loop, with \<^verbatim>\<open>best\<close> and \<^verbatim>\<open>many\<close>.\<close>

fun lc_best ::
  "(nat \<Rightarrow> ngx_http_upstream_rr_peer_t \<Rightarrow> bool) \<Rightarrow> ngx_http_upstream_rr_peer_t list \<Rightarrow> nat list \<Rightarrow> nat option \<Rightarrow> bool
     \<Rightarrow> nat option \<times> bool"
where
  "lc_best skip ps [] best many = (best, many)"
| "lc_best skip ps (i # is) best many =
     (if skip i (ps ! i) then lc_best skip ps is best many
      else case best of
        None \<Rightarrow> lc_best skip ps is (Some i) False
      | Some b \<Rightarrow>
          if lc_less (ps ! i) (ps ! b) then lc_best skip ps is (Some i) False
          else if lc_equal (ps ! i) (ps ! b) then lc_best skip ps is best True
          else lc_best skip ps is best many)"

text \<open>The second loop: the round robin among the peers that are equal to the best one.\<close>

fun lc_many ::
  "(nat \<Rightarrow> ngx_http_upstream_rr_peer_t \<Rightarrow> bool) \<Rightarrow> ngx_http_upstream_rr_peer_t list \<Rightarrow> nat list \<Rightarrow> nat \<Rightarrow> int
     \<Rightarrow> ngx_http_upstream_rr_peer_t list \<times> nat \<times> int"
where
  "lc_many skip ps [] best tot = (ps, best, tot)"
| "lc_many skip ps (i # is) best tot =
     (if skip i (ps ! i) \<or> \<not> lc_equal (ps ! i) (ps ! best) then lc_many skip ps is best tot
      else
        let tot = s64 (tot + rp_effective_weight (ps ! i)); ps = ps[i := rr_weigh (ps ! i)];
            best = (if rp_current_weight (ps ! i) > rp_current_weight (ps ! best) then i else best)
        in lc_many skip ps is best tot)"

definition lc_choose ::
  "int \<Rightarrow> ngx_http_upstream_rr_peers_t \<Rightarrow> 'a ngx_http_upstream_rr_peer_data_t_scheme
     \<Rightarrow> nat option \<times> ngx_http_upstream_rr_peer_t list \<times> 'a ngx_http_upstream_rr_peer_data_t_scheme"
where
  "lc_choose now peers d =
     (let ps = rps_peer peers; skip = rr_skip now (rrp_tried d) in
      case lc_best skip ps [0..<length ps] None False of
        (None, _) \<Rightarrow> (None, ps, d)
      | (Some p, many) \<Rightarrow>
          (case (if many then lc_many skip ps [p..<length ps] p 0 else (ps, p, 0)) of (ps, best, tot) \<Rightarrow>
             (Some best, ps[best := rp_touch now (rp_charge tot (ps ! best))],
              d\<lparr>rrp_current := Some (rrp_peers d, best), rrp_tried := rr_set_tried (rrp_tried d) best\<rparr>)))"

text \<open>A group with a single peer is left to the round robin.\<close>

definition lc_choose_or_single ::
  "int \<Rightarrow> ngx_http_upstream_rr_peers_t \<Rightarrow> 'a ngx_http_upstream_rr_peer_data_t_scheme
     \<Rightarrow> nat option \<times> ngx_http_upstream_rr_peer_t list \<times> 'a ngx_http_upstream_rr_peer_data_t_scheme"
where
  "lc_choose_or_single now peers d = (if rps_single peers then rr_choose now peers d else lc_choose now peers d)"

definition ngx_http_upstream_get_least_conn_peer ::
  "int \<Rightarrow> upstream \<Rightarrow> ngx_peer_connection_t \<Rightarrow> 'a ngx_http_upstream_rr_peer_data_t_scheme
     \<Rightarrow> int \<times> upstream \<times> ngx_peer_connection_t \<times> 'a ngx_http_upstream_rr_peer_data_t_scheme"
where
  "ngx_http_upstream_get_least_conn_peer = get_peer_with lc_choose_or_single"

section \<open>Hash of the client address\<close>

record ngx_http_upstream_ip_hash_peer_data_t = ngx_http_upstream_rr_peer_data_t +
  iphp_hash :: nat
  iphp_addr :: "u_char list"
  iphp_tries :: nat

text \<open>
  The first three bytes of an IPv4 address or the sixteen of an IPv6 address are hashed; a client of
  another family has the three bytes of \<^verbatim>\<open>ngx_http_upstream_ip_hash_pseudo_addr\<close>.
\<close>

datatype sockaddr = Sockaddr_in "u_char list" | Sockaddr_in6 "u_char list" | Sockaddr_un

definition ngx_http_upstream_init_ip_hash_peer ::
  "upstream \<Rightarrow> sockaddr \<Rightarrow> ngx_peer_connection_t \<times> ngx_http_upstream_ip_hash_peer_data_t"
where
  "ngx_http_upstream_init_ip_hash_peer us client =
     (case ngx_http_upstream_init_round_robin_peer us of (pc, d) \<Rightarrow>
        (pc, ngx_http_upstream_rr_peer_data_t.extend d
               \<lparr>iphp_hash = 89,
                iphp_addr = (case client of Sockaddr_in a \<Rightarrow> take 3 a | Sockaddr_in6 a \<Rightarrow> take 16 a | Sockaddr_un \<Rightarrow> [0, 0, 0]),
                iphp_tries = 0\<rparr>))"

definition iphp_rehash :: "u_char list \<Rightarrow> nat \<Rightarrow> nat" where
  "iphp_rehash addr hash = foldl (\<lambda>h a. (h * 113 + unat a) mod 6271) hash addr"

text \<open>The walk to the peer of a weight; \<open>None\<close> is the use of \<^verbatim>\<open>peer->next\<close> when it is \<^verbatim>\<open>NULL\<close>.\<close>

fun weight_walk :: "ngx_http_upstream_rr_peer_t list \<Rightarrow> int \<Rightarrow> nat option" where
  "weight_walk [] w = None"
| "weight_walk (p # ps) w = (if w \<ge> rp_weight p then map_option Suc (weight_walk ps (w - rp_weight p)) else Some 0)"

text \<open>
  What is done with the peer that the hash names, by this and by the hash balancer: \<^verbatim>\<open>NGX_OK\<close>, or \<open>None\<close> for
  \<^verbatim>\<open>goto next\<close>.
\<close>

definition hash_take ::
  "int \<Rightarrow> upstream \<Rightarrow> ngx_peer_connection_t \<Rightarrow> 'a ngx_http_upstream_rr_peer_data_t_scheme \<Rightarrow> nat
     \<Rightarrow> (int \<times> upstream \<times> ngx_peer_connection_t \<times> 'a ngx_http_upstream_rr_peer_data_t_scheme) option"
where
  "hash_take now us pc d p =
     (let g = rrp_peers d; peers = us ! g; peer = rps_peer peers ! p in
      if rr_skip now (rrp_tried d) p peer then None
      else
        Some (NGX_OK,
              us[g := peers\<lparr>rps_peer := (rps_peer peers)[p := rp_touch now (rp_connect peer)]\<rparr>],
              pc\<lparr>pc_cached := False, pc_connection := False, pc_sockaddr := Some (rp_sockaddr peer), pc_name := rp_sockaddr peer\<rparr>,
              d\<lparr>rrp_current := Some (g, p), rrp_tried := rr_set_tried (rrp_tried d) p\<rparr>))"

text \<open>The loop; \<open>None\<close> is a crash: a division by zero or a walk over the end of the peers.\<close>

function iphp_loop ::
  "int \<Rightarrow> upstream \<Rightarrow> ngx_peer_connection_t \<Rightarrow> ngx_http_upstream_ip_hash_peer_data_t \<Rightarrow> nat
     \<Rightarrow> (int \<times> upstream \<times> ngx_peer_connection_t \<times> ngx_http_upstream_ip_hash_peer_data_t) option"
where
  "iphp_loop now us pc d hash =
     (let peers = us ! rrp_peers d; hash = iphp_rehash (iphp_addr d) hash in
      if rps_total_weight peers = 0 then None
      else case weight_walk (rps_peer peers) (int (hash mod unat (rps_total_weight peers))) of
        None \<Rightarrow> None
      | Some p \<Rightarrow>
          (case hash_take now us pc d p of
             Some (rc, us, pc, d) \<Rightarrow> Some (rc, us, pc, d\<lparr>iphp_hash := hash\<rparr>)
           | None \<Rightarrow>
               let d = d\<lparr>iphp_tries := iphp_tries d + 1\<rparr> in
               if iphp_tries d > 20
               then Some (ngx_http_upstream_get_round_robin_peer now us (pc\<lparr>pc_cached := False, pc_connection := False\<rparr>) d)
               else iphp_loop now us pc d hash))"
  by pat_completeness auto
termination
  by (relation "measure (\<lambda>(now, us, pc, d, hash). 21 - iphp_tries d)") auto

declare iphp_loop.simps [simp del]

definition ngx_http_upstream_get_ip_hash_peer ::
  "int \<Rightarrow> upstream \<Rightarrow> ngx_peer_connection_t \<Rightarrow> ngx_http_upstream_ip_hash_peer_data_t
     \<Rightarrow> (int \<times> upstream \<times> ngx_peer_connection_t \<times> ngx_http_upstream_ip_hash_peer_data_t) option"
where
  "ngx_http_upstream_get_ip_hash_peer now us pc d =
     (if iphp_tries d > 20 \<or> rps_single (us ! rrp_peers d)
      then Some (ngx_http_upstream_get_round_robin_peer now us pc d)
      else iphp_loop now us pc d (iphp_hash d))"

section \<open>What a balancer promises\<close>

text \<open>The fields that no balancer changes, and the range of the effective weight, which all of them keep.\<close>

definition peer_keeps :: "ngx_http_upstream_rr_peer_t \<Rightarrow> ngx_http_upstream_rr_peer_t \<Rightarrow> bool" where
  "peer_keeps p q \<longleftrightarrow> rp_weight q = rp_weight p \<and> rp_max_conns q = rp_max_conns p
     \<and> rp_max_fails q = rp_max_fails p \<and> rp_down q = rp_down p \<and> rp_server q = rp_server p
     \<and> (0 \<le> rp_effective_weight p \<and> rp_effective_weight p \<le> rp_weight p \<and> rp_weight p < 2 ^ 63
          \<longrightarrow> 0 \<le> rp_effective_weight q \<and> rp_effective_weight q \<le> rp_weight q)"

definition peer_stays :: "ngx_http_upstream_rr_peer_t \<Rightarrow> ngx_http_upstream_rr_peer_t \<Rightarrow> bool" where
  "peer_stays p q \<longleftrightarrow> peer_keeps p q \<and> rp_conns q = rp_conns p"

definition group_keeps :: "ngx_http_upstream_rr_peers_t \<Rightarrow> ngx_http_upstream_rr_peers_t \<Rightarrow> bool" where
  "group_keeps g h \<longleftrightarrow> rps_number h = rps_number g \<and> rps_total_weight h = rps_total_weight g \<and> rps_single h = rps_single g
     \<and> list_all2 peer_keeps (rps_peer g) (rps_peer h)"

definition up_keeps :: "upstream \<Rightarrow> upstream \<Rightarrow> bool" where
  "up_keeps us vs \<longleftrightarrow> list_all2 group_keeps us vs"

definition peer_ok :: "ngx_http_upstream_rr_peer_t \<Rightarrow> bool" where
  "peer_ok p \<longleftrightarrow> 0 < rp_weight p \<and> 0 \<le> rp_effective_weight p \<and> rp_effective_weight p \<le> rp_weight p"

definition group_ok :: "ngx_http_upstream_rr_peers_t \<Rightarrow> bool" where
  "group_ok g \<longleftrightarrow> rps_number g = length (rps_peer g) \<and> rps_peer g \<noteq> [] \<and> (rps_single g \<longrightarrow> length (rps_peer g) = 1)
     \<and> rps_total_weight g = word_of_int (sum_list (map rp_weight (rps_peer g)))
     \<and> sum_list (map rp_weight (rps_peer g)) < 2 ^ 63 \<and> (\<forall>p\<in>set (rps_peer g). peer_ok p)"

definition up_ok :: "upstream \<Rightarrow> bool" where
  "up_ok us \<longleftrightarrow> us \<noteq> [] \<and> length us \<le> 2 \<and> (\<forall>g\<in>set us. group_ok g)"

definition data_ok :: "upstream \<Rightarrow> 'a ngx_http_upstream_rr_peer_data_t_scheme \<Rightarrow> bool" where
  "data_ok us d \<longleftrightarrow> rrp_peers d < length us \<and> (\<forall>g\<in>set us. rps_number g \<le> 64 * length (rrp_tried d))"

abbreviation (input) peer_at :: "upstream \<Rightarrow> nat \<Rightarrow> nat \<Rightarrow> ngx_http_upstream_rr_peer_t" where
  "peer_at us g i \<equiv> rps_peer (us ! g) ! i"

abbreviation (input) peer_in :: "upstream \<Rightarrow> nat \<Rightarrow> nat \<Rightarrow> bool" where
  "peer_in us g i \<equiv> g < length us \<and> i < length (rps_peer (us ! g))"

text \<open>The peer \<open>i\<close> of group \<open>g\<close> may be given out: it takes connections and this request has not tried it.\<close>

definition may_take :: "int \<Rightarrow> upstream \<Rightarrow> 'a ngx_http_upstream_rr_peer_data_t_scheme \<Rightarrow> nat \<Rightarrow> nat \<Rightarrow> bool" where
  "may_take now us d g i \<longleftrightarrow> peer_in us g i \<and> \<not> rp_down (peer_at us g i) \<and> \<not> rp_full (peer_at us g i)
     \<and> (\<not> rps_single (us ! g) \<longrightarrow> \<not> rp_failed now (peer_at us g i)
          \<and> (rrp_peers d < g \<or> rrp_peers d = g \<and> \<not> rr_tried (rrp_tried d) i))"

text \<open>The bitmap after the choice.\<close>

definition tried_grows ::
  "upstream \<Rightarrow> 'a ngx_http_upstream_rr_peer_data_t_scheme \<Rightarrow> 'b ngx_http_upstream_rr_peer_data_t_scheme \<Rightarrow> bool"
where
  "tried_grows us d e \<longleftrightarrow> rrp_peers d \<le> rrp_peers e \<and> (rrp_peers d = rrp_peers e \<longrightarrow>
     (\<forall>k < rps_number (us ! rrp_peers d). rr_tried (rrp_tried d) k \<longrightarrow> rr_tried (rrp_tried e) k))"

definition conns_added :: "upstream \<Rightarrow> upstream \<Rightarrow> (nat \<times> nat) option \<Rightarrow> bool" where
  "conns_added us vs at \<longleftrightarrow> (\<forall>g i. peer_in us g i \<longrightarrow>
     rp_conns (peer_at vs g i) = rp_conns (peer_at us g i) + (if at = Some (g, i) then 1 else 0))"

definition get_spec ::
  "int \<Rightarrow> upstream \<Rightarrow> ngx_peer_connection_t \<Rightarrow> 'a ngx_http_upstream_rr_peer_data_t_scheme
     \<Rightarrow> int \<times> upstream \<times> ngx_peer_connection_t \<times> 'a ngx_http_upstream_rr_peer_data_t_scheme \<Rightarrow> bool"
where
  "get_spec now us pc d = (\<lambda>(rc, vs, pc', e).
     up_keeps us vs \<and> data_ok us e \<and> tried_grows us d e \<and>
     (rc = NGX_OK \<and> pc_sockaddr pc' \<noteq> None
        \<and> (\<exists>g i. rrp_current e = Some (g, i) \<and> may_take now us d g i \<and> rrp_peers e = g \<and> conns_added us vs (Some (g, i))
              \<and> (\<not> rps_single (us ! g) \<longrightarrow> rr_tried (rrp_tried e) i))
      \<or> rc = NGX_BUSY \<and> pc_sockaddr pc' = pc_sockaddr pc \<and> conns_added us vs None))"

text \<open>A refusal means that no peer can be given out.\<close>

definition busy_spec ::
  "int \<Rightarrow> upstream \<Rightarrow> 'a ngx_http_upstream_rr_peer_data_t_scheme \<Rightarrow> int \<Rightarrow> bool"
where
  "busy_spec now us d rc \<longleftrightarrow> (rc = NGX_BUSY \<longrightarrow> (\<forall>g i. rrp_peers d \<le> g \<longrightarrow> \<not> may_take now us d g i))"

text \<open>The choice inside one group.\<close>

definition pick_spec ::
  "int \<Rightarrow> ngx_http_upstream_rr_peers_t \<Rightarrow> 'a ngx_http_upstream_rr_peer_data_t_scheme
     \<Rightarrow> nat option \<times> ngx_http_upstream_rr_peer_t list \<times> 'a ngx_http_upstream_rr_peer_data_t_scheme \<Rightarrow> bool"
where
  "pick_spec now peers d = (\<lambda>(best, ps, e).
     list_all2 peer_stays (rps_peer peers) ps \<and>
     (case best of
        None \<Rightarrow> ps = rps_peer peers \<and> (\<forall>i<length ps. rp_down (ps ! i) \<or> rp_full (ps ! i)
          \<or> \<not> rps_single peers \<and> (rp_failed now (ps ! i) \<or> rr_tried (rrp_tried d) i))
      | Some i \<Rightarrow> i < length (rps_peer peers) \<and> \<not> rp_down (rps_peer peers ! i) \<and> \<not> rp_full (rps_peer peers ! i)
          \<and> rrp_peers e = rrp_peers d \<and> rrp_current e = Some (rrp_peers d, i)
          \<and> (if rps_single peers then rrp_tried e \<in> {rrp_tried d, rr_set_tried (rrp_tried d) i}
             else \<not> rp_failed now (rps_peer peers ! i) \<and> \<not> rr_tried (rrp_tried d) i
                \<and> rrp_tried e = rr_set_tried (rrp_tried d) i)))"

section \<open>The bitmap\<close>

lemma length_rr_set_tried [simp]: "length (rr_set_tried tried i) = length tried"
  by (simp add: rr_set_tried_def)

lemma rr_tried_bit: "rr_tried tried i \<longleftrightarrow> bit (tried ! (i div 64)) (i mod 64)"
proof -
  have "rr_tried tried i \<longleftrightarrow> tried ! (i div 64) AND push_bit (i mod 64) 1 \<noteq> 0" by (simp add: rr_tried_def)
  also have "\<dots> \<longleftrightarrow> bit (tried ! (i div 64)) (i mod 64)"
    by (simp add: push_bit_of_1 bit_iff_and_push_bit_not_eq_0)
  finally show ?thesis .
qed

lemma rr_tried_set:
  assumes "i div 64 < length tried"
  shows "rr_tried (rr_set_tried tried i) k \<longleftrightarrow> k = i \<or> rr_tried tried k"
proof (cases "k div 64 = i div 64")
  case True
  have "k mod 64 = i mod 64 \<longleftrightarrow> k = i" using True by (metis div_mult_mod_eq)
  with True assms show ?thesis
    by (auto simp: rr_tried_bit rr_set_tried_def bit_or_iff bit_push_bit_iff bit_exp_iff possible_bit_word)
next
  case False
  with assms show ?thesis by (auto simp: rr_tried_bit rr_set_tried_def)
qed


section \<open>Single peers\<close>

lemma peer_keeps_refl [simp]: "peer_keeps p p"
  by (simp add: peer_keeps_def)

lemma peer_keeps_trans: "peer_keeps p q \<Longrightarrow> peer_keeps q r \<Longrightarrow> peer_keeps p r"
  by (auto simp: peer_keeps_def)

lemma peer_keeps_weigh [simp]: "peer_keeps p (rr_weigh p)"
  by (auto simp: peer_keeps_def rr_weigh_def)

lemma peer_keeps_simps [simp]:
  "peer_keeps p (rp_touch now q) = peer_keeps p q" "peer_keeps p (rp_charge tot q) = peer_keeps p q"
  "peer_keeps p (rp_connect q) = peer_keeps p q"
  by (simp_all add: peer_keeps_def rp_touch_def rp_charge_def rp_connect_def)

lemma conns_simps [simp]:
  "rp_conns (rr_weigh p) = rp_conns p" "rp_conns (rp_touch now p) = rp_conns p" "rp_conns (rp_charge tot p) = rp_conns p"
  "rp_conns (rp_connect p) = rp_conns p + 1"
  by (simp_all add: rr_weigh_def rp_touch_def rp_charge_def rp_connect_def)

lemma peer_stays_refl [simp]: "peer_stays p p"
  by (simp add: peer_stays_def)

lemma peer_stays_trans: "peer_stays p q \<Longrightarrow> peer_stays q r \<Longrightarrow> peer_stays p r"
  by (auto simp: peer_stays_def intro: peer_keeps_trans)

lemma peer_stays_simps [simp]:
  "peer_stays p (rr_weigh p)" "peer_stays p (rp_touch now q) = peer_stays p q" "peer_stays p (rp_charge tot q) = peer_stays p q"
  by (simp_all add: peer_stays_def)

lemma peers_stay_refl [simp]: "list_all2 peer_stays ps ps"
  by (simp add: list.rel_refl)

lemma peers_stay_update:
  "list_all2 P ps qs \<Longrightarrow> (\<And>p q. P p q \<Longrightarrow> P p (f q)) \<Longrightarrow> list_all2 P ps (qs[i := f (qs ! i)])"
  by (cases "i < length qs") (auto simp: list_all2_conv_all_nth nth_list_update)

lemmas peers_stay_trans = list_all2_trans [of peer_stays peer_stays peer_stays, OF peer_stays_trans]

lemma group_ok_keeps:
  assumes "group_ok g" "group_keeps g h"
  shows "group_ok h"
proof -
  from assms(2) have l: "length (rps_peer h) = length (rps_peer g)"
    and k: "\<And>i. i < length (rps_peer g) \<Longrightarrow> peer_keeps (rps_peer g ! i) (rps_peer h ! i)"
    by (auto simp: group_keeps_def list_all2_conv_all_nth)
  have w: "map rp_weight (rps_peer h) = map rp_weight (rps_peer g)"
    using l k by (intro nth_equalityI) (auto simp: peer_keeps_def)
  have "rp_weight (rps_peer g ! i) < 2 ^ 63" if "i < length (rps_peer g)" for i
  proof -
    have "rp_weight (rps_peer g ! i) \<le> sum_list (map rp_weight (rps_peer g))"
      using assms(1) that by (intro member_le_sum_list) (auto simp: group_ok_def peer_ok_def less_imp_le)
    then show ?thesis using assms(1) by (simp add: group_ok_def)
  qed
  then have "peer_ok (rps_peer h ! i)" if "i < length (rps_peer g)" for i
    using k [OF that] that assms(1) unfolding group_ok_def peer_ok_def peer_keeps_def by (auto simp: all_set_conv_all_nth)
  with w l assms show ?thesis by (auto simp: group_ok_def group_keeps_def all_set_conv_all_nth)
qed

section \<open>Round robin and least connections\<close>

lemma rr_choose_spec:
  assumes "group_ok peers"
  shows "pick_spec now peers d (rr_choose now peers d)"
proof (cases "rps_single peers")
  case True
  then show ?thesis using assms by (auto simp: rr_choose_def pick_spec_def Let_def group_ok_def list.rel_refl)
next
  case False
  let ?ps = "rps_peer peers" and ?skip = "rr_skip now (rrp_tried d)"
  obtain ps1 best tot where loop: "rr_loop ?skip ?ps 0 None 0 = (ps1, best, tot)" by (metis prod_cases3)
  have post: "rr_loop_post ?skip ?ps 0 None 0 ps1 best tot"
    using rr_loop_correct [of None 0 ?ps 0 ?skip] loop by simp
  have l: "length ps1 = length ?ps" and n: "\<And>k. k < length ?ps \<Longrightarrow> ps1 ! k = ?ps ! k \<or> ps1 ! k = rr_weigh (?ps ! k)"
    using post unfolding rr_loop_post_def by auto
  have k: "list_all2 peer_stays ?ps ps1"
    unfolding list_all2_conv_all_nth using l n by (metis peer_stays_refl peer_stays_simps(1))
  show ?thesis
  proof (cases best)
    case None
    then have "ps1 = ?ps" "\<forall>k<length ?ps. ?skip k (?ps ! k)"
      using post l unfolding rr_loop_post_def by (auto intro: nth_equalityI)
    with None False loop k show ?thesis
      by (auto simp: rr_choose_def ngx_http_upstream_get_peer_def pick_spec_def rr_skip_def)
  next
    case (Some b)
    then have "b < length ?ps" "\<not> ?skip b (?ps ! b)" using post unfolding rr_loop_post_def by auto
    moreover have "list_all2 peer_stays ?ps (ps1[b := rp_touch now (rp_charge tot (ps1 ! b))])"
      by (rule peers_stay_update [OF k]) simp
    ultimately show ?thesis using False loop Some
      by (simp add: rr_choose_def ngx_http_upstream_get_peer_def pick_spec_def rr_skip_def)
  qed
qed

lemma lc_best_spec:
  "\<forall>i\<in>set is. i < length ps \<Longrightarrow> pred_option (\<lambda>b. b < length ps \<and> \<not> skip b (ps ! b)) best \<Longrightarrow>
     pred_option (\<lambda>b. b < length ps \<and> \<not> skip b (ps ! b)) (fst (lc_best skip ps is best many))"
proof (induction skip ps "is" best many rule: lc_best.induct)
  case (2 skip ps i "is" best many)
  then show ?case by (cases best) simp_all
qed simp

lemma lc_best_none:
  "fst (lc_best skip ps is best many) = None \<Longrightarrow> best = None \<and> (\<forall>i\<in>set is. skip i (ps ! i))"
proof (induction "is" arbitrary: best many)
  case (Cons i "is")
  have n: "\<not> fst (lc_best skip ps is (Some b) m) = None" for b m using Cons.IH by blast
  have "skip i (ps ! i)" using Cons.prems by (cases best) (simp_all add: n split: if_split_asm)
  with Cons.IH [of best many] Cons.prems show ?case by simp
qed simp

lemma lc_many_spec:
  assumes "\<And>i p. skip i (rr_weigh p) = skip i p"
    and "\<forall>i\<in>set is. i < length ps" "best < length ps" "\<not> skip best (ps ! best)"
    and "lc_many skip ps is best tot = (ps', best', tot')"
  shows "best' < length ps \<and> \<not> skip best' (ps ! best') \<and> list_all2 peer_stays ps ps'"
  using assms
proof (induction skip ps "is" best tot rule: lc_many.induct)
  case (2 skip ps i "is" best tot)
  show ?case
  proof (cases "skip i (ps ! i) \<or> \<not> lc_equal (ps ! i) (ps ! best)")
    case True
    with 2 show ?thesis by simp
  next
    case False
    let ?ps = "ps[i := rr_weigh (ps ! i)]"
    define best1 where "best1 = (if rp_current_weight (?ps ! i) > rp_current_weight (?ps ! best) then i else best)"
    have s: "skip k (?ps ! k) = skip k (ps ! k)" for k
      using 2(3) 2(4) by (cases "k = i") auto
    have "best' < length ?ps \<and> \<not> skip best' (?ps ! best') \<and> list_all2 peer_stays ?ps ps'"
      using 2(4-7) False s 2(3)
      by (intro 2(2) [OF False refl refl refl]) (auto simp: Let_def)
    moreover have "list_all2 peer_stays ps ?ps" by (rule peers_stay_update) (simp_all, metis peer_stays_simps(1) peer_stays_trans)
    ultimately show ?thesis using s peers_stay_trans by auto
  qed
qed auto

lemma lc_choose_spec:
  assumes "\<not> rps_single peers"
  shows "pick_spec now peers d (lc_choose now peers d)"
proof -
  let ?ps = "rps_peer peers" and ?skip = "rr_skip now (rrp_tried d)"
  obtain best many where b: "lc_best ?skip ?ps [0..<length ?ps] None False = (best, many)" by fastforce
  show ?thesis
  proof (cases best)
    case None
    with b lc_best_none [of ?skip ?ps "[0..<length ?ps]" None False] assms show ?thesis
      by (auto simp: lc_choose_def pick_spec_def Let_def rr_skip_def)
  next
    case (Some p)
    with b lc_best_spec [of "[0..<length ?ps]" ?ps ?skip None False] have p: "p < length ?ps" "\<not> ?skip p (?ps ! p)" by auto
    obtain ps1 q tot where m: "(if many then lc_many ?skip ?ps [p..<length ?ps] p 0 else (?ps, p, 0)) = (ps1, q, tot)"
      by (metis prod_cases3)
    have "?skip i (rr_weigh x) = ?skip i x" for i x
      by (simp add: rr_skip_def rr_weigh_def rp_failed_def rp_full_def)
    then have q: "q < length ?ps \<and> \<not> ?skip q (?ps ! q) \<and> list_all2 peer_stays ?ps ps1"
      using m p lc_many_spec [of ?skip "[p..<length ?ps]" ?ps p 0 ps1 q tot] by (cases many) auto
    moreover have "list_all2 peer_stays ?ps (ps1[q := rp_touch now (rp_charge tot (ps1 ! q))])"
      by (rule peers_stay_update) (use q in simp_all)
    ultimately show ?thesis using b m Some assms by (simp add: lc_choose_def pick_spec_def rr_skip_def Let_def)
  qed
qed


section \<open>Groups\<close>

lemma group_keeps_refl [simp]: "group_keeps g g"
  by (simp add: group_keeps_def list.rel_refl)

lemma group_keeps_trans: "group_keeps g h \<Longrightarrow> group_keeps h k \<Longrightarrow> group_keeps g k"
  unfolding group_keeps_def by (elim conjE) (intro conjI; (rule list_all2_trans [OF peer_keeps_trans])?; simp)

lemma up_keeps_refl [simp]: "up_keeps us us"
  by (simp add: up_keeps_def list.rel_refl)

lemma up_keeps_trans: "up_keeps us vs \<Longrightarrow> up_keeps vs xs \<Longrightarrow> up_keeps us xs"
  unfolding up_keeps_def by (rule list_all2_trans [OF group_keeps_trans])

lemma up_keeps_nth: "up_keeps us vs \<Longrightarrow> length vs = length us \<and> (\<forall>g<length us. group_keeps (us ! g) (vs ! g))"
  by (simp add: up_keeps_def list_all2_conv_all_nth)

lemma up_keeps_update: "group_keeps (us ! g) h \<Longrightarrow> up_keeps us (us[g := h])"
  by (cases "g < length us") (auto simp: up_keeps_def list_all2_conv_all_nth nth_list_update)

lemma up_ok_keeps: "up_ok us \<Longrightarrow> up_keeps us vs \<Longrightarrow> up_ok vs"
  unfolding up_ok_def using up_keeps_nth [of us vs] group_ok_keeps by (auto simp: all_set_conv_all_nth)

lemma data_ok_keeps: "data_ok us d \<Longrightarrow> up_keeps us vs \<Longrightarrow> data_ok vs d"
  unfolding data_ok_def using up_keeps_nth [of us vs] by (auto simp: all_set_conv_all_nth group_keeps_def)

lemma peer_in_keeps: "up_keeps us vs \<Longrightarrow> peer_in vs g i \<longleftrightarrow> peer_in us g i"
  using up_keeps_nth [of us vs] unfolding group_keeps_def by (metis list_all2_lengthD)

lemma data_ok_backup:
  assumes "data_ok us d" "rrp_peers d + 1 < length us"
  shows "data_ok us (rr_backup us d)"
proof -
  have "rps_number (us ! (rrp_peers d + 1)) \<le> 64 * length (rrp_tried d)"
    using assms nth_mem [OF assms(2)] by (simp add: data_ok_def)
  then have "(rps_number (us ! (rrp_peers d + 1)) + 63) div 64 \<le> length (rrp_tried d)" by simp
  with assms show ?thesis by (simp add: data_ok_def rr_backup_def Let_def)
qed

lemma get_spec_backup:
  assumes "get_spec now us pc (rr_backup us d) r" "pc_sockaddr pc = pc_sockaddr pc0"
  shows "get_spec now us pc0 d r"
proof -
  have "rrp_peers (rr_backup us d) = rrp_peers d + 1" by (simp add: rr_backup_def Let_def)
  then have "may_take now us (rr_backup us d) g i \<Longrightarrow> may_take now us d g i"
    "tried_grows us (rr_backup us d) e \<Longrightarrow> tried_grows us d e" for g i e
    by (auto simp: may_take_def tried_grows_def)
  with assms show ?thesis unfolding get_spec_def by (fastforce split: prod.splits)
qed

lemma busy_spec_backup:
  assumes "busy_spec now us (rr_backup us d) rc" "pick_spec now (us ! rrp_peers d) d (None, ps, e)"
    and "up_ok us"
  shows "busy_spec now us d rc"
proof -
  have d: "rrp_peers (rr_backup us d) = rrp_peers d + 1"
    "rrp_tried (rr_backup us d) = (let n = (rps_number (us ! (rrp_peers d + 1)) + 63) div 64 in replicate n 0 @ drop n (rrp_tried d))"
    by (simp_all add: rr_backup_def Let_def)
  have "\<not> rr_tried (rrp_tried (rr_backup us d)) i" if "may_take now us d (rrp_peers d + 1) i" for i
  proof -
    have "rps_number (us ! (rrp_peers d + 1)) = length (rps_peer (us ! (rrp_peers d + 1)))"
      using assms(3) that by (auto simp: may_take_def up_ok_def group_ok_def)
    then have "i div 64 < (rps_number (us ! (rrp_peers d + 1)) + 63) div 64"
      using that by (intro less_mult_imp_div_less) (auto simp: may_take_def)
    then show ?thesis by (simp add: rr_tried_def d(2) Let_def nth_append)
  qed
  then have "may_take now us (rr_backup us d) g i" if "may_take now us d g i" "rrp_peers d < g" for g i
    using that by (cases "g = rrp_peers d + 1") (auto simp: may_take_def d(1))
  moreover have "\<not> may_take now us d (rrp_peers d) i" for i
    using assms(2) by (auto simp: pick_spec_def may_take_def)
  ultimately show ?thesis using assms(1) unfolding busy_spec_def d(1)
    by (metis Suc_eq_plus1 Suc_leI le_neq_implies_less)
qed

lemma get_spec_found:
  assumes "up_ok us" "data_ok us d" "pick_spec now (us ! g) d (Some i, ps, e)" "g = rrp_peers d"
  shows "get_spec now us pc d (NGX_OK, us[g := (us ! g)\<lparr>rps_peer := ps[i := rp_connect (ps ! i)]\<rparr>], pc\<lparr>pc_sockaddr := Some a, pc_name := b\<rparr>, e)"
proof -
  let ?h = "(us ! g)\<lparr>rps_peer := ps[i := rp_connect (ps ! i)]\<rparr>"
  note p = assms(3) [unfolded pick_spec_def, simplified]
  have g: "g < length us" using assms(2,4) by (simp add: data_ok_def)
  have "rps_number (us ! g) \<le> 64 * length (rrp_tried d)" "rps_number (us ! g) = length (rps_peer (us ! g))"
    using assms(1,2) g by (auto simp: data_ok_def up_ok_def group_ok_def)
  then have i: "i div 64 < length (rrp_tried d)" using p by (intro less_mult_imp_div_less) simp
  have stay: "length ps = length (rps_peer (us ! g))" "\<And>k. k < length ps \<Longrightarrow> peer_stays (rps_peer (us ! g) ! k) (ps ! k)"
    using p by (auto simp: list_all2_conv_all_nth)
  have "group_keeps (us ! g) ?h"
    unfolding group_keeps_def
    by (simp, rule peers_stay_update) (use stay in \<open>auto simp: list_all2_conv_all_nth peer_stays_def\<close>)
  then have "up_keeps us (us[g := ?h])" by (rule up_keeps_update)
  moreover have "data_ok us e" using assms(2) p by (auto simp: data_ok_def split: if_splits)
  moreover have "tried_grows us d e" using p i rr_tried_set [OF i] by (auto simp: tried_grows_def split: if_splits)
  moreover have "may_take now us d g i" using p g assms(4) by (auto simp: may_take_def split: if_splits)
  moreover have "conns_added us (us[g := ?h]) (Some (g, i))"
    unfolding conns_added_def
  proof (intro allI impI)
    fix g' i' assume "peer_in us g' i'"
    then show "rp_conns (peer_at (us[g := ?h]) g' i') = rp_conns (peer_at us g' i') + (if Some (g, i) = Some (g', i') then 1 else 0)"
      using stay [of] g p by (cases "g' = g") (auto simp: nth_list_update peer_stays_def)
  qed
  moreover have "\<not> rps_single (us ! g) \<longrightarrow> rr_tried (rrp_tried e) i" using p rr_tried_set [OF i] by auto
  ultimately show ?thesis using p assms(4) by (auto simp: get_spec_def)
qed

lemma get_peer_with_spec:
  assumes "\<And>now peers d. group_ok peers \<Longrightarrow> pick_spec now peers d (pick now peers d)"
    and "up_ok us" "data_ok us d"
  shows "get_spec now us pc d (get_peer_with pick now us pc d)
    \<and> busy_spec now us d (fst (get_peer_with pick now us pc d))"
  using assms
proof (induction pick now us pc d rule: get_peer_with.induct)
  case (1 pick now us pc d)
  define g where "g = rrp_peers d"
  define pc1 where "pc1 = pc\<lparr>pc_cached := False, pc_connection := False\<rparr>"
  obtain best ps e where r: "pick now (us ! g) d = (best, ps, e)" by (metis prod_cases3)
  have g: "g < length us" using 1(4) by (simp add: data_ok_def g_def)
  then have s: "pick_spec now (us ! g) d (best, ps, e)" using 1(2,3) r by (metis nth_mem up_ok_def)
  show ?case
  proof (cases best)
    case (Some i)
    then have "get_peer_with pick now us pc d =
        (NGX_OK, us[g := (us ! g)\<lparr>rps_peer := ps[i := rp_connect (ps ! i)]\<rparr>],
         pc1\<lparr>pc_sockaddr := Some (rp_sockaddr (ps ! i)), pc_name := rp_sockaddr (ps ! i)\<rparr>, e)"
      using r g by (simp add: get_peer_with.simps g_def [symmetric] pc1_def rr_found_def Let_def)
    moreover have "get_spec now us pc d \<dots>" using get_spec_found [OF 1(3,4) s [unfolded Some] g_def, of pc1]
      by (simp add: get_spec_def pc1_def)
    ultimately show ?thesis by (simp add: busy_spec_def)
  next
    case None
    then have ps: "ps = rps_peer (us ! g)" using s by (simp add: pick_spec_def)
    let ?pick = "if rps_single (us ! g) then rr_choose else pick"
    show ?thesis
    proof (cases "g + 1 < length us")
      case False
      with None ps r have "get_peer_with pick now us pc d = (NGX_BUSY, us, pc1\<lparr>pc_name := rps_name (us ! g)\<rparr>, d)"
        by (simp add: get_peer_with.simps g_def [symmetric] pc1_def Let_def)
      moreover have "busy_spec now us d NGX_BUSY"
        using s None False by (auto simp: busy_spec_def pick_spec_def may_take_def g_def [symmetric] le_eq_less_or_eq)
      ultimately show ?thesis using 1(4) by (simp add: get_spec_def tried_grows_def conns_added_def pc1_def)
    next
      case True
      have ih: "get_spec now us pc1 (rr_backup us d) (get_peer_with ?pick now us pc1 (rr_backup us d))
          \<and> busy_spec now us (rr_backup us d) (fst (get_peer_with ?pick now us pc1 (rr_backup us d)))"
        by (rule 1(1) [OF g_def pc1_def r [symmetric] refl _ None True])
          (use ps 1(2-4) True rr_choose_spec data_ok_backup in \<open>auto simp: g_def\<close>)
      have "get_spec now us pc d (get_peer_with ?pick now us pc1 (rr_backup us d))"
        by (intro get_spec_backup [OF conjunct1 [OF ih]]) (simp add: pc1_def)
      moreover have "busy_spec now us d (fst (get_peer_with ?pick now us pc1 (rr_backup us d)))"
        using s None unfolding g_def by (intro busy_spec_backup [OF conjunct2 [OF ih [unfolded g_def]] _ 1(3)]) simp
      moreover have "get_peer_with pick now us pc d =
          (case get_peer_with ?pick now us pc1 (rr_backup us d) of (rc, us2, pc2, d2) \<Rightarrow>
             if rc \<noteq> NGX_BUSY then (rc, us2, pc2, d2) else (NGX_BUSY, us2, pc2\<lparr>pc_name := rps_name (us ! g)\<rparr>, d2))"
        using None ps r True by (subst get_peer_with.simps) (simp add: g_def [symmetric] pc1_def [symmetric] Let_def)
      moreover obtain rc us2 pc2 d2 where "get_peer_with ?pick now us pc1 (rr_backup us d) = (rc, us2, pc2, d2)"
        by (metis prod_cases4)
      ultimately show ?thesis by (cases "rc = NGX_BUSY") (simp_all add: get_spec_def)
    qed
  qed
qed


section \<open>The address hash\<close>

lemma weight_walk_found:
  "0 \<le> w \<Longrightarrow> w < sum_list (map rp_weight ps) \<Longrightarrow> \<exists>p<length ps. weight_walk ps w = Some p"
proof (induction ps arbitrary: w)
  case (Cons q ps)
  show ?case
  proof (cases "rp_weight q \<le> w")
    case True
    with Cons.prems Cons.IH [of "w - rp_weight q"] obtain p where "p < length ps" "weight_walk ps (w - rp_weight q) = Some p" by auto
    with True show ?thesis by auto
  qed simp
qed simp

lemma group_weight:
  assumes "group_ok g"
  shows "rps_total_weight g \<noteq> 0" "int (unat (rps_total_weight g)) = sum_list (map rp_weight (rps_peer g))"
proof -
  let ?w = "sum_list (map rp_weight (rps_peer g))"
  obtain p ps where ps: "rps_peer g = p # ps" using assms by (cases "rps_peer g") (auto simp: group_ok_def)
  have "0 \<le> sum_list (map rp_weight ps)" using assms ps by (intro sum_list_nonneg) (auto simp: group_ok_def peer_ok_def)
  then have w: "0 < ?w" "?w < 2 ^ 63" using assms ps by (auto simp: group_ok_def peer_ok_def)
  have "uint (rps_total_weight g) = ?w"
    using assms w by (simp add: group_ok_def uint_word_of_int take_bit_int_eq_self)
  then show "int (unat (rps_total_weight g)) = ?w" "rps_total_weight g \<noteq> 0" using w by auto
qed

lemma hash_walk:
  assumes "group_ok g"
  shows "\<exists>p<length (rps_peer g). weight_walk (rps_peer g) (int (h mod unat (rps_total_weight g))) = Some p"
proof -
  have "0 < unat (rps_total_weight g)" using group_weight(1) [OF assms] by (simp add: unat_gt_0)
  then have "int (h mod unat (rps_total_weight g)) < sum_list (map rp_weight (rps_peer g))"
    unfolding group_weight(2) [OF assms, symmetric] of_nat_less_iff by (rule mod_less_divisor)
  then show ?thesis by (intro weight_walk_found) simp_all
qed

lemma hash_take_spec:
  assumes "up_ok us" "data_ok us d" "\<not> rps_single (us ! rrp_peers d)" "p < length (rps_peer (us ! rrp_peers d))"
    and "hash_take now us pc d p = Some r"
  shows "get_spec now us pc d r"
proof -
  let ?g = "us ! rrp_peers d"
  let ?q = "rps_peer ?g ! p"
  let ?ps = "(rps_peer ?g)[p := rp_touch now ?q]"
  let ?d = "d\<lparr>rrp_current := Some (rrp_peers d, p), rrp_tried := rr_set_tried (rrp_tried d) p\<rparr>"
  have n: "\<not> rr_skip now (rrp_tried d) p ?q" using assms(5) by (auto simp: hash_take_def Let_def split: if_splits)
  have "pick_spec now ?g d (Some p, ?ps, ?d)"
    using n assms(3,4) peers_stay_update [OF peers_stay_refl [of "rps_peer ?g"], of "rp_touch now" p]
    by (simp add: pick_spec_def rr_skip_def)
  from get_spec_found [OF assms(1,2) this refl, of "pc\<lparr>pc_cached := False, pc_connection := False\<rparr>" "rp_sockaddr ?q" "rp_sockaddr ?q"]
  have "get_spec now us pc d (NGX_OK, us[rrp_peers d := ?g\<lparr>rps_peer := (rps_peer ?g)[p := rp_connect (rp_touch now ?q)]\<rparr>],
      pc\<lparr>pc_cached := False, pc_connection := False, pc_sockaddr := Some (rp_sockaddr ?q), pc_name := rp_sockaddr ?q\<rparr>, ?d)"
    using assms(4) by (simp add: get_spec_def)
  moreover have "rp_touch now (rp_connect ?q) = rp_connect (rp_touch now ?q)" by (simp add: rp_touch_def rp_connect_def)
  ultimately show ?thesis using assms(5) n by (simp add: hash_take_def Let_def)
qed

lemma get_spec_cong:
  "rrp_peers d = rrp_peers d' \<Longrightarrow> rrp_tried d = rrp_tried d' \<Longrightarrow> get_spec now us pc d = get_spec now us pc d'"
  by (auto simp: get_spec_def may_take_def tried_grows_def fun_eq_iff)

lemma data_ok_cong: "rrp_peers d = rrp_peers d' \<Longrightarrow> rrp_tried d = rrp_tried d' \<Longrightarrow> data_ok us d = data_ok us d'"
  by (simp add: data_ok_def)

lemma busy_spec_cong:
  "rrp_peers d = rrp_peers d' \<Longrightarrow> rrp_tried d = rrp_tried d' \<Longrightarrow> busy_spec now us d = busy_spec now us d'"
  by (auto simp: busy_spec_def may_take_def fun_eq_iff)

lemma rr_get_spec:
  "up_ok us \<Longrightarrow> data_ok us d \<Longrightarrow> get_spec now us pc d (ngx_http_upstream_get_round_robin_peer now us pc d)
     \<and> busy_spec now us d (fst (ngx_http_upstream_get_round_robin_peer now us pc d))"
  unfolding ngx_http_upstream_get_round_robin_peer_def by (intro get_peer_with_spec rr_choose_spec)

text \<open>One round of a loop over hash values: the peer is taken, or the rest \<open>k\<close> of the loop decides.\<close>

lemma hash_round:
  assumes "up_ok us" "data_ok us d" "\<not> rps_single (us ! rrp_peers d)" "p < length (rps_peer (us ! rrp_peers d))"
    and "\<And>d. rrp_peers (f d) = rrp_peers d \<and> rrp_tried (f d) = rrp_tried d \<and> rrp_current (f d) = rrp_current d"
    and "hash_take now us pc d p = None \<Longrightarrow> \<exists>r. k = Some r \<and> get_spec now us pc d r \<and> busy_spec now us d (fst r)"
  shows "\<exists>r. (case hash_take now us pc d p of Some (rc, us, pc, d) \<Rightarrow> Some (rc, us, pc, f d) | None \<Rightarrow> k) = Some r
    \<and> get_spec now us pc d r \<and> busy_spec now us d (fst r)"
proof (cases "hash_take now us pc d p")
  case (Some r)
  then have "get_spec now us pc d r" by (rule hash_take_spec [OF assms(1-4)])
  moreover have "fst r = NGX_OK" using Some by (auto simp: hash_take_def Let_def split: if_splits)
  ultimately show ?thesis using Some assms(5)
    by (auto simp: get_spec_def data_ok_def tried_grows_def busy_spec_def split: prod.splits)
qed (use assms(6) in simp)

lemma rr_get_after:
  assumes "up_ok us" "data_ok us d" "rrp_peers e = rrp_peers d" "rrp_tried e = rrp_tried d" "pc_sockaddr pc' = pc_sockaddr pc"
  shows "get_spec now us pc d (ngx_http_upstream_get_round_robin_peer now us pc' e)
    \<and> busy_spec now us d (fst (ngx_http_upstream_get_round_robin_peer now us pc' e))"
proof -
  have "get_spec now us pc' e = get_spec now us pc d" "data_ok us e" "busy_spec now us e = busy_spec now us d"
    using assms get_spec_cong [of e d now us pc'] data_ok_cong [of e d us] busy_spec_cong [of e d now us]
    by (simp_all add: get_spec_def)
  then show ?thesis using rr_get_spec [OF assms(1), of e now pc'] by simp
qed

lemma iphp_loop_spec:
  assumes "up_ok us" "data_ok us d" "\<not> rps_single (us ! rrp_peers d)"
  shows "\<exists>r. iphp_loop now us pc d hash = Some r \<and> get_spec now us pc d r \<and> busy_spec now us d (fst r)"
  using assms
proof (induction now us pc d hash rule: iphp_loop.induct)
  case (1 now us pc d hash)
  let ?g = "us ! rrp_peers d" and ?h = "iphp_rehash (iphp_addr d) hash" and ?d = "d\<lparr>iphp_tries := iphp_tries d + 1\<rparr>"
  have g: "group_ok ?g" using 1(2,3) by (simp add: up_ok_def data_ok_def)
  obtain p where p: "p < length (rps_peer ?g)" "weight_walk (rps_peer ?g) (int (?h mod unat (rps_total_weight ?g))) = Some p"
    using hash_walk [OF g] by blast
  have eq: "iphp_loop now us pc d hash =
      (case hash_take now us pc d p of
         Some (rc, us, pc, d) \<Rightarrow> Some (rc, us, pc, d\<lparr>iphp_hash := ?h\<rparr>)
       | None \<Rightarrow>
           if iphp_tries ?d > 20
           then Some (ngx_http_upstream_get_round_robin_peer now us (pc\<lparr>pc_cached := False, pc_connection := False\<rparr>) ?d)
           else iphp_loop now us pc ?d ?h)"
    using p(2) group_weight(1) [OF g] by (subst iphp_loop.simps) (simp add: Let_def split: option.split)
  have d: "get_spec now us pc ?d = get_spec now us pc d" "data_ok us ?d" "busy_spec now us ?d = busy_spec now us d"
    using get_spec_cong [of ?d d] data_ok_cong [of ?d d] busy_spec_cong [of ?d d] 1(3) by simp_all
  show ?case unfolding eq
  proof (rule hash_round [OF 1(2-4) p(1)])
    assume none: "hash_take now us pc d p = None"
    have "\<exists>r. iphp_loop now us pc ?d ?h = Some r \<and> get_spec now us pc ?d r \<and> busy_spec now us ?d (fst r)" if "\<not> iphp_tries ?d > 20"
      by (rule 1(1) [OF refl refl _ p(2) none refl that]) (use 1(2-4) d group_weight(1) [OF g] in simp_all)
    moreover have "\<exists>r. Some (ngx_http_upstream_get_round_robin_peer now us (pc\<lparr>pc_cached := False, pc_connection := False\<rparr>) ?d) = Some r
        \<and> get_spec now us pc d r \<and> busy_spec now us d (fst r)"
      using rr_get_after [OF 1(2,3), of ?d] by simp
    ultimately show "\<exists>r. (if iphp_tries ?d > 20
        then Some (ngx_http_upstream_get_round_robin_peer now us (pc\<lparr>pc_cached := False, pc_connection := False\<rparr>) ?d)
        else iphp_loop now us pc ?d ?h) = Some r \<and> get_spec now us pc d r \<and> busy_spec now us d (fst r)"
      unfolding d by (cases "iphp_tries ?d > 20") simp_all
  qed simp
qed

section \<open>The interface\<close>

text \<open>
  The contract of \<^verbatim>\<open>peer.get\<close>: it does not crash, and what it returns is described by \<open>get_spec\<close>.
\<close>

locale balancer =
  fixes get :: "int \<Rightarrow> upstream \<Rightarrow> ngx_peer_connection_t \<Rightarrow> 'a ngx_http_upstream_rr_peer_data_t_scheme
    \<Rightarrow> (int \<times> upstream \<times> ngx_peer_connection_t \<times> 'a ngx_http_upstream_rr_peer_data_t_scheme) option"
  assumes get_law: "up_ok us \<Longrightarrow> data_ok us d \<Longrightarrow> \<exists>r. get now us pc d = Some r \<and> get_spec now us pc d r"

text \<open>A balancer that gives up only when no peer is left.\<close>

locale eager_balancer = balancer +
  assumes busy_law: "up_ok us \<Longrightarrow> data_ok us d \<Longrightarrow> get now us pc d = Some r \<Longrightarrow> busy_spec now us d (fst r)"

text \<open>A choice in one group gives a balancer.\<close>

locale peer_choice =
  fixes pick :: "int \<Rightarrow> ngx_http_upstream_rr_peers_t \<Rightarrow> 'a ngx_http_upstream_rr_peer_data_t_scheme
    \<Rightarrow> nat option \<times> ngx_http_upstream_rr_peer_t list \<times> 'a ngx_http_upstream_rr_peer_data_t_scheme"
  assumes pick_law: "group_ok peers \<Longrightarrow> pick_spec now peers d (pick now peers d)"

sublocale peer_choice \<subseteq> eager_balancer "\<lambda>now us pc d. Some (get_peer_with pick now us pc d)"
proof
  fix us d now pc
  assume "up_ok us" "data_ok us (d :: 'a ngx_http_upstream_rr_peer_data_t_scheme)"
  then have s: "get_spec now us pc d (get_peer_with pick now us pc d)
      \<and> busy_spec now us d (fst (get_peer_with pick now us pc d))"
    by (intro get_peer_with_spec pick_law)
  then show "\<exists>r. Some (get_peer_with pick now us pc d) = Some r \<and> get_spec now us pc d r" by blast
  show "Some (get_peer_with pick now us pc d) = Some r \<Longrightarrow> busy_spec now us d (fst r)" for r using s by blast
qed

interpretation rr: peer_choice rr_choose
  by unfold_locales (rule rr_choose_spec)

interpretation lc: peer_choice lc_choose_or_single
  by unfold_locales (simp add: lc_choose_or_single_def rr_choose_spec lc_choose_spec)

interpretation iphp: eager_balancer ngx_http_upstream_get_ip_hash_peer
proof
  fix us and d :: ngx_http_upstream_ip_hash_peer_data_t and now pc
  assume "up_ok us" "data_ok us d"
  then have "\<exists>r. ngx_http_upstream_get_ip_hash_peer now us pc d = Some r \<and> get_spec now us pc d r \<and> busy_spec now us d (fst r)"
    unfolding ngx_http_upstream_get_ip_hash_peer_def
    using rr_get_spec [of us d now pc] iphp_loop_spec [of us d now pc] by metis
  then show "\<exists>r. ngx_http_upstream_get_ip_hash_peer now us pc d = Some r \<and> get_spec now us pc d r"
    and "ngx_http_upstream_get_ip_hash_peer now us pc d = Some r \<Longrightarrow> busy_spec now us d (fst r)" for r
    by auto
qed

section \<open>Many requests\<close>

text \<open>
  The protocol of \<^verbatim>\<open>http/ngx_http_upstream.c\<close>: a request calls \<^verbatim>\<open>peer.get\<close> when it has no peer, and \<^verbatim>\<open>peer.free\<close> and
  \<^verbatim>\<open>peer.sockaddr = NULL\<close> when it has one. Any number of requests, made by \<open>new\<close> from what the balancer looks
  at, interleave. Time is not assumed to be monotone.
\<close>

inductive up_reach for get new us0 where
  start: "up_reach get new us0 us0 []"
| accept: "up_reach get new us0 us rs \<Longrightarrow> up_reach get new us0 us (rs @ [new us client])"
| take: "up_reach get new us0 us rs \<Longrightarrow> j < length rs \<Longrightarrow> rs ! j = (pc, d) \<Longrightarrow> pc_sockaddr pc = None \<Longrightarrow>
    get now us pc d = Some (rc, us1, pc1, d1) \<Longrightarrow> up_reach get new us0 us1 (rs[j := (pc1, d1)])"
| release: "up_reach get new us0 us rs \<Longrightarrow> j < length rs \<Longrightarrow> rs ! j = (pc, d) \<Longrightarrow> pc_sockaddr pc \<noteq> None \<Longrightarrow>
    ngx_http_upstream_free_round_robin_peer now us pc d state = Some (us1, pc1) \<Longrightarrow>
    up_reach get new us0 us1 (rs[j := (pc1\<lparr>pc_sockaddr := None\<rparr>, d)])"

definition up_holds :: "nat \<times> nat \<Rightarrow> ngx_peer_connection_t \<times> 'a ngx_http_upstream_rr_peer_data_t_scheme \<Rightarrow> bool" where
  "up_holds at r \<longleftrightarrow> pc_sockaddr (fst r) \<noteq> None \<and> rrp_current (snd r) = Some at"

definition up_count :: "(ngx_peer_connection_t \<times> 'a ngx_http_upstream_rr_peer_data_t_scheme) list \<Rightarrow> nat \<times> nat \<Rightarrow> nat" where
  "up_count rs at = length (filter (up_holds at) rs)"

definition request_ok :: "upstream \<Rightarrow> ngx_peer_connection_t \<times> 'a ngx_http_upstream_rr_peer_data_t_scheme \<Rightarrow> bool" where
  "request_ok us r \<longleftrightarrow> data_ok us (snd r)
     \<and> (pc_sockaddr (fst r) \<noteq> None \<longrightarrow> (\<exists>g i. rrp_current (snd r) = Some (g, i) \<and> peer_in us g i))"

definition up_inv ::
  "upstream \<Rightarrow> (ngx_peer_connection_t \<times> 'a ngx_http_upstream_rr_peer_data_t_scheme) list \<Rightarrow> bool"
where
  "up_inv us rs \<longleftrightarrow> up_ok us \<and> (\<forall>r\<in>set rs. request_ok us r)
     \<and> (\<forall>g i. peer_in us g i \<longrightarrow> rp_conns (peer_at us g i) = of_nat (up_count rs (g, i))
          \<and> (rp_max_conns (peer_at us g i) \<noteq> 0 \<longrightarrow> up_count rs (g, i) \<le> unat (rp_max_conns (peer_at us g i))))"

lemma up_count_update:
  "j < length rs \<Longrightarrow> up_count (rs[j := r]) at + (if up_holds at (rs ! j) then 1 else 0)
     = up_count rs at + (if up_holds at r then 1 else 0)"
  by (subst (3) id_take_nth_drop [of j rs]) (simp_all add: up_count_def upd_conv_take_nth_drop)

lemma request_ok_keeps: "request_ok us r \<Longrightarrow> up_keeps us vs \<Longrightarrow> request_ok vs r"
  unfolding request_ok_def using data_ok_keeps [of us _ vs] peer_in_keeps [of us vs] by blast

lemma requests_ok_update:
  "\<forall>r\<in>set rs. request_ok us r \<Longrightarrow> up_keeps us vs \<Longrightarrow> request_ok vs x \<Longrightarrow> \<forall>r\<in>set (rs[j := x]). request_ok vs r"
  using set_update_subset_insert [of rs j x] request_ok_keeps [of us _ vs] by blast

text \<open>Releasing a peer.\<close>

lemma word_div_le: "0 \<le> w \<Longrightarrow> w < 2 ^ 63 \<Longrightarrow> uint (word_of_int w div m :: 64 word) \<le> w" for m :: "64 word"
proof -
  assume "0 \<le> w" "w < 2 ^ 63"
  then have "uint (word_of_int w :: 64 word) = w" by (simp add: uint_word_of_int take_bit_int_eq_self)
  moreover have "(word_of_int w :: 64 word) div m \<le> word_of_int w" by (simp add: word_le_nat_alt unat_div div_le_dividend)
  ultimately show ?thesis by (metis word_le_def)
qed

lemma peer_keeps_free: "peer_keeps p (rp_free now state p)"
proof -
  have "s64 (rp_effective_weight p - uint (word_of_int (rp_weight p) div rp_max_fails p)) \<le> rp_weight p"
    if "0 \<le> rp_effective_weight p" "rp_effective_weight p \<le> rp_weight p" "rp_weight p < 2 ^ 63"
  proof -
    have "uint (word_of_int (rp_weight p) div rp_max_fails p :: 64 word) \<le> rp_weight p" by (rule word_div_le) (use that in simp_all)
    moreover have "0 \<le> uint (word_of_int (rp_weight p) div rp_max_fails p :: 64 word)" by simp
    ultimately show ?thesis using that by (subst s64_id) linarith+
  qed
  then show ?thesis by (auto simp: peer_keeps_def rp_free_def rp_blame_def Let_def)
qed

lemma conns_free: "rp_conns (rp_free now state p) = rp_conns p - 1"
  by (simp add: rp_free_def rp_blame_def Let_def)

lemma up_inv_release:
  assumes "up_inv us rs" "j < length rs" "rs ! j = (pc, d)" "pc_sockaddr pc \<noteq> None"
    and "ngx_http_upstream_free_round_robin_peer now us pc d state = Some (us1, pc1)"
  shows "up_keeps us us1 \<and> up_inv us1 (rs[j := (pc1\<lparr>pc_sockaddr := None\<rparr>, d)])"
proof -
  let ?rs = "rs[j := (pc1\<lparr>pc_sockaddr := None\<rparr>, d)]"
  have r: "request_ok us (pc, d)" using assms(1,2,3) unfolding up_inv_def by (metis nth_mem)
  then obtain g i where c: "rrp_current d = Some (g, i)" "peer_in us g i" using assms(4) by (auto simp: request_ok_def)
  define f where "f = (if rps_single (us ! rrp_peers d) then (\<lambda>p. p\<lparr>rp_conns := rp_conns p - 1\<rparr>) else rp_free now state)"
  have us1: "us1 = us[g := (us ! g)\<lparr>rps_peer := (rps_peer (us ! g))[i := f (peer_at us g i)]\<rparr>]"
    using assms(5) c by (auto simp: ngx_http_upstream_free_round_robin_peer_def f_def Let_def split: if_splits)
  have f: "peer_keeps p (f p)" "rp_conns (f p) = rp_conns p - 1" for p
    by (cases "rps_single (us ! rrp_peers d)") (simp_all add: f_def peer_keeps_free conns_free, simp add: peer_keeps_def)
  have keeps: "up_keeps us us1" unfolding us1
    by (rule up_keeps_update) (use c f(1) in \<open>auto simp: group_keeps_def list_all2_conv_all_nth nth_list_update\<close>)
  have same: "peer_at us1 g' i' = (if (g', i') = (g, i) then f (peer_at us g i) else peer_at us g' i')" if "peer_in us g' i'" for g' i'
    using that c by (auto simp: us1 nth_list_update)
  have count: "up_count rs (g', i') = up_count ?rs (g', i') + (if (g', i') = (g, i) then 1 else 0)" for g' i'
    using up_count_update [OF assms(2), of "(pc1\<lparr>pc_sockaddr := None\<rparr>, d)" "(g', i')"] assms(3,4) c
    by (auto simp: up_holds_def split: if_splits)
  have "rp_conns (peer_at us1 g' i') = of_nat (up_count ?rs (g', i'))
      \<and> (rp_max_conns (peer_at us1 g' i') \<noteq> 0 \<longrightarrow> up_count ?rs (g', i') \<le> unat (rp_max_conns (peer_at us1 g' i')))"
    if "peer_in us1 g' i'" for g' i'
  proof -
    have p: "peer_in us g' i'" using that peer_in_keeps [OF keeps] by blast
    with assms(1) have "rp_conns (peer_at us g' i') = of_nat (up_count rs (g', i'))"
      "rp_max_conns (peer_at us g' i') \<noteq> 0 \<longrightarrow> up_count rs (g', i') \<le> unat (rp_max_conns (peer_at us g' i'))"
      unfolding up_inv_def by blast+
    then show ?thesis using same [OF p] f [of "peer_at us g i"] count [of g' i'] by (auto simp: peer_keeps_def)
  qed
  moreover have "\<forall>r\<in>set ?rs. request_ok us1 r"
    using assms(1) r request_ok_keeps [OF r keeps] by (intro requests_ok_update [OF _ keeps]) (auto simp: up_inv_def request_ok_def)
  moreover have "up_ok us1" using assms(1) up_ok_keeps [OF _ keeps] by (simp add: up_inv_def)
  ultimately show ?thesis using keeps unfolding up_inv_def by blast
qed

context balancer begin

lemma up_inv_take:
  assumes "up_inv us rs" "j < length rs" "rs ! j = (pc, d)" "pc_sockaddr pc = None"
    and "get now us pc d = Some (rc, us1, pc1, d1)"
  shows "up_keeps us us1 \<and> up_inv us1 (rs[j := (pc1, d1)])"
proof -
  let ?rs = "rs[j := (pc1, d1)]"
  have r: "request_ok us (pc, d)" using assms(1,2,3) unfolding up_inv_def by (metis nth_mem)
  with assms(1,5) have spec: "get_spec now us pc d (rc, us1, pc1, d1)"
    using get_law [of us d now pc] by (auto simp: up_inv_def request_ok_def)
  then have keeps: "up_keeps us us1" and d1: "data_ok us d1" by (auto simp: get_spec_def)
  obtain at where at: "conns_added us us1 at" "(pc_sockaddr pc1 = None) = (at = None)"
    "\<And>g i. at = Some (g, i) \<Longrightarrow> rrp_current d1 = Some (g, i) \<and> may_take now us d g i"
    using spec assms(4) unfolding get_spec_def by fastforce
  have count: "up_count ?rs (g, i) = up_count rs (g, i) + (if at = Some (g, i) then 1 else 0)" for g i
    using up_count_update [OF assms(2), of "(pc1, d1)" "(g, i)"] assms(3,4) at(2,3)
    by (cases at) (auto simp: up_holds_def split: if_splits)
  have "rp_conns (peer_at us1 g i) = of_nat (up_count ?rs (g, i))
      \<and> (rp_max_conns (peer_at us1 g i) \<noteq> 0 \<longrightarrow> up_count ?rs (g, i) \<le> unat (rp_max_conns (peer_at us1 g i)))"
    if "peer_in us1 g i" for g i
  proof -
    have p: "peer_in us g i" using that peer_in_keeps [OF keeps] by blast
    with assms(1) have c: "rp_conns (peer_at us g i) = of_nat (up_count rs (g, i))"
      "rp_max_conns (peer_at us g i) \<noteq> 0 \<longrightarrow> up_count rs (g, i) \<le> unat (rp_max_conns (peer_at us g i))"
      unfolding up_inv_def by blast+
    have m: "rp_max_conns (peer_at us1 g i) = rp_max_conns (peer_at us g i)"
      using keeps p by (auto simp: up_keeps_def group_keeps_def peer_keeps_def list_all2_conv_all_nth)
    have "up_count rs (g, i) < unat (rp_max_conns (peer_at us g i))"
      if "at = Some (g, i)" "rp_max_conns (peer_at us g i) \<noteq> 0"
    proof -
      have "rp_conns (peer_at us g i) < rp_max_conns (peer_at us g i)"
        using at(3) [OF that(1)] that(2) by (auto simp: may_take_def rp_full_def)
      moreover have "up_count rs (g, i) < 2 ^ 64"
        using c(2) that(2) unsigned_less [of "rp_max_conns (peer_at us g i)", where 'a = nat] by (auto intro: le_less_trans)
      ultimately show ?thesis using c(1) by (simp add: word_less_nat_alt unat_of_nat take_bit_nat_eq_self)
    qed
    then show ?thesis using at(1) p c count [of g i] m unfolding conns_added_def by (auto simp: Suc_le_eq)
  qed
  moreover have "request_ok us1 (pc1, d1)"
    using data_ok_keeps [OF d1 keeps] at(2,3) peer_in_keeps [OF keeps] by (cases at) (auto simp: request_ok_def may_take_def)
  then have "\<forall>r\<in>set ?rs. request_ok us1 r" using assms(1) by (intro requests_ok_update [OF _ keeps]) (auto simp: up_inv_def)
  moreover have "up_ok us1" using assms(1) up_ok_keeps [OF _ keeps] by (simp add: up_inv_def)
  ultimately show ?thesis using keeps unfolding up_inv_def by blast
qed

lemma reach_inv:
  assumes "up_reach get new us0 us rs" "up_inv us0 ([] :: (_ \<times> 'a ngx_http_upstream_rr_peer_data_t_scheme) list)"
    and "\<And>us client. up_ok us \<Longrightarrow> request_ok us (new us client) \<and> pc_sockaddr (fst (new us client)) = None"
  shows "up_keeps us0 us \<and> up_inv us rs"
  using assms(1)
proof induction
  case start
  show ?case using assms(2) by simp
next
  case (accept us rs client)
  moreover have "up_count (rs @ [new us client]) at = up_count rs at" for at
    using assms(3) [of us client] accept by (auto simp: up_count_def up_holds_def up_inv_def)
  ultimately show ?case using assms(3) [of us client] by (auto simp: up_inv_def)
next
  case (take us rs j pc d now rc us1 pc1 d1)
  then show ?case using up_inv_take [of us rs j pc d now rc us1 pc1 d1] up_keeps_trans by blast
next
  case (release us rs j pc d now state us1 pc1)
  then show ?case using up_inv_release [of us rs j pc d now state us1 pc1] up_keeps_trans by blast
qed

end

section \<open>The start\<close>

definition servers_weight :: "ngx_http_upstream_server_t list \<Rightarrow> int" where
  "servers_weight servers = sum_list (map (\<lambda>s. int (length (srv_addrs s)) * srv_weight s) servers)"

lemma servers_weight_filter:
  "\<forall>s\<in>set servers. 0 < srv_weight s \<Longrightarrow> servers_weight (filter P servers) \<le> servers_weight servers"
  by (induction servers) (auto simp: servers_weight_def add_increasing)

lemma new_peers_weight: "sum_list (map rp_weight (rps_peer (rr_new_peers host ss))) = servers_weight ss"
proof (induction ss)
  case (Cons s ss)
  have "map rp_weight (map (rr_new_peer s) as) = replicate (length as) (srv_weight s)" for as
    by (induction as) (simp_all add: rr_new_peer_def)
  then show ?case using Cons by (simp add: rr_new_peers_def Let_def servers_weight_def sum_list_replicate)
qed (simp add: rr_new_peers_def servers_weight_def)

lemma new_peers_total: "rps_total_weight (rr_new_peers host ss) = word_of_int (servers_weight ss)"
  by (induction ss) (simp_all add: rr_new_peers_def Let_def servers_weight_def)

lemma new_peers_ok:
  assumes "\<forall>s\<in>set ss. 0 < srv_weight s" "servers_weight ss < 2 ^ 63" "rps_number (rr_new_peers host ss) \<noteq> 0"
  shows "group_ok (rr_new_peers host ss)"
proof -
  have n: "rps_number (rr_new_peers host ss) = length (rps_peer (rr_new_peers host ss))"
    by (simp add: rr_new_peers_def Let_def length_concat comp_def)
  have "\<forall>p\<in>set (rps_peer (rr_new_peers host ss)). peer_ok p"
    using assms(1) by (fastforce simp: rr_new_peers_def Let_def rr_new_peer_def peer_ok_def)
  moreover have "rps_single (rr_new_peers host ss) \<longrightarrow> length (rps_peer (rr_new_peers host ss)) = 1"
    using n by (simp add: rr_new_peers_def Let_def)
  ultimately show ?thesis using n assms(2,3) by (auto simp: group_ok_def new_peers_weight new_peers_total)
qed

lemma init_up_inv:
  assumes "ngx_http_upstream_init_round_robin host (Some servers) port resolved = Some us"
    and "\<forall>s\<in>set servers. 0 < srv_weight s" "servers_weight servers < 2 ^ 63"
  shows "up_inv us []"
proof -
  let ?a = "rr_new_peers host (filter (\<lambda>s. \<not> srv_backup s) servers)" and ?b = "rr_new_peers host (filter srv_backup servers)"
  have ok: "group_ok (rr_new_peers host (filter P servers))" if "rps_number (rr_new_peers host (filter P servers)) \<noteq> 0" for P
    using assms(2,3) servers_weight_filter [OF assms(2), of P] that by (intro new_peers_ok) auto
  have us: "rps_number ?a \<noteq> 0" "us = [?a] \<or> us = [?a\<lparr>rps_single := False\<rparr>, ?b\<lparr>rps_single := False\<rparr>] \<and> rps_number ?b \<noteq> 0"
    using assms(1) by (auto simp: ngx_http_upstream_init_round_robin_def Let_def split: if_splits)
  have ok_single: "group_ok g \<Longrightarrow> group_ok (g\<lparr>rps_single := False\<rparr>)" for g by (simp add: group_ok_def)
  have "up_ok us" using us ok ok_single by (auto simp: up_ok_def)
  moreover have "\<forall>p\<in>set (rps_peer (rr_new_peers host ss)). rp_conns p = 0" for ss
    by (auto simp: rr_new_peers_def Let_def rr_new_peer_def)
  then have "i < length (rps_peer (rr_new_peers host ss)) \<Longrightarrow> rp_conns (rps_peer (rr_new_peers host ss) ! i) = 0" for i ss
    by (simp add: all_set_conv_all_nth)
  then have "rp_conns (peer_at us g i) = 0" if "peer_in us g i" for g i
    using us(2) that by (auto simp: nth_Cons split: nat.splits)
  ultimately show ?thesis by (simp add: up_inv_def up_count_def)
qed

lemma new_request_ok:
  assumes "up_ok us" "ngx_http_upstream_init_round_robin_peer us = (pc, d)"
  shows "data_ok us d \<and> pc_sockaddr pc = None"
proof -
  define m where "m = (if 1 < length us \<and> rps_number (us ! 1) > rps_number (us ! 0) then rps_number (us ! 1) else rps_number (us ! 0))"
  have d: "d = \<lparr>rrp_peers = 0, rrp_current = None, rrp_tried = replicate (rr_tried_words m) 0\<rparr>" "pc_sockaddr pc = None"
    using assms(2) unfolding ngx_http_upstream_init_round_robin_peer_def m_def Let_def by (auto simp: rr_new_connection_def)
  have "rps_number g \<le> m" if "g \<in> set us" for g
  proof -
    from that obtain k where "k < length us" "g = us ! k" by (metis in_set_conv_nth)
    moreover from this assms(1) have "k = 0 \<or> k = 1" by (auto simp: up_ok_def)
    ultimately show ?thesis by (auto simp: m_def)
  qed
  moreover have "m \<le> 64 * rr_tried_words m" by (auto simp: rr_tried_words_def)
  ultimately show ?thesis using assms(1) d by (auto simp: data_ok_def up_ok_def intro: order_trans)
qed

section \<open>Retries\<close>

text \<open>
  One request that is refused or fails and asks again, while others change the upstream: the answers come from
  the states \<open>xs\<close>, at the times given there. The peers that it was given, in order.
\<close>

fun up_attempts where
  "up_attempts get pc d [] = []"
| "up_attempts get pc d ((now, us) # xs) =
     (case get now us pc d of
        None \<Rightarrow> []
      | Some (rc, us1, pc1, d1) \<Rightarrow> if rc = NGX_OK then the (rrp_current d1) # up_attempts get pc1 d1 xs else [])"

context balancer begin

lemma attempts_fresh:
  assumes "up_ok us0" "data_ok us0 d" "\<forall>g\<in>set us0. \<not> rps_single g" "\<forall>(now, us)\<in>set xs. up_keeps us0 us"
  shows "distinct (up_attempts get pc d xs) \<and> (\<forall>(g, i)\<in>set (up_attempts get pc d xs). peer_in us0 g i
    \<and> (rrp_peers d < g \<or> rrp_peers d = g \<and> \<not> rr_tried (rrp_tried d) i))"
  using assms(2,4)
proof (induction xs arbitrary: pc d)
  case (Cons x xs)
  obtain now us where x: "x = (now, us)" by fastforce
  then have k: "up_keeps us0 us" using Cons.prems(2) by auto
  have ok: "up_ok us" "data_ok us d" using up_ok_keeps [OF assms(1) k] data_ok_keeps [OF Cons.prems(1) k] .
  obtain rc us1 pc1 d1 where g: "get now us pc d = Some (rc, us1, pc1, d1)" "get_spec now us pc d (rc, us1, pc1, d1)"
    using get_law [OF ok] by (metis prod_cases4)
  show ?case
  proof (cases "rc = NGX_OK")
    case False
    with g x show ?thesis by simp
  next
    case True
    obtain h i where hi: "rrp_current d1 = Some (h, i)" "may_take now us d h i" "rrp_peers d1 = h"
      "\<not> rps_single (us ! h) \<longrightarrow> rr_tried (rrp_tried d1) i"
      and d1: "data_ok us d1" "tried_grows us d d1"
      using g(2) True by (auto simp: get_spec_def)
    have l: "length us = length us0" "\<And>g. g < length us0 \<Longrightarrow> rps_single (us ! g) = rps_single (us0 ! g) \<and> rps_number (us ! g) = rps_number (us0 ! g)"
      using up_keeps_nth [OF k] by (auto simp: group_keeps_def)
    have in0: "peer_in us0 h i" using hi(2) peer_in_keeps [OF k] by (auto simp: may_take_def)
    have "rps_number g \<le> 64 * length (rrp_tried d1)" if "g \<in> set us0" for g
      using d1(1) that l by (metis (no_types, lifting) data_ok_def in_set_conv_nth)
    then have "data_ok us0 d1" using d1(1) l by (simp add: data_ok_def)
    then have ih: "distinct (up_attempts get pc1 d1 xs)"
      "\<And>g' i'. (g', i') \<in> set (up_attempts get pc1 d1 xs) \<Longrightarrow> peer_in us0 g' i' \<and> (h < g' \<or> h = g' \<and> \<not> rr_tried (rrp_tried d1) i')"
      using Cons.IH [of d1 pc1] Cons.prems(2) hi(3) by auto
    have single: "\<not> rps_single (us ! h)" using assms(3) in0 l by auto
    have "rrp_peers d < g' \<or> rrp_peers d = g' \<and> \<not> rr_tried (rrp_tried d) i'"
      if "(g', i') \<in> set (up_attempts get pc1 d1 xs)" for g' i'
    proof -
      have "i' < rps_number (us ! g')" if "g' < length us0" "i' < length (rps_peer (us0 ! g'))"
        using that l assms(1) by (auto simp: up_ok_def group_ok_def)
      then show ?thesis using ih(2) [OF that] d1(2) hi(3) by (auto simp: tried_grows_def)
    qed
    then show ?thesis using ih hi single x g(1) True in0 by (auto simp: may_take_def)
  qed
qed simp

text \<open>So there are no more answers than peers.\<close>

lemma attempts_bounded:
  assumes "up_ok us0" "data_ok us0 d" "\<forall>g\<in>set us0. \<not> rps_single g" "\<forall>(now, us)\<in>set xs. up_keeps us0 us"
  shows "length (up_attempts get pc d xs) \<le> ngx_http_upstream_tries us0"
proof -
  let ?S = "Sigma {..<length us0} (\<lambda>g. {..<length (rps_peer (us0 ! g))})"
  have "set (up_attempts get pc d xs) \<subseteq> ?S" using attempts_fresh [OF assms, of pc] by auto
  then have "card (set (up_attempts get pc d xs)) \<le> card ?S" by (intro card_mono) auto
  moreover have "card (set (up_attempts get pc d xs)) = length (up_attempts get pc d xs)"
    by (rule distinct_card) (use attempts_fresh [OF assms, of pc] in blast)
  moreover have "card ?S = (\<Sum>g<length us0. length (rps_peer (us0 ! g)))" by simp
  moreover have "(\<Sum>g<length us0. length (rps_peer (us0 ! g))) = ngx_http_upstream_tries us0"
  proof -
    have "length us0 = 1 \<or> length us0 = 2" using assms(1) by (auto simp: up_ok_def le_Suc_eq numeral_2_eq_2)
    moreover have "rps_number (us0 ! g) = length (rps_peer (us0 ! g))" if "g < length us0" for g
      using assms(1) that by (auto simp: up_ok_def group_ok_def)
    ultimately show ?thesis by (auto simp: ngx_http_upstream_tries_def numeral_2_eq_2)
  qed
  ultimately show ?thesis by simp
qed

end

section \<open>Properties\<close>

lemma new_round_robin_ok:
  "up_ok us \<Longrightarrow> request_ok us (ngx_http_upstream_init_round_robin_peer us)
     \<and> pc_sockaddr (fst (ngx_http_upstream_init_round_robin_peer us)) = None"
  using new_request_ok [of us] by (cases "ngx_http_upstream_init_round_robin_peer us") (auto simp: request_ok_def)

lemma new_ip_hash_ok:
  "up_ok us \<Longrightarrow> request_ok us (ngx_http_upstream_init_ip_hash_peer us client)
     \<and> pc_sockaddr (fst (ngx_http_upstream_init_ip_hash_peer us client)) = None"
  using new_request_ok [of us]
  by (cases "ngx_http_upstream_init_round_robin_peer us")
    (auto simp: request_ok_def ngx_http_upstream_init_ip_hash_peer_def ngx_http_upstream_rr_peer_data_t.defs data_ok_def)

context peer_choice begin

lemma reach_up_inv_here:
  assumes "up_inv us0 ([] :: (_ \<times> 'a ngx_http_upstream_rr_peer_data_t_scheme) list)"
    and "up_reach (\<lambda>now us pc d. Some (get_peer_with pick now us pc d)) new us0 us rs"
    and "\<And>us client. up_ok us \<Longrightarrow> request_ok us (new us client) \<and> pc_sockaddr (fst (new us client)) = None"
  shows "up_keeps us0 us \<and> up_inv us rs"
  by (rule reach_inv [OF assms(2,1,3)])

lemma attempts_here:
  assumes "up_ok us0" "data_ok us0 d" "\<forall>g\<in>set us0. \<not> rps_single g" "\<forall>(now, us)\<in>set xs. up_keeps us0 us"
  shows "distinct (up_attempts (\<lambda>now us pc d. Some (get_peer_with pick now us pc d)) pc d xs)
    \<and> length (up_attempts (\<lambda>now us pc d. Some (get_peer_with pick now us pc d)) pc d xs) \<le> ngx_http_upstream_tries us0"
  using attempts_fresh [OF assms, of pc] attempts_bounded [OF assms, of pc] by blast

end

lemma reach_up_inv:
  assumes "ngx_http_upstream_init_round_robin host (Some servers) port resolved = Some us0"
    and "\<forall>s\<in>set servers. 0 < srv_weight s" "servers_weight servers < 2 ^ 63"
    and "peer_choice pick"
    and "up_reach (\<lambda>now us pc d. Some (get_peer_with pick now us pc d))
      (\<lambda>us (_ :: unit). ngx_http_upstream_init_round_robin_peer us) us0 us rs"
  shows "up_keeps us0 us \<and> up_inv us rs"
  by (rule peer_choice.reach_up_inv_here [OF assms(4) init_up_inv [OF assms(1-3)] assms(5) new_round_robin_ok])

text \<open>What holds of the peers while the requests \<open>rs\<close> are under way.\<close>

definition up_exact :: "upstream \<Rightarrow> (ngx_peer_connection_t \<times> 'a ngx_http_upstream_rr_peer_data_t_scheme) list \<Rightarrow> bool" where
  "up_exact us rs \<longleftrightarrow> (\<forall>g i. peer_in us g i \<longrightarrow>
     rp_conns (peer_at us g i) = of_nat (up_count rs (g, i))
     \<and> (rp_max_conns (peer_at us g i) \<noteq> 0 \<longrightarrow> up_count rs (g, i) \<le> unat (rp_max_conns (peer_at us g i)))
     \<and> 0 \<le> rp_effective_weight (peer_at us g i) \<and> rp_effective_weight (peer_at us g i) \<le> rp_weight (peer_at us g i))
     \<and> (\<forall>(pc, d)\<in>set rs. pc_sockaddr pc \<noteq> None \<longrightarrow> (\<forall>now state. ngx_http_upstream_free_round_robin_peer now us pc d state \<noteq> None))"

lemma up_inv_exact: "up_inv us rs \<Longrightarrow> up_exact us rs"
  unfolding up_inv_def up_exact_def up_ok_def
  by (auto simp: group_ok_def peer_ok_def request_ok_def ngx_http_upstream_free_round_robin_peer_def Let_def dest!: nth_mem)

text \<open>A balancer is safe when this holds in every state that requests can reach, and it answers all of them.\<close>

definition up_safe ::
  "(int \<Rightarrow> upstream \<Rightarrow> ngx_peer_connection_t \<Rightarrow> 'a ngx_http_upstream_rr_peer_data_t_scheme
      \<Rightarrow> (int \<times> upstream \<times> ngx_peer_connection_t \<times> 'a ngx_http_upstream_rr_peer_data_t_scheme) option)
    \<Rightarrow> (upstream \<Rightarrow> 'c \<Rightarrow> ngx_peer_connection_t \<times> 'a ngx_http_upstream_rr_peer_data_t_scheme) \<Rightarrow> upstream \<Rightarrow> bool"
where
  "up_safe get new us0 \<longleftrightarrow> (\<forall>us rs. up_reach get new us0 us rs \<longrightarrow>
     up_exact us rs \<and> (\<forall>(pc, d)\<in>set rs. \<forall>now. get now us pc d \<noteq> None))"

context balancer begin

lemma balancer_safe:
  assumes "up_inv us0 ([] :: (_ \<times> 'a ngx_http_upstream_rr_peer_data_t_scheme) list)"
    and "\<And>us client. up_ok us \<Longrightarrow> request_ok us (new us client) \<and> pc_sockaddr (fst (new us client)) = None"
  shows "up_safe get new us0"
proof -
  have "get now us pc d \<noteq> None" if "up_inv us rs" "(pc, d) \<in> set rs" for us now pc d and rs
  proof -
    have "request_ok us (pc, d)" using that unfolding up_inv_def by blast
    then show ?thesis using that(1) get_law [of us d now pc] by (auto simp: up_inv_def request_ok_def)
  qed
  moreover have "up_inv us rs" if "up_reach get new us0 us rs" for us rs using reach_inv [OF that assms(1)] assms(2) by blast
  ultimately show ?thesis using up_inv_exact unfolding up_safe_def by blast
qed

end

context peer_choice begin

lemma choice_safe:
  assumes "up_inv us0 ([] :: (_ \<times> 'a ngx_http_upstream_rr_peer_data_t_scheme) list)"
    and "\<And>us client. up_ok us \<Longrightarrow> request_ok us (new us client) \<and> pc_sockaddr (fst (new us client)) = None"
  shows "up_safe (\<lambda>now us pc d. Some (get_peer_with pick now us pc d)) new us0"
  by (rule balancer_safe [OF assms])

end

definition example_servers :: "ngx_http_upstream_server_t list" where
  "example_servers =
     [\<lparr>srv_name = bytes ''a'', srv_addrs = [bytes ''a1'', bytes ''a2''], srv_weight = 3, srv_max_conns = 1,
       srv_max_fails = 1, srv_fail_timeout = 10, srv_down = False, srv_backup = False\<rparr>]"

lemma example_servers_start:
  "ngx_http_upstream_init_round_robin [] (Some example_servers) 0 None
     = Some (the (ngx_http_upstream_init_round_robin [] (Some example_servers) 0 None))"
  "\<forall>s\<in>set example_servers. 0 < srv_weight s" "servers_weight example_servers < 2 ^ 63"
  by (simp_all add: example_servers_def servers_weight_def) code_simp

text \<open>
  C16: A request is refused exactly when no peer can take it. In every reachable state of the round robin and of
  the least connections balancer, the answer is \<^verbatim>\<open>NGX_OK\<close> if and only if this group or a later one has a peer
  that is up, has not failed too often lately, has a free connection and was not tried before; the peer
  given out is such a peer, and otherwise the answer is \<^verbatim>\<open>NGX_BUSY\<close>.
\<close>

theorem upstream_peer_found_iff:
  assumes "ngx_http_upstream_init_round_robin host (Some servers) port resolved = Some us0"
    and "\<forall>s\<in>set servers. 0 < srv_weight s" "servers_weight servers < 2 ^ 63"
    and "get = ngx_http_upstream_get_round_robin_peer \<or> get = ngx_http_upstream_get_least_conn_peer"
    and "up_reach (\<lambda>now us pc d. Some (get now us pc d)) (\<lambda>us (_ :: unit). ngx_http_upstream_init_round_robin_peer us) us0 us rs"
    and "(pc, d) \<in> set rs"
    and "get now us pc d = (rc, us1, pc1, d1)"
  shows "(rc = NGX_OK \<longleftrightarrow> (\<exists>g i. rrp_peers d \<le> g \<and> may_take now us d g i))
    \<and> (rc = NGX_OK \<longrightarrow> (\<exists>g i. rrp_current d1 = Some (g, i) \<and> rrp_peers d \<le> g \<and> may_take now us d g i))
    \<and> (rc \<noteq> NGX_OK \<longrightarrow> rc = NGX_BUSY)"
proof -
  obtain pick where pick: "get = get_peer_with pick" "peer_choice pick"
    using assms(4) rr.peer_choice_axioms lc.peer_choice_axioms
    by (metis ngx_http_upstream_get_round_robin_peer_def ngx_http_upstream_get_least_conn_peer_def)
  have "up_inv us rs" using reach_up_inv [OF assms(1-3) pick(2) assms(5) [unfolded pick(1)]] by blast
  then have ok: "up_ok us" "data_ok us d" using assms(6) by (auto simp: up_inv_def request_ok_def)
  have "get_spec now us pc d (rc, us1, pc1, d1) \<and> busy_spec now us d rc"
    using get_peer_with_spec [of pick us d now pc] peer_choice.pick_law [OF pick(2)] ok assms(7) pick(1) by fastforce
  then show ?thesis unfolding get_spec_def busy_spec_def tried_grows_def by auto
qed

theorem upstream_peer_found_iff_witness:
  "\<exists>us0 pc d. ngx_http_upstream_init_round_robin [] (Some example_servers) 0 None = Some us0
     \<and> ngx_http_upstream_init_round_robin_peer us0 = (pc, d)
     \<and> fst (ngx_http_upstream_get_least_conn_peer 5 us0 pc d) = NGX_OK
     \<and> (\<exists>g i. may_take 5 us0 d g i)"
proof -
  let ?start = "the (ngx_http_upstream_init_round_robin [] (Some example_servers) 0 None)"
  obtain pc d where new: "ngx_http_upstream_init_round_robin_peer ?start = (pc, d)" by fastforce
  have "up_reach (\<lambda>now us pc d. Some (ngx_http_upstream_get_least_conn_peer now us pc d))
      (\<lambda>us (_ :: unit). ngx_http_upstream_init_round_robin_peer us) ?start ?start ([] @ [ngx_http_upstream_init_round_robin_peer ?start])"
    by (rule up_reach.accept [OF up_reach.start])
  then have reach: "up_reach (\<lambda>now us pc d. Some (ngx_http_upstream_get_least_conn_peer now us pc d))
      (\<lambda>us (_ :: unit). ngx_http_upstream_init_round_robin_peer us) ?start ?start [(pc, d)]" using new by simp
  have "fst (ngx_http_upstream_get_least_conn_peer 5 ?start (fst (ngx_http_upstream_init_round_robin_peer ?start))
      (snd (ngx_http_upstream_init_round_robin_peer ?start))) = NGX_OK" by code_simp
  then have ok: "fst (ngx_http_upstream_get_least_conn_peer 5 ?start pc d) = NGX_OK" by (simp add: new)
  obtain us1 pc1 d1 where "ngx_http_upstream_get_least_conn_peer 5 ?start pc d = (NGX_OK, us1, pc1, d1)"
    using ok by (metis prod.collapse)
  from upstream_peer_found_iff [OF example_servers_start disjI2 [OF refl] reach _ this]
  have "\<exists>g i. may_take 5 ?start d g i" by auto
  with new ok example_servers_start(1) show ?thesis by blast
qed

text \<open>
  C17: In an upstream that is more than one single peer (\<^verbatim>\<open>peers->single\<close> is not set), a request tries no server twice and gives up in time. However the upstream
  changes between its attempts, by
  other requests that take and release peers, the peers that one request is given by the round robin or by
  least connections are all different, so that there are at most as many as \<^verbatim>\<open>pc->tries\<close> starts with: all
  servers and all backup servers. (A single peer is given again at every attempt; there only the count in \<^verbatim>\<open>pc->tries\<close>, which the
  caller takes down, ends the attempts.)
\<close>

theorem upstream_no_peer_twice:
  assumes "ngx_http_upstream_init_round_robin host (Some servers) port resolved = Some us0"
    and "\<forall>s\<in>set servers. 0 < srv_weight s" "servers_weight servers < 2 ^ 63"
    and "\<not> rps_single (us0 ! 0)"
    and "get = ngx_http_upstream_get_round_robin_peer \<or> get = ngx_http_upstream_get_least_conn_peer"
    and "\<forall>(now, us)\<in>set xs. \<exists>rs. up_reach (\<lambda>now us pc d. Some (get now us pc d))
           (\<lambda>us (_ :: unit). ngx_http_upstream_init_round_robin_peer us) us0 us rs"
    and "ngx_http_upstream_init_round_robin_peer us0 = (pc, d)"
  shows "distinct (up_attempts (\<lambda>now us pc d. Some (get now us pc d)) pc d xs)
    \<and> length (up_attempts (\<lambda>now us pc d. Some (get now us pc d)) pc d xs) \<le> pc_tries pc"
proof -
  obtain pick where pick: "get = get_peer_with pick" "peer_choice pick"
    using assms(5) rr.peer_choice_axioms lc.peer_choice_axioms
    by (metis ngx_http_upstream_get_round_robin_peer_def ngx_http_upstream_get_least_conn_peer_def)
  have ok: "up_ok us0" using init_up_inv [OF assms(1-3)] unfolding up_inv_def by blast
  have d: "data_ok us0 d" "pc_tries pc = ngx_http_upstream_tries us0"
    using new_request_ok [OF ok assms(7)] assms(7)
    by (auto simp: ngx_http_upstream_init_round_robin_peer_def rr_new_connection_def Let_def)
  have single: "\<forall>g\<in>set us0. \<not> rps_single g"
    using assms(1,4) by (auto simp: ngx_http_upstream_init_round_robin_def Let_def split: if_splits)
  have "\<forall>(now, us)\<in>set xs. up_keeps us0 us"
    using assms(6) reach_up_inv [OF assms(1-3) pick(2)] unfolding pick(1) by blast
  from peer_choice.attempts_here [OF pick(2) ok d(1) single this, of pc]
  show ?thesis using d(2) by (simp add: pick(1))
qed

theorem upstream_no_peer_twice_witness:
  "\<exists>us0 pc d. ngx_http_upstream_init_round_robin [] (Some example_servers) 0 None = Some us0
     \<and> ngx_http_upstream_init_round_robin_peer us0 = (pc, d) \<and> pc_tries pc = 2
     \<and> up_attempts (\<lambda>now us pc d. Some (ngx_http_upstream_get_round_robin_peer now us pc d)) pc d [(5, us0), (5, us0), (6, us0)]
         = [(0, 0), (0, 1)]
     \<and> distinct [(0 :: nat, 0 :: nat), (0, 1)]"
proof -
  let ?start = "the (ngx_http_upstream_init_round_robin [] (Some example_servers) 0 None)"
  let ?get = "\<lambda>now us pc d. Some (ngx_http_upstream_get_round_robin_peer now us pc d)"
  let ?xs = "[(5, ?start), (5, ?start), (6, ?start)]"
  obtain pc d where new: "ngx_http_upstream_init_round_robin_peer ?start = (pc, d)" by fastforce
  have "up_attempts ?get (fst (ngx_http_upstream_init_round_robin_peer ?start)) (snd (ngx_http_upstream_init_round_robin_peer ?start)) ?xs
      = [(0, 0), (0, 1)]" "pc_tries (fst (ngx_http_upstream_init_round_robin_peer ?start)) = 2" "\<not> rps_single (?start ! 0)" by code_simp+
  then have a: "up_attempts ?get pc d ?xs = [(0, 0), (0, 1)]" "pc_tries pc = 2" "\<not> rps_single (?start ! 0)" by (simp_all add: new)
  have "\<forall>(now, us)\<in>set ?xs. \<exists>rs. up_reach ?get (\<lambda>us (_ :: unit). ngx_http_upstream_init_round_robin_peer us) ?start us rs"
    using up_reach.start by fastforce
  from upstream_no_peer_twice [OF example_servers_start a(3) disjI1 [OF refl] this new]
  have "distinct [(0 :: nat, 0 :: nat), (0, 1)]" unfolding a(1) by blast
  with a new example_servers_start(1) show ?thesis by blast
qed

end
