(* ===== verification/Ngx_Crc32.thy ===== *)
theory Ngx_Crc32
  imports Ngx_Prelude
begin

text \<open>
  CRC-32, \<^verbatim>\<open>core/ngx_crc32.h\<close> and the tables of \<^verbatim>\<open>core/ngx_crc32.c\<close>: a byte at a time with 256 entries, and four bits at a time
  with 16 entries for short keys. The specification divides bit by bit by the polynomial. The hash
  balancers, the caches and the resolver use it as a hash function.
\<close>

section \<open>The code\<close>

definition ngx_crc32_table16 :: "32 word list" where
  "ngx_crc32_table16 = [
    0x00000000, 0x1db71064, 0x3b6e20c8, 0x26d930ac, 0x76dc4190, 0x6b6b51f4, 0x4db26158, 0x5005713c,
    0xedb88320, 0xf00f9344, 0xd6d6a3e8, 0xcb61b38c, 0x9b64c2b0, 0x86d3d2d4, 0xa00ae278, 0xbdbdf21c]"

definition ngx_crc32_table256 :: "32 word list" where
  "ngx_crc32_table256 = [
    0x00000000, 0x77073096, 0xee0e612c, 0x990951ba, 0x076dc419, 0x706af48f, 0xe963a535, 0x9e6495a3,
    0x0edb8832, 0x79dcb8a4, 0xe0d5e91e, 0x97d2d988, 0x09b64c2b, 0x7eb17cbd, 0xe7b82d07, 0x90bf1d91,
    0x1db71064, 0x6ab020f2, 0xf3b97148, 0x84be41de, 0x1adad47d, 0x6ddde4eb, 0xf4d4b551, 0x83d385c7,
    0x136c9856, 0x646ba8c0, 0xfd62f97a, 0x8a65c9ec, 0x14015c4f, 0x63066cd9, 0xfa0f3d63, 0x8d080df5,
    0x3b6e20c8, 0x4c69105e, 0xd56041e4, 0xa2677172, 0x3c03e4d1, 0x4b04d447, 0xd20d85fd, 0xa50ab56b,
    0x35b5a8fa, 0x42b2986c, 0xdbbbc9d6, 0xacbcf940, 0x32d86ce3, 0x45df5c75, 0xdcd60dcf, 0xabd13d59,
    0x26d930ac, 0x51de003a, 0xc8d75180, 0xbfd06116, 0x21b4f4b5, 0x56b3c423, 0xcfba9599, 0xb8bda50f,
    0x2802b89e, 0x5f058808, 0xc60cd9b2, 0xb10be924, 0x2f6f7c87, 0x58684c11, 0xc1611dab, 0xb6662d3d,
    0x76dc4190, 0x01db7106, 0x98d220bc, 0xefd5102a, 0x71b18589, 0x06b6b51f, 0x9fbfe4a5, 0xe8b8d433,
    0x7807c9a2, 0x0f00f934, 0x9609a88e, 0xe10e9818, 0x7f6a0dbb, 0x086d3d2d, 0x91646c97, 0xe6635c01,
    0x6b6b51f4, 0x1c6c6162, 0x856530d8, 0xf262004e, 0x6c0695ed, 0x1b01a57b, 0x8208f4c1, 0xf50fc457,
    0x65b0d9c6, 0x12b7e950, 0x8bbeb8ea, 0xfcb9887c, 0x62dd1ddf, 0x15da2d49, 0x8cd37cf3, 0xfbd44c65,
    0x4db26158, 0x3ab551ce, 0xa3bc0074, 0xd4bb30e2, 0x4adfa541, 0x3dd895d7, 0xa4d1c46d, 0xd3d6f4fb,
    0x4369e96a, 0x346ed9fc, 0xad678846, 0xda60b8d0, 0x44042d73, 0x33031de5, 0xaa0a4c5f, 0xdd0d7cc9,
    0x5005713c, 0x270241aa, 0xbe0b1010, 0xc90c2086, 0x5768b525, 0x206f85b3, 0xb966d409, 0xce61e49f,
    0x5edef90e, 0x29d9c998, 0xb0d09822, 0xc7d7a8b4, 0x59b33d17, 0x2eb40d81, 0xb7bd5c3b, 0xc0ba6cad,
    0xedb88320, 0x9abfb3b6, 0x03b6e20c, 0x74b1d29a, 0xead54739, 0x9dd277af, 0x04db2615, 0x73dc1683,
    0xe3630b12, 0x94643b84, 0x0d6d6a3e, 0x7a6a5aa8, 0xe40ecf0b, 0x9309ff9d, 0x0a00ae27, 0x7d079eb1,
    0xf00f9344, 0x8708a3d2, 0x1e01f268, 0x6906c2fe, 0xf762575d, 0x806567cb, 0x196c3671, 0x6e6b06e7,
    0xfed41b76, 0x89d32be0, 0x10da7a5a, 0x67dd4acc, 0xf9b9df6f, 0x8ebeeff9, 0x17b7be43, 0x60b08ed5,
    0xd6d6a3e8, 0xa1d1937e, 0x38d8c2c4, 0x4fdff252, 0xd1bb67f1, 0xa6bc5767, 0x3fb506dd, 0x48b2364b,
    0xd80d2bda, 0xaf0a1b4c, 0x36034af6, 0x41047a60, 0xdf60efc3, 0xa867df55, 0x316e8eef, 0x4669be79,
    0xcb61b38c, 0xbc66831a, 0x256fd2a0, 0x5268e236, 0xcc0c7795, 0xbb0b4703, 0x220216b9, 0x5505262f,
    0xc5ba3bbe, 0xb2bd0b28, 0x2bb45a92, 0x5cb36a04, 0xc2d7ffa7, 0xb5d0cf31, 0x2cd99e8b, 0x5bdeae1d,
    0x9b64c2b0, 0xec63f226, 0x756aa39c, 0x026d930a, 0x9c0906a9, 0xeb0e363f, 0x72076785, 0x05005713,
    0x95bf4a82, 0xe2b87a14, 0x7bb12bae, 0x0cb61b38, 0x92d28e9b, 0xe5d5be0d, 0x7cdcefb7, 0x0bdbdf21,
    0x86d3d2d4, 0xf1d4e242, 0x68ddb3f8, 0x1fda836e, 0x81be16cd, 0xf6b9265b, 0x6fb077e1, 0x18b74777,
    0x88085ae6, 0xff0f6a70, 0x66063bca, 0x11010b5c, 0x8f659eff, 0xf862ae69, 0x616bffd3, 0x166ccf45,
    0xa00ae278, 0xd70dd2ee, 0x4e048354, 0x3903b3c2, 0xa7672661, 0xd06016f7, 0x4969474d, 0x3e6e77db,
    0xaed16a4a, 0xd9d65adc, 0x40df0b66, 0x37d83bf0, 0xa9bcae53, 0xdebb9ec5, 0x47b2cf7f, 0x30b5ffe9,
    0xbdbdf21c, 0xcabac28a, 0x53b39330, 0x24b4a3a6, 0xbad03605, 0xcdd70693, 0x54de5729, 0x23d967bf,
    0xb3667a2e, 0xc4614ab8, 0x5d681b02, 0x2a6f2b94, 0xb40bbe37, 0xc30c8ea1, 0x5a05df1b, 0x2d02ef8d]"

abbreviation (input) ngx_crc32_init :: "32 word" where "ngx_crc32_init \<equiv> 0xffffffff"

definition crc32_long_step :: "32 word \<Rightarrow> u_char \<Rightarrow> 32 word" where
  "crc32_long_step c p = ngx_crc32_table256 ! unat ((c XOR ucast p) AND 0xff) XOR drop_bit 8 c"

definition crc32_short_step :: "32 word \<Rightarrow> u_char \<Rightarrow> 32 word" where
  "crc32_short_step crc c =
     (let crc = ngx_crc32_table16 ! unat ((crc XOR ucast (c AND 0xf)) AND 0xf) XOR drop_bit 4 crc in
      ngx_crc32_table16 ! unat ((crc XOR ucast (drop_bit 4 c)) AND 0xf) XOR drop_bit 4 crc)"

definition ngx_crc32_update :: "32 word \<Rightarrow> u_char list \<Rightarrow> 32 word" where
  "ngx_crc32_update crc p = foldl crc32_long_step crc p"

definition ngx_crc32_final :: "32 word \<Rightarrow> 32 word" where
  "ngx_crc32_final crc = crc XOR 0xffffffff"

definition ngx_crc32_long :: "u_char list \<Rightarrow> 32 word" where
  "ngx_crc32_long p = foldl crc32_long_step 0xffffffff p XOR 0xffffffff"

definition ngx_crc32_short :: "u_char list \<Rightarrow> 32 word" where
  "ngx_crc32_short p = foldl crc32_short_step 0xffffffff p XOR 0xffffffff"

section \<open>The specification: one bit at a time\<close>

definition crc_bit :: "32 word \<Rightarrow> 32 word" where
  "crc_bit c = (if bit c 0 then drop_bit 1 c XOR 0xedb88320 else drop_bit 1 c)"

definition crc_byte :: "32 word \<Rightarrow> u_char \<Rightarrow> 32 word" where
  "crc_byte c b = (crc_bit ^^ 8) (c XOR ucast b)"

definition crc32_spec :: "u_char list \<Rightarrow> 32 word" where
  "crc32_spec bs = foldl crc_byte 0xffffffff bs XOR 0xffffffff"

section \<open>The tables\<close>

text \<open>The step is linear, and a step of \<open>n\<close> bits on a word whose low \<open>n\<close> bits are zero is a shift.\<close>

lemma crc_bit_xor: "crc_bit (a XOR b) = crc_bit a XOR crc_bit b"
  by (rule bit_word_eqI) (auto simp: crc_bit_def bit_simps)

lemma crc_bits_xor: "(crc_bit ^^ n) (a XOR b) = (crc_bit ^^ n) a XOR (crc_bit ^^ n) b"
  by (induction n) (simp_all add: crc_bit_xor)

lemma crc_bits_shift: "take_bit n c = 0 \<Longrightarrow> (crc_bit ^^ n) c = drop_bit n c"
proof (induction n arbitrary: c)
  case (Suc n)
  have "\<not> bit (take_bit (Suc n) c) 0" using Suc.prems by simp
  then have "\<not> bit c 0" by (simp add: bit_take_bit_iff)
  then have "crc_bit c = drop_bit 1 c" by (simp add: crc_bit_def)
  moreover have "take_bit n (drop_bit 1 c) = 0" using Suc.prems by (simp add: take_bit_drop_bit)
  ultimately show ?case using Suc.IH [of "drop_bit 1 c"] by (simp add: funpow_swap1 del: drop_bit_Suc)
qed simp

lemma crc_bits_split: "(crc_bit ^^ n) c = (crc_bit ^^ n) (take_bit n c) XOR drop_bit n c"
proof -
  have "c = take_bit n c XOR push_bit n (drop_bit n c)"
    by (rule bit_word_eqI) (auto simp: bit_simps)
  then have "(crc_bit ^^ n) c = (crc_bit ^^ n) (take_bit n c) XOR (crc_bit ^^ n) (push_bit n (drop_bit n c))"
    by (metis crc_bits_xor)
  moreover have "(crc_bit ^^ n) (push_bit n (drop_bit n c)) = drop_bit n (push_bit n (drop_bit n c))"
    by (rule crc_bits_shift) (rule bit_word_eqI, simp add: bit_simps)
  moreover have "drop_bit n (push_bit n (drop_bit n c)) = drop_bit n c"
    by (rule bit_word_eqI) (auto simp: bit_simps dest: bit_imp_le_length)
  ultimately show ?thesis by simp
qed

text \<open>A table of a linear function is doubled by one more value.\<close>

definition crc_double :: "32 word list \<Rightarrow> 32 word \<Rightarrow> 32 word list" where
  "crc_double xs b = xs @ map (\<lambda>x. x XOR b) xs"

lemma crc_double_map:
  fixes f :: "32 word \<Rightarrow> 32 word"
  assumes "k < 32" "\<And>a b. f (a XOR b) = f a XOR f b"
  shows "crc_double (map (\<lambda>i. f (of_nat i)) [0..<2 ^ k]) (f (2 ^ k)) = map (\<lambda>i. f (of_nat i)) [0..<2 ^ Suc k]"
proof -
  have "(of_nat (2 ^ k + i) :: 32 word) = of_nat i XOR 2 ^ k" if "i < 2 ^ k" for i
  proof -
    have "\<not> bit i k" using that by (simp add: bit_iff_odd)
    then have "(2 ^ k :: 32 word) AND of_nat i = 0"
      by (intro bit_word_eqI) (auto simp: bit_simps)
    then show ?thesis by (simp add: disjunctive_add_eq_xor xor.commute)
  qed
  then have "map (\<lambda>i. f (of_nat i)) [2 ^ k..<2 ^ Suc k] = map (\<lambda>x. x XOR f (2 ^ k)) (map (\<lambda>i. f (of_nat i)) [0..<2 ^ k])"
    using assms(2) by (intro nth_equalityI) simp_all
  moreover have "[0..<2 ^ Suc k] = [0..<2 ^ k] @ [2 ^ k..<2 ^ Suc k :: nat]"
    using upt_add_eq_append [of 0 "2 ^ k" "2 ^ k"] by (simp add: mult_2)
  ultimately show ?thesis by (simp add: crc_double_def)
qed

primrec crc_doubles :: "(32 word \<Rightarrow> 32 word) \<Rightarrow> nat \<Rightarrow> 32 word list" where
  "crc_doubles f 0 = [f 0]"
| "crc_doubles f (Suc k) = crc_double (crc_doubles f k) (f (2 ^ k))"

lemma crc_doubles_map:
  "n \<le> 32 \<Longrightarrow> (\<And>a b. f (a XOR b) = f a XOR f b) \<Longrightarrow> crc_doubles f n = map (\<lambda>i. f (of_nat i)) [0..<2 ^ n]"
proof (induction n)
  case (Suc n)
  then show ?case using crc_double_map [of n f] by simp
qed simp

lemma crc_four: "(f ^^ 4) x = f (f (f (f x)))" and crc_eight: "(f ^^ 8) x = f (f (f (f (f (f (f (f x)))))))"
  by (simp_all add: eval_nat_numeral)

lemma crc_basis4:
  "(crc_bit ^^ 4) 1 = 0x1db71064"
  "(crc_bit ^^ 4) 2 = 0x3b6e20c8"
  "(crc_bit ^^ 4) 4 = 0x76dc4190"
  "(crc_bit ^^ 4) 8 = 0xedb88320"
  by (simp_all add: crc_four crc_bit_def)

lemma crc_basis8:
  "(crc_bit ^^ 8) 1 = 0x77073096"
  "(crc_bit ^^ 8) 2 = 0xee0e612c"
  "(crc_bit ^^ 8) 4 = 0x076dc419"
  "(crc_bit ^^ 8) 8 = 0x0edb8832"
  "(crc_bit ^^ 8) 16 = 0x1db71064"
  "(crc_bit ^^ 8) 32 = 0x3b6e20c8"
  "(crc_bit ^^ 8) 64 = 0x76dc4190"
  "(crc_bit ^^ 8) 128 = 0xedb88320"
  by (simp_all add: crc_eight crc_bit_def)

lemma crc_zero: "(crc_bit ^^ n) 0 = 0"
  by (induction n) (simp_all add: crc_bit_def)

lemma crc_doubled16: "crc_doubles (crc_bit ^^ 4) (Suc (Suc (Suc (Suc 0)))) = ngx_crc32_table16"
  by (simp add: crc_basis4 crc_zero crc_double_def ngx_crc32_table16_def)

lemma crc_doubled256: "crc_doubles (crc_bit ^^ 8) (Suc (Suc (Suc (Suc (Suc (Suc (Suc (Suc 0)))))))) = ngx_crc32_table256"
  by (simp add: crc_basis8 crc_zero crc_double_def ngx_crc32_table256_def)

lemma crc_table16:
  assumes "i < 16"
  shows "ngx_crc32_table16 ! i = (crc_bit ^^ 4) (of_nat i)"
proof -
  have "crc_doubles (crc_bit ^^ 4) (Suc (Suc (Suc (Suc 0)))) = map (\<lambda>i. (crc_bit ^^ 4) (of_nat i)) [0..<2 ^ Suc (Suc (Suc (Suc 0)))]"
    by (rule crc_doubles_map) (simp, rule crc_bits_xor)
  then show ?thesis using assms unfolding crc_doubled16 [symmetric] by simp
qed

lemma crc_table256:
  assumes "i < 256"
  shows "ngx_crc32_table256 ! i = (crc_bit ^^ 8) (of_nat i)"
proof -
  let ?n = "Suc (Suc (Suc (Suc (Suc (Suc (Suc (Suc 0)))))))"
  have "crc_doubles (crc_bit ^^ 8) ?n = map (\<lambda>i. (crc_bit ^^ 8) (of_nat i)) [0..<2 ^ ?n]"
    by (rule crc_doubles_map) (simp, rule crc_bits_xor)
  then show ?thesis using assms unfolding crc_doubled256 [symmetric] by simp
qed

section \<open>The loops\<close>

lemma crc_mask: "unat (c AND 0xff :: 32 word) < 256" "unat (c AND 0xf) < 16" "of_nat (unat (c AND 0xff)) = take_bit 8 c"
  "of_nat (unat (c AND 0xf)) = take_bit 4 c" for c :: "32 word"
proof -
  have m: "c AND 0xff = take_bit 8 c" "c AND 0xf = take_bit 4 c" by (simp_all add: take_bit_eq_mask mask_eq_exp_minus_1)
  show "unat (c AND 0xff) < 256" "unat (c AND 0xf) < 16" unfolding m by (simp_all add: unsigned_take_bit_eq take_bit_nat_less_exp [of 8, simplified] take_bit_nat_less_exp [of 4, simplified])
  show "of_nat (unat (c AND 0xff)) = take_bit 8 c" "of_nat (unat (c AND 0xf)) = take_bit 4 c" by (simp_all add: m)
qed

lemma crc32_long_step: "crc32_long_step c b = crc_byte c b"
proof -
  have "drop_bit 8 (c XOR ucast b) = drop_bit 8 c"
    by (rule bit_word_eqI) (auto simp: bit_simps dest: bit_imp_le_length)
  then show ?thesis unfolding crc32_long_step_def crc_byte_def crc_bits_split [of 8 "c XOR ucast b"]
    by (simp only: crc_table256 crc_mask)
qed

lemma crc_nibble:
  "ngx_crc32_table16 ! unat ((c XOR x) AND 0xf) XOR drop_bit 4 (c XOR x) = (crc_bit ^^ 4) (c XOR x)"
  by (subst crc_bits_split [of 4 "c XOR x"]) (simp only: crc_table16 crc_mask)

lemma crc32_short_step: "crc32_short_step c b = crc_byte c b"
proof -
  let ?l = "ucast (b AND 0xf) :: 32 word" and ?h = "ucast (drop_bit 4 b) :: 32 word"
  have m: "b AND 0xf = take_bit 4 b" by (simp add: take_bit_eq_mask mask_eq_exp_minus_1)
  have d: "drop_bit 4 (c XOR ?l) = drop_bit 4 c" "drop_bit 4 (c XOR ?h) = drop_bit 4 c" for c :: "32 word"
    unfolding m by (rule bit_word_eqI, auto simp: bit_simps dest: bit_imp_le_length)+
  have b: "ucast b = ?l XOR push_bit 4 ?h"
    unfolding m by (rule bit_word_eqI) (auto simp: bit_simps dest: bit_imp_le_length)
  have h: "(crc_bit ^^ 4) (push_bit 4 ?h) = ?h"
    by (subst crc_bits_shift) (rule bit_word_eqI, auto simp: bit_simps dest: bit_imp_le_length)+
  have "crc32_short_step c b = (crc_bit ^^ 4) ((crc_bit ^^ 4) (c XOR ?l) XOR ?h)"
    unfolding crc32_short_step_def Let_def crc_nibble [of c ?l, unfolded d]
    by (rule crc_nibble [of "(crc_bit ^^ 4) (c XOR ?l)" ?h, unfolded d])
  also have "\<dots> = (crc_bit ^^ 4) ((crc_bit ^^ 4) (c XOR ucast b))"
    unfolding b by (simp add: crc_bits_xor h xor.assoc)
  also have "\<dots> = crc_byte c b" by (simp add: crc_byte_def funpow_add [of 4 4, simplified])
  finally show ?thesis .
qed


section \<open>Errors that are found\<close>

lemma word_xor_cancel [simp]: "a XOR c = b XOR c \<longleftrightarrow> a = b" "c XOR a = c XOR b \<longleftrightarrow> a = b" for a b c :: "32 word"
  by (metis xor.assoc xor_self_eq xor.right_neutral xor.commute)+

lemma crc_bit_inj: "crc_bit a = crc_bit b \<Longrightarrow> a = b"
proof -
  have top: "bit (crc_bit a) 31 = bit a 0" for a
  proof -
    have "\<not> bit a 32" by (auto dest: bit_imp_le_length)
    then show ?thesis by (simp add: crc_bit_def bit_simps)
  qed
  assume e: "crc_bit a = crc_bit b"
  then have z: "bit a 0 = bit b 0" by (metis top)
  then have "drop_bit 1 a = drop_bit 1 b" using e by (auto simp: crc_bit_def split: if_splits)
  then have "bit a (Suc n) = bit b (Suc n)" for n by (metis bit_drop_bit_eq comp_apply plus_1_eq_Suc)
  with z show "a = b" by (intro bit_word_eqI) (metis not0_implies_Suc)
qed

lemma crc_bits_inj: "(crc_bit ^^ n) a = (crc_bit ^^ n) b \<longleftrightarrow> a = b"
  by (induction n) (auto dest: crc_bit_inj)

lemma crc_byte_inj: "crc_byte a x = crc_byte b x \<longleftrightarrow> a = b"
  by (simp add: crc_byte_def crc_bits_inj)

lemma crc_bytes_inj: "foldl crc_byte a xs = foldl crc_byte b xs \<longleftrightarrow> a = b"
  by (induction xs arbitrary: a b) (simp_all add: crc_byte_inj)

text \<open>A group of up to four bytes enters the register as a number.\<close>

primrec le_word :: "u_char list \<Rightarrow> 32 word" where
  "le_word [] = 0"
| "le_word (b # bs) = ucast b XOR push_bit 8 (le_word bs)"

lemma le_word_bits: "bit (le_word bs) n \<Longrightarrow> n < 8 * length bs"
proof (induction bs arbitrary: n)
  case (Cons b bs)
  then show ?case by (auto simp: bit_simps dest: bit_imp_le_length Cons.IH [of "n - 8"])
qed simp

lemma le_word_shift: "length bs \<le> 3 \<Longrightarrow> drop_bit 8 (push_bit 8 (le_word bs)) = le_word bs"
  using le_word_bits [of bs] by (intro bit_word_eqI) (fastforce simp: bit_simps)

lemma le_word_inj: "length xs = length ys \<Longrightarrow> length xs \<le> 4 \<Longrightarrow> le_word xs = le_word ys \<Longrightarrow> xs = ys"
proof (induction xs ys rule: list_induct2)
  case (Cons x xs y ys)
  have low: "take_bit 8 (le_word (b # bs)) = ucast b" for b bs
    by (rule bit_word_eqI) (auto simp: bit_simps dest: bit_imp_le_length)
  have u: "(ucast x :: 32 word) = ucast y" using Cons.prems(2) low [of x xs] low [of y ys] by metis
  have "bit x n = bit y n" if "n < 8" for n using arg_cong [OF u, of "\<lambda>w. bit w n"] that by (simp add: bit_simps)
  then have "x = y" by (intro bit_word_eqI) simp
  then have "push_bit 8 (le_word xs) = push_bit 8 (le_word ys)" using Cons.prems(2) by simp
  moreover have "length xs \<le> 3" "length ys \<le> 3" using Cons by simp_all
  ultimately have "le_word xs = le_word ys" by (metis le_word_shift)
  with \<open>x = y\<close> show ?case using Cons by simp
qed simp

lemma crc_group:
  "length bs \<le> 4 \<Longrightarrow> foldl crc_byte c bs = (crc_bit ^^ (8 * length bs)) (c XOR le_word bs)"
proof (induction bs arbitrary: c)
  case (Cons b bs)
  have "(crc_bit ^^ 8) (push_bit 8 (le_word bs)) = drop_bit 8 (push_bit 8 (le_word bs))"
    by (rule crc_bits_shift) (rule bit_word_eqI, simp add: bit_simps)
  also have "\<dots> = le_word bs" using Cons.prems by (intro le_word_shift) simp
  finally have "(crc_bit ^^ 8) (c XOR le_word (b # bs)) = crc_byte c b XOR le_word bs"
    by (simp add: crc_byte_def crc_bits_xor xor.assoc)
  moreover have "(crc_bit ^^ (8 * length (b # bs))) x = (crc_bit ^^ (8 * length bs)) ((crc_bit ^^ 8) x)" for x
    by (simp add: add.commute [of 8] funpow_add)
  ultimately show ?case using Cons by simp
qed simp

section \<open>Properties\<close>

lemma crc_loops: "foldl crc32_long_step = foldl crc_byte" "foldl crc32_short_step = foldl crc_byte"
proof -
  have "crc32_long_step = crc_byte" "crc32_short_step = crc_byte"
    by (rule ext, rule ext, rule crc32_long_step, rule ext, rule ext, rule crc32_short_step)
  then show "foldl crc32_long_step = foldl crc_byte" "foldl crc32_short_step = foldl crc_byte" by simp_all
qed

text \<open>
  C33: The three ways to compute a CRC-32 agree with the division by the polynomial, bit by bit: the loop with the table of
  256 entries, the one with the table of 16 entries, and the update of a checksum in pieces. And the checksum
  finds errors: it changes whenever up to four bytes in a row are replaced by others.
\<close>

theorem ngx_crc32_exact:
  "ngx_crc32_long p = crc32_spec p \<and> ngx_crc32_short p = crc32_spec p
   \<and> ngx_crc32_final (ngx_crc32_update (ngx_crc32_update ngx_crc32_init p) q) = crc32_spec (p @ q)
   \<and> (length xs = length ys \<and> length xs \<le> 4 \<longrightarrow>
        (ngx_crc32_long (p @ xs @ q) = ngx_crc32_long (p @ ys @ q) \<longleftrightarrow> xs = ys))"
proof (intro conjI impI)
  show long: "ngx_crc32_long p = crc32_spec p" for p by (simp add: ngx_crc32_long_def crc32_spec_def crc_loops)
  show "ngx_crc32_short p = crc32_spec p" by (simp add: ngx_crc32_short_def crc32_spec_def crc_loops)
  show "ngx_crc32_final (ngx_crc32_update (ngx_crc32_update ngx_crc32_init p) q) = crc32_spec (p @ q)"
    by (simp add: ngx_crc32_final_def ngx_crc32_update_def crc32_spec_def crc_loops)
  assume "length xs = length ys \<and> length xs \<le> 4"
  then show "ngx_crc32_long (p @ xs @ q) = ngx_crc32_long (p @ ys @ q) \<longleftrightarrow> xs = ys"
    using le_word_inj [of xs ys] by (auto simp: long crc32_spec_def crc_bytes_inj crc_group crc_bits_inj)
qed

theorem ngx_crc32_exact_witness:
  "ngx_crc32_long (bytes ''ab'' @ [1, 2] @ []) \<noteq> ngx_crc32_long (bytes ''ab'' @ [2, 1] @ [])"
  using ngx_crc32_exact [of "bytes ''ab''" "[]" "[1, 2]" "[2, 1]"] by simp

end
