(* ===== verification/Ngx_Http_Upstream_Hash.thy ===== *)
theory Ngx_Http_Upstream_Hash
  imports Ngx_Http_Upstream_Balance Ngx_Crc32 Ngx_Numbers "HOL-Library.Multiset"
begin

text \<open>
  The balancers by the hash of a key, \<^verbatim>\<open>http/modules/ngx_http_upstream_hash_module.c\<close>: the plain one, which hashes again when a
  peer cannot be used, and the consistent one, which goes on along a ring of points. The value of the key is
  given; evaluating it belongs to the variables of a request. \<^verbatim>\<open>qsort\<close> is a parameter: the order in which it
  leaves equal points is not specified.
\<close>

section \<open>Plain hash\<close>

record ngx_http_upstream_hash_peer_data_t = ngx_http_upstream_rr_peer_data_t +
  uh_key :: ngx_str_t
  uh_tries :: nat
  uh_rehash :: "64 word"
  uh_hash :: "32 word"

definition ngx_http_upstream_init_hash_peer ::
  "upstream \<Rightarrow> ngx_str_t \<Rightarrow> ngx_peer_connection_t \<times> ngx_http_upstream_hash_peer_data_t"
where
  "ngx_http_upstream_init_hash_peer us key =
     (case ngx_http_upstream_init_round_robin_peer us of (pc, d) \<Rightarrow>
        (pc, ngx_http_upstream_rr_peer_data_t.extend d \<lparr>uh_key = key, uh_tries = 0, uh_rehash = 0, uh_hash = 0\<rparr>))"

text \<open>\<^verbatim>\<open>((crc32([REHASH] KEY) >> 16) & 0x7fff)\<close>; the number is printed with \<^verbatim>\<open>%ui\<close>.\<close>

definition uh_value :: "64 word \<Rightarrow> ngx_str_t \<Rightarrow> 32 word" where
  "uh_value rehash key =
     (let hash = (if rehash > 0 then ngx_crc32_update ngx_crc32_init (ngx_sprintf_num 20 rehash ch_space 0 0)
                  else ngx_crc32_init)
      in drop_bit 16 (ngx_crc32_final (ngx_crc32_update hash key)) AND 0x7fff)"

function uh_loop ::
  "int \<Rightarrow> upstream \<Rightarrow> ngx_peer_connection_t \<Rightarrow> ngx_http_upstream_hash_peer_data_t
     \<Rightarrow> (int \<times> upstream \<times> ngx_peer_connection_t \<times> ngx_http_upstream_hash_peer_data_t) option"
where
  "uh_loop now us pc d =
     (let peers = us ! rrp_peers d;
          d = d\<lparr>uh_hash := uh_hash d + uh_value (uh_rehash d) (uh_key d), uh_rehash := uh_rehash d + 1\<rparr> in
      if rps_total_weight peers = 0 then None
      else case weight_walk (rps_peer peers) (int (unat (uh_hash d) mod unat (rps_total_weight peers))) of
        None \<Rightarrow> None
      | Some p \<Rightarrow>
          (case hash_take now us pc d p of
             Some r \<Rightarrow> Some r
           | None \<Rightarrow>
               let d = d\<lparr>uh_tries := uh_tries d + 1\<rparr> in
               if uh_tries d > 20
               then Some (ngx_http_upstream_get_round_robin_peer now us (pc\<lparr>pc_cached := False, pc_connection := False\<rparr>) d)
               else uh_loop now us pc d))"
  by pat_completeness auto
termination
  by (relation "measure (\<lambda>(now, us, pc, d). 21 - uh_tries d)") auto

declare uh_loop.simps [simp del]

definition ngx_http_upstream_get_hash_peer ::
  "int \<Rightarrow> upstream \<Rightarrow> ngx_peer_connection_t \<Rightarrow> ngx_http_upstream_hash_peer_data_t
     \<Rightarrow> (int \<times> upstream \<times> ngx_peer_connection_t \<times> ngx_http_upstream_hash_peer_data_t) option"
where
  "ngx_http_upstream_get_hash_peer now us pc d =
     (if uh_tries d > 20 \<or> rps_single (us ! rrp_peers d)
      then Some (ngx_http_upstream_get_round_robin_peer now us pc d)
      else uh_loop now us pc d)"

section \<open>Consistent hash\<close>

type_synonym ngx_http_upstream_chash_point_t = "32 word \<times> ngx_str_t"

text \<open>The name and the port of a server; the port has no entry when the name ends otherwise than in a colon and digits.\<close>

fun chash_port :: "u_char list \<Rightarrow> u_char list \<Rightarrow> (u_char list \<times> u_char list) option" where
  "chash_port [] port = None"
| "chash_port (c # rest) port =
     (if c = ch_colon then Some (rev rest, port)
      else if c < ch_0 \<or> c > ch_9 then None
      else chash_port rest (c # port))"

definition chash_host :: "ngx_str_t \<Rightarrow> u_char list \<times> u_char list" where
  "chash_host server =
     (if length server \<ge> 5 \<and> map (\<lambda>c. if ch_A \<le> c \<and> c \<le> ch_Z then c OR 0x20 else c) (take 5 server) = bytes ''unix:''
      then (drop 5 server, [])
      else case chash_port (rev server) [] of Some hp \<Rightarrow> hp | None \<Rightarrow> (server, []))"

definition chash_bytes :: "32 word \<Rightarrow> u_char list" where
  "chash_bytes w = [ucast w, ucast (drop_bit 8 w), ucast (drop_bit 16 w), ucast (drop_bit 24 w)]"

primrec chash_points :: "32 word \<Rightarrow> 32 word \<Rightarrow> ngx_str_t \<Rightarrow> nat \<Rightarrow> ngx_http_upstream_chash_point_t list" where
  "chash_points base prev server 0 = []"
| "chash_points base prev server (Suc n) =
     (let hash = ngx_crc32_final (ngx_crc32_update base (chash_bytes prev))
      in (hash, server) # chash_points base hash server n)"

definition chash_peer_points :: "ngx_http_upstream_rr_peer_t \<Rightarrow> ngx_http_upstream_chash_point_t list" where
  "chash_peer_points peer =
     (case chash_host (rp_server peer) of (host, port) \<Rightarrow>
        let base_hash = ngx_crc32_update (ngx_crc32_update (ngx_crc32_update ngx_crc32_init host) [0]) port
        in chash_points base_hash 0 (rp_server peer) (unat (word_of_int (rp_weight peer * 160) :: 64 word)))"

text \<open>The loop that keeps the first point of each hash; there is always a point, since every weight is positive.\<close>

fun chash_uniq :: "ngx_http_upstream_chash_point_t list \<Rightarrow> ngx_http_upstream_chash_point_t list" where
  "chash_uniq (p # q # ps) = (if fst p \<noteq> fst q then p # chash_uniq (q # ps) else chash_uniq (p # ps))"
| "chash_uniq ps = ps"

definition ngx_http_upstream_init_chash ::
  "(ngx_http_upstream_chash_point_t list \<Rightarrow> ngx_http_upstream_chash_point_t list) \<Rightarrow> upstream \<Rightarrow> ngx_http_upstream_chash_point_t list"
where
  "ngx_http_upstream_init_chash qsort us = chash_uniq (qsort (concat (map chash_peer_points (rps_peer (us ! 0)))))"

function chash_search :: "ngx_http_upstream_chash_point_t list \<Rightarrow> 32 word \<Rightarrow> nat \<Rightarrow> nat \<Rightarrow> nat" where
  "chash_search points hash i j =
     (if i < j then
        let k = (i + j) div 2 in
        if hash > fst (points ! k) then chash_search points hash (k + 1) j
        else if hash < fst (points ! k) then chash_search points hash i k
        else k
      else i)"
  by pat_completeness auto
termination
  by (relation "measure (\<lambda>(points, hash, i, j). j - i)") auto

declare chash_search.simps [simp del]

definition ngx_http_upstream_find_chash_point :: "ngx_http_upstream_chash_point_t list \<Rightarrow> 32 word \<Rightarrow> nat" where
  "ngx_http_upstream_find_chash_point points hash = chash_search points hash 0 (length points)"

definition ngx_http_upstream_init_chash_peer ::
  "ngx_http_upstream_chash_point_t list \<Rightarrow> upstream \<Rightarrow> ngx_str_t
     \<Rightarrow> ngx_peer_connection_t \<times> ngx_http_upstream_hash_peer_data_t"
where
  "ngx_http_upstream_init_chash_peer points us key =
     (case ngx_http_upstream_init_hash_peer us key of (pc, d) \<Rightarrow>
        (pc, d\<lparr>uh_hash := of_nat (ngx_http_upstream_find_chash_point points (ngx_crc32_long key))\<rparr>))"

text \<open>The choice among the peers of one server.\<close>

definition chash_skip :: "int \<Rightarrow> 64 word list \<Rightarrow> ngx_str_t \<Rightarrow> nat \<Rightarrow> ngx_http_upstream_rr_peer_t \<Rightarrow> bool" where
  "chash_skip now tried server i p \<longleftrightarrow> rr_skip now tried i p \<or> rp_server p \<noteq> server"

definition chash_found ::
  "int \<Rightarrow> upstream \<Rightarrow> ngx_peer_connection_t \<Rightarrow> 'a ngx_http_upstream_rr_peer_data_t_scheme
     \<Rightarrow> ngx_http_upstream_rr_peer_t list \<Rightarrow> nat \<Rightarrow> int
     \<Rightarrow> int \<times> upstream \<times> ngx_peer_connection_t \<times> 'a ngx_http_upstream_rr_peer_data_t_scheme"
where
  "chash_found now us pc d ps best tot =
     (let g = rrp_peers d; peer = ps ! best in
      (NGX_OK,
       us[g := (us ! g)\<lparr>rps_peer := ps[best := rp_touch now (rp_connect (rp_charge tot peer))]\<rparr>],
       pc\<lparr>pc_cached := False, pc_connection := False, pc_sockaddr := Some (rp_sockaddr peer), pc_name := rp_sockaddr peer\<rparr>,
       d\<lparr>rrp_current := Some (g, best), rrp_tried := rr_set_tried (rrp_tried d) best\<rparr>))"

text \<open>The loop; \<open>None\<close> is a division by the number of points when it is zero.\<close>

function chash_loop ::
  "ngx_http_upstream_chash_point_t list \<Rightarrow> int \<Rightarrow> upstream \<Rightarrow> ngx_peer_connection_t \<Rightarrow> ngx_http_upstream_hash_peer_data_t
     \<Rightarrow> (int \<times> upstream \<times> ngx_peer_connection_t \<times> ngx_http_upstream_hash_peer_data_t) option"
where
  "chash_loop points now us pc d =
     (if length points = 0 then None
      else
        let server = snd (points ! (unat (uh_hash d) mod length points)); peers = us ! rrp_peers d in
        case rr_loop (chash_skip now (rrp_tried d) server) (rps_peer peers) 0 None 0 of (ps, best, tot) \<Rightarrow>
          case best of
            Some b \<Rightarrow> Some (chash_found now us pc d ps b tot)
          | None \<Rightarrow>
              let us1 = us[rrp_peers d := peers\<lparr>rps_peer := ps\<rparr>];
                  d = d\<lparr>uh_hash := uh_hash d + 1, uh_tries := uh_tries d + 1\<rparr> in
              if uh_tries d \<ge> length points
              then Some (NGX_BUSY, us1, pc\<lparr>pc_cached := False, pc_connection := False, pc_name := rps_name peers\<rparr>, d)
              else chash_loop points now us1 pc d)"
  by pat_completeness auto
termination
  by (relation "measure (\<lambda>(points, now, us, pc, d). length points - uh_tries d)") auto

declare chash_loop.simps [simp del]

definition ngx_http_upstream_get_chash_peer ::
  "ngx_http_upstream_chash_point_t list \<Rightarrow> int \<Rightarrow> upstream \<Rightarrow> ngx_peer_connection_t \<Rightarrow> ngx_http_upstream_hash_peer_data_t
     \<Rightarrow> (int \<times> upstream \<times> ngx_peer_connection_t \<times> ngx_http_upstream_hash_peer_data_t) option"
where
  "ngx_http_upstream_get_chash_peer points now us pc d = chash_loop points now us pc d"

section \<open>The plain hash is a balancer\<close>

lemma uh_loop_spec:
  assumes "up_ok us" "data_ok us d" "\<not> rps_single (us ! rrp_peers d)"
  shows "\<exists>r. uh_loop now us pc d = Some r \<and> get_spec now us pc d r \<and> busy_spec now us d (fst r)"
  using assms
proof (induction now us pc d rule: uh_loop.induct)
  case (1 now us pc d)
  let ?g = "us ! rrp_peers d" and ?e = "d\<lparr>uh_hash := uh_hash d + uh_value (uh_rehash d) (uh_key d), uh_rehash := uh_rehash d + 1\<rparr>"
  let ?d = "?e\<lparr>uh_tries := uh_tries ?e + 1\<rparr>"
  have g: "group_ok ?g" using 1(2,3) by (simp add: up_ok_def data_ok_def)
  obtain p where p: "p < length (rps_peer ?g)"
    "weight_walk (rps_peer ?g) (int (unat (uh_hash ?e) mod unat (rps_total_weight ?g))) = Some p"
    using hash_walk [OF g] by blast
  have eq: "uh_loop now us pc d =
      (case hash_take now us pc ?e p of
         Some (rc, us, pc, d) \<Rightarrow> Some (rc, us, pc, (\<lambda>d. d) d)
       | None \<Rightarrow>
           if uh_tries ?d > 20
           then Some (ngx_http_upstream_get_round_robin_peer now us (pc\<lparr>pc_cached := False, pc_connection := False\<rparr>) ?d)
           else uh_loop now us pc ?d)"
    using p(2) group_weight(1) [OF g] by (subst uh_loop.simps) (simp add: Let_def split: option.split)
  have spec: "get_spec now us pc e' = get_spec now us pc d" "data_ok us e'" "busy_spec now us e' = busy_spec now us d"
    if "rrp_peers e' = rrp_peers d" "rrp_tried e' = rrp_tried d" for e' :: ngx_http_upstream_hash_peer_data_t
    using get_spec_cong [OF that] data_ok_cong [OF that] busy_spec_cong [OF that] 1(3) by simp_all
  have e: "get_spec now us pc ?e = get_spec now us pc d" "data_ok us ?e" "busy_spec now us ?e = busy_spec now us d"
    by (rule spec; simp)+
  have d: "get_spec now us pc ?d = get_spec now us pc d" "data_ok us ?d" "busy_spec now us ?d = busy_spec now us d"
    by (rule spec; simp)+
  have "\<exists>r. uh_loop now us pc d = Some r \<and> get_spec now us pc ?e r \<and> busy_spec now us ?e (fst r)"
    unfolding eq
  proof (rule hash_round [OF 1(2) e(2)])
    assume none: "hash_take now us pc ?e p = None"
    have "\<exists>r. uh_loop now us pc ?d = Some r \<and> get_spec now us pc ?d r \<and> busy_spec now us ?d (fst r)" if "\<not> uh_tries ?d > 20"
      by (rule 1(1) [OF refl refl _ p(2) none refl that]) (use 1(2-4) d(2) group_weight(1) [OF g] in simp_all)
    moreover have "\<exists>r. Some (ngx_http_upstream_get_round_robin_peer now us (pc\<lparr>pc_cached := False, pc_connection := False\<rparr>) ?d) = Some r
        \<and> get_spec now us pc d r \<and> busy_spec now us d (fst r)"
      using rr_get_after [OF 1(2,3), of ?d] by simp
    ultimately show "\<exists>r. (if uh_tries ?d > 20
        then Some (ngx_http_upstream_get_round_robin_peer now us (pc\<lparr>pc_cached := False, pc_connection := False\<rparr>) ?d)
        else uh_loop now us pc ?d) = Some r \<and> get_spec now us pc ?e r \<and> busy_spec now us ?e (fst r)"
      unfolding d e by (cases "uh_tries ?d > 20") simp_all
  qed (use 1(4) p(1) in simp_all)
  then show ?case unfolding e .
qed

interpretation uh: eager_balancer ngx_http_upstream_get_hash_peer
proof
  fix us and d :: ngx_http_upstream_hash_peer_data_t and now pc
  assume "up_ok us" "data_ok us d"
  then have "\<exists>r. ngx_http_upstream_get_hash_peer now us pc d = Some r \<and> get_spec now us pc d r \<and> busy_spec now us d (fst r)"
    unfolding ngx_http_upstream_get_hash_peer_def
    using rr_get_spec [of us d now pc] uh_loop_spec [of us d now pc] by metis
  then show "\<exists>r. ngx_http_upstream_get_hash_peer now us pc d = Some r \<and> get_spec now us pc d r"
    and "ngx_http_upstream_get_hash_peer now us pc d = Some r \<Longrightarrow> busy_spec now us d (fst r)" for r
    by auto
qed

section \<open>The consistent hash is a balancer\<close>

text \<open>The servers that the loop looks at, from position \<open>h\<close> on, and whether one of them has a peer to give.\<close>

primrec chash_from :: "ngx_http_upstream_chash_point_t list \<Rightarrow> 32 word \<Rightarrow> nat \<Rightarrow> ngx_str_t list" where
  "chash_from points h 0 = []"
| "chash_from points h (Suc n) = snd (points ! (unat h mod length points)) # chash_from points (h + 1) n"

definition chash_ready :: "int \<Rightarrow> upstream \<Rightarrow> 'a ngx_http_upstream_rr_peer_data_t_scheme \<Rightarrow> ngx_str_t \<Rightarrow> nat \<Rightarrow> bool" where
  "chash_ready now us d server i \<longleftrightarrow> i < length (rps_peer (us ! rrp_peers d))
     \<and> \<not> chash_skip now (rrp_tried d) server i (rps_peer (us ! rrp_peers d) ! i)"

definition chash_answer ::
  "int \<Rightarrow> upstream \<Rightarrow> 'a ngx_http_upstream_rr_peer_data_t_scheme \<Rightarrow> ngx_str_t list
     \<Rightarrow> int \<times> upstream \<times> ngx_peer_connection_t \<times> 'b ngx_http_upstream_rr_peer_data_t_scheme \<Rightarrow> bool"
where
  "chash_answer now us d servers = (\<lambda>(rc, vs, pc, e).
     case find (\<lambda>s. \<exists>i. chash_ready now us d s i) servers of
       None \<Rightarrow> rc = NGX_BUSY
     | Some s \<Rightarrow> rc = NGX_OK \<and> (\<exists>i. rrp_current e = Some (rrp_peers d, i) \<and> chash_ready now us d s i))"

lemma chash_answer_cong:
  "rrp_peers d = rrp_peers d' \<Longrightarrow> rrp_tried d = rrp_tried d' \<Longrightarrow> chash_answer now us d ss r = chash_answer now us d' ss r"
  by (simp only: chash_answer_def chash_ready_def)

lemma chash_answer_Cons:
  "\<not> (\<exists>i. chash_ready now us d s i) \<Longrightarrow> chash_answer now us d (s # ss) r = chash_answer now us d ss r"
  by (simp only: chash_answer_def find.simps if_False)

lemma chash_pick:
  assumes "rr_loop (chash_skip now (rrp_tried d) server) (rps_peer peers) 0 None 0 = (ps, best, tot)"
  shows "best = None \<Longrightarrow> ps = rps_peer peers \<and> (\<forall>i<length ps. chash_skip now (rrp_tried d) server i (ps ! i))"
    and "best = Some b \<Longrightarrow> b < length (rps_peer peers) \<and> \<not> chash_skip now (rrp_tried d) server b (rps_peer peers ! b)
      \<and> pick_spec now peers d (Some b, ps[b := rp_touch now (rp_charge tot (ps ! b))],
          d\<lparr>rrp_current := Some (rrp_peers d, b), rrp_tried := rr_set_tried (rrp_tried d) b\<rparr>)"
proof -
  let ?skip = "chash_skip now (rrp_tried d) server" and ?ps = "rps_peer peers"
  have post: "rr_loop_post ?skip ?ps 0 None 0 ps best tot"
    using rr_loop_correct [of None 0 ?ps 0 ?skip] assms by simp
  have l: "length ps = length ?ps" and n: "\<And>k. k < length ?ps \<Longrightarrow> ps ! k = ?ps ! k \<or> ps ! k = rr_weigh (?ps ! k)"
    using post unfolding rr_loop_post_def by auto
  have k: "list_all2 peer_stays ?ps ps"
    unfolding list_all2_conv_all_nth using l n by (metis peer_stays_refl peer_stays_simps(1))
  show "ps = ?ps \<and> (\<forall>i<length ps. ?skip i (ps ! i))" if "best = None"
    using post l that unfolding rr_loop_post_def by (auto intro: nth_equalityI)
  assume "best = Some b"
  then have b: "b < length ?ps" "\<not> ?skip b (?ps ! b)" using post unfolding rr_loop_post_def by auto
  moreover have "list_all2 peer_stays ?ps (ps[b := rp_touch now (rp_charge tot (ps ! b))])"
    by (rule peers_stay_update [OF k]) simp
  ultimately show "b < length ?ps \<and> \<not> ?skip b (?ps ! b)
      \<and> pick_spec now peers d (Some b, ps[b := rp_touch now (rp_charge tot (ps ! b))],
          d\<lparr>rrp_current := Some (rrp_peers d, b), rrp_tried := rr_set_tried (rrp_tried d) b\<rparr>)"
    by (simp add: pick_spec_def chash_skip_def rr_skip_def)
qed

lemma chash_found_spec:
  assumes "up_ok us" "data_ok us d"
    and "rr_loop (chash_skip now (rrp_tried d) server) (rps_peer (us ! rrp_peers d)) 0 None 0 = (ps, Some b, tot)"
  shows "get_spec now us pc d (chash_found now us pc d ps b tot)"
proof -
  let ?p = "rp_touch now (rp_charge tot (ps ! b))"
  note pick = chash_pick(2) [OF assms(3) refl]
  have "b < length ps" using pick by (auto simp: pick_spec_def dest: list_all2_lengthD)
  moreover have "rp_touch now (rp_connect (rp_charge tot (ps ! b))) = rp_connect ?p" by (simp add: rp_touch_def rp_connect_def)
  ultimately show ?thesis
    using get_spec_found [OF assms(1,2) conjunct2 [OF conjunct2 [OF pick]] refl, of "pc\<lparr>pc_cached := False, pc_connection := False\<rparr>"]
    by (simp add: chash_found_def Let_def get_spec_def)
qed

lemma chash_loop_spec:
  assumes "up_ok us" "data_ok us d" "points \<noteq> []"
  shows "\<exists>r. chash_loop points now us pc d = Some r \<and> get_spec now us pc d r
    \<and> chash_answer now us d (chash_from points (uh_hash d) (Suc (length points - Suc (uh_tries d)))) r"
  using assms
proof (induction points now us pc d rule: chash_loop.induct)
  case (1 points now us pc d)
  let ?server = "snd (points ! (unat (uh_hash d) mod length points))" and ?peers = "us ! rrp_peers d"
  let ?d = "d\<lparr>uh_hash := uh_hash d + 1, uh_tries := uh_tries d + 1\<rparr>"
  obtain ps best tot where loop: "rr_loop (chash_skip now (rrp_tried d) ?server) (rps_peer ?peers) 0 None 0 = (ps, best, tot)"
    by (metis prod_cases3)
  show ?case
  proof (cases best)
    case (Some b)
    have "chash_ready now us d ?server b" using chash_pick(2) [OF loop Some] by (simp add: chash_ready_def)
    moreover have "chash_loop points now us pc d = Some (chash_found now us pc d ps b tot)"
      using 1(4) loop Some by (subst chash_loop.simps) simp
    ultimately show ?thesis using chash_found_spec [OF 1(2,3) loop [unfolded Some]]
      by (auto simp: chash_answer_def chash_found_def Let_def)
  next
    case None
    note pick = chash_pick(1) [OF loop None]
    then have us: "us[rrp_peers d := ?peers\<lparr>rps_peer := ps\<rparr>] = us" by simp
    have no: "\<not> (\<exists>i. chash_ready now us d ?server i)" using pick by (auto simp: chash_ready_def)
    have d: "get_spec now us pc ?d = get_spec now us pc d" "data_ok us ?d"
      using get_spec_cong [of ?d d] data_ok_cong [of ?d d] 1(3) by simp_all
    have answer: "chash_answer now us ?d ss r = chash_answer now us d (?server # ss) r" for ss r
      using chash_answer_cong [of ?d d now us ss r] chash_answer_Cons [OF no, of ss r] by simp
    show ?thesis
    proof (cases "uh_tries ?d \<ge> length points")
      case True
      then have "chash_loop points now us pc d =
          Some (NGX_BUSY, us, pc\<lparr>pc_cached := False, pc_connection := False, pc_name := rps_name ?peers\<rparr>, ?d)"
        using 1(4) loop None us by (subst chash_loop.simps) (simp add: Let_def)
      then show ?thesis using True no d(2)
        by (simp add: chash_answer_def get_spec_def tried_grows_def conns_added_def)
    next
      case False
      then have "chash_loop points now us pc d = chash_loop points now us pc ?d"
        using 1(4) loop None us by (subst chash_loop.simps) (simp add: Let_def)
      moreover have "\<exists>r. chash_loop points now us pc ?d = Some r \<and> get_spec now us pc ?d r
          \<and> chash_answer now us ?d (chash_from points (uh_hash ?d) (Suc (length points - Suc (uh_tries ?d)))) r"
        using 1(1) [OF _ refl refl loop [symmetric] refl None refl refl False] us 1(2,4) d(2) by simp
      moreover have "length points - Suc (uh_tries d) = Suc (length points - Suc (uh_tries ?d))" using False by simp
      then have "chash_from points (uh_hash d) (Suc (length points - Suc (uh_tries d)))
          = ?server # chash_from points (uh_hash ?d) (Suc (length points - Suc (uh_tries ?d)))" by simp
      ultimately show ?thesis unfolding d(1) answer by simp
    qed
  qed
qed

interpretation chash: balancer "ngx_http_upstream_get_chash_peer (p # points)" for p points
  by unfold_locales (use chash_loop_spec in \<open>fastforce simp: ngx_http_upstream_get_chash_peer_def\<close>)

section \<open>The ring\<close>

text \<open>
  What \<^verbatim>\<open>ngx_qsort\<close>, the \<^verbatim>\<open>qsort\<close> of the C library, promises when the points are compared by their hashes.
\<close>

definition qsort_points :: "(ngx_http_upstream_chash_point_t list \<Rightarrow> ngx_http_upstream_chash_point_t list) \<Rightarrow> bool" where
  "qsort_points qsort \<longleftrightarrow> (\<forall>ps. mset (qsort ps) = mset ps \<and> sorted (map fst (qsort ps)))"

abbreviation (input) on_ring :: "ngx_http_upstream_chash_point_t list \<Rightarrow> bool" where
  "on_ring points \<equiv> sorted_wrt (\<lambda>p q. fst p < fst q) points"

text \<open>The servers in the order of the ring, from the first point that is not below \<open>hash\<close>.\<close>

definition chash_ring :: "ngx_http_upstream_chash_point_t list \<Rightarrow> 32 word \<Rightarrow> ngx_str_t list" where
  "chash_ring points hash = map snd (filter (\<lambda>p. hash \<le> fst p) points @ filter (\<lambda>p. fst p < hash) points)"

lemma chash_uniq_set: "set (chash_uniq ps) \<subseteq> set ps \<and> fst ` set (chash_uniq ps) = fst ` set ps \<and> (chash_uniq ps = [] \<longleftrightarrow> ps = [])"
  by (induction ps rule: chash_uniq.induct) auto

lemma chash_uniq_length: "length (chash_uniq ps) \<le> length ps"
  by (induction ps rule: chash_uniq.induct) auto

lemma chash_uniq_sorted: "sorted (map fst ps) \<Longrightarrow> on_ring (chash_uniq ps)"
proof (induction ps rule: chash_uniq.induct)
  case (1 p q ps)
  then show ?case using chash_uniq_set [of "q # ps"] by (fastforce simp: order_less_le)
qed simp_all

lemma chash_search_spec:
  assumes "on_ring points" "j \<le> length points" "i \<le> j"
    and "\<forall>k<i. fst (points ! k) < hash" "\<forall>k. j \<le> k \<longrightarrow> k < length points \<longrightarrow> hash \<le> fst (points ! k)"
  shows "let n = chash_search points hash i j in n \<le> length points
    \<and> (\<forall>k<n. fst (points ! k) < hash) \<and> (\<forall>k. n \<le> k \<longrightarrow> k < length points \<longrightarrow> hash \<le> fst (points ! k))"
  using assms
proof (induction points hash i j rule: chash_search.induct)
  case (1 points hash i j)
  let ?k = "(i + j) div 2"
  have less: "fst (points ! a) < fst (points ! b)" if "a < b" "b < length points" for a b
    using 1(3) that by (simp add: sorted_wrt_iff_nth_less)
  have leq: "fst (points ! a) \<le> fst (points ! b)" if "a \<le> b" "b < length points" for a b
    using less [of a b] that by (cases "a = b") auto
  show ?case
  proof (cases "i < j")
    case False
    then show ?thesis using 1(4-7) by (subst chash_search.simps) (auto simp: Let_def)
  next
    case True
    then have k: "?k < length points" "i \<le> ?k" "?k < j" using 1(4) by auto
    consider "hash > fst (points ! ?k)" | "hash < fst (points ! ?k)" | "hash = fst (points ! ?k)" by fastforce
    then show ?thesis
    proof cases
      case 1
      have "fst (points ! l) < hash" if "l < ?k + 1" for l using le_less_trans [OF leq [OF _ k(1)] 1, of l] that by simp
      moreover have "chash_search points hash i j = chash_search points hash (?k + 1) j"
        using 1 True by (subst chash_search.simps) (simp add: Let_def)
      ultimately show ?thesis using "1.IH"(1) [OF True refl 1 "1.prems"(1,2) _ _ "1.prems"(5)] k by simp
    next
      case 2
      have "hash \<le> fst (points ! l)" if "?k \<le> l" "l < length points" for l
        using less_le_trans [OF 2 leq [OF that]] by (rule less_imp_le)
      moreover have n: "\<not> hash > fst (points ! ?k)" using 2 by (rule less_not_sym)
      moreover have "chash_search points hash i j = chash_search points hash i ?k"
        using 2 n True by (subst chash_search.simps) (simp add: Let_def)
      ultimately show ?thesis using "1.IH"(2) [OF True refl _ 2 "1.prems"(1) _ _ "1.prems"(4)] k by simp
    next
      case 3
      then have "chash_search points hash i j = ?k" using True by (subst chash_search.simps) (simp add: Let_def)
      then show ?thesis using 3 k(1) less [OF _ k(1)] leq by (simp add: Let_def)
    qed
  qed
qed

lemma find_chash_point:
  fixes hash :: "32 word"
  assumes "on_ring points"
  defines "n \<equiv> ngx_http_upstream_find_chash_point points hash"
  shows "n \<le> length points" "take n points = filter (\<lambda>p. fst p < hash) points" "drop n points = filter (\<lambda>p. hash \<le> fst p) points"
proof -
  have n: "n \<le> length points" "\<And>k. k < n \<Longrightarrow> fst (points ! k) < hash" "\<And>k. n \<le> k \<Longrightarrow> k < length points \<Longrightarrow> hash \<le> fst (points ! k)"
    using chash_search_spec [OF assms(1), of "length points" 0 hash]
    by (auto simp: Let_def n_def ngx_http_upstream_find_chash_point_def)
  have t: "\<forall>p\<in>set (take n points). fst p < hash" and d: "\<forall>p\<in>set (drop n points). hash \<le> fst p"
    using n by (simp_all add: all_set_conv_all_nth)
  have "filter P points = filter P (take n points) @ filter P (drop n points)" for P
    by (metis append_take_drop_id filter_append)
  then show "take n points = filter (\<lambda>p. fst p < hash) points" "drop n points = filter (\<lambda>p. hash \<le> fst p) points"
    using t d by (auto simp: not_less not_le intro!: filter_True [symmetric] filter_False)
  show "n \<le> length points" by (rule n(1))
qed

lemma chash_from_nth: "k + m \<le> 2 ^ 32 \<Longrightarrow>
    chash_from points (of_nat k) m = map (\<lambda>j. snd (points ! ((k + j) mod length points))) [0..<m]"
proof (induction m arbitrary: k)
  case (Suc m)
  have "chash_from points (of_nat k + 1) m = map (\<lambda>j. snd (points ! ((Suc k + j) mod length points))) [0..<m]"
    using Suc.IH [of "Suc k"] Suc.prems by (simp add: add.commute)
  moreover have "map (\<lambda>j. snd (points ! ((k + j) mod length points))) [0..<Suc m]
      = snd (points ! (k mod length points)) # map (\<lambda>j. snd (points ! ((Suc k + j) mod length points))) [0..<m]"
    by (simp add: upt_conv_Cons map_Suc_upt [symmetric] comp_def del: upt_Suc)
  ultimately show ?case using Suc.prems by (simp add: unat_of_nat take_bit_nat_eq_self del: upt_Suc)
qed simp

lemma chash_ring_from:
  assumes "on_ring points" "length points \<le> 2 ^ 31"
  shows "chash_from points (of_nat (ngx_http_upstream_find_chash_point points hash)) (length points) = chash_ring points hash"
proof -
  let ?n = "ngx_http_upstream_find_chash_point points hash"
  note n = find_chash_point [OF assms(1), of hash]
  have "chash_from points (of_nat ?n) (length points) = map snd (rotate ?n points)"
    using n(1) assms(2) by (subst chash_from_nth) (auto intro!: nth_equalityI simp: nth_rotate)
  also have "rotate ?n points = drop ?n points @ take ?n points"
    using n(1) by (cases "?n = length points") (simp_all add: rotate_drop_take)
  finally show ?thesis by (simp add: n chash_ring_def)
qed

section \<open>Properties\<close>

lemma new_hash_ok:
  "up_ok us \<Longrightarrow> request_ok us (ngx_http_upstream_init_hash_peer us key)
     \<and> pc_sockaddr (fst (ngx_http_upstream_init_hash_peer us key)) = None"
  using new_request_ok [of us]
  by (cases "ngx_http_upstream_init_round_robin_peer us")
    (auto simp: request_ok_def ngx_http_upstream_init_hash_peer_def ngx_http_upstream_rr_peer_data_t.defs data_ok_def)

lemma new_chash_ok:
  "up_ok us \<Longrightarrow> request_ok us (ngx_http_upstream_init_chash_peer points us key)
     \<and> pc_sockaddr (fst (ngx_http_upstream_init_chash_peer points us key)) = None"
  using new_hash_ok [of us key]
  by (cases "ngx_http_upstream_init_hash_peer us key") (auto simp: request_ok_def ngx_http_upstream_init_chash_peer_def data_ok_def)

lemma chash_points_length: "length (chash_points base prev server n) = n"
  by (induction n arbitrary: prev) (simp_all add: Let_def)

lemma chash_all_points:
  assumes "\<forall>p\<in>set ps. 0 < rp_weight p" "160 * sum_list (map rp_weight ps) < 2 ^ 64"
  shows "int (length (concat (map chash_peer_points ps))) = 160 * sum_list (map rp_weight ps)"
  using assms
proof (induction ps)
  case (Cons p ps)
  have "0 \<le> sum_list (map rp_weight ps)" using Cons.prems(1) by (intro sum_list_nonneg) auto
  then have "uint (word_of_int (rp_weight p * 160) :: 64 word) = rp_weight p * 160"
    using Cons.prems by (subst uint_word_of_int, intro mod_pos_pos_trivial) simp_all
  then have "int (length (chash_peer_points p)) = rp_weight p * 160"
    by (simp add: chash_peer_points_def chash_points_length Let_def split: prod.split del: of_int_mult)
  moreover have "160 * sum_list (map rp_weight ps) < 2 ^ 64" using Cons.prems by simp
  ultimately show ?case using Cons by simp
qed simp

lemma chash_init_points:
  assumes "ngx_http_upstream_init_round_robin host (Some servers) port resolved = Some us"
    and "\<forall>s\<in>set servers. 0 < srv_weight s" "160 * servers_weight servers < 2 ^ 63" "qsort_points qsort"
  defines "points \<equiv> ngx_http_upstream_init_chash qsort us"
  shows "on_ring points" "points \<noteq> []" "int (length points) \<le> 160 * servers_weight servers"
proof -
  let ?ps = "rps_peer (us ! 0)" and ?ss = "filter (\<lambda>s. \<not> srv_backup s) servers"
  let ?raw = "concat (map chash_peer_points ?ps)"
  have ps: "?ps = rps_peer (rr_new_peers host ?ss)"
    using assms(1) by (auto simp: ngx_http_upstream_init_round_robin_def Let_def split: if_splits)
  have w: "sum_list (map rp_weight ?ps) \<le> servers_weight servers"
    unfolding ps new_peers_weight by (rule servers_weight_filter [OF assms(2)])
  have "0 \<le> servers_weight servers" unfolding servers_weight_def using assms(2) by (intro sum_list_nonneg) (auto intro: less_imp_le)
  then have "servers_weight servers < 2 ^ 63" using assms(3) by simp
  from init_up_inv [OF assms(1,2) this] have "up_ok us" unfolding up_inv_def by blast
  then have g: "group_ok (us ! 0)" by (simp add: up_ok_def)
  then have "\<forall>p\<in>set ?ps. 0 < rp_weight p" by (simp add: group_ok_def peer_ok_def)
  then have l: "int (length ?raw) = 160 * sum_list (map rp_weight ?ps)" using w assms(3) by (intro chash_all_points) auto
  have q: "mset (qsort ?raw) = mset ?raw" "sorted (map fst (qsort ?raw))" using assms(4) by (auto simp: qsort_points_def)
  show "on_ring points" unfolding points_def ngx_http_upstream_init_chash_def by (rule chash_uniq_sorted [OF q(2)])
  have len: "length (qsort ?raw) = length ?raw" using q(1) by (rule mset_eq_length)
  then show "int (length points) \<le> 160 * servers_weight servers"
    using chash_uniq_length [of "qsort ?raw"] l w unfolding points_def ngx_http_upstream_init_chash_def by linarith
  have "sum_list (map rp_weight ?ps) \<noteq> 0" using group_weight [OF g] by (auto simp: uint_0_iff)
  then have "length ?raw \<noteq> 0" using l by linarith
  then show "points \<noteq> []" using chash_uniq_set [of "qsort ?raw"] len unfolding points_def ngx_http_upstream_init_chash_def by auto
qed

lemma chash_first:
  assumes "up_ok us" "on_ring points" "points \<noteq> []" "length points \<le> 2 ^ 31"
    and "ngx_http_upstream_init_chash_peer points us key = (pc, d)"
  shows "\<exists>r. ngx_http_upstream_get_chash_peer points now us pc d = Some r
    \<and> chash_answer now us d (chash_ring points (ngx_crc32_long key)) r"
proof -
  have "data_ok us d" using new_chash_ok [OF assms(1), of points key] assms(5) by (simp add: request_ok_def)
  then obtain r where "chash_loop points now us pc d = Some r"
    "chash_answer now us d (chash_from points (uh_hash d) (Suc (length points - Suc (uh_tries d)))) r"
    using chash_loop_spec [OF assms(1) _ assms(3), of d now pc] by blast
  moreover have "uh_hash d = of_nat (ngx_http_upstream_find_chash_point points (ngx_crc32_long key))" "uh_tries d = 0"
    using assms(5) by (auto simp: ngx_http_upstream_init_chash_peer_def ngx_http_upstream_init_hash_peer_def
      ngx_http_upstream_rr_peer_data_t.defs split: prod.splits)
  moreover have "Suc (length points - Suc 0) = length points" using assms(3) by (cases points) auto
  ultimately show ?thesis using assms(4) by (simp add: ngx_http_upstream_get_chash_peer_def chash_ring_from [OF assms(2)])
qed

text \<open>
  C15: The connection counters are exact, for every balancer: round robin, least connections, address hash, hash of a key
  and consistent hash. In every state
  that any number of requests can reach by taking and releasing peers in any order and at any times, the
  counter of a peer is the number of requests that hold it, this number is within \<^verbatim>\<open>max_conns\<close>, and the
  effective weight lies between zero and the weight; no balancer crashes, and neither does a release.
\<close>

theorem upstream_connections_exact:
  assumes "ngx_http_upstream_init_round_robin host (Some servers) port resolved = Some us0"
    and "\<forall>s\<in>set servers. 0 < srv_weight s" "servers_weight servers < 2 ^ 63"
  shows "up_safe (\<lambda>now us pc d. Some (ngx_http_upstream_get_round_robin_peer now us pc d))
           (\<lambda>us (_ :: unit). ngx_http_upstream_init_round_robin_peer us) us0
    \<and> up_safe (\<lambda>now us pc d. Some (ngx_http_upstream_get_least_conn_peer now us pc d))
        (\<lambda>us (_ :: unit). ngx_http_upstream_init_round_robin_peer us) us0
    \<and> up_safe ngx_http_upstream_get_ip_hash_peer ngx_http_upstream_init_ip_hash_peer us0
    \<and> up_safe ngx_http_upstream_get_hash_peer ngx_http_upstream_init_hash_peer us0
    \<and> (160 * servers_weight servers < 2 ^ 63 \<and> qsort_points qsort \<longrightarrow>
         (let points = ngx_http_upstream_init_chash qsort us0 in
          up_safe (ngx_http_upstream_get_chash_peer points) (ngx_http_upstream_init_chash_peer points) us0))"
proof (intro conjI impI)
  note start = init_up_inv [OF assms]
  show "up_safe (\<lambda>now us pc d. Some (ngx_http_upstream_get_round_robin_peer now us pc d))
      (\<lambda>us (_ :: unit). ngx_http_upstream_init_round_robin_peer us) us0"
    unfolding ngx_http_upstream_get_round_robin_peer_def by (rule rr.choice_safe [OF start new_round_robin_ok])
  show "up_safe (\<lambda>now us pc d. Some (ngx_http_upstream_get_least_conn_peer now us pc d))
      (\<lambda>us (_ :: unit). ngx_http_upstream_init_round_robin_peer us) us0"
    unfolding ngx_http_upstream_get_least_conn_peer_def by (rule lc.choice_safe [OF start new_round_robin_ok])
  show "up_safe ngx_http_upstream_get_ip_hash_peer ngx_http_upstream_init_ip_hash_peer us0"
    by (rule iphp.balancer_safe [OF start new_ip_hash_ok])
  show "up_safe ngx_http_upstream_get_hash_peer ngx_http_upstream_init_hash_peer us0"
    by (rule uh.balancer_safe [OF start new_hash_ok])
  assume "160 * servers_weight servers < 2 ^ 63 \<and> qsort_points qsort"
  then obtain p points where "ngx_http_upstream_init_chash qsort us0 = p # points"
    using chash_init_points(2) [OF assms(1,2)] by (metis list.exhaust)
  then show "let points = ngx_http_upstream_init_chash qsort us0 in
      up_safe (ngx_http_upstream_get_chash_peer points) (ngx_http_upstream_init_chash_peer points) us0"
    using chash.balancer_safe [OF start new_chash_ok [of _ "p # points"], of p points] by (simp add: Let_def)
qed

theorem upstream_connections_exact_witness:
  "\<exists>us0 us rs. ngx_http_upstream_init_round_robin [] (Some example_servers) 0 None = Some us0
     \<and> up_reach (\<lambda>now us pc d. Some (ngx_http_upstream_get_round_robin_peer now us pc d))
         (\<lambda>us (_ :: unit). ngx_http_upstream_init_round_robin_peer us) us0 us rs
     \<and> up_count rs (0, 0) = 1 \<and> up_exact us rs"
proof -
  let ?start = "the (ngx_http_upstream_init_round_robin [] (Some example_servers) 0 None)"
  let ?new = "ngx_http_upstream_init_round_robin_peer ?start"
  let ?r = "ngx_http_upstream_get_round_robin_peer 5 ?start (fst ?new) (snd ?new)"
  let ?us = "fst (snd ?r)" and ?rs = "[snd (snd ?r)]"
  let ?reach = "up_reach (\<lambda>now us pc d. Some (ngx_http_upstream_get_round_robin_peer now us pc d))
         (\<lambda>us (_ :: unit). ngx_http_upstream_init_round_robin_peer us) ?start"
  have "?reach ?start ([] @ [ngx_http_upstream_init_round_robin_peer ?start])"
    by (rule up_reach.accept [OF up_reach.start])
  moreover have "pc_sockaddr (fst ?new) = None" by code_simp
  ultimately have "?reach ?us ([?new][0 := (fst (snd (snd ?r)), snd (snd (snd ?r)))])"
    by (intro up_reach.take [of _ _ _ ?start "[?new]" 0 "fst ?new" "snd ?new" 5 "fst ?r"]) simp_all
  then have reach: "?reach ?us ?rs" by simp
  moreover have "up_count ?rs (0, 0) = 1" by code_simp
  moreover have "up_exact ?us ?rs"
    using upstream_connections_exact [OF example_servers_start] reach unfolding up_safe_def by blast
  ultimately show ?thesis using example_servers_start(1) by blast
qed


text \<open>
  C26: The consistent hash. A request whose key has the checksum \<open>h\<close> is given, in every reachable state, a peer of
  the first server on the ring that has one to give: the ring of the points in the order of their hashes, from the first
  point not below \<open>h\<close> and around. It is refused only when no server on the ring has a peer to give.
\<close>

theorem ngx_http_upstream_chash_ring:
  assumes "ngx_http_upstream_init_round_robin host (Some servers) port resolved = Some us0"
    and "\<forall>s\<in>set servers. 0 < srv_weight s" "160 * servers_weight servers \<le> 2 ^ 31" "qsort_points qsort"
    and "points = ngx_http_upstream_init_chash qsort us0"
    and "up_reach (ngx_http_upstream_get_chash_peer points) (ngx_http_upstream_init_chash_peer points) us0 us rs"
    and "ngx_http_upstream_init_chash_peer points us key = (pc, d)"
  shows "\<exists>r. ngx_http_upstream_get_chash_peer points now us pc d = Some r
    \<and> chash_answer now us d (chash_ring points (ngx_crc32_long key)) r"
proof -
  have "160 * servers_weight servers < 2 ^ 63" "servers_weight servers < 2 ^ 63" using assms(3) by simp_all
  note points = chash_init_points [OF assms(1,2) this(1) assms(4), folded assms(5)] and start = init_up_inv [OF assms(1,2) this(2)]
  obtain p ps where "points = p # ps" using points(2) by (cases points) auto
  then have "up_ok us"
    using chash.reach_inv [of p ps "ngx_http_upstream_init_chash_peer points" us0 us rs] start assms(6) new_chash_ok
    by (auto simp: up_inv_def)
  moreover have "length points \<le> 2 ^ 31" using points(3) assms(3) by simp
  ultimately show ?thesis using chash_first [OF _ points(1,2)] assms(7) by blast
qed

theorem ngx_http_upstream_chash_ring_witness:
  "\<exists>us0 pc d r. ngx_http_upstream_init_round_robin [] (Some example_servers) 0 None = Some us0
     \<and> ngx_http_upstream_init_chash_peer (ngx_http_upstream_init_chash (sort_key fst) us0) us0 (bytes ''k'') = (pc, d)
     \<and> ngx_http_upstream_get_chash_peer (ngx_http_upstream_init_chash (sort_key fst) us0) 5 us0 pc d = Some r
     \<and> chash_answer 5 us0 d (chash_ring (ngx_http_upstream_init_chash (sort_key fst) us0) (ngx_crc32_long (bytes ''k''))) r"
proof -
  let ?start = "the (ngx_http_upstream_init_round_robin [] (Some example_servers) 0 None)"
  let ?points = "ngx_http_upstream_init_chash (sort_key fst) ?start"
  obtain pc d where new: "ngx_http_upstream_init_chash_peer ?points ?start (bytes ''k'') = (pc, d)" by fastforce
  have "160 * servers_weight example_servers \<le> 2 ^ 31" by (simp add: example_servers_def servers_weight_def)
  moreover have "qsort_points (sort_key fst)" by (simp add: qsort_points_def)
  ultimately obtain r where "ngx_http_upstream_get_chash_peer ?points 5 ?start pc d = Some r"
    "chash_answer 5 ?start d (chash_ring ?points (ngx_crc32_long (bytes ''k''))) r"
    using ngx_http_upstream_chash_ring [OF example_servers_start(1,2) _ _ refl up_reach.start new, of 5] by blast
  with new example_servers_start(1) show ?thesis by blast
qed

end
