(* ===== verification/Ngx_Http_Upstream_Consistent.thy ===== *)
theory Ngx_Http_Upstream_Consistent
  imports Ngx_Http_Upstream_Hash
begin

text \<open>
  What is consistent about the consistent hash of \<^verbatim>\<open>http/modules/ngx_http_upstream_hash_module.c\<close>: a server that is removed
  from the configuration takes only its own keys with it.
\<close>

section \<open>The server of a key\<close>

text \<open>All points before they are sorted, the servers with a peer that is not down, and the server of a key.\<close>

definition chash_raw :: "upstream \<Rightarrow> ngx_http_upstream_chash_point_t list" where
  "chash_raw us = concat (map chash_peer_points (rps_peer (us ! 0)))"

definition chash_up :: "upstream \<Rightarrow> ngx_str_t \<Rightarrow> bool" where
  "chash_up us s \<longleftrightarrow> (\<exists>q\<in>set (rps_peer (us ! 0)). rp_server q = s \<and> \<not> rp_down q)"

definition chash_serves :: "ngx_http_upstream_chash_point_t list \<Rightarrow> int \<Rightarrow> upstream \<Rightarrow> ngx_str_t \<Rightarrow> ngx_str_t option" where
  "chash_serves points now us key =
     (case ngx_http_upstream_init_chash_peer points us key of (pc, d) \<Rightarrow>
        case ngx_http_upstream_get_chash_peer points now us pc d of
          None \<Rightarrow> None
        | Some (rc, vs, pc, e) \<Rightarrow>
            if rc = NGX_OK then map_option (\<lambda>(g, i). rp_server (peer_at us g i)) (rrp_current e) else None)"

lemma init_first_peers:
  assumes "ngx_http_upstream_init_round_robin host (Some servers) port resolved = Some us"
  shows "rps_peer (us ! 0) = rps_peer (rr_new_peers host (filter (\<lambda>s. \<not> srv_backup s) servers))"
  using assms by (auto simp: ngx_http_upstream_init_round_robin_def Let_def split: if_splits)

lemma new_peers_filter:
  "rps_peer (rr_new_peers host (filter (\<lambda>s. P s \<and> srv_name s \<noteq> x) servers))
     = filter (\<lambda>q. rp_server q \<noteq> x) (rps_peer (rr_new_peers host (filter P servers)))"
  by (induction servers) (auto simp: rr_new_peers_def rr_new_peer_def Let_def filter_map comp_def)

lemma chash_serves_fresh:
  assumes "ngx_http_upstream_init_round_robin host (Some servers) port resolved = Some us"
    and "\<forall>s\<in>set servers. 0 < srv_weight s" "160 * servers_weight servers \<le> 2 ^ 31" "qsort_points qsort"
  defines "points \<equiv> ngx_http_upstream_init_chash qsort us"
  shows "chash_serves points now us key = find (chash_up us) (chash_ring points (ngx_crc32_long key))"
proof -
  have b: "160 * servers_weight servers < 2 ^ 63" "servers_weight servers < 2 ^ 63" using assms(3) by simp_all
  note points = chash_init_points [OF assms(1,2) b(1) assms(4), folded points_def]
  from init_up_inv [OF assms(1,2) b(2)] have ok: "up_ok us" unfolding up_inv_def by blast
  obtain pc d where new: "ngx_http_upstream_init_chash_peer points us key = (pc, d)" by fastforce
  then have d: "data_ok us d" "rrp_peers d = 0" "\<exists>n. rrp_tried d = replicate n 0"
    using new_chash_ok [OF ok, of points key]
    by (auto simp: request_ok_def ngx_http_upstream_init_chash_peer_def ngx_http_upstream_init_hash_peer_def
      ngx_http_upstream_init_round_robin_peer_def ngx_http_upstream_rr_peer_data_t.defs Let_def split: prod.splits)
  have fresh: "rp_fails q = 0 \<and> rp_conns q = 0" if "q \<in> set (rps_peer (us ! 0))" for q
    using that unfolding init_first_peers [OF assms(1)] by (auto simp: rr_new_peers_def rr_new_peer_def Let_def)
  have tried: "\<not> rr_tried (rrp_tried d) i" if "i < length (rps_peer (us ! 0))" for i
  proof -
    have "rps_number (us ! 0) \<le> 64 * length (rrp_tried d)" "rps_number (us ! 0) = length (rps_peer (us ! 0))"
      using d(1) ok by (auto simp: data_ok_def up_ok_def group_ok_def)
    then have "i div 64 < length (rrp_tried d)" using that by (intro less_mult_imp_div_less) simp
    then show ?thesis using d(3) by (auto simp: rr_tried_bit)
  qed
  have "chash_ready now us d s i \<longleftrightarrow> i < length (rps_peer (us ! 0)) \<and> rp_server (rps_peer (us ! 0) ! i) = s
      \<and> \<not> rp_down (rps_peer (us ! 0) ! i)" for s i
    using tried [of i] fresh [of "rps_peer (us ! 0) ! i"]
    by (auto simp: chash_ready_def d(2) chash_skip_def rr_skip_def rp_failed_def rp_full_def)
  then have ready: "(\<exists>i. chash_ready now us d s i) \<longleftrightarrow> chash_up us s"
    and at: "chash_ready now us d s i \<Longrightarrow> rp_server (peer_at us 0 i) = s" for s i
    unfolding chash_up_def by (auto simp: set_conv_nth)
  obtain rc vs pc1 e where "ngx_http_upstream_get_chash_peer points now us pc d = Some (rc, vs, pc1, e)"
    "chash_answer now us d (chash_ring points (ngx_crc32_long key)) (rc, vs, pc1, e)"
    using chash_first [OF ok points(1,2) _ new, of now] points(3) assms(3) by (fastforce simp: split_paired_Ex)
  then show ?thesis using new at unfolding chash_answer_def ready
    by (auto simp: chash_serves_def d(2) split: option.splits)
qed

lemma ring_unique:
  "on_ring ps \<Longrightarrow> on_ring qs \<Longrightarrow> set ps = set qs \<Longrightarrow> ps = qs"
proof (induction ps arbitrary: qs)
  case (Cons p ps)
  obtain q qs' where qs: "qs = q # qs'" using Cons.prems(3) by (cases qs) auto
  have "p = q \<or> p \<in> set qs' \<and> q \<in> set ps" using Cons.prems(3) unfolding qs by auto
  moreover have "p \<in> set qs' \<Longrightarrow> fst q < fst p" "q \<in> set ps \<Longrightarrow> fst p < fst q" using Cons.prems(1,2) unfolding qs by auto
  then have "\<not> (p \<in> set qs' \<and> q \<in> set ps)" by (metis less_not_sym)
  ultimately have "p = q" by blast
  moreover have "p \<notin> set ps" "q \<notin> set qs'" using Cons.prems unfolding qs by auto
  ultimately have "set ps = set qs'" using Cons.prems(3) unfolding qs by auto
  with \<open>p = q\<close> show ?case using Cons unfolding qs by simp
qed simp

lemma chash_peer_points_filter:
  "filter (\<lambda>p. snd p \<noteq> x) (chash_peer_points q) = (if rp_server q \<noteq> x then chash_peer_points q else [])"
proof -
  have s: "(h, s) \<in> set (chash_points base prev server n) \<Longrightarrow> s = server" for h s base prev server n
    by (induction n arbitrary: prev) (auto simp: Let_def)
  show ?thesis by (auto simp: chash_peer_points_def Let_def filter_empty_conv filter_id_conv split: prod.split dest: s)
qed

lemma chash_raw_filter:
  "concat (map chash_peer_points (filter (\<lambda>q. rp_server q \<noteq> x) ps)) = filter (\<lambda>p. snd p \<noteq> x) (concat (map chash_peer_points ps))"
  by (induction ps) (auto simp: chash_peer_points_filter)

lemma chash_uniq_all: "inj_on fst (set ps) \<Longrightarrow> set (chash_uniq ps) = set ps"
proof (induction ps rule: chash_uniq.induct)
  case (1 p q ps)
  have "inj_on fst (set (q # ps))" "inj_on fst (set (p # ps))" by (rule inj_on_subset [OF 1(3)]; auto)+
  moreover have "fst p = fst q \<Longrightarrow> p = q" using 1(3) by (intro inj_onD [OF 1(3)]) simp_all
  ultimately show ?case using 1(1,2) by (cases "fst p = fst q") simp_all
qed simp_all

lemma chash_init_filter:
  assumes "qsort_points qsort" "inj_on fst (set (chash_raw us0))"
    and "rps_peer (us1 ! 0) = filter (\<lambda>q. rp_server q \<noteq> x) (rps_peer (us0 ! 0))"
  shows "ngx_http_upstream_init_chash qsort us1 = filter (\<lambda>p. snd p \<noteq> x) (ngx_http_upstream_init_chash qsort us0)"
proof (rule ring_unique)
  have q: "set (qsort ps) = set ps" "sorted (map fst (qsort ps))" for ps
    using assms(1) by (auto simp: qsort_points_def dest: mset_eq_setD)
  have raw: "concat (map chash_peer_points (rps_peer (us1 ! 0))) = filter (\<lambda>p. snd p \<noteq> x) (chash_raw us0)"
    unfolding assms(3) chash_raw_filter chash_raw_def ..
  show "on_ring (ngx_http_upstream_init_chash qsort us1)"
    unfolding ngx_http_upstream_init_chash_def by (rule chash_uniq_sorted [OF q(2)])
  have "on_ring (ngx_http_upstream_init_chash qsort us0)"
    unfolding ngx_http_upstream_init_chash_def by (rule chash_uniq_sorted [OF q(2)])
  then show "on_ring (filter (\<lambda>p. snd p \<noteq> x) (ngx_http_upstream_init_chash qsort us0))" by (rule sorted_wrt_filter)
  have "set (ngx_http_upstream_init_chash qsort us0) = set (chash_raw us0)"
    unfolding ngx_http_upstream_init_chash_def chash_raw_def [symmetric] using assms(2) by (subst chash_uniq_all) (auto simp: q)
  moreover have "set (ngx_http_upstream_init_chash qsort us1) = set (filter (\<lambda>p. snd p \<noteq> x) (chash_raw us0))"
    unfolding ngx_http_upstream_init_chash_def raw using inj_on_subset [OF assms(2)] by (subst chash_uniq_all) (auto simp: q)
  ultimately show "set (ngx_http_upstream_init_chash qsort us1) = set (filter (\<lambda>p. snd p \<noteq> x) (ngx_http_upstream_init_chash qsort us0))"
    by auto
qed

lemma chash_ring_filter: "chash_ring (filter (\<lambda>p. snd p \<noteq> x) points) h = filter (\<lambda>s. s \<noteq> x) (chash_ring points h)"
  by (simp add: chash_ring_def filter_map comp_def conj_commute)

lemma find_filter: "find P (filter Q xs) = find (\<lambda>x. Q x \<and> P x) xs"
  by (induction xs) auto

section \<open>Properties\<close>

text \<open>
  C27: The hash is consistent. When all servers are fresh and the points of different servers differ, removing a server \<open>x\<close> from
  the configuration moves the keys of this server only, each to the next server on the old ring; every other key
  stays where it was.
\<close>

theorem ngx_http_upstream_chash_consistent:
  assumes "ngx_http_upstream_init_round_robin host (Some servers) port resolved = Some us0"
    and "ngx_http_upstream_init_round_robin host (Some (filter (\<lambda>s. srv_name s \<noteq> x) servers)) port resolved = Some us1"
    and "\<forall>s\<in>set servers. 0 < srv_weight s" "160 * servers_weight servers \<le> 2 ^ 31" "qsort_points qsort"
    and "inj_on fst (set (chash_raw us0))"
    and "points0 = ngx_http_upstream_init_chash qsort us0" "points1 = ngx_http_upstream_init_chash qsort us1"
  shows "chash_serves points1 now us1 key = find (\<lambda>s. s \<noteq> x \<and> chash_up us0 s) (chash_ring points0 (ngx_crc32_long key))
    \<and> (chash_serves points0 now us0 key \<noteq> Some x \<longrightarrow> chash_serves points1 now us1 key = chash_serves points0 now us0 key)"
proof -
  let ?ss = "filter (\<lambda>s. srv_name s \<noteq> x) servers" and ?h = "ngx_crc32_long key"
  have w: "\<forall>s\<in>set ?ss. 0 < srv_weight s" "160 * servers_weight ?ss \<le> 2 ^ 31"
    using assms(3,4) servers_weight_filter [OF assms(3), of "\<lambda>s. srv_name s \<noteq> x"] by auto
  have ps: "rps_peer (us1 ! 0) = filter (\<lambda>q. rp_server q \<noteq> x) (rps_peer (us0 ! 0))"
    unfolding init_first_peers [OF assms(1)] init_first_peers [OF assms(2)] by (simp add: new_peers_filter conj_commute)
  have "points1 = filter (\<lambda>p. snd p \<noteq> x) points0"
    unfolding assms(7,8) using chash_init_filter [OF assms(5,6)] ps by simp
  then have ring: "chash_ring points1 ?h = filter (\<lambda>s. s \<noteq> x) (chash_ring points0 ?h)" by (simp add: chash_ring_filter)
  have up: "s \<noteq> x \<Longrightarrow> chash_up us1 s = chash_up us0 s" for s by (auto simp: chash_up_def ps)
  have s0: "chash_serves points0 now us0 key = find (chash_up us0) (chash_ring points0 ?h)"
    unfolding assms(7) by (rule chash_serves_fresh [OF assms(1,3,4,5)])
  have s1: "chash_serves points1 now us1 key = find (chash_up us1) (chash_ring points1 ?h)"
    unfolding assms(8) by (rule chash_serves_fresh [OF assms(2) w assms(5)])
  also have "\<dots> = find (\<lambda>s. s \<noteq> x \<and> chash_up us0 s) (chash_ring points0 ?h)"
    unfolding ring find_filter by (rule find_cong) (auto simp: up)
  finally have s1: "chash_serves points1 now us1 key = find (\<lambda>s. s \<noteq> x \<and> chash_up us0 s) (chash_ring points0 ?h)" .
  moreover have "find (chash_up us0) ss \<noteq> Some x \<Longrightarrow> find (\<lambda>s. s \<noteq> x \<and> chash_up us0 s) ss = find (chash_up us0) ss" for ss
    by (induction ss) (auto split: if_splits)
  ultimately show ?thesis using s0 by simp
qed

section \<open>Two servers\<close>

text \<open>
  The points of two servers, computed on integers, so that the kernel can check that the servers have no point in
  common.
\<close>

definition crc_int :: "int \<Rightarrow> int" where
  "crc_int c = (if odd c then (c div 2) XOR 0xedb88320 else c div 2)"

definition crc_int8 :: "int \<Rightarrow> int" where
  "crc_int8 c = crc_int (crc_int (crc_int (crc_int (crc_int (crc_int (crc_int (crc_int c)))))))"

lemma crc_int_numeral:
  "crc_int (numeral (num.Bit0 n)) = numeral n" "crc_int (numeral (num.Bit1 n)) = numeral n XOR 0xedb88320"
  "crc_int 1 = 0xedb88320" "crc_int 0 = 0"
  by (simp_all add: crc_int_def)

lemma uint_crc_bit: "uint (crc_bit w) = crc_int (uint w)"
proof -
  have "bit w 0 \<longleftrightarrow> bit (uint w) 0" by (simp add: bit_unsigned_iff del: bit_0)
  then have "bit w 0 \<longleftrightarrow> odd (uint w)" by (simp only: bit_0)
  then show ?thesis by (simp add: crc_bit_def crc_int_def unsigned_xor_eq drop_bit_Suc uint_div del: bit_0)
qed

lemma uint_crc_bits: "uint ((crc_bit ^^ 8) w) = crc_int8 (uint w)"
  by (simp add: crc_eight uint_crc_bit crc_int8_def)

lemma chash_step:
  "uint (ngx_crc32_final (ngx_crc32_update base (chash_bytes prev)))
     = crc_int8 (crc_int8 (crc_int8 (crc_int8 (uint base XOR uint prev)))) XOR 0xffffffff"
proof -
  have "le_word (chash_bytes prev) = prev"
    by (rule bit_word_eqI) (auto simp: chash_bytes_def bit_simps dest: bit_imp_le_length)
  then have "ngx_crc32_update base (chash_bytes prev) = (crc_bit ^^ 32) (base XOR prev)"
    using crc_group [of "chash_bytes prev" base] by (simp add: ngx_crc32_update_def crc_loops chash_bytes_def)
  also have "\<dots> = (crc_bit ^^ 8) ((crc_bit ^^ 8) ((crc_bit ^^ 8) ((crc_bit ^^ 8) (base XOR prev))))"
    by (simp add: eval_nat_numeral)
  finally show ?thesis by (simp add: ngx_crc32_final_def unsigned_xor_eq uint_crc_bits)
qed

primrec chash_chain :: "int \<Rightarrow> int \<Rightarrow> int list \<Rightarrow> bool" where
  "chash_chain base prev [] \<longleftrightarrow> True"
| "chash_chain base prev (h # hs) \<longleftrightarrow>
     crc_int8 (crc_int8 (crc_int8 (crc_int8 (base XOR prev)))) XOR 0xffffffff = h \<and> chash_chain base h hs"

lemma chash_chain_points:
  "chash_chain (uint base) (uint prev) hs \<Longrightarrow>
     map (uint \<circ> fst) (chash_points base prev server (length hs)) = hs"
  by (induction hs arbitrary: prev) (simp_all add: Let_def chash_step [symmetric])

definition hashes_a :: "int list" where
  "hashes_a =
    [1919581532, 2390861176, 734686601, 1067260442, 787887467, 584933841, 1147271169, 2086070078, 2070016814,
     1043634826, 2051143801, 2251839044, 493451994, 3051123984, 3872345448, 4054921455, 4017722577, 3637546714,
     3642265042, 1791915700, 1209582325, 2883946524, 3851330186, 1595015487, 1489027882, 2152076439, 38388814,
     1353906606, 3629369083, 2947633785, 2966571284, 2855608266, 3906084659, 2589000585, 1392979195,
     2943993335, 1177254703, 995122249, 4200597839, 2254011933, 3788797772, 3226416889, 1164389417, 2987223571,
     3846661942, 2246756529, 1901854610, 2784404907, 3555290511, 389630089, 300241128, 1151606112, 3865593368,
     2006799804, 1161261293, 2487196098, 4082148815, 502850165, 999173712, 2680112629, 3060721728, 2549347561,
     975838331, 1913591119, 2455984243, 966706986, 2579668319, 1691408167, 212773168, 1843019358, 1067056423,
     3832944182, 1636040178, 3372407221, 168875485, 2264993932, 2735009901, 626071044, 218598811, 3224795472,
     4030690020, 2573324077, 1341434564, 3373900803, 3340170242, 1932954655, 3526322562, 150829270, 2222896435,
     134743465, 2193681154, 3046686676, 399355310, 4093243805, 1754047632, 3305396073, 3537178331, 489942124,
     873403850, 3613129439, 4126597501, 3425632034, 1595713971, 3064458239, 3399252091, 854822289, 1765642416,
     3431799412, 2608399532, 3959356238, 232208800, 2759038243, 4003220051, 1285152623, 1209259244, 2108397056,
     3904098749, 1879057197, 1245479738, 3950317873, 1116315036, 44305245, 1664965891, 3135772429, 611988226,
     396204979, 3419912873, 1208948981, 779664492, 4109290658, 2005937041, 4239277081, 4135933677, 744787356,
     1599629779, 2285568189, 1117982513, 744057395, 2350247451, 2243262839, 3686964212, 1659180333, 3127536889,
     2087702410, 3517689857, 3014615881, 2769313154, 3173055289, 1720499669, 2642496158, 4276004142,
     2827619664, 2833169078, 1158468759, 1920910270, 328804484, 36846565, 3096179578, 3701967379, 2991042474]"

definition hashes_b :: "int list" where
  "hashes_b =
    [4110290930, 3810684117, 973636095, 3302566670, 3972704575, 313921661, 816557237, 1696219344, 801461415,
     1386985072, 2525263926, 1038088793, 2757766173, 3550229346, 2178035147, 1284941677, 3119795182,
     2096919625, 2694859631, 2477102471, 3319689529, 3629868048, 981394920, 1068300708, 943068967, 1902904427,
     4053447213, 560525941, 4279372051, 3967112018, 16022482, 1356324328, 3346449002, 1311495128, 2143650835,
     643369849, 1474850021, 926560527, 337701749, 2197196994, 2499360184, 1015300949, 175235635, 1794637274,
     4136716720, 2856524629, 4111067843, 677815990, 385899453, 4175224099, 1573083516, 1131916333, 4184810254,
     137280936, 3028013637, 3607007499, 983687654, 3738894235, 983273468, 2258530355, 2844307820, 499309153,
     1840313959, 880835703, 1170893341, 611206301, 188395887, 3780934513, 3201994508, 55533545, 3598805693,
     328075688, 1380905356, 216550853, 1379809946, 3412018641, 768787590, 1555768161, 679677313, 2362977933,
     1961986786, 1055227342, 3693967302, 1495860461, 2165524592, 437813554, 827469644, 3481196102, 2044906184,
     2662236795, 2369964197, 1085403943, 4120611733, 3429023559, 4180038117, 2141074403, 962687444, 723055029,
     1156827556, 3869842328, 2866137797, 3810097660, 3245207528, 2042304116, 652237072, 1274624835, 1896951996,
     4092230138, 3323990574, 1278403526, 2657519899, 3105000705, 1877384127, 2508205708, 3661926939,
     2137129529, 3978823999, 3498175717, 300739810, 2953524119, 3671189345, 636261925, 591658011, 3054188652,
     1853897747, 178929507, 1181173967, 291124255, 4110585947, 3925892016, 3384445791, 1986189377, 3126954254,
     2912377018, 1928928652, 1023048886, 1345387056, 145450578, 2592641625, 1609321309, 3091810857, 2965907618,
     3984599022, 442789650, 2979416866, 427271392, 4175821959, 2831251011, 667885846, 1365988748, 2741188900,
     4045087666, 436369482, 2514556347, 3814720148, 2577822986, 3103225250, 3756079107, 2637830620, 547135660]"

lemma hashes_chains: "chash_chain 0xc2c0b7e6 0 hashes_a" "chash_chain 0xe9ede425 0 hashes_b"
  by (simp_all add: hashes_a_def hashes_b_def crc_int8_def crc_int_numeral)

lemma hashes_disjoint: "list_all (\<lambda>h. h \<notin> set hashes_b) hashes_a"
  by (simp add: hashes_a_def hashes_b_def)

definition two_servers :: "ngx_http_upstream_server_t list" where
  "two_servers = map (\<lambda>(name, addr). \<lparr>srv_name = bytes name, srv_addrs = [bytes addr], srv_weight = 1, srv_max_conns = 0,
     srv_max_fails = 1, srv_fail_timeout = 10, srv_down = False, srv_backup = False\<rparr>) [(''a'', ''10.0.0.1''), (''b'', ''10.0.0.2'')]"

lemma chash_base:
  "uint (ngx_crc32_update (ngx_crc32_update (ngx_crc32_update ngx_crc32_init [c]) [0]) [])
     = crc_int8 (crc_int8 (0xffffffff XOR uint c))"
  by (simp add: ngx_crc32_update_def crc_loops crc_byte_def uint_crc_bits unsigned_xor_eq uint_up_ucast is_up)

lemma two_servers_points:
  "map (uint \<circ> fst) (chash_peer_points (rr_new_peer (two_servers ! 0) addr)) = hashes_a"
  "map (uint \<circ> fst) (chash_peer_points (rr_new_peer (two_servers ! 1) addr)) = hashes_b"
proof -
  have h: "chash_host [c] = ([c], [])" if "c \<noteq> ch_colon" "c < ch_0 \<or> ch_9 < c" for c
    using that by (auto simp: chash_host_def)
  have l: "length hashes_a = 160" "length hashes_b = 160" by (simp_all add: hashes_a_def hashes_b_def)
  have b: "uint (ngx_crc32_update (ngx_crc32_update (ngx_crc32_update ngx_crc32_init (bytes ''a'')) [0]) []) = 0xc2c0b7e6"
    "uint (ngx_crc32_update (ngx_crc32_update (ngx_crc32_update ngx_crc32_init (bytes ''b'')) [0]) []) = 0xe9ede425"
    by (simp_all add: chash_base crc_int8_def crc_int_numeral)
  show "map (uint \<circ> fst) (chash_peer_points (rr_new_peer (two_servers ! 0) addr)) = hashes_a"
    using chash_chain_points [of _ 0 hashes_a, unfolded l] hashes_chains(1) b(1)
    by (simp add: chash_peer_points_def two_servers_def rr_new_peer_def h)
  show "map (uint \<circ> fst) (chash_peer_points (rr_new_peer (two_servers ! 1) addr)) = hashes_b"
    using chash_chain_points [of _ 0 hashes_b, unfolded l] hashes_chains(2) b(2)
    by (simp add: chash_peer_points_def two_servers_def rr_new_peer_def h)
qed

lemma two_servers_start:
  "ngx_http_upstream_init_round_robin [] (Some two_servers) 0 None = Some (the (ngx_http_upstream_init_round_robin [] (Some two_servers) 0 None))"
  "ngx_http_upstream_init_round_robin [] (Some (filter (\<lambda>s. srv_name s \<noteq> bytes ''b'') two_servers)) 0 None
     = Some (the (ngx_http_upstream_init_round_robin [] (Some (filter (\<lambda>s. srv_name s \<noteq> bytes ''b'') two_servers)) 0 None))"
  "\<forall>s\<in>set two_servers. 0 < srv_weight s" "160 * servers_weight two_servers \<le> 2 ^ 31"
  by (code_simp, code_simp) (simp_all add: two_servers_def servers_weight_def)

lemma two_servers_distinct:
  "inj_on fst (set (chash_raw (the (ngx_http_upstream_init_round_robin [] (Some two_servers) 0 None))))"
proof -
  let ?a = "chash_peer_points (rr_new_peer (two_servers ! 0) (bytes ''10.0.0.1''))"
  let ?b = "chash_peer_points (rr_new_peer (two_servers ! 1) (bytes ''10.0.0.2''))"
  have raw: "chash_raw (the (ngx_http_upstream_init_round_robin [] (Some two_servers) 0 None)) = ?a @ ?b"
    unfolding chash_raw_def init_first_peers [OF two_servers_start(1)] by (simp add: two_servers_def rr_new_peers_def Let_def)
  have s: "snd p = bytes ''a''" if "p \<in> set ?a" for p
    using chash_peer_points_filter [of "bytes ''a''" "rr_new_peer (two_servers ! 0) (bytes ''10.0.0.1'')"] that
    by (auto simp: filter_empty_conv two_servers_def rr_new_peer_def)
  have t: "snd p = bytes ''b''" if "p \<in> set ?b" for p
    using chash_peer_points_filter [of "bytes ''b''" "rr_new_peer (two_servers ! 1) (bytes ''10.0.0.2'')"] that
    by (auto simp: filter_empty_conv two_servers_def rr_new_peer_def)
  have "uint (fst p) \<in> set hashes_a" if "p \<in> set ?a" for p
    unfolding two_servers_points(1) [of "bytes ''10.0.0.1''", symmetric] set_map using that by (rule imageI [where f = "uint \<circ> fst", simplified comp_apply])
  moreover have "uint (fst p) \<in> set hashes_b" if "p \<in> set ?b" for p
    unfolding two_servers_points(2) [of "bytes ''10.0.0.2''", symmetric] set_map using that by (rule imageI [where f = "uint \<circ> fst", simplified comp_apply])
  ultimately have d: "fst p \<noteq> fst q" if "p \<in> set ?a" "q \<in> set ?b" for p q
    using that hashes_disjoint unfolding list_all_iff by metis
  have "p = q" if "p \<in> set (?a @ ?b)" "q \<in> set (?a @ ?b)" "fst p = fst q" for p q
  proof (rule prod_eqI)
    have "p \<in> set ?a \<and> q \<in> set ?a \<or> p \<in> set ?b \<and> q \<in> set ?b" using that d [of p q] d [of q p] by auto
    then show "snd p = snd q" using s t by metis
  qed (rule that(3))
  then show ?thesis unfolding raw by (intro inj_onI)
qed

theorem ngx_http_upstream_chash_consistent_witness:
  "\<exists>us0 us1. ngx_http_upstream_init_round_robin [] (Some two_servers) 0 None = Some us0
     \<and> ngx_http_upstream_init_round_robin [] (Some (filter (\<lambda>s. srv_name s \<noteq> bytes ''b'') two_servers)) 0 None = Some us1
     \<and> inj_on fst (set (chash_raw us0))
     \<and> chash_serves (ngx_http_upstream_init_chash (sort_key fst) us1) 5 us1 (bytes ''k'')
         = find (\<lambda>s. s \<noteq> bytes ''b'' \<and> chash_up us0 s) (chash_ring (ngx_http_upstream_init_chash (sort_key fst) us0) (ngx_crc32_long (bytes ''k'')))"
proof -
  have "qsort_points (sort_key fst)" by (simp add: qsort_points_def)
  note ngx_http_upstream_chash_consistent [OF two_servers_start this two_servers_distinct refl refl, of 5 "bytes ''k''", THEN conjunct1]
  with two_servers_start(1,2) two_servers_distinct show ?thesis by blast
qed

end
