(* ===== verification/Ngx_Sprintf.thy ===== *)
theory Ngx_Sprintf
  imports Ngx_Numbers
begin

text \<open>
  The formatter \<^verbatim>\<open>ngx_vslprintf\<close> of \<^verbatim>\<open>core/ngx_string.c\<close>, which all text that nginx makes from numbers goes through.
  The variable arguments are a list; \<open>None\<close> is the use of an argument that is not there or has another type, a
  format that ends in a percent sign, or \<^verbatim>\<open>%f\<close>, which is left out. \<open>room\<close> is \<^verbatim>\<open>last - buf\<close>, and the result the bytes that
  are stored. \<^verbatim>\<open>ngx_sprintf\<close> has no limit: \<^verbatim>\<open>last\<close> is the end of the address space, and buffers are in its lower half.
\<close>

section \<open>The code\<close>

datatype va_arg = Va_int int | Va_uint "64 word" | Va_str ngx_str_t | Va_size nat

record vs_spec =
  vs_zero :: u_char
  vs_width :: nat
  vs_sign :: bool
  vs_hex :: nat
  vs_max_width :: bool
  vs_slen :: "nat option"

text \<open>The digits of a width.\<close>

fun vs_number :: "nat \<Rightarrow> u_char list \<Rightarrow> nat \<times> u_char list" where
  "vs_number n (c # fmt) = (if is_digit c then vs_number (n * 10 + unat c - 48) fmt else (n, c # fmt))"
| "vs_number n [] = (n, [])"

text \<open>The modifiers between the width and the conversion.\<close>

fun vs_flags :: "vs_spec \<Rightarrow> u_char list \<Rightarrow> va_arg list \<Rightarrow> (vs_spec \<times> u_char list \<times> va_arg list) option" where
  "vs_flags s [] args = Some (s, [], args)"
| "vs_flags s (c # fmt) args =
     (if c = of_char CHR ''u'' then vs_flags (s\<lparr>vs_sign := False\<rparr>) fmt args
      else if c = of_char CHR ''m'' then vs_flags (s\<lparr>vs_max_width := True\<rparr>) fmt args
      else if c = of_char CHR ''X'' then vs_flags (s\<lparr>vs_hex := 2, vs_sign := False\<rparr>) fmt args
      else if c = of_char CHR ''x'' then vs_flags (s\<lparr>vs_hex := 1, vs_sign := False\<rparr>) fmt args
      else if c = ch_dot then Some (s, snd (vs_number 0 fmt), args)
      else if c = of_char CHR ''*'' then
        (case args of Va_size n # args \<Rightarrow> vs_flags (s\<lparr>vs_slen := Some n\<rparr>) fmt args | _ \<Rightarrow> None)
      else Some (s, c # fmt, args))"

text \<open>The end of a numeric conversion: the sign and the digits.\<close>

definition vs_signed :: "nat \<Rightarrow> vs_spec \<Rightarrow> int \<Rightarrow> u_char list" where
  "vs_signed room s i64 =
     (if i64 < 0 then ch_minus # ngx_sprintf_num (room - 1) (word_of_int (- i64)) (vs_zero s) (vs_hex s) (vs_width s)
      else ngx_sprintf_num room (word_of_int i64) (vs_zero s) (vs_hex s) (vs_width s))"

definition vs_unsigned :: "nat \<Rightarrow> vs_spec \<Rightarrow> 64 word \<Rightarrow> u_char list" where
  "vs_unsigned room s ui64 = ngx_sprintf_num room ui64 (vs_zero s) (vs_hex s) (vs_width s)"

definition vs_int :: "nat \<Rightarrow> vs_spec \<Rightarrow> va_arg list \<Rightarrow> (u_char list \<times> va_arg list) option" where
  "vs_int room s args =
     (case args of
        Va_int i64 # args \<Rightarrow> if vs_sign s then Some (vs_signed room s i64, args) else None
      | Va_uint ui64 # args \<Rightarrow> if vs_sign s then None else Some (vs_unsigned room s ui64, args)
      | _ \<Rightarrow> None)"

definition vs_string :: "nat \<Rightarrow> nat option \<Rightarrow> ngx_str_t \<Rightarrow> u_char list option" where
  "vs_string room slen p =
     (case slen of
        None \<Rightarrow> Some (take room (takeWhile (\<lambda>c. c \<noteq> ch_NUL) p))
      | Some n \<Rightarrow> if length p < min room n then None else Some (take (min room n) p))"

text \<open>One conversion: the bytes it stores and the arguments that are left.\<close>

definition vs_convert :: "nat \<Rightarrow> vs_spec \<Rightarrow> u_char \<Rightarrow> va_arg list \<Rightarrow> (u_char list \<times> va_arg list) option" where
  "vs_convert room s c args =
     (if c = of_char CHR ''V'' \<or> c = of_char CHR ''v'' then
        (case args of Va_str v # args \<Rightarrow> Some (take room v, args) | _ \<Rightarrow> None)
      else if c = of_char CHR ''s'' then
        (case args of Va_str p # args \<Rightarrow> map_option (\<lambda>out. (out, args)) (vs_string room (vs_slen s) p) | _ \<Rightarrow> None)
      else if c \<in> {of_char CHR ''O'', of_char CHR ''P'', of_char CHR ''T'', of_char CHR ''r''} then
        vs_int room (s\<lparr>vs_sign := True\<rparr>) args
      else if c = of_char CHR ''M'' then
        (case args of
           Va_uint ms # args \<Rightarrow> Some (if ms = - 1 then vs_signed room s (- 1) else vs_unsigned room s ms, args)
         | _ \<Rightarrow> None)
      else if c \<in> {of_char CHR ''z'', of_char CHR ''d'', of_char CHR ''l'', of_char CHR ''D'', of_char CHR ''L''} then
        vs_int room s args
      else if c \<in> {of_char CHR ''i'', of_char CHR ''A''} then
        vs_int room (if vs_max_width s then s\<lparr>vs_width := 20\<rparr> else s) args
      else if c = of_char CHR ''f'' then None
      else if c = of_char CHR ''p'' then
        vs_int room (s\<lparr>vs_hex := 2, vs_sign := False, vs_zero := ch_0, vs_width := 16\<rparr>) args
      else if c = of_char CHR ''c'' then
        (case args of Va_int d # args \<Rightarrow> Some ([word_of_int d], args) | _ \<Rightarrow> None)
      else if c = of_char CHR ''Z'' then Some ([ch_NUL], args)
      else if c = of_char CHR ''N'' then Some ([LF], args)
      else if c = ch_percent then Some ([ch_percent], args)
      else Some ([c], args))"

text \<open>What follows a percent sign.\<close>

definition vs_directive ::
  "nat \<Rightarrow> u_char list \<Rightarrow> va_arg list \<Rightarrow> (u_char list \<times> u_char list \<times> va_arg list) option"
where
  "vs_directive room fmt args =
     (let zero = (if fmt \<noteq> [] \<and> hd fmt = ch_0 then ch_0 else ch_space); (width, fmt) = vs_number 0 fmt in
      case vs_flags \<lparr>vs_zero = zero, vs_width = width, vs_sign = True, vs_hex = 0, vs_max_width = False, vs_slen = None\<rparr> fmt args of
        None \<Rightarrow> None
      | Some (s, [], args) \<Rightarrow> None
      | Some (s, c # fmt, args) \<Rightarrow>
          (case vs_convert room s c args of None \<Rightarrow> None | Some (out, args) \<Rightarrow> Some (out, fmt, args)))"

lemma vs_number_length: "length (snd (vs_number n fmt)) \<le> length fmt"
  by (induction n fmt rule: vs_number.induct) (auto simp: le_Suc_eq)

lemma vs_flags_length: "vs_flags s fmt args = Some (s', fmt', args') \<Longrightarrow> length fmt' \<le> length fmt"
  by (induction s fmt args rule: vs_flags.induct)
    (auto split: if_splits list.splits va_arg.splits intro: le_SucI vs_number_length)

lemma vs_directive_length: "vs_directive room fmt args = Some (out, fmt', args') \<Longrightarrow> length fmt' < length fmt"
  using vs_number_length [of 0 fmt]
  by (fastforce simp: vs_directive_def Let_def dest!: vs_flags_length split: prod.splits option.splits list.splits)

function ngx_vslprintf :: "nat \<Rightarrow> u_char list \<Rightarrow> va_arg list \<Rightarrow> u_char list option" where
  "ngx_vslprintf room [] args = Some []"
| "ngx_vslprintf room (c # fmt) args =
     (if room = 0 then Some []
      else if c = ch_percent then
        (case vs_directive room fmt args of
           None \<Rightarrow> None
         | Some (out, fmt, args) \<Rightarrow> map_option (\<lambda>rest. out @ rest) (ngx_vslprintf (room - length out) fmt args))
      else map_option (\<lambda>rest. c # rest) (ngx_vslprintf (room - 1) fmt args))"
  by pat_completeness auto
termination
  by (relation "measure (\<lambda>(room, fmt, args). length fmt)") (auto dest: vs_directive_length)

definition ngx_sprintf :: "u_char list \<Rightarrow> va_arg list \<Rightarrow> u_char list option" where
  "ngx_sprintf fmt args = ngx_vslprintf (2 ^ 63) fmt args"

definition ngx_snprintf :: "nat \<Rightarrow> u_char list \<Rightarrow> va_arg list \<Rightarrow> u_char list option" where
  "ngx_snprintf max' fmt args = ngx_vslprintf max' fmt args"

section \<open>The room\<close>

lemma sprintf_num_room: "ngx_sprintf_num room w zero h width = take room (ngx_sprintf_num (room + k) w zero h width)"
proof -
  have "replicate (min (width - length ds) n) zero @ take (n - length (replicate (min (width - length ds) n) zero)) ds
      = take n (replicate (width - length ds) zero @ ds)" for n and ds :: "u_char list"
    by (auto simp: min_def)
  then have "\<exists>out. \<forall>room. ngx_sprintf_num room w zero h width = take room out"
    unfolding ngx_sprintf_num_def Let_def by blast
  then show ?thesis by (metis min_add_distrib_right take_take min.commute nat_le_iff_add min.absorb1)
qed

lemma sprintf_num_less: "r \<le> room \<Longrightarrow> ngx_sprintf_num r w zero h width = take r (ngx_sprintf_num room w zero h width)"
  using sprintf_num_room [of r w zero h width "room - r"] by simp

lemma vs_signed_room:
  assumes "0 < r" "r \<le> room"
  shows "vs_signed r s i = take r (vs_signed room s i)" "length (vs_signed r s i) \<le> r"
proof -
  obtain k where "r = Suc k" using assms(1) by (cases r) auto
  then show "vs_signed r s i = take r (vs_signed room s i)"
    using assms sprintf_num_less [of "r - 1" "room - 1"] sprintf_num_less [of r room] by (simp add: vs_signed_def)
  show "length (vs_signed r s i) \<le> r"
    using \<open>r = Suc k\<close> hex_length_sprintf [of k] hex_length_sprintf [of r] by (auto simp: vs_signed_def)
qed

lemma vs_unsigned_room:
  "r \<le> room \<Longrightarrow> vs_unsigned r s w = take r (vs_unsigned room s w)" "length (vs_unsigned r s w) \<le> r"
  by (simp_all add: vs_unsigned_def hex_length_sprintf sprintf_num_less [of r room])

text \<open>With less room \<open>r\<close>, a conversion stores the beginning of what it stores with more.\<close>

definition vs_fits :: "nat \<Rightarrow> nat \<Rightarrow> (u_char list \<times> 'a) option \<Rightarrow> (u_char list \<times> 'a) option \<Rightarrow> bool" where
  "vs_fits r room x y \<longleftrightarrow> (\<forall>out a. x = Some (out, a) \<longrightarrow> y = Some (take r out, a) \<and> length out \<le> room)"

lemma vs_fits_if:
  "(c \<Longrightarrow> vs_fits r room x x') \<Longrightarrow> (\<not> c \<Longrightarrow> vs_fits r room y y') \<Longrightarrow> vs_fits r room (if c then x else y) (if c then x' else y')"
  by simp

lemma vs_fits_None: "vs_fits r room None y"
  by (simp add: vs_fits_def)

lemma vs_fits_char: "0 < r \<Longrightarrow> r \<le> room \<Longrightarrow> vs_fits r room (Some ([c], a)) (Some ([c], a))"
  by (cases r) (auto simp: vs_fits_def)

lemma vs_fits_int: "0 < r \<Longrightarrow> r \<le> room \<Longrightarrow> vs_fits r room (vs_int room s args) (vs_int r s args)"
  using vs_signed_room [of r room s] vs_signed_room(2) [of room room s]
    vs_unsigned_room(1) [of r room s] vs_unsigned_room(2) [of room s]
  by (auto simp: vs_fits_def vs_int_def split: list.splits va_arg.splits if_splits)

lemma vs_fits_string:
  "r \<le> room \<Longrightarrow> vs_fits r room (map_option (\<lambda>out. (out, a)) (vs_string room slen p)) (map_option (\<lambda>out. (out, a)) (vs_string r slen p))"
  by (auto simp: vs_fits_def vs_string_def min_def split: option.splits if_splits)

lemma vs_fits_msec:
  assumes "0 < r" "r \<le> room"
  shows "vs_fits r room (Some (if ms = - 1 then vs_signed room s (- 1) else vs_unsigned room s ms, a))
    (Some (if ms = - 1 then vs_signed r s (- 1) else vs_unsigned r s ms, a))"
  using vs_signed_room [OF assms, of s "- 1"] vs_signed_room(2) [of room room s "- 1"] vs_unsigned_room(1) [of r room s ms]
    vs_unsigned_room(2) [of room s ms] assms by (auto simp: vs_fits_def)

lemma vs_fits_str: "r \<le> room \<Longrightarrow> vs_fits r room (Some (take room v, a)) (Some (take r v, a))"
  by (simp add: vs_fits_def min_def)

lemmas vs_fits = vs_fits_if vs_fits_None vs_fits_char vs_fits_int vs_fits_string vs_fits_msec vs_fits_str

lemma va_cases:
  obtains "args = []" | i a where "args = Va_int i # a" | w a where "args = Va_uint w # a"
  | p a where "args = Va_str p # a" | n a where "args = Va_size n # a"
  by (metis neq_Nil_conv va_arg.exhaust)

lemma vs_fits_convert:
  assumes "0 < r" "r \<le> room"
  shows "vs_fits r room (vs_convert room s c args) (vs_convert r s c args)"
  unfolding vs_convert_def
  by (intro vs_fits_if; (intro vs_fits assms; fail)?; cases args rule: va_cases)
    (simp_all only: list.case va_arg.case vs_fits assms)

lemma vs_fits_directive:
  assumes "0 < r" "r \<le> room"
  shows "vs_fits r room (vs_directive room fmt args) (vs_directive r fmt args)"
  using vs_fits_convert [OF assms]
  by (fastforce simp: vs_directive_def Let_def vs_fits_def split: prod.splits option.splits list.splits)

lemma vslprintf_room:
  "ngx_vslprintf room fmt args = Some out \<Longrightarrow> r \<le> room \<Longrightarrow> ngx_vslprintf r fmt args = Some (take r out) \<and> length out \<le> room"
proof (induction room fmt args arbitrary: r out rule: ngx_vslprintf.induct)
  case (2 room c fmt args)
  show ?case
  proof (cases "room = 0 \<or> c \<noteq> ch_percent")
    case True
    then show ?thesis using "2.IH"(2) "2.prems" by (cases r) (auto split: if_splits)
  next
    case False
    then obtain o1 fmt1 args1 o2 where d: "vs_directive room fmt args = Some (o1, fmt1, args1)"
      "ngx_vslprintf (room - length o1) fmt1 args1 = Some o2" "out = o1 @ o2"
      using "2.prems"(1) by (auto split: option.splits)
    have l: "length o1 \<le> room" using vs_fits_directive [of room room fmt args] d(1) False by (simp add: vs_fits_def)
    have ih: "ngx_vslprintf q fmt1 args1 = Some (take q o2) \<and> length o2 \<le> room - length o1" if "q \<le> room - length o1" for q
      using "2.IH"(1) [OF _ _ d(1) refl refl d(2) that] False by simp
    show ?thesis
    proof (cases r)
      case 0
      then show ?thesis using ih [of 0] l d(3) by (auto simp: le_diff_conv2)
    next
      case (Suc k)
      have "vs_directive r fmt args = Some (take r o1, fmt1, args1)"
        using vs_fits_directive [of r room fmt args] d(1) Suc "2.prems"(2) by (simp add: vs_fits_def)
      moreover have "ngx_vslprintf (r - length (take r o1)) fmt1 args1 = Some (take (r - length o1) o2)"
        using ih [of "r - length o1"] "2.prems"(2) l by (cases "r \<le> length o1") (simp_all add: min_def diff_le_mono)
      moreover have "length out \<le> room" using ih [of 0] l d(3) by (auto simp: le_diff_conv2)
      ultimately show ?thesis using False Suc d(3) by simp
    qed
  qed
qed simp

section \<open>Properties\<close>

text \<open>
  C36: The formatter keeps within its buffer and loses only what does not fit. Whatever the format and the arguments, no more than
  \<^verbatim>\<open>max\<close> bytes are stored, and they are the beginning of the text that the formatter without a limit makes.
\<close>

theorem ngx_snprintf_truncates:
  "(ngx_snprintf n fmt args = Some out \<longrightarrow> length out \<le> n)
   \<and> (ngx_sprintf fmt args = Some out \<and> n \<le> 2 ^ 63 \<longrightarrow> ngx_snprintf n fmt args = Some (take n out))"
  unfolding ngx_snprintf_def ngx_sprintf_def
  using vslprintf_room [of n fmt args out n] vslprintf_room [of "2 ^ 63" fmt args out n] by blast

lemma print_decimal_unroll:
  "n < 10 \<Longrightarrow> print_decimal n = [word_of_nat n + ch_0]"
  "10 \<le> n \<Longrightarrow> print_decimal n = print_decimal (n div 10) @ [word_of_nat (n mod 10) + ch_0]"
  by (simp_all only: print_decimal.simps [of n] if_True if_False not_less [symmetric])

lemma example_format:
  "ngx_sprintf (bytes ''%s: %02d-%uz'') [Va_str (bytes ''ab''), Va_int 7, Va_uint 300] = Some (bytes ''ab: 07-300'')"
  by (simp add: ngx_sprintf_def vs_directive_def vs_convert_def vs_string_def vs_int_def vs_signed_def vs_unsigned_def is_digit_def
      sprintf_num_decimal print_decimal_unroll)

theorem ngx_snprintf_truncates_witness:
  "ngx_sprintf (bytes ''%s: %02d-%uz'') [Va_str (bytes ''ab''), Va_int 7, Va_uint 300] = Some (bytes ''ab: 07-300'')
   \<and> ngx_snprintf 8 (bytes ''%s: %02d-%uz'') [Va_str (bytes ''ab''), Va_int 7, Va_uint 300] = Some (bytes ''ab: 07-3'')
   \<and> length (bytes ''ab: 07-3'') \<le> 8"
  using ngx_snprintf_truncates [of 8 "bytes ''%s: %02d-%uz''" "[Va_str (bytes ''ab''), Va_int 7, Va_uint 300]" "bytes ''ab: 07-300''"]
    ngx_snprintf_truncates [of 8 "bytes ''%s: %02d-%uz''" "[Va_str (bytes ''ab''), Va_int 7, Va_uint 300]" "bytes ''ab: 07-3''"]
    example_format by simp

end
