(* ===== verification/Ngx_Times.thy ===== *)
theory Ngx_Times
  imports Ngx_Sprintf
begin

text \<open>
  Dates: \<^verbatim>\<open>ngx_gmtime\<close>, \<^verbatim>\<open>ngx_http_time\<close> and \<^verbatim>\<open>ngx_http_cookie_time\<close> of \<^verbatim>\<open>core/ngx_times.c\<close>, and the reader
  \<^verbatim>\<open>ngx_parse_http_time\<close> of \<^verbatim>\<open>core/ngx_parse_time.c\<close> for the three formats of HTTP. The specification is a calendar that
  goes on from the first of January 1970 one day at a time.
\<close>

section \<open>Writing\<close>

definition u64 :: "int \<Rightarrow> int" where
  "u64 x = take_bit 64 x"

definition s32 :: "int \<Rightarrow> int" where
  "s32 x = signed_take_bit 31 x"

record ngx_tm_t =
  tm_sec :: int
  tm_min :: int
  tm_hour :: int
  tm_mday :: int
  tm_mon :: int
  tm_year :: int
  tm_wday :: int

definition gauss_days :: "int \<Rightarrow> int" where
  "gauss_days year = 365 * year + year div 4 - year div 100 + year div 400"

text \<open>The day of the year and the year, which begin in March.\<close>

definition gm_year :: "int \<Rightarrow> int \<times> int" where
  "gm_year days =
     (let year = u64 ((days + 2) * 400) div (365 * 400 + 100 - 4 + 1);
          yday = s64 (days - gauss_days year)
      in if yday < 0 then
           (let leap = (if year mod 4 = 0 \<and> (year mod 100 \<noteq> 0 \<or> year mod 400 = 0) then 1 else 0)
            in (s64 (365 + leap + yday), u64 (year - 1)))
         else (yday, year))"

definition ngx_gmtime :: "int \<Rightarrow> ngx_tm_t" where
  "ngx_gmtime t =
     (let n = u64 t; days = n div 86400; wday = u64 (4 + days) mod 7;
          n = n mod 86400; hour = n div 3600; n = n mod 3600; minute = n div 60; sec = n mod 60;
          days = u64 (days - (31 + 28) + 719527);
          (yday, year) = gm_year days;
          mon = s64 ((yday + 31) * 10) div 306;
          mday = u64 (yday - (u64 (367 * mon) div 12 - 30) + 1);
          (year, mon) = (if yday \<ge> 306 then (u64 (year + 1), u64 (mon - 10)) else (year, u64 (mon + 2)))
      in \<lparr>tm_sec = s32 sec, tm_min = s32 minute, tm_hour = s32 hour, tm_mday = s32 mday, tm_mon = s32 mon, tm_year = s32 year,
          tm_wday = s32 wday\<rparr>)"

definition week :: "u_char list list" where
  "week = map bytes [''Sun'', ''Mon'', ''Tue'', ''Wed'', ''Thu'', ''Fri'', ''Sat'']"

definition months :: "u_char list list" where
  "months = map bytes [''Jan'', ''Feb'', ''Mar'', ''Apr'', ''May'', ''Jun'', ''Jul'', ''Aug'', ''Sep'', ''Oct'', ''Nov'', ''Dec'']"

definition ngx_http_time :: "int \<Rightarrow> u_char list option" where
  "ngx_http_time t =
     (let tm = ngx_gmtime t in
      ngx_sprintf (bytes ''%s, %02d %s %4d %02d:%02d:%02d GMT'')
        [Va_str (week ! nat (tm_wday tm)), Va_int (tm_mday tm), Va_str (months ! nat (tm_mon tm - 1)), Va_int (tm_year tm),
         Va_int (tm_hour tm), Va_int (tm_min tm), Va_int (tm_sec tm)])"

definition ngx_http_cookie_time :: "int \<Rightarrow> u_char list option" where
  "ngx_http_cookie_time t =
     (let tm = ngx_gmtime t in
      ngx_sprintf
        (if tm_year tm > 2037 then bytes ''%s, %02d-%s-%d %02d:%02d:%02d GMT'' else bytes ''%s, %02d-%s-%02d %02d:%02d:%02d GMT'')
        [Va_str (week ! nat (tm_wday tm)), Va_int (tm_mday tm), Va_str (months ! nat (tm_mon tm - 1)),
         Va_int (if tm_year tm > 2037 then tm_year tm else tm_year tm mod 100),
         Va_int (tm_hour tm), Va_int (tm_min tm), Va_int (tm_sec tm)])"

section \<open>Reading\<close>

text \<open>
  The reader goes on as \<open>k\<close> with what it has read. \<open>None\<close> is a read outside of the value.
\<close>

definition pt_at :: "u_char list \<Rightarrow> nat \<Rightarrow> (u_char \<Rightarrow> int option) \<Rightarrow> int option" where
  "pt_at v p k = (if p < length v then k (v ! p) else None)"

definition pt_expect :: "u_char list \<Rightarrow> nat \<Rightarrow> u_char \<Rightarrow> int option \<Rightarrow> int option" where
  "pt_expect v p c k = pt_at v p (\<lambda>ch. if ch \<noteq> c then Some NGX_ERROR else k)"

fun pt_digits :: "u_char list \<Rightarrow> nat \<Rightarrow> nat \<Rightarrow> int \<Rightarrow> (int \<Rightarrow> int option) \<Rightarrow> int option" where
  "pt_digits v p 0 n k = k n"
| "pt_digits v p (Suc m) n k =
     pt_at v p (\<lambda>ch. if \<not> is_digit ch then Some NGX_ERROR else pt_digits v (p + 1) m (n * 10 + uint ch - 48) k)"

definition pt_month :: "u_char list \<Rightarrow> nat \<Rightarrow> (int \<Rightarrow> int option) \<Rightarrow> int option" where
  "pt_month v p k = pt_at v p (\<lambda>ch.
     if ch = of_char CHR ''J'' then
       pt_at v (p + 1) (\<lambda>c1. if c1 = of_char CHR ''a'' then k 0
         else pt_at v (p + 2) (\<lambda>c2. if c2 = of_char CHR ''n'' then k 5 else k 6))
     else if ch = of_char CHR ''F'' then k 1
     else if ch = of_char CHR ''M'' then pt_at v (p + 2) (\<lambda>c2. if c2 = of_char CHR ''r'' then k 2 else k 4)
     else if ch = of_char CHR ''A'' then pt_at v (p + 1) (\<lambda>c1. if c1 = of_char CHR ''p'' then k 3 else k 7)
     else if ch = of_char CHR ''S'' then k 8
     else if ch = of_char CHR ''O'' then k 9
     else if ch = of_char CHR ''N'' then k 10
     else if ch = of_char CHR ''D'' then k 11
     else Some NGX_ERROR)"

definition mday :: "int list" where
  "mday = [31, 28, 31, 30, 31, 30, 31, 31, 30, 31, 30, 31]"

text \<open>The checks at the end and Gauss' formula.\<close>

definition pt_time :: "int \<Rightarrow> int \<Rightarrow> int \<Rightarrow> int \<Rightarrow> int \<Rightarrow> int \<Rightarrow> int option" where
  "pt_time day month year hour minute sec =
     (if hour > 23 \<or> minute > 59 \<or> sec > 59 then Some NGX_ERROR
      else if (if day = 29 \<and> month = 1 then year mod 4 \<noteq> 0 \<or> year mod 100 = 0 \<and> year mod 400 \<noteq> 0 else day > mday ! nat month)
      then Some NGX_ERROR
      else
        let (month, year) = (if month - 1 \<le> 0 then (month - 1 + 12, u64 (year - 1)) else (month - 1, year));
            time = u64 ((gauss_days year + 367 * month div 12 - 30 + day - 1 - 719527 + 31 + 28) * 86400
                        + hour * 3600 + minute * 60 + sec)
        in Some (s64 time))"

text \<open>A space and the time of the day.\<close>

definition pt_clock :: "u_char list \<Rightarrow> nat \<Rightarrow> (int \<Rightarrow> int \<Rightarrow> int \<Rightarrow> int option) \<Rightarrow> int option" where
  "pt_clock v p k =
     pt_expect v p ch_space (pt_digits v (p + 1) 2 0 (\<lambda>hour.
     pt_expect v (p + 3) ch_colon (pt_digits v (p + 4) 2 0 (\<lambda>minute.
     pt_expect v (p + 6) ch_colon (pt_digits v (p + 7) 2 0 (\<lambda>sec. k hour minute sec))))))"

text \<open>The day of the third format, with one digit or two.\<close>

definition pt_isoc_day :: "u_char list \<Rightarrow> nat \<Rightarrow> (int \<Rightarrow> nat \<Rightarrow> int option) \<Rightarrow> int option" where
  "pt_isoc_day v p k = pt_at v p (\<lambda>ch.
     let p = (if ch = ch_space then p + 1 else p) in
     pt_digits v p 1 0 (\<lambda>day. pt_at v (p + 1) (\<lambda>ch.
       if ch \<noteq> ch_space then pt_digits v (p + 1) 1 day (\<lambda>day. k day (p + 2)) else k day (p + 1))))"

definition pt_isoc :: "u_char list \<Rightarrow> nat \<Rightarrow> int option" where
  "pt_isoc v p =
     pt_month v p (\<lambda>month.
     pt_isoc_day v (p + 4) (\<lambda>day p.
       if int (length v) - int p < 14 then Some NGX_ERROR
       else pt_clock v p (\<lambda>hour minute sec.
         pt_expect v (p + 9) ch_space (pt_digits v (p + 10) 4 0 (\<lambda>year. pt_time day month year hour minute sec)))))"

definition pt_rfc822 :: "u_char list \<Rightarrow> nat \<Rightarrow> int \<Rightarrow> int option" where
  "pt_rfc822 v p day =
     (if int (length v) - int p < 18 then Some NGX_ERROR
      else pt_month v (p + 1) (\<lambda>month.
        pt_expect v (p + 4) ch_space (pt_digits v (p + 5) 4 0 (\<lambda>year.
        pt_clock v (p + 9) (\<lambda>hour minute sec. pt_time day month year hour minute sec)))))"

definition pt_rfc850 :: "u_char list \<Rightarrow> nat \<Rightarrow> int \<Rightarrow> int option" where
  "pt_rfc850 v p day =
     pt_month v (p + 1) (\<lambda>month.
     pt_expect v (p + 4) ch_minus (pt_digits v (p + 5) 2 0 (\<lambda>year.
     pt_clock v (p + 7) (\<lambda>hour minute sec.
       pt_time day month (year + (if year < 70 then 2000 else 1900)) hour minute sec))))"

text \<open>The first loop stops at a comma or, for the third format, at a space; the second skips spaces.\<close>

definition pt_first :: "u_char list \<Rightarrow> nat" where
  "pt_first v = length (takeWhile (\<lambda>c. c \<noteq> ch_comma \<and> c \<noteq> ch_space) v)"

definition pt_start :: "u_char list \<Rightarrow> nat" where
  "pt_start v = (let p = pt_first v + 1 in p + length (takeWhile (\<lambda>c. c = ch_space) (drop p v)))"

definition ngx_parse_http_time :: "u_char list \<Rightarrow> int option" where
  "ngx_parse_http_time v =
     (let p = pt_start v in
      if int (length v) - int p < 18 then Some NGX_ERROR
      else if v ! pt_first v = ch_space then pt_isoc v p
      else pt_digits v p 2 0 (\<lambda>day. pt_at v (p + 2) (\<lambda>ch.
        if ch = ch_space then pt_rfc822 v (p + 2) day
        else if ch = ch_minus then pt_rfc850 v (p + 2) day
        else Some NGX_ERROR)))"

section \<open>The calendar\<close>

type_synonym date = "int \<times> int \<times> int"

definition leap_year :: "int \<Rightarrow> bool" where
  "leap_year y \<longleftrightarrow> 4 dvd y \<and> (\<not> 100 dvd y \<or> 400 dvd y)"

definition month_days :: "int \<Rightarrow> int \<Rightarrow> int" where
  "month_days y m = (if m = 2 then if leap_year y then 29 else 28 else if m \<in> {4, 6, 9, 11} then 30 else 31)"

fun next_day :: "date \<Rightarrow> date" where
  "next_day (y, m, d) = (if d < month_days y m then (y, m, d + 1) else if m < 12 then (y, m + 1, 1) else (y + 1, 1, 1))"

definition date_of :: "nat \<Rightarrow> date" where
  "date_of n = (next_day ^^ n) (1970, 1, 1)"

fun is_date :: "date \<Rightarrow> bool" where
  "is_date (y, m, d) \<longleftrightarrow> 1 \<le> m \<and> m \<le> 12 \<and> 1 \<le> d \<and> d \<le> month_days y m"

text \<open>The number of a day after the first of March of the year before year 1; years begin in March here.\<close>

fun day_number :: "date \<Rightarrow> int" where
  "day_number (y, m, d) =
     (if m \<le> 2 then gauss_days (y - 1) + 367 * (m + 10) div 12 - 30 + d - 1
      else gauss_days y + 367 * (m - 2) div 12 - 30 + d - 1)"

lemma div_Suc_int:
  fixes y k :: int
  assumes "1 < k"
  shows "(y + 1) div k = y div k + (if k dvd y + 1 then 1 else 0)"
proof -
  let ?q = "y div k" and ?r = "y mod k"
  have y: "y = k * ?q + ?r" "0 \<le> ?r" "?r < k" using assms by simp_all
  show ?thesis
  proof (cases "?r = k - 1")
    case True
    moreover have "k * (?q + 1) = k * ?q + k" by (simp add: distrib_left)
    ultimately have e: "y + 1 = k * (?q + 1)" using y(1) by linarith
    then show ?thesis unfolding e using assms by simp
  next
    case False
    then have "?r + 1 < k" using y(3) by linarith
    then have "(y + 1) div k = ?q" "(y + 1) mod k = ?r + 1"
      using y(1,2) by (auto intro!: int_div_pos_eq [of _ _ _ "?r + 1"] int_mod_pos_eq [of _ _ ?q])
    then show ?thesis using y(2) by (simp add: dvd_eq_mod_eq_0)
  qed
qed

lemma gauss_days_Suc: "gauss_days (y + 1) = gauss_days y + 365 + (if leap_year (y + 1) then 1 else 0)"
proof -
  define A B C where d: "A \<longleftrightarrow> 4 dvd y + 1" "B \<longleftrightarrow> 100 dvd y + 1" "C \<longleftrightarrow> 400 dvd y + 1"
  have i: "C \<Longrightarrow> B" "B \<Longrightarrow> A" unfolding d using dvd_trans [of 100 400 "y + 1"] dvd_trans [of 4 100 "y + 1"] by simp_all
  have e: "(y + 1) div 4 = y div 4 + (if A then 1 else 0)" "(y + 1) div 100 = y div 100 + (if B then 1 else 0)"
    "(y + 1) div 400 = y div 400 + (if C then 1 else 0)"
    unfolding d by (rule div_Suc_int; simp)+
  have l: "leap_year (y + 1) \<longleftrightarrow> A \<and> (\<not> B \<or> C)" unfolding leap_year_def d ..
  show ?thesis unfolding gauss_days_def e l using i by (cases A; cases B; cases C) simp_all
qed

lemma gauss_days_bounds: "146097 * y - 699 \<le> 400 * gauss_days y" "400 * gauss_days y \<le> 146097 * y + 396"
proof -
  have "4 * (y div 4) = y - y mod 4" "100 * (y div 100) = y - y mod 100" "400 * (y div 400) = y - y mod 400"
    by (simp_all add: minus_mod_eq_mult_div)
  then have e: "400 * gauss_days y = 146097 * y - 100 * (y mod 4) + 4 * (y mod 100) - y mod 400"
    by (simp add: gauss_days_def)
  have "0 \<le> y mod 4" "y mod 4 < 4" "0 \<le> y mod 100" "y mod 100 < 100" "0 \<le> y mod 400" "y mod 400 < 400"
    by simp_all
  then show "146097 * y - 699 \<le> 400 * gauss_days y" "400 * gauss_days y \<le> 146097 * y + 396"
    unfolding e by linarith+
qed

lemma gauss_days_mono: "y \<le> z \<Longrightarrow> gauss_days y \<le> gauss_days z"
proof (induction z rule: int_ge_induct)
  case (step z)
  then show ?case using gauss_days_Suc [of z] by simp
qed simp

lemma months_num: "1 \<le> m \<Longrightarrow> m \<le> 12 \<Longrightarrow> m \<in> {1, 2, 3, 4, 5, 6, 7, 8, 9, 10, 11, 12 :: int}"
  by simp presburger

lemma next_day_number:
  assumes "is_date x"
  shows "is_date (next_day x)" "day_number (next_day x) = day_number x + 1"
proof -
  obtain y m d where x: "x = (y, m, d)" by (cases x)
  have l: "1 \<le> month_days y m" for y m by (simp add: month_days_def)
  show "is_date (next_day x)" using assms l by (auto simp: x)
  have m: "m \<in> {1, 2, 3, 4, 5, 6, 7, 8, 9, 10, 11, 12}" using assms x by (intro months_num) auto
  have "d \<le> month_days y m" using assms x by simp
  then show "day_number (next_day x) = day_number x + 1"
    using m gauss_days_Suc [of "y - 1"] unfolding x by (auto simp: month_days_def)
qed

lemma date_of_number: "is_date (date_of n)" "day_number (date_of n) = 719468 + int n"
  unfolding date_of_def
proof (induction n)
  case (Suc n)
  show "is_date ((next_day ^^ Suc n) (1970, 1, 1))" using next_day_number(1) Suc(1) by simp
  show "day_number ((next_day ^^ Suc n) (1970, 1, 1)) = 719468 + int (Suc n)" using next_day_number(2) Suc by simp
qed (simp_all add: month_days_def gauss_days_def)

section \<open>From days to dates\<close>

text \<open>The steps of \<^verbatim>\<open>ngx_gmtime\<close> on the number of a day: the year, which begins in March, and the day of the year.\<close>

lemma gauss_year:
  assumes "gauss_days y \<le> n" "n < gauss_days (y + 1)"
  defines "year \<equiv> (n + 2) * 400 div 146097"
  shows "year = y \<or> year = y + 1"
proof -
  have "146097 * year \<le> (n + 2) * 400" "(n + 2) * 400 < 146097 * year + 146097"
    unfolding year_def using pos_mod_sign [of 146097 "(n + 2) * 400"] pos_mod_bound [of 146097 "(n + 2) * 400"]
      mult_div_mod_eq [of 146097 "(n + 2) * 400"] by linarith+
  moreover have "year \<le> y + 1"
  proof (rule ccontr)
    assume "\<not> year \<le> y + 1"
    then have "gauss_days (y + 1) \<le> gauss_days (year - 1)" by (intro gauss_days_mono) simp
    then show False using assms(2) gauss_days_bounds(2) [of "year - 1"] calculation by simp
  qed
  moreover have "y \<le> year"
  proof (rule ccontr)
    assume "\<not> y \<le> year"
    then have "gauss_days (year + 1) \<le> gauss_days y" by (intro gauss_days_mono) simp
    then show False using assms(1) gauss_days_bounds(1) [of "year + 1"] calculation by simp
  qed
  ultimately show ?thesis by linarith
qed

lemma gauss_yday:
  assumes "gauss_days y \<le> n" "n < gauss_days (y + 1)"
  defines "year \<equiv> (n + 2) * 400 div 146097"
  shows "(if n - gauss_days year < 0 then (365 + (if leap_year year then 1 else 0) + (n - gauss_days year), year - 1)
      else (n - gauss_days year, year)) = (n - gauss_days y, y)"
proof -
  consider "year = y" | "year = y + 1" using gauss_year [OF assms(1,2)] year_def by auto
  then show ?thesis using assms(1,2) gauss_days_Suc [of y] by cases auto
qed

text \<open>The month and the day of the month.\<close>

lemma gauss_month:
  assumes "is_date (y, m, d)" "m' = (if m \<le> 2 then m + 10 else m - 2)" "yday = 367 * m' div 12 - 30 + d - 1"
  shows "(yday + 31) * 10 div 306 = m'" "yday - (367 * m' div 12 - 30) + 1 = d" "0 \<le> yday" "yday \<le> 365"
    "306 \<le> yday \<longleftrightarrow> m \<le> 2" "1 \<le> m' \<and> m' \<le> 12"
    "gauss_days (if m \<le> 2 then y - 1 else y) + yday < gauss_days ((if m \<le> 2 then y - 1 else y) + 1)"
proof -
  have m: "m \<in> {1, 2, 3, 4, 5, 6, 7, 8, 9, 10, 11, 12}" using assms(1) by (intro months_num) auto
  define k where "k = month_days y m"
  have d: "1 \<le> d" "d \<le> k" using assms(1) by (auto simp: k_def)
  define u where "u = 367 * m' div 12 - 30"
  have yday: "yday = u + d - 1" by (simp add: u_def assms(3))
  have u: "0 \<le> u" "u + k \<le> 366" "306 \<le> u \<longleftrightarrow> m \<le> 2" "m \<le> 2 \<or> u + k \<le> 306" "306 * m' \<le> (u + 31) * 10" "(u + k + 30) * 10 < 306 * m' + 306"
    "1 \<le> m' \<and> m' \<le> 12"
    using m unfolding u_def assms(2) k_def month_days_def by (elim insertE emptyE; simp; fail)+
  show "0 \<le> yday" "yday \<le> 365" "306 \<le> yday \<longleftrightarrow> m \<le> 2" "1 \<le> m' \<and> m' \<le> 12" "yday - (367 * m' div 12 - 30) + 1 = d"
    using d u unfolding yday u_def [symmetric] by auto
  show "(yday + 31) * 10 div 306 = m'"
    using d u(5,6) unfolding yday by (intro int_div_pos_eq [of _ _ _ "(u + d - 1 + 31) * 10 - 306 * m'"]) simp_all
  have "u + k \<le> 365 + (if leap_year ((if m \<le> 2 then y - 1 else y) + 1) then 1 else 0)"
    using m unfolding u_def assms(2) k_def month_days_def by (elim insertE emptyE) simp_all
  then show "gauss_days (if m \<le> 2 then y - 1 else y) + yday < gauss_days ((if m \<le> 2 then y - 1 else y) + 1)"
    using d unfolding yday gauss_days_Suc by simp
qed

section \<open>Properties\<close>

lemma u64_id [simp]: "0 \<le> x \<Longrightarrow> x < 2 ^ 64 \<Longrightarrow> u64 x = x"
  by (simp add: u64_def take_bit_int_eq_self)

lemma s32_id [simp]: "- (2 ^ 31) \<le> x \<Longrightarrow> x < 2 ^ 31 \<Longrightarrow> s32 x = x"
  by (simp add: s32_def signed_take_bit_int_eq_self)

lemma gm_year_correct:
  assumes "gauss_days y \<le> n" "n < gauss_days (y + 1)" "0 \<le> y" "0 \<le> n" "n < 2 ^ 48"
  shows "gm_year n = (n - gauss_days y, y)"
proof -
  define year where "year = (n + 2) * 400 div 146097"
  have y: "year = y \<or> year = y + 1" unfolding year_def by (rule gauss_year [OF assms(1,2)])
  have "u64 ((n + 2) * 400) = (n + 2) * 400" using assms(4,5) by (intro u64_id) simp_all
  then have yr: "u64 ((n + 2) * 400) div (365 * 400 + 100 - 4 + 1) = year" unfolding year_def by simp
  have l: "year mod 4 = 0 \<and> (year mod 100 \<noteq> 0 \<or> year mod 400 = 0) \<longleftrightarrow> leap_year year"
    by (simp add: leap_year_def dvd_eq_mod_eq_0)
  have "- 366 \<le> n - gauss_days year \<and> n - gauss_days year \<le> 366"
    using y assms(1,2) gauss_days_Suc [of y] by (auto split: if_splits)
  then have s: "s64 (n - gauss_days year) = n - gauss_days year"
    "s64 (365 + (if leap_year year then 1 else 0) + (n - gauss_days year)) = 365 + (if leap_year year then 1 else 0) + (n - gauss_days year)"
    by (auto intro!: s64_id)
  have "y < 2 ^ 48" using gauss_days_bounds(1) [of y] assms(1,5) by simp
  then have u: "n - gauss_days year < 0 \<Longrightarrow> u64 (year - 1) = year - 1" using y assms(1,3) by (auto intro!: u64_id)
  show ?thesis
    using gauss_yday [OF assms(1,2), folded year_def] u
    unfolding gm_year_def yr Let_def l s by (cases "n - gauss_days year < 0") simp_all
qed

lemma day_number_inj:
  assumes "is_date x" "is_date x'" "day_number x = day_number x'"
  shows "x = x'"
proof -
  obtain y m d y' m' d' where x: "x = (y, m, d)" "x' = (y', m', d')" by (cases x, cases x')
  define m1 where "m1 = (if m \<le> 2 then m + 10 else m - 2)"
  define m2 where "m2 = (if m' \<le> 2 then m' + 10 else m' - 2)"
  define a where "a = (if m \<le> 2 then y - 1 else y)"
  define b where "b = (if m' \<le> 2 then y' - 1 else y')"
  define u where "u = 367 * m1 div 12 - 30 + d - 1"
  define v where "v = 367 * m2 div 12 - 30 + d' - 1"
  note g = gauss_month [OF assms(1) [unfolded x] m1_def u_def, folded a_def]
    and h = gauss_month [OF assms(2) [unfolded x] m2_def v_def, folded b_def]
  have e: "gauss_days a + u = gauss_days b + v" using assms(3) by (simp add: x a_def b_def u_def v_def m1_def m2_def split: if_splits)
  have "\<not> a < b" using gauss_days_mono [of "a + 1" b] g(7) h(3) e by linarith
  moreover have "\<not> b < a" using gauss_days_mono [of "b + 1" a] h(7) g(3) e by linarith
  ultimately have ab: "a = b" by simp
  then have uv: "u = v" using e by simp
  then have m: "m1 = m2" "m \<le> 2 \<longleftrightarrow> m' \<le> 2" using g(1,5) h(1,5) by auto
  then show ?thesis using ab uv by (auto simp: x a_def b_def m1_def m2_def u_def v_def split: if_splits)
qed

lemma date_of_year:
  assumes "date_of n = (y, m, d)" "int n < 2 ^ 39"
  shows "1 \<le> y" "y < 2 ^ 31"
proof -
  let ?y = "if m \<le> 2 then y - 1 else y" and ?yday = "367 * (if m \<le> 2 then m + 10 else m - 2) div 12 - 30 + d - 1"
  have date: "is_date (y, m, d)" and num: "day_number (y, m, d) = 719468 + int n"
    using date_of_number [of n] assms(1) by simp_all
  have "gauss_days ?y + ?yday = 719468 + int n" using num by (simp split: if_splits)
  moreover have "0 \<le> ?yday" "?yday \<le> 365" using gauss_month(3,4) [OF date refl refl] by auto
  ultimately have "719103 \<le> gauss_days ?y" "gauss_days ?y \<le> 719468 + int n" by linarith+
  then have "1 \<le> ?y" "?y < 2 ^ 31 - 1" using gauss_days_bounds [of ?y] assms(2) by simp_all
  then show "1 \<le> y" "y < 2 ^ 31" by (auto split: if_splits)
qed

lemma time_of_day:
  fixes t :: int
  shows "t mod 86400 div 3600 = t div 3600 mod 24" "t mod 86400 mod 3600 div 60 = t div 60 mod 60" "t mod 86400 mod 3600 mod 60 = t mod 60"
proof -
  show "t mod 86400 div 3600 = t div 3600 mod 24" using mod_mult2_eq' [of t 3600 24] by simp
  have m: "t mod 86400 mod 3600 = t mod 3600" by (rule mod_mod_cancel) simp
  show "t mod 86400 mod 3600 div 60 = t div 60 mod 60" unfolding m using mod_mult2_eq' [of t 60 60] by simp
  show "t mod 86400 mod 3600 mod 60 = t mod 60" unfolding m by (rule mod_mod_cancel) simp
qed

text \<open>
  C35: \<^verbatim>\<open>ngx_gmtime\<close> follows the calendar: for every time since 1970 that has a year in an \<^verbatim>\<open>int\<close>, it gives the day that
  the calendar reaches from the first of January 1970 in as many steps as days have passed, with the time of the day and
  the day of the week.
\<close>

theorem ngx_gmtime_calendar:
  assumes "0 \<le> t" "t < 2 ^ 55" "date_of (nat (t div 86400)) = (y, m, d)"
  shows "ngx_gmtime t = \<lparr>tm_sec = t mod 60, tm_min = t div 60 mod 60, tm_hour = t div 3600 mod 24, tm_mday = d, tm_mon = m,
    tm_year = y, tm_wday = (4 + t div 86400) mod 7\<rparr>"
proof -
  let ?n = "t div 86400 + 719468" and ?y = "if m \<le> 2 then y - 1 else y" and ?m = "if m \<le> 2 then m + 10 else m - 2"
  let ?yday = "367 * ?m div 12 - 30 + d - 1"
  have date: "is_date (y, m, d)" and num: "day_number (y, m, d) = ?n"
    using date_of_number [of "nat (t div 86400)"] assms by simp_all
  note mon = gauss_month [OF date refl refl]
  have n: "gauss_days ?y + ?yday = ?n" using num by (simp split: if_splits)
  have days_bound: "0 \<le> t div 86400" "t div 86400 < 2 ^ 39" using assms(1,2) by simp_all
  then have y: "1 \<le> y" "y < 2 ^ 31" using date_of_year [OF assms(3)] by simp_all
  have year: "gm_year ?n = (?yday, ?y)"
    using gm_year_correct [of ?y ?n] mon(3,7) n y days_bound by simp
  have m: "1 \<le> m" "m \<le> 12" "1 \<le> d" "d \<le> 31" using date by (auto simp: month_days_def split: if_splits)
  have days: "u64 (t div 86400 - (31 + 28) + 719527) = ?n" "u64 (4 + t div 86400) = 4 + t div 86400" "u64 t = t"
    using assms(1,2) days_bound by simp_all
  have month: "s64 ((?yday + 31) * 10) div 306 = ?m" using mon(1,3,4) by simp
  have day: "u64 (?yday - (u64 (367 * ?m) div 12 - 30) + 1) = d" using mon(2,6) m by simp
  have c: "s32 (t div 3600 mod 24) = t div 3600 mod 24" "s32 (t div 60 mod 60) = t div 60 mod 60" "s32 (t mod 60) = t mod 60"
    "s32 d = d" "s32 m = m" "s32 y = y" "s32 ((4 + t div 86400) mod 7) = (4 + t div 86400) mod 7"
    using m y by (simp_all add: pos_mod_bound [THEN less_trans] pos_mod_sign [THEN order_trans [rotated]])
  have e: "(if ?yday \<ge> 306 then (u64 (?y + 1), u64 (?m - 10)) else (?y, u64 (?m + 2))) = (y, m)"
    using mon(5) m y by (simp split: if_splits)
  show ?thesis
    unfolding ngx_gmtime_def Let_def days year prod.case month day e time_of_day c ..
qed

theorem ngx_gmtime_calendar_witness:
  "date_of (nat (951782400 div 86400)) = (2000, 2, 29)
   \<and> ngx_gmtime 951782400 = \<lparr>tm_sec = 0, tm_min = 0, tm_hour = 0, tm_mday = 29, tm_mon = 2, tm_year = 2000, tm_wday = 2\<rparr>"
proof -
  have "is_date (2000, 2, 29)" "day_number (2000, 2, 29) = 719468 + int 11016"
    by (simp_all add: month_days_def leap_year_def gauss_days_def)
  then have "date_of (nat (951782400 div 86400)) = (2000, 2, 29)"
    using day_number_inj [OF date_of_number(1) [of 11016]] date_of_number(2) [of 11016] by simp
  then show ?thesis using ngx_gmtime_calendar [of 951782400 2000 2 29] by simp
qed

section \<open>The reader stays inside\<close>

lemma pt_at_some: "p < length v \<Longrightarrow> (\<And>c. k c \<noteq> None) \<Longrightarrow> pt_at v p k \<noteq> None"
  by (simp add: pt_at_def)

lemma pt_expect_some: "p < length v \<Longrightarrow> k \<noteq> None \<Longrightarrow> pt_expect v p c k \<noteq> None"
  by (simp add: pt_expect_def pt_at_def)

lemma pt_digits_some: "p + m \<le> length v \<Longrightarrow> (\<And>n. k n \<noteq> None) \<Longrightarrow> pt_digits v p m n k \<noteq> None"
proof (induction m arbitrary: p n)
  case (Suc m)
  then show ?case unfolding pt_digits.simps by (intro pt_at_some) simp_all
qed simp

lemma pt_month_some: "p + 3 \<le> length v \<Longrightarrow> (\<And>n. k n \<noteq> None) \<Longrightarrow> pt_month v p k \<noteq> None"
  unfolding pt_month_def by (simp add: pt_at_def)

lemma pt_clock_some: "p + 9 \<le> length v \<Longrightarrow> (\<And>h m s. k h m s \<noteq> None) \<Longrightarrow> pt_clock v p k \<noteq> None"
  unfolding pt_clock_def by (intro pt_expect_some pt_digits_some) simp_all

lemma pt_isoc_day_some: "p + 3 \<le> length v \<Longrightarrow> (\<And>d q. k d q \<noteq> None) \<Longrightarrow> pt_isoc_day v p k \<noteq> None"
  by (simp add: pt_isoc_day_def pt_at_def Let_def)

lemma pt_time_some: "pt_time day month year hour minute sec \<noteq> None"
  by (simp add: pt_time_def Let_def split: prod.split)

lemmas pt_some = pt_at_some pt_expect_some pt_digits_some pt_month_some pt_clock_some pt_isoc_day_some pt_time_some

lemma parse_http_time_inside: "ngx_parse_http_time v \<noteq> None"
proof -
  let ?p = "pt_start v"
  have clock: "pt_clock v q (\<lambda>hour minute sec. pt_expect v (q + 9) ch_space
      (pt_digits v (q + 10) 4 0 (\<lambda>year. pt_time day month year hour minute sec))) \<noteq> None"
    if "\<not> int (length v) - int q < 14" for q day month using that by (intro pt_some) linarith+
  have isoc: "pt_isoc v ?p \<noteq> None" if "?p + 18 \<le> length v"
    unfolding pt_isoc_def using that clock by (intro pt_some) simp_all
  have rfc822: "pt_rfc822 v q day \<noteq> None" for q day
  proof (cases "int (length v) - int q < 18")
    case False
    then have "pt_month v (q + 1) (\<lambda>month. pt_expect v (q + 4) ch_space (pt_digits v (q + 5) 4 0 (\<lambda>year.
        pt_clock v (q + 9) (\<lambda>hour minute sec. pt_time day month year hour minute sec)))) \<noteq> None"
      by (intro pt_some) linarith+
    then show ?thesis unfolding pt_rfc822_def using False by simp
  qed (simp add: pt_rfc822_def)
  have rfc850: "pt_rfc850 v (?p + 2) day \<noteq> None" if "?p + 18 \<le> length v" for day
    unfolding pt_rfc850_def using that by (intro pt_some) auto
  show ?thesis
  proof (cases "int (length v) - int ?p < 18")
    case False
    then have p: "?p + 18 \<le> length v" by linarith
    then have "pt_digits v ?p 2 0 (\<lambda>day. pt_at v (?p + 2) (\<lambda>ch. if ch = ch_space then pt_rfc822 v (?p + 2) day
        else if ch = ch_minus then pt_rfc850 v (?p + 2) day else Some NGX_ERROR)) \<noteq> None"
      using rfc822 rfc850 [OF p] by (intro pt_some) simp_all
    then show ?thesis unfolding ngx_parse_http_time_def Let_def using False isoc [OF p] by simp
  qed (simp add: ngx_parse_http_time_def Let_def)
qed

section \<open>What is written can be read\<close>

text \<open>The two digits of a number below a hundred.\<close>

definition two_digits :: "int \<Rightarrow> u_char list" where
  "two_digits n = [word_of_int (n div 10 + 48), word_of_int (n mod 10 + 48)]"

lemma sprintf_two:
  assumes "0 \<le> n" "n < 100" "20 \<le> room"
  shows "ngx_sprintf_num room (word_of_int n) ch_0 0 2 = two_digits n"
proof -
  have u: "unat (word_of_int n :: 64 word) = nat n" using assms(1,2) by (simp add: unat_eq_nat_uint uint_word_of_int take_bit_int_eq_self)
  have w: "word_of_nat k = (word_of_int (int k) :: u_char)" for k by simp
  show ?thesis
  proof (cases "n < 10")
    case True
    then have "print_decimal (nat n) = [word_of_int (n + 48)]" using assms(1) by (simp add: print_decimal_unroll(1))
    then show ?thesis using True assms by (simp add: sprintf_num_decimal u two_digits_def)
  next
    case False
    have "nat n div 10 = nat (n div 10)" "nat n mod 10 = nat (n mod 10)" using assms(1) by (simp_all add: nat_div_distrib nat_mod_distrib)
    moreover have "print_decimal (nat n) = print_decimal (nat n div 10) @ [word_of_nat (nat n mod 10) + ch_0]"
      using False by (intro print_decimal_unroll(2)) simp
    moreover have "print_decimal (nat n div 10) = [word_of_nat (nat n div 10) + ch_0]"
      using assms(2) by (intro print_decimal_unroll(1)) simp
    ultimately have "print_decimal (nat n) = two_digits n" using assms(1) by (simp add: two_digits_def)
    then show ?thesis using assms by (simp add: sprintf_num_decimal u two_digits_def)
  qed
qed

lemma sprintf_four:
  assumes "1000 \<le> n" "n < 10000" "20 \<le> room"
  shows "ngx_sprintf_num room (word_of_int n) z 0 4 = two_digits (n div 100) @ two_digits (n mod 100)"
proof -
  have u: "unat (word_of_int n :: 64 word) = nat n" using assms(1,2) by (simp add: unat_eq_nat_uint uint_word_of_int take_bit_int_eq_self)
  have d: "n div 100 div 10 = n div 1000" using zdiv_zmult2_eq [of 10 n 100] by simp
  have m: "n mod 100 div 10 = n div 10 mod 10" using mod_mult2_eq' [of n 10 10] by simp
  have m2: "n mod 100 mod 10 = n mod 10" by (rule mod_mod_cancel) simp
  have "two_digits (n div 100) @ two_digits (n mod 100) = map (\<lambda>x. word_of_int (x + 48)) [n div 1000, n div 100 mod 10, n div 10 mod 10, n mod 10]"
    unfolding two_digits_def d m m2 by simp
  also have "\<dots> = map (\<lambda>x. word_of_nat (nat x) + ch_0) [n div 1000, n div 100 mod 10, n div 10 mod 10, n mod 10]"
    using assms(1) by (intro list.map_cong0) auto
  also have "\<dots> = map (\<lambda>k. word_of_nat k + ch_0) [nat n div 1000, nat n div 100 mod 10, nat n div 10 mod 10, nat n mod 10]"
    using assms(1) by (simp add: nat_mod_distrib nat_div_distrib)
  also have "\<dots> = print_decimal (nat n)"
    using assms by (simp add: print_decimal_unroll div_mult2_eq [symmetric])
  finally have "print_decimal (nat n) = two_digits (n div 100) @ two_digits (n mod 100)" by (rule sym)
  then show ?thesis using assms by (simp add: sprintf_num_decimal u two_digits_def)
qed

lemma two_digits_read:
  assumes "0 \<le> n" "n < 100" "v ! p = two_digits n ! 0" "v ! (p + 1) = two_digits n ! 1" "p + 1 < length v"
  shows "pt_digits v p (Suc (Suc m)) acc k = pt_digits v (p + 2) m (n + 100 * acc) k"
proof -
  have b: "0 \<le> n div 10" "n div 10 < 10" "0 \<le> n mod 10" "n mod 10 < 10" using assms(1,2) by simp_all
  have w: "uint (word_of_int (x + 48) :: u_char) = x + 48 \<and> is_digit (word_of_int (x + 48))" if "0 \<le> x" "x < 10" for x
  proof -
    have "uint (word_of_int (x + 48) :: u_char) = x + 48" using that by (subst uint_word_of_int, intro mod_pos_pos_trivial) simp_all
    then show ?thesis using that by (simp add: is_digit_def word_le_def)
  qed
  have "n div 10 * 10 + n mod 10 = n" by simp
  then have "(acc * 10 + (n div 10 + 48) - 48) * 10 + (n mod 10 + 48) - 48 = n + 100 * acc" by (simp add: algebra_simps)
  then show ?thesis using w [OF b(1,2)] w [OF b(3,4)] assms(3-5) by (simp add: pt_at_def two_digits_def del: of_int_add)
qed

text \<open>The names of the days and of the months.\<close>

lemma week_name:
  assumes "0 \<le> n" "n < 7"
  obtains a b c where "week ! nat n = [a, b, c]" "\<forall>x\<in>{a, b, c}. x \<noteq> ch_comma \<and> x \<noteq> ch_space \<and> x \<noteq> ch_NUL"
proof -
  have "n \<in> {0, 1, 2, 3, 4, 5, 6}" using assms by simp presburger
  then show ?thesis using that by (auto simp: week_def)
qed

definition month_reads :: "u_char list \<Rightarrow> int \<Rightarrow> bool" where
  "month_reads name n \<longleftrightarrow> (\<forall>v p k. p + 2 < length v \<longrightarrow> v ! p = name ! 0 \<longrightarrow> v ! (p + 1) = name ! 1 \<longrightarrow> v ! (p + 2) = name ! 2
     \<longrightarrow> pt_month v p k = k n)"

lemma month_name:
  assumes "1 \<le> m" "m \<le> 12"
  obtains a b c where "months ! nat (m - 1) = [a, b, c]" "\<forall>x\<in>{a, b, c}. x \<noteq> ch_NUL" "month_reads [a, b, c] (m - 1)"
proof -
  have "m \<in> {1, 2, 3, 4, 5, 6, 7, 8, 9, 10, 11, 12}" using assms by (rule months_num)
  then show ?thesis using that by (elim insertE emptyE) (simp_all add: months_def month_reads_def pt_month_def pt_at_def)
qed

lemmas vs_simps = ngx_sprintf_def vs_directive_def vs_convert_def vs_string_def vs_int_def vs_signed_def is_digit_def

lemma http_time_text:
  assumes "\<forall>x\<in>{a, b, c, p, q, r}. x \<noteq> ch_NUL" "0 \<le> d" "d < 100" "1000 \<le> y" "y < 10000" "0 \<le> h" "h < 100" "0 \<le> mi" "mi < 100" "0 \<le> s" "s < 100"
  shows "ngx_sprintf (bytes ''%s, %02d %s %4d %02d:%02d:%02d GMT'')
      [Va_str [a, b, c], Va_int d, Va_str [p, q, r], Va_int y, Va_int h, Va_int mi, Va_int s]
    = Some ([a, b, c, ch_comma, ch_space] @ two_digits d @ [ch_space, p, q, r, ch_space] @ two_digits (y div 100) @ two_digits (y mod 100)
        @ [ch_space] @ two_digits h @ [ch_colon] @ two_digits mi @ [ch_colon] @ two_digits s @ bytes '' GMT'')"
proof -
  have l: "length (two_digits n) = 2" for n by (simp add: two_digits_def)
  show ?thesis using assms by (simp add: vs_simps sprintf_two sprintf_four l)
qed

lemma cookie_time_text:
  assumes "\<forall>x\<in>{a, b, c, p, q, r}. x \<noteq> ch_NUL" "0 \<le> d" "d < 100" "0 \<le> y" "y < 100" "0 \<le> h" "h < 100" "0 \<le> mi" "mi < 100" "0 \<le> s" "s < 100"
  shows "ngx_sprintf (bytes ''%s, %02d-%s-%02d %02d:%02d:%02d GMT'')
      [Va_str [a, b, c], Va_int d, Va_str [p, q, r], Va_int y, Va_int h, Va_int mi, Va_int s]
    = Some ([a, b, c, ch_comma, ch_space] @ two_digits d @ [ch_minus, p, q, r, ch_minus] @ two_digits y
        @ [ch_space] @ two_digits h @ [ch_colon] @ two_digits mi @ [ch_colon] @ two_digits s @ bytes '' GMT'')"
proof -
  have l: "length (two_digits n) = 2" for n by (simp add: two_digits_def)
  show ?thesis using assms by (simp add: vs_simps sprintf_two sprintf_four l)
qed

lemma read_two:
  assumes "0 \<le> n" "n < 100" "two_digits n = [d1, d2]" "v ! p = d1" "v ! (p + 1) = d2" "p + 1 < length v"
  shows "pt_digits v p 2 0 k = k n"
  using two_digits_read [of n v p 0 0 k] assms by (simp add: numeral_2_eq_2)

lemma read_four:
  assumes "0 \<le> n" "n < 10000" "two_digits (n div 100) = [d1, d2]" "two_digits (n mod 100) = [d3, d4]"
    "v ! p = d1" "v ! (p + 1) = d2" "v ! (p + 2) = d3" "v ! (p + 3) = d4" "p + 3 < length v"
  shows "pt_digits v p 4 0 k = k n"
proof -
  have "pt_digits v p (Suc (Suc (Suc (Suc 0)))) 0 k = pt_digits v (p + 2) (Suc (Suc 0)) (n div 100 + 100 * 0) k"
    using assms by (intro two_digits_read) simp_all
  also have "\<dots> = pt_digits v (p + 2 + 2) 0 (n mod 100 + 100 * (n div 100 + 100 * 0)) k"
    using assms by (intro two_digits_read) (simp_all add: numeral_3_eq_3)
  finally show ?thesis by (simp add: eval_nat_numeral)
qed

lemma digit_not_space: "0 \<le> n \<Longrightarrow> n < 100 \<Longrightarrow> two_digits n = [d1, d2] \<Longrightarrow> d1 \<noteq> ch_space"
proof
  assume "0 \<le> n" "n < 100" "two_digits n = [d1, d2]" "d1 = ch_space"
  then have "uint (word_of_int (n div 10 + 48) :: u_char) = uint ch_space" by (simp add: two_digits_def del: of_int_add)
  moreover have "uint (word_of_int (n div 10 + 48) :: u_char) = n div 10 + 48"
    using \<open>0 \<le> n\<close> \<open>n < 100\<close> by (subst uint_word_of_int, intro mod_pos_pos_trivial) simp_all
  moreover have "0 \<le> n div 10" using \<open>0 \<le> n\<close> by simp
  ultimately show False by simp
qed

lemma read_date:
  assumes "\<forall>x\<in>{a, b, c}. x \<noteq> ch_comma \<and> x \<noteq> ch_space" "0 \<le> d" "d < 100" "0 \<le> h" "h < 100" "0 \<le> mi" "mi < 100" "0 \<le> s" "s < 100"
    and "month_reads [p, q, r] m"
  shows "0 \<le> y \<Longrightarrow> y < 10000 \<Longrightarrow>
      ngx_parse_http_time ([a, b, c, ch_comma, ch_space] @ two_digits d @ [ch_space, p, q, r, ch_space] @ two_digits (y div 100)
        @ two_digits (y mod 100) @ [ch_space] @ two_digits h @ [ch_colon] @ two_digits mi @ [ch_colon] @ two_digits s @ bytes '' GMT'')
      = pt_time d m y h mi s"
    and "0 \<le> z \<Longrightarrow> z < 100 \<Longrightarrow>
      ngx_parse_http_time ([a, b, c, ch_comma, ch_space] @ two_digits d @ [ch_minus, p, q, r, ch_minus] @ two_digits z
        @ [ch_space] @ two_digits h @ [ch_colon] @ two_digits mi @ [ch_colon] @ two_digits s @ bytes '' GMT'')
      = pt_time d m (z + (if z < 70 then 2000 else 1900)) h mi s"
proof -
  have "\<exists>x y. two_digits n = [x, y]" for n by (simp add: two_digits_def)
  then obtain d1 d2 h1 h2 m1 m2 s1 s2 where t: "two_digits d = [d1, d2]" "two_digits h = [h1, h2]" "two_digits mi = [m1, m2]" "two_digits s = [s1, s2]"
    and two: "\<And>n. \<exists>x y. two_digits n = [x, y]" by metis
  have month: "i + 2 < length v \<Longrightarrow> v ! i = p \<Longrightarrow> v ! (i + 1) = q \<Longrightarrow> v ! (i + 2) = r \<Longrightarrow> pt_month v i k = k m" for v i k
    using assms(10) by (simp add: month_reads_def)
  have d1: "d1 \<noteq> ch_space" by (rule digit_not_space [OF assms(2,3) t(1)])
  show "ngx_parse_http_time ([a, b, c, ch_comma, ch_space] @ two_digits d @ [ch_space, p, q, r, ch_space] @ two_digits (y div 100)
        @ two_digits (y mod 100) @ [ch_space] @ two_digits h @ [ch_colon] @ two_digits mi @ [ch_colon] @ two_digits s @ bytes '' GMT'')
      = pt_time d m y h mi s" (is "ngx_parse_http_time ?v = _") if y: "0 \<le> y" "y < 10000"
  proof -
    obtain y1 y2 y3 y4 where ty: "two_digits (y div 100) = [y1, y2]" "two_digits (y mod 100) = [y3, y4]" using two by metis
    have f: "pt_first ?v = 3" "pt_start ?v = 5" using assms(1) d1 by (simp_all add: pt_first_def pt_start_def t ty)
    have "pt_rfc822 ?v 7 d = pt_time d m y h mi s"
      using assms(1-9) y by (simp add: pt_rfc822_def t ty month pt_expect_def pt_at_def pt_clock_def read_four [OF y ty] read_two [OF _ _ t(2)]
        read_two [OF _ _ t(3)] read_two [OF _ _ t(4)])
    then show ?thesis using f assms(1-9) by (simp add: ngx_parse_http_time_def Let_def t ty pt_at_def read_two [OF _ _ t(1)])
  qed
  show "ngx_parse_http_time ([a, b, c, ch_comma, ch_space] @ two_digits d @ [ch_minus, p, q, r, ch_minus] @ two_digits z
        @ [ch_space] @ two_digits h @ [ch_colon] @ two_digits mi @ [ch_colon] @ two_digits s @ bytes '' GMT'')
      = pt_time d m (z + (if z < 70 then 2000 else 1900)) h mi s" (is "ngx_parse_http_time ?v = _") if z: "0 \<le> z" "z < 100"
  proof -
    obtain z1 z2 where tz: "two_digits z = [z1, z2]" using two by metis
    have f: "pt_first ?v = 3" "pt_start ?v = 5" using assms(1) d1 by (simp_all add: pt_first_def pt_start_def t tz)
    have "pt_rfc850 ?v 7 d = pt_time d m (z + (if z < 70 then 2000 else 1900)) h mi s"
      using assms(1-9) z by (simp add: pt_rfc850_def t tz month pt_expect_def pt_at_def pt_clock_def read_two [OF z tz] read_two [OF _ _ t(2)]
        read_two [OF _ _ t(3)] read_two [OF _ _ t(4)])
    then show ?thesis using f assms(1-9) by (simp add: ngx_parse_http_time_def Let_def t tz pt_at_def read_two [OF _ _ t(1)])
  qed
qed

lemma date_range:
  assumes "date_of n = (y, m, d)"
  shows "1970 \<le> y" "n < 24837 \<Longrightarrow> y \<le> 2037" "n < 2932897 \<Longrightarrow> y \<le> 9999"
proof -
  define z where "z = (if m \<le> 2 then y - 1 else y)"
  define yday where "yday = 367 * (if m \<le> 2 then m + 10 else m - 2) div 12 - 30 + d - 1"
  have date: "is_date (y, m, d)" and num: "day_number (y, m, d) = 719468 + int n"
    using date_of_number [of n] assms by simp_all
  have e: "gauss_days z + yday = 719468 + int n" using num by (simp add: z_def yday_def split: if_splits)
  note g = gauss_month(3,5,7) [OF date refl yday_def, folded z_def]
  have "\<not> z \<le> 1968" using gauss_days_mono [of "z + 1" 1969] g(3) e by (auto simp: gauss_days_def [of 1969])
  moreover have "m \<le> 2 \<or> z \<noteq> 1969" using g(2) e by (auto simp: gauss_days_def [of 1969])
  ultimately show "1970 \<le> y" by (auto simp: z_def split: if_splits)
  have "\<not> 2038 \<le> z" "m \<le> 2 \<longrightarrow> \<not> 2037 \<le> z" if "n < 24837"
    using gauss_days_mono [of 2038 z] gauss_days_mono [of 2037 z] g(1,2) e that by (auto simp: gauss_days_def [of 2038] gauss_days_def [of 2037])
  then show "n < 24837 \<Longrightarrow> y \<le> 2037" by (auto simp: z_def split: if_splits)
  have "\<not> 10000 \<le> z" "m \<le> 2 \<longrightarrow> \<not> 9999 \<le> z" if "n < 2932897"
    using gauss_days_mono [of 10000 z] gauss_days_mono [of 9999 z] g(1,2) e that by (auto simp: gauss_days_def [of 10000] gauss_days_def [of 9999])
  then show "n < 2932897 \<Longrightarrow> y \<le> 9999" by (auto simp: z_def split: if_splits)
qed

lemma pt_time_date:
  assumes "date_of n = (y, m, d)" "n < 2932897" "0 \<le> h" "h < 24" "0 \<le> mi" "mi < 60" "0 \<le> s" "s < 60"
  shows "pt_time d (m - 1) y h mi s = Some (int n * 86400 + h * 3600 + mi * 60 + s)"
proof -
  have date: "is_date (y, m, d)" and num: "day_number (y, m, d) = 719468 + int n"
    using date_of_number [of n] assms(1) by simp_all
  have m: "m \<in> {1, 2, 3, 4, 5, 6, 7, 8, 9, 10, 11, 12}" using date by (intro months_num) auto
  have y: "1970 \<le> y" "y \<le> 9999" using date_range [OF assms(1)] assms(2) by simp_all
  define mm yy where d: "mm = (if m \<le> 2 then m + 10 else m - 2)" "yy = (if m \<le> 2 then y - 1 else y)"
  have 1: "(if d = 29 \<and> m - 1 = 1 then y mod 4 \<noteq> 0 \<or> y mod 100 = 0 \<and> y mod 400 \<noteq> 0 else d > mday ! nat (m - 1)) \<longleftrightarrow> False"
    using date m by (auto simp: month_days_def leap_year_def dvd_eq_mod_eq_0 mday_def split: if_splits)
  have 2: "(if m - 1 - 1 \<le> 0 then (m - 1 - 1 + 12, u64 (y - 1)) else (m - 1 - 1, y)) = (mm, yy)" using y by (simp add: d)
  have 3: "gauss_days yy + 367 * mm div 12 - 30 + d - 1 - 719527 + 31 + 28 = int n" using num by (simp add: d split: if_splits)
  have 4: "u64 (int n * 86400 + h * 3600 + mi * 60 + s) = int n * 86400 + h * 3600 + mi * 60 + s"
    "s64 (int n * 86400 + h * 3600 + mi * 60 + s) = int n * 86400 + h * 3600 + mi * 60 + s"
    using assms by simp_all
  have 5: "(h > 23 \<or> mi > 59 \<or> s > 59) \<longleftrightarrow> False" using assms by simp
  show ?thesis unfolding pt_time_def Let_def 1 2 5 prod.case 3 4 if_False ..
qed

lemma clock_parts:
  fixes t :: int
  assumes "0 \<le> t"
  shows "int (nat (t div 86400)) * 86400 + t div 3600 mod 24 * 3600 + t div 60 mod 60 * 60 + t mod 60 = t"
proof -
  have "86400 * (t div 86400) + t mod 86400 = t" by (rule mult_div_mod_eq)
  moreover have "t mod 86400 = 3600 * (t div 3600 mod 24) + t mod 3600" using mod_mult2_eq' [of t 3600 24] by simp
  moreover have "t mod 3600 = 60 * (t div 60 mod 60) + t mod 60" using mod_mult2_eq' [of t 60 60] by simp
  moreover have "int (nat (t div 86400)) = t div 86400" using assms by simp
  ultimately show ?thesis by linarith
qed

lemma clock_ranges:
  fixes t :: int
  shows "0 \<le> t div 3600 mod 24" "t div 3600 mod 24 < 24" "0 \<le> t div 60 mod 60" "t div 60 mod 60 < 60" "0 \<le> t mod 60" "t mod 60 < 60"
    "t div 3600 mod 24 < 100" "t div 60 mod 60 < 100" "t mod 60 < 100"
  by (simp_all add: pos_mod_bound [THEN less_trans])

lemma http_time_reads_back:
  "ngx_parse_http_time v \<noteq> None
   \<and> (0 \<le> t \<and> t < 253402300800 \<longrightarrow>
        (\<exists>out. ngx_http_time t = Some out \<and> length out = 29 \<and> ngx_parse_http_time out = Some t))
   \<and> (0 \<le> t \<and> t < 2145916800 \<longrightarrow>
        (\<exists>out. ngx_http_cookie_time t = Some out \<and> length out = 27 \<and> ngx_parse_http_time out = Some t))"
proof (intro conjI impI)
  show "ngx_parse_http_time v \<noteq> None" by (rule parse_http_time_inside)
  define h mi s where hms: "h = t div 3600 mod 24" "mi = t div 60 mod 60" "s = t mod 60"
  note c = clock_ranges [of t, folded hms]
  obtain y m d where date: "date_of (nat (t div 86400)) = (y, m, d)" by (metis prod_cases3)
  have "is_date (y, m, d)" using date_of_number(1) [of "nat (t div 86400)"] date by simp
  then have m: "1 \<le> m" "m \<le> 12" and d: "0 \<le> d" "d < 100" by (auto simp: month_days_def split: if_splits)
  obtain a b e where w: "week ! nat ((4 + t div 86400) mod 7) = [a, b, e]" "\<forall>x\<in>{a, b, e}. x \<noteq> ch_comma \<and> x \<noteq> ch_space \<and> x \<noteq> ch_NUL"
    by (rule week_name [of "(4 + t div 86400) mod 7"]) simp_all
  obtain p q r where mo: "months ! nat (m - 1) = [p, q, r]" "\<forall>x\<in>{p, q, r}. x \<noteq> ch_NUL" "month_reads [p, q, r] (m - 1)"
    using month_name [OF m] by blast
  have z: "\<forall>x\<in>{a, b, e, p, q, r}. x \<noteq> ch_NUL" "\<forall>x\<in>{a, b, e}. x \<noteq> ch_comma \<and> x \<noteq> ch_space" using w(2) mo(2) by auto
  have l: "length (two_digits k) = 2" for k by (simp add: two_digits_def)
  note read = read_date [OF z(2) d c(1,7,3,8,5,9) mo(3)]
  have time: "pt_time d (m - 1) y h mi s = Some t" if "0 \<le> t" "nat (t div 86400) < 2932897"
    using pt_time_date [OF date that(2) c(1-6)] clock_parts [OF that(1), folded hms] by simp
  show "\<exists>out. ngx_http_time t = Some out \<and> length out = 29 \<and> ngx_parse_http_time out = Some t" if b: "0 \<le> t \<and> t < 253402300800"
  proof -
    have "t div 86400 < 2932897" using b mult_div_mod_eq [of 86400 t] pos_mod_sign [of 86400 t] by linarith
    then have n: "nat (t div 86400) < 2932897" by linarith
    then have y: "1000 \<le> y" "y < 10000" "0 \<le> y" using date_range [OF date] by simp_all
    have "ngx_gmtime t = \<lparr>tm_sec = s, tm_min = mi, tm_hour = h, tm_mday = d, tm_mon = m, tm_year = y, tm_wday = (4 + t div 86400) mod 7\<rparr>"
      unfolding hms using b by (intro ngx_gmtime_calendar [OF _ _ date]) simp_all
    then show ?thesis using http_time_text [OF z(1) d y(1,2) c(1,7,3,8,5,9)] read(1) [OF y(3,2)] time n b w(1) mo(1)
      by (simp add: ngx_http_time_def l)
  qed
  show "\<exists>out. ngx_http_cookie_time t = Some out \<and> length out = 27 \<and> ngx_parse_http_time out = Some t" if b: "0 \<le> t \<and> t < 2145916800"
  proof -
    have "t div 86400 < 24837" using b mult_div_mod_eq [of 86400 t] pos_mod_sign [of 86400 t] by linarith
    then have n: "nat (t div 86400) < 24837" by linarith
    then have y: "1970 \<le> y" "y \<le> 2037" using date_range [OF date] by simp_all
    have y2: "y mod 100 + (if y mod 100 < 70 then 2000 else 1900) = y" "0 \<le> y mod 100" "y mod 100 < 100"
    proof -
      have "y div 100 = 19 \<or> y div 100 = 20" using y by auto
      then have "y mod 100 = y - 1900 \<and> y < 2000 \<or> y mod 100 = y - 2000 \<and> 2000 \<le> y"
        using mult_div_mod_eq [of 100 y] pos_mod_sign [of 100 y] pos_mod_bound [of 100 y] by linarith
      then show "y mod 100 + (if y mod 100 < 70 then 2000 else 1900) = y" using y by auto
    qed simp_all
    have "ngx_gmtime t = \<lparr>tm_sec = s, tm_min = mi, tm_hour = h, tm_mday = d, tm_mon = m, tm_year = y, tm_wday = (4 + t div 86400) mod 7\<rparr>"
      unfolding hms using b by (intro ngx_gmtime_calendar [OF _ _ date]) simp_all
    then show ?thesis using cookie_time_text [OF z(1) d y2(2,3) c(1,7,3,8,5,9)] read(2) [OF y2(2,3)] time n b w(1) mo(1) y(2) y2(1)
      by (simp add: ngx_http_cookie_time_def l)
  qed
qed

text \<open>
  C34: HTTP dates. The reader never reads outside of the value, whatever it is. A time of the years 1970 to 9999 that is
  written as an HTTP date, in 29 bytes, is read back as the same time, and so is a time up to the year 2037 that is
  written as a cookie date with a year of two digits.
\<close>

theorem ngx_http_time_roundtrip:
  "ngx_parse_http_time v \<noteq> None
   \<and> (0 \<le> t \<and> t < 253402300800 \<longrightarrow>
        (\<exists>out. ngx_http_time t = Some out \<and> length out = 29 \<and> ngx_parse_http_time out = Some t))
   \<and> (0 \<le> t \<and> t < 2145916800 \<longrightarrow>
        (\<exists>out. ngx_http_cookie_time t = Some out \<and> length out = 27 \<and> ngx_parse_http_time out = Some t))"
  by (rule http_time_reads_back)

theorem ngx_http_time_roundtrip_witness:
  "(\<exists>out. ngx_http_time 784111777 = Some out \<and> length out = 29 \<and> ngx_parse_http_time out = Some 784111777)
   \<and> (\<exists>out. ngx_http_cookie_time 784111777 = Some out \<and> ngx_parse_http_time out = Some 784111777)
   \<and> ngx_parse_http_time (bytes ''Sun Nov  6 08:49:37 1994'') = Some 784111777"
proof -
  have "ngx_parse_http_time (bytes ''Sun Nov  6 08:49:37 1994'') = Some 784111777"
    by code_simp
  then show ?thesis using ngx_http_time_roundtrip [of "[]" 784111777] by auto
qed

text \<open>A date with the day zero is accepted, as the last day of the month before.\<close>

lemma http_time_day_zero:
  "ngx_parse_http_time (bytes ''Fri, 00 Jan 2000 00:00:00 GMT'') = ngx_parse_http_time (bytes ''Fri, 31 Dec 1999 00:00:00 GMT'')"
  by code_simp

end
