(* ===== verification/Ngx_Http_Output.thy ===== *)
theory Ngx_Http_Output
  imports Ngx_Times
begin

text \<open>
  What the output filters share: the part of \<^verbatim>\<open>ngx_http_request_t\<close> and of its \<^verbatim>\<open>headers_in\<close> and \<^verbatim>\<open>headers_out\<close> that they
  read and write (\<^verbatim>\<open>http/ngx_http_request.h\<close>), the buffers of a response (\<^verbatim>\<open>core/ngx_buf.h\<close>), and the two string
  comparisons they call (\<^verbatim>\<open>core/ngx_string.c\<close> and \<^verbatim>\<open>strncmp\<close>). A header that the code pushes to the list of response
  headers and keeps a pointer to is the optional value of that pointer; an entry whose \<^verbatim>\<open>hash\<close> is set to 0 and whose pointer
  is set to \<^verbatim>\<open>NULL\<close> is \<open>None\<close>, as it is not sent. Allocation succeeds.
\<close>

section \<open>Requests\<close>

abbreviation (input) NGX_HTTP_VERSION_10 :: nat where "NGX_HTTP_VERSION_10 \<equiv> 1000"
abbreviation (input) NGX_HTTP_OK :: int where "NGX_HTTP_OK \<equiv> 200"
abbreviation (input) NGX_HTTP_PARTIAL_CONTENT :: int where "NGX_HTTP_PARTIAL_CONTENT \<equiv> 206"
abbreviation (input) NGX_HTTP_NOT_MODIFIED :: int where "NGX_HTTP_NOT_MODIFIED \<equiv> 304"
abbreviation (input) NGX_HTTP_PRECONDITION_FAILED :: int where "NGX_HTTP_PRECONDITION_FAILED \<equiv> 412"
abbreviation (input) NGX_HTTP_RANGE_NOT_SATISFIABLE :: int where "NGX_HTTP_RANGE_NOT_SATISFIABLE \<equiv> 416"

record headers_in_t =
  in_range :: "ngx_str_t option"
  in_if_range :: "ngx_str_t option"
  in_if_modified_since :: "ngx_str_t option"
  in_if_unmodified_since :: "ngx_str_t option"
  in_if_match :: "ngx_str_t option"
  in_if_none_match :: "ngx_str_t option"

record headers_out_t =
  out_status :: int
  out_status_line :: ngx_str_t
  out_content_length_n :: int
  out_content_length :: "ngx_str_t option"
  out_content_encoding :: "ngx_str_t option"
  out_content_range :: "ngx_str_t option"
  out_accept_ranges :: "ngx_str_t option"
  out_etag :: "ngx_str_t option"
  out_last_modified_time :: int
  out_content_offset :: int
  out_content_type :: ngx_str_t
  out_content_type_len :: nat
  out_content_type_lowcase :: "ngx_str_t option"
  out_charset :: ngx_str_t

text \<open>\<open>re_main\<close> is \<^verbatim>\<open>r == r->main\<close>.\<close>

record response_t =
  re_main :: bool
  re_http_version :: nat
  re_subrequest_ranges :: bool
  re_allow_ranges :: bool
  re_single_range :: bool
  re_disable_not_modified :: bool
  re_headers_in :: headers_in_t
  re_headers_out :: headers_out_t

text \<open>How a header filter ends: with the next filter, with a code, or with a request that is finalised.\<close>

datatype filter_exit = Next_filter | Return_code int | Finalize int

definition ngx_http_clear_content_length :: "headers_out_t \<Rightarrow> headers_out_t" where
  "ngx_http_clear_content_length h = h\<lparr>out_content_length_n := - 1, out_content_length := None\<rparr>"

section \<open>Strings\<close>

text \<open>A header value ends in a zero byte, which is what the code reads at its end.\<close>

fun peek :: "u_char list \<Rightarrow> u_char" where
  "peek [] = ch_NUL"
| "peek (c # p) = c"

definition cmp_lower :: "u_char \<Rightarrow> u_char" where
  "cmp_lower c = (if c \<ge> ch_A \<and> c \<le> ch_Z then c OR 0x20 else c)"

fun ngx_strncasecmp :: "u_char list \<Rightarrow> u_char list \<Rightarrow> nat \<Rightarrow> int" where
  "ngx_strncasecmp s1 s2 0 = 0"
| "ngx_strncasecmp s1 s2 (Suc n) =
     (let c1 = cmp_lower (peek s1); c2 = cmp_lower (peek s2) in
      if c1 = c2 then if c1 \<noteq> 0 then ngx_strncasecmp (tl s1) (tl s2) n else 0
      else uint c1 - uint c2)"

text \<open>The test \<^verbatim>\<open>ngx_strncmp(s1, s2, n) == 0\<close>.\<close>

fun strncmp_eq :: "u_char list \<Rightarrow> u_char list \<Rightarrow> nat \<Rightarrow> bool" where
  "strncmp_eq s1 s2 0 = True"
| "strncmp_eq s1 s2 (Suc n) =
     (peek s1 = peek s2 \<and> (peek s1 = ch_NUL \<or> strncmp_eq (tl s1) (tl s2) n))"

lemma strncmp_eq_take:
  "list_all (\<lambda>c. c \<noteq> ch_NUL) s2 \<Longrightarrow> strncmp_eq s1 s2 (length s2) \<longleftrightarrow> take (length s2) s1 = s2"
proof (induction s2 arbitrary: s1)
  case (Cons c s2)
  then show ?case by (cases s1) auto
qed simp

section \<open>Buffers\<close>

text \<open>
  \<open>bf_mem\<close> is the memory that \<^verbatim>\<open>pos\<close> and \<^verbatim>\<open>last\<close> point into and \<open>bf_file\<close> the file that \<^verbatim>\<open>file_pos\<close> and \<^verbatim>\<open>file_last\<close> are
  offsets of.
\<close>

record ngx_out_buf_t =
  bf_mem :: "u_char list"
  bf_pos :: int
  bf_last :: int
  bf_file :: "u_char list"
  bf_file_pos :: int
  bf_file_last :: int
  bf_temporary :: bool
  bf_memory :: bool
  bf_mmap :: bool
  bf_in_file :: bool
  bf_flush :: bool
  bf_sync :: bool
  bf_last_buf :: bool
  bf_last_in_chain :: bool

definition ngx_calloc_buf :: ngx_out_buf_t where
  "ngx_calloc_buf = \<lparr>bf_mem = [], bf_pos = 0, bf_last = 0, bf_file = [], bf_file_pos = 0, bf_file_last = 0,
     bf_temporary = False, bf_memory = False, bf_mmap = False, bf_in_file = False, bf_flush = False, bf_sync = False,
     bf_last_buf = False, bf_last_in_chain = False\<rparr>"

definition ngx_buf_in_memory :: "ngx_out_buf_t \<Rightarrow> bool" where
  "ngx_buf_in_memory b \<longleftrightarrow> bf_temporary b \<or> bf_memory b \<or> bf_mmap b"

definition ngx_buf_special :: "ngx_out_buf_t \<Rightarrow> bool" where
  "ngx_buf_special b \<longleftrightarrow> (bf_flush b \<or> bf_last_buf b \<or> bf_sync b) \<and> \<not> ngx_buf_in_memory b \<and> \<not> bf_in_file b"

definition ngx_buf_size :: "ngx_out_buf_t \<Rightarrow> int" where
  "ngx_buf_size b = (if ngx_buf_in_memory b then bf_last b - bf_pos b else bf_file_last b - bf_file_pos b)"

text \<open>
  The bytes between two offsets; the data of a buffer, which is in memory, in a file or in neither; and the buffers whose
  offsets are right: both copies of the data, when there are two, are the same.
\<close>

definition span :: "int \<Rightarrow> int \<Rightarrow> u_char list \<Rightarrow> u_char list" where
  "span a b xs = take (nat (b - a)) (drop (nat a) xs)"

definition mem_bytes :: "ngx_out_buf_t \<Rightarrow> u_char list" where
  "mem_bytes b = span (bf_pos b) (bf_last b) (bf_mem b)"

definition file_bytes :: "ngx_out_buf_t \<Rightarrow> u_char list" where
  "file_bytes b = span (bf_file_pos b) (bf_file_last b) (bf_file b)"

definition buf_bytes :: "ngx_out_buf_t \<Rightarrow> u_char list" where
  "buf_bytes b = (if ngx_buf_in_memory b then mem_bytes b else if bf_in_file b then file_bytes b else [])"

definition buf_ok :: "ngx_out_buf_t \<Rightarrow> bool" where
  "buf_ok b \<longleftrightarrow>
     (ngx_buf_in_memory b \<longrightarrow> 0 \<le> bf_pos b \<and> bf_pos b \<le> bf_last b \<and> bf_last b \<le> int (length (bf_mem b)))
   \<and> (bf_in_file b \<longrightarrow> 0 \<le> bf_file_pos b \<and> bf_file_pos b \<le> bf_file_last b \<and> bf_file_last b \<le> int (length (bf_file b)))
   \<and> (ngx_buf_in_memory b \<and> bf_in_file b \<longrightarrow> mem_bytes b = file_bytes b)
   \<and> (\<not> ngx_buf_in_memory b \<and> \<not> bf_in_file b \<longrightarrow> ngx_buf_special b \<and> bf_file_pos b = bf_file_last b)"

lemma span_length: "0 \<le> a \<Longrightarrow> a \<le> b \<Longrightarrow> b \<le> int (length xs) \<Longrightarrow> int (length (span a b xs)) = b - a"
  by (simp add: span_def)

lemma span_span:
  assumes "0 \<le> a" "0 \<le> i" "i \<le> j" "j \<le> b - a"
  shows "span i j (span a b xs) = span (a + i) (a + j) xs"
proof -
  have "nat (b - a) = nat (j - i) + nat i + nat (b - a - j)" "nat (a + i) = nat i + nat a" using assms by simp_all
  then show ?thesis by (simp add: span_def drop_take min_def)
qed

lemma span_all: "span 0 (int (length xs)) xs = xs"
  by (simp add: span_def)

lemma span_append:
  assumes "0 \<le> a" "a \<le> b" "b \<le> c"
  shows "span a c xs = span a b xs @ span b c xs"
proof -
  have "nat (c - a) = nat (b - a) + nat (c - b)" "nat b = nat (b - a) + nat a" using assms by simp_all
  then show ?thesis by (simp add: span_def take_add add.commute)
qed

text \<open>The size of a buffer is the number of its bytes.\<close>

lemma buf_bytes_length: "buf_ok b \<Longrightarrow> int (length (buf_bytes b)) = ngx_buf_size b"
  by (auto simp: buf_ok_def buf_bytes_def ngx_buf_size_def mem_bytes_def file_bytes_def span_length)

definition chain_bytes :: "ngx_out_buf_t list \<Rightarrow> u_char list" where
  "chain_bytes bs = concat (map buf_bytes bs)"

lemma chain_bytes_simps [simp]:
  "chain_bytes [] = []" "chain_bytes (b # bs) = buf_bytes b @ chain_bytes bs" "chain_bytes (xs @ ys) = chain_bytes xs @ chain_bytes ys"
  by (simp_all add: chain_bytes_def)

section \<open>Formats\<close>

text \<open>What a format prints when there is room for the longest number after it.\<close>

definition prints :: "u_char list \<Rightarrow> va_arg list \<Rightarrow> u_char list \<Rightarrow> bool" where
  "prints fmt args out \<longleftrightarrow> (\<forall>room. length out + 21 \<le> room \<longrightarrow> ngx_vslprintf room fmt args = Some out)"

lemma prints_Nil: "prints [] args []"
  by (simp add: prints_def)

lemma prints_char: "c \<noteq> ch_percent \<Longrightarrow> prints (c # fmt) args (c # out) \<longleftrightarrow> prints fmt args out"
proof
  assume c: "c \<noteq> ch_percent" and p: "prints (c # fmt) args (c # out)"
  have "ngx_vslprintf (Suc room) (c # fmt) args = Some (c # out)" if "length out + 21 \<le> room" for room
    using p that unfolding prints_def by (drule_tac x = "Suc room" in spec) simp
  with c show "prints fmt args out" by (simp add: prints_def)
qed (simp add: prints_def)

text \<open>A signed number.\<close>

definition print_int :: "int \<Rightarrow> u_char list" where
  "print_int i = (if i < 0 then ch_minus # print_decimal (nat (- i)) else print_decimal (nat i))"

text \<open>\<^verbatim>\<open>NGX_OFF_T_LEN\<close> is the length of the longest one.\<close>

lemma print_int_length:
  assumes "- (2 ^ 63) \<le> i" "i < 2 ^ 63"
  shows "length (print_int i) \<le> 20"
proof -
  have "length (print_decimal n) \<le> Suc 18" if "n \<le> 2 ^ 63" for n :: nat
    using that by (intro print_decimal_length) simp
  then have "length (print_decimal (nat (if i < 0 then - i else i))) \<le> 19" using assms by simp
  then show ?thesis by (auto simp: print_int_def split: if_splits)
qed

lemma prints_directive:
  assumes "\<And>room. length out + 21 \<le> room \<Longrightarrow> vs_directive room (d @ fmt) (a # args) = Some (out, fmt, args)" "prints fmt args rest"
  shows "prints (ch_percent # d @ fmt) (a # args) (out @ rest)"
  using assms by (simp add: prints_def)

lemma prints_V: "prints fmt args out \<Longrightarrow> prints (ch_percent # of_char CHR ''V'' # fmt) (Va_str v # args) (v @ out)"
  using prints_directive [of v "[of_char CHR ''V'']" fmt "Va_str v" args out]
  by (simp add: vs_directive_def vs_convert_def is_digit_def)

lemma prints_O:
  assumes "- (2 ^ 63) \<le> i" "i < 2 ^ 63" "prints fmt args out"
  shows "prints (ch_percent # of_char CHR ''O'' # fmt) (Va_int i # args) (print_int i @ out)"
proof (rule prints_directive [of "print_int i" "[of_char CHR ''O'']" fmt "Va_int i" args out, simplified append_Cons append_Nil, OF _ assms(3)])
  fix room assume "length (print_int i) + 21 \<le> room"
  moreover have "unat (word_of_int j :: 64 word) = nat j" if "0 \<le> j" "j \<le> 2 ^ 63" for j :: int
    using that by (simp add: unsigned_of_int take_bit_int_eq_self)
  ultimately show "vs_directive room (of_char CHR ''O'' # fmt) (Va_int i # args) = Some (print_int i, fmt, args)"
    using assms by (simp add: vs_directive_def vs_convert_def is_digit_def vs_int_def vs_signed_def print_int_def sprintf_num_decimal
        del: of_int_minus word_of_int_minus)
qed

definition print_atomic :: "64 word \<Rightarrow> u_char list" where
  "print_atomic w = replicate (20 - length (print_decimal (unat w))) ch_0 @ print_decimal (unat w)"

lemma print_atomic_length: "length (print_atomic w) = 20"
proof -
  have "unat w < 2 ^ LENGTH(64)" by (rule unsigned_less)
  then have "unat w < 10 ^ Suc 19" by simp
  from print_decimal_length [OF this] show ?thesis by (simp add: print_atomic_def)
qed

lemma prints_0muA:
  assumes "prints fmt args out"
  shows "prints (ch_percent # ch_0 # of_char CHR ''m'' # of_char CHR ''u'' # of_char CHR ''A'' # fmt) (Va_uint w # args) (print_atomic w @ out)"
proof -
  have "vs_directive room (ch_0 # of_char CHR ''m'' # of_char CHR ''u'' # of_char CHR ''A'' # fmt) (Va_uint w # args)
      = Some (print_atomic w, fmt, args)" if "length (print_atomic w) + 21 \<le> room" for room
    using that by (simp add: vs_directive_def vs_convert_def is_digit_def vs_int_def vs_unsigned_def sprintf_num_decimal print_atomic_def)
  then show ?thesis
    using prints_directive [of "print_atomic w" "[ch_0, of_char CHR ''m'', of_char CHR ''u'', of_char CHR ''A'']" fmt "Va_uint w" args out] assms by simp
qed

lemmas prints_simps = prints_Nil prints_char prints_V [simplified] prints_O [simplified] prints_0muA [simplified]
  prints_V [OF prints_Nil, simplified] prints_O [OF _ _ prints_Nil, simplified] prints_0muA [OF prints_Nil, simplified]

lemma sprintf_prints: "prints fmt args out \<Longrightarrow> length out < 2 ^ 62 \<Longrightarrow> ngx_sprintf fmt args = Some out"
  by (simp add: prints_def ngx_sprintf_def)

end
