(* ===== verification/Ngx_Http_Range.thy ===== *)
theory Ngx_Http_Range
  imports Ngx_Http_Output
begin

text \<open>
  The header half of the range filter, \<^verbatim>\<open>http/modules/ngx_http_range_filter_module.c\<close>: the reader of the header \<^verbatim>\<open>Range\<close> and
  the header filter that turns a response into one or several parts. Numbers are those of the 64-bit type \<^verbatim>\<open>off_t\<close>,
  with their sums wrapped by \<open>s64\<close>. The first properties are about the reader: it accepts exactly the lists it should, and
  what it accepts lies within the response as long as the sum of the sizes does not overflow, which is the condition under
  which its only test of the total is one.
\<close>

section \<open>The header Range\<close>

record ngx_http_range_t =
  range_start :: int
  range_end :: int
  range_content_range :: ngx_str_t

definition rg_spaces :: "u_char list \<Rightarrow> u_char list" where
  "rg_spaces p = dropWhile (\<lambda>c. c = ch_space) p"

text \<open>The digits of a number; \<open>None\<close> when it does not fit.\<close>

fun rg_digits :: "int \<Rightarrow> u_char list \<Rightarrow> (int \<times> u_char list) option" where
  "rg_digits n [] = Some (n, [])"
| "rg_digits n (c # p) =
     (if is_digit c then
        if n \<ge> NGX_MAX_OFF_T_VALUE div 10 \<and> (n > NGX_MAX_OFF_T_VALUE div 10 \<or> uint c - 48 > NGX_MAX_OFF_T_VALUE mod 10) then None
        else rg_digits (s64 (n * 10 + uint c - 48)) p
      else Some (n, c # p))"

text \<open>The second number of a range, or the only one of a suffix; the result is the range and what follows it.\<close>

definition rg_last :: "int \<Rightarrow> bool \<Rightarrow> int \<Rightarrow> u_char list \<Rightarrow> (int \<times> int \<times> u_char list) option" where
  "rg_last content_length suffix start p =
     (if \<not> is_digit (peek p) then None
      else case rg_digits 0 p of
        None \<Rightarrow> None
      | Some (end', p) \<Rightarrow>
          let p = rg_spaces p in
          if peek p \<noteq> ch_comma \<and> peek p \<noteq> ch_NUL then None
          else
            let (start, end') = (if suffix then (s64 (content_length - end'), s64 (content_length - 1)) else (start, end'));
                end' = (if end' \<ge> content_length then content_length else s64 (end' + 1))
            in Some (start, end', p))"

text \<open>One range of the list.\<close>

definition rg_one :: "int \<Rightarrow> u_char list \<Rightarrow> (int \<times> int \<times> u_char list) option" where
  "rg_one content_length p =
     (let p = rg_spaces p in
      if peek p \<noteq> ch_minus then
        if \<not> is_digit (peek p) then None
        else case rg_digits 0 p of
          None \<Rightarrow> None
        | Some (start, p) \<Rightarrow>
            let p = rg_spaces p in
            if peek p \<noteq> ch_minus then None
            else
              let p = rg_spaces (tl p) in
              if peek p = ch_comma \<or> peek p = ch_NUL then Some (start, content_length, p)
              else rg_last content_length False start p
      else rg_last content_length True 0 (tl p))"

lemma rg_spaces_length: "length (rg_spaces p) \<le> length p"
  by (simp add: rg_spaces_def length_dropWhile_le)

lemma rg_digits_length: "rg_digits n p = Some (n', p') \<Longrightarrow> length p' \<le> length p"
  by (induction n p rule: rg_digits.induct) (auto split: if_splits)

lemma rg_last_length: "rg_last l suffix start p = Some (a, b, p') \<Longrightarrow> length p' \<le> length p"
  using rg_spaces_length by (fastforce simp: rg_last_def Let_def dest!: rg_digits_length split: if_splits option.splits intro: le_trans)

lemma rg_one_length:
  assumes "rg_one l p = Some (a, b, p')"
  shows "length p' \<le> length p"
proof -
  let ?q = "rg_spaces p"
  have q: "length ?q \<le> length p" by (rule rg_spaces_length)
  show ?thesis
  proof (cases "peek ?q = ch_minus")
    case True
    with assms have "rg_last l True 0 (tl ?q) = Some (a, b, p')" by (simp add: rg_one_def Let_def)
    from rg_last_length [OF this] q show ?thesis by simp
  next
    case False
    with assms obtain n p1 where d: "rg_digits 0 ?q = Some (n, p1)"
      by (auto simp: rg_one_def Let_def split: if_splits option.splits)
    let ?t = "rg_spaces (tl (rg_spaces p1))"
    have "p' = ?t \<or> rg_last l False n ?t = Some (a, b, p')"
      using assms False d by (auto simp: rg_one_def Let_def split: if_splits)
    then have "length p' \<le> length ?t" by (auto dest: rg_last_length)
    then show ?thesis
      using q rg_digits_length [OF d] rg_spaces_length [of p1] rg_spaces_length [of "tl (rg_spaces p1)"] by simp
  qed
qed

lemma rg_comma_length: "rg_one l p = Some (a, b, q) \<Longrightarrow> peek q = ch_comma \<Longrightarrow> length q - Suc 0 < length p"
  using rg_one_length [of l p a b q] by (cases q) auto

text \<open>The loop over the list, with the ranges so far, the number still allowed and the sum of their sizes.\<close>

function rg_loop :: "int \<Rightarrow> ngx_http_range_t list \<Rightarrow> nat \<Rightarrow> int \<Rightarrow> u_char list \<Rightarrow> int \<times> ngx_http_range_t list" where
  "rg_loop content_length rs ranges sz p =
     (case rg_one content_length p of
        None \<Rightarrow> (NGX_HTTP_RANGE_NOT_SATISFIABLE, rs)
      | Some (start, end', p) \<Rightarrow>
          let (rs, sz, declined, ranges) =
                (if start < end' then
                   (rs @ [\<lparr>range_start = start, range_end = end', range_content_range = []\<rparr>], s64 (sz + s64 (end' - start)), ranges = 0, ranges - 1)
                 else (rs, sz, False, ranges))
          in if declined then (NGX_DECLINED, rs)
             else if peek p = ch_comma then rg_loop content_length rs ranges sz (tl p)
             else if rs = [] then (NGX_HTTP_RANGE_NOT_SATISFIABLE, rs)
             else if sz > content_length then (NGX_DECLINED, rs)
             else (NGX_OK, rs))"
  by pat_completeness auto
termination
  by (relation "measure (\<lambda>(l, rs, ranges, sz, p). length p)") (auto dest: rg_comma_length split: if_splits)

declare rg_loop.simps [simp del]

text \<open>\<open>mctx\<close> are the ranges of the main request, when this is a subrequest and they are set.\<close>

definition ngx_http_range_parse :: "ngx_http_range_t list option \<Rightarrow> int \<Rightarrow> ngx_str_t \<Rightarrow> nat \<Rightarrow> int \<times> ngx_http_range_t list" where
  "ngx_http_range_parse mctx content_length hdr ranges =
     (case mctx of
        Some rs \<Rightarrow> (NGX_OK, rs)
      | None \<Rightarrow> rg_loop content_length [] ranges 0 (drop 6 hdr))"

section \<open>The header filter\<close>

record ngx_http_range_filter_ctx_t =
  rf_offset :: int
  rf_boundary_header :: ngx_str_t
  rf_ranges :: "ngx_http_range_t list"

text \<open>The formats below take arguments of their own types, so that the formatter returns.\<close>

definition rg_sprintf :: "u_char list \<Rightarrow> va_arg list \<Rightarrow> u_char list" where
  "rg_sprintf fmt args = (case ngx_sprintf fmt args of None \<Rightarrow> [] | Some out \<Rightarrow> out)"

definition ngx_http_range_singlepart_header :: "response_t \<Rightarrow> ngx_http_range_filter_ctx_t \<Rightarrow> response_t" where
  "ngx_http_range_singlepart_header r ctx =
     (if \<not> re_main r then r
      else
        let h = re_headers_out r; g = hd (rf_ranges ctx) in
        r\<lparr>re_headers_out := h\<lparr>
            out_content_range := Some (rg_sprintf (bytes ''bytes %O-%O/%O'')
              [Va_int (range_start g), Va_int (s64 (range_end g - 1)), Va_int (out_content_length_n h)]),
            out_content_length_n := s64 (range_end g - range_start g), out_content_offset := range_start g,
            out_content_length := None\<rparr>\<rparr>)"

text \<open>The header of a part up to its range, by the type and the character set of the response.\<close>

definition range_boundary_header :: "64 word \<Rightarrow> headers_out_t \<Rightarrow> ngx_str_t" where
  "range_boundary_header boundary h =
     (if out_content_type_len h = length (out_content_type h) \<and> out_charset h \<noteq> [] then
        rg_sprintf ([CR, LF] @ bytes ''--%0muA'' @ [CR, LF] @ bytes ''Content-Type: %V; charset=%V'' @ [CR, LF] @ bytes ''Content-Range: bytes '')
          [Va_uint boundary, Va_str (out_content_type h), Va_str (out_charset h)]
      else if out_content_type h \<noteq> [] then
        rg_sprintf ([CR, LF] @ bytes ''--%0muA'' @ [CR, LF] @ bytes ''Content-Type: %V'' @ [CR, LF] @ bytes ''Content-Range: bytes '')
          [Va_uint boundary, Va_str (out_content_type h)]
      else rg_sprintf ([CR, LF] @ bytes ''--%0muA'' @ [CR, LF] @ bytes ''Content-Range: bytes '') [Va_uint boundary])"

text \<open>The range of a part and the length of the response: \<^verbatim>\<open>SSSS-EEEE/TTTT\<close> and an empty line.\<close>

definition range_content :: "int \<Rightarrow> ngx_http_range_t \<Rightarrow> ngx_http_range_t" where
  "range_content content_length_n g =
     g\<lparr>range_content_range := rg_sprintf (bytes ''%O-%O/%O'' @ [CR, LF, CR, LF])
         [Va_int (range_start g), Va_int (s64 (range_end g - 1)), Va_int content_length_n]\<rparr>"

definition ngx_http_range_multipart_header ::
  "64 word \<Rightarrow> response_t \<Rightarrow> ngx_http_range_filter_ctx_t \<Rightarrow> response_t \<times> ngx_http_range_filter_ctx_t"
where
  "ngx_http_range_multipart_header boundary r ctx =
     (let h = re_headers_out r;
          header = range_boundary_header boundary h;
          rs = map (range_content (out_content_length_n h)) (rf_ranges ctx);
          content_type = rg_sprintf (bytes ''multipart/byteranges; boundary=%0muA'') [Va_uint boundary];
          len = foldl (\<lambda>len g. len + int (length header) + int (length (range_content_range g)) + (range_end g - range_start g))
                  (4 + 20 + 4) rs
      in (r\<lparr>re_headers_out := h\<lparr>out_content_type := content_type, out_content_type_lowcase := None,
              out_content_type_len := length content_type, out_charset := [],
              out_content_length_n := s64 len, out_content_length := None\<rparr>\<rparr>,
          ctx\<lparr>rf_boundary_header := header, rf_ranges := rs\<rparr>))"

definition ngx_http_range_not_satisfiable :: "response_t \<Rightarrow> response_t" where
  "ngx_http_range_not_satisfiable r =
     (let h = re_headers_out r in
      r\<lparr>re_headers_out := ngx_http_clear_content_length (h\<lparr>
          out_status := NGX_HTTP_RANGE_NOT_SATISFIABLE,
          out_content_range := Some (rg_sprintf (bytes ''bytes */%O'') [Va_int (out_content_length_n h)])\<rparr>)\<rparr>)"

text \<open>The test \<^verbatim>\<open>If-Range\<close>: whether the ranges are asked of the response at hand; \<open>None\<close> when the reader of the date runs past its end.\<close>

definition range_if_range :: "response_t \<Rightarrow> bool option" where
  "range_if_range r =
     (case in_if_range (re_headers_in r) of
        None \<Rightarrow> Some True
      | Some if_range \<Rightarrow>
          if length if_range \<ge> 2 \<and> last if_range = ch_quot then
            (case out_etag (re_headers_out r) of
               None \<Rightarrow> Some False
             | Some etag \<Rightarrow> Some (length if_range = length etag \<and> strncmp_eq if_range etag (length etag)))
          else if out_last_modified_time (re_headers_out r) = - 1 then Some False
          else map_option (\<lambda>t. t = out_last_modified_time (re_headers_out r)) (ngx_parse_http_time if_range))"

definition range_next_filter :: "response_t \<Rightarrow> filter_exit \<times> response_t \<times> ngx_http_range_filter_ctx_t option" where
  "range_next_filter r =
     (Next_filter, r\<lparr>re_headers_out := (re_headers_out r)\<lparr>out_accept_ranges := Some (bytes ''bytes'')\<rparr>\<rparr>, None)"

text \<open>
  \<open>mctx\<close> are the ranges of the main request when they are set, \<open>boundary\<close> is \<^verbatim>\<open>ngx_next_temp_number(0)\<close>. The result has the context
  that is set for the body filter.
\<close>

definition ngx_http_range_header_filter ::
  "nat \<Rightarrow> 64 word \<Rightarrow> ngx_http_range_t list option \<Rightarrow> response_t
    \<Rightarrow> (filter_exit \<times> response_t \<times> ngx_http_range_filter_ctx_t option) option"
where
  "ngx_http_range_header_filter max_ranges boundary mctx r =
     (let h = re_headers_out r in
      if re_http_version r < NGX_HTTP_VERSION_10 \<or> out_status h \<noteq> NGX_HTTP_OK \<or> (\<not> re_main r \<and> \<not> re_subrequest_ranges r)
         \<or> out_content_length_n h = - 1 \<or> \<not> re_allow_ranges r
      then Some (Next_filter, r, None)
      else if max_ranges = 0 then Some (Next_filter, r, None)
      else case in_range (re_headers_in r) of
        None \<Rightarrow> Some (range_next_filter r)
      | Some hdr \<Rightarrow>
          if length hdr < 7 \<or> ngx_strncasecmp hdr (bytes ''bytes='') 6 \<noteq> 0 then Some (range_next_filter r)
          else case range_if_range r of
            None \<Rightarrow> None
          | Some False \<Rightarrow> Some (range_next_filter r)
          | Some True \<Rightarrow>
              let ranges = (if re_single_range r then 1 else max_ranges);
                  (rc, rs) = ngx_http_range_parse (if re_main r then None else mctx) (out_content_length_n h) hdr ranges;
                  ctx = \<lparr>rf_offset = out_content_offset h, rf_boundary_header = [], rf_ranges = rs\<rparr>
              in if rc = NGX_OK then
                   let r = r\<lparr>re_headers_out := h\<lparr>out_status := NGX_HTTP_PARTIAL_CONTENT, out_status_line := []\<rparr>\<rparr> in
                   if length rs = 1 then Some (Next_filter, ngx_http_range_singlepart_header r ctx, Some ctx)
                   else let (r, ctx) = ngx_http_range_multipart_header boundary r ctx in Some (Next_filter, r, Some ctx)
                 else if rc = NGX_HTTP_RANGE_NOT_SATISFIABLE then
                   Some (Return_code NGX_HTTP_RANGE_NOT_SATISFIABLE, ngx_http_range_not_satisfiable r, None)
                 else Some (range_next_filter r))"

section \<open>What is accepted\<close>

definition range_size :: "ngx_http_range_t \<Rightarrow> int" where
  "range_size g = range_end g - range_start g"

definition range_sum :: "ngx_http_range_t list \<Rightarrow> int" where
  "range_sum rs = sum_list (map range_size rs)"

lemma rg_digits_bounds:
  assumes "rg_digits n p = Some (n', p')" "0 \<le> n" "n \<le> NGX_MAX_OFF_T_VALUE"
  shows "0 \<le> n' \<and> n' \<le> NGX_MAX_OFF_T_VALUE"
  using assms
proof (induction n p rule: rg_digits.induct)
  case (2 n c p)
  show ?case
  proof (cases "is_digit c")
    case True
    from is_digit_uint [OF True] have d: "0 \<le> uint c - 48" "uint c - 48 \<le> 9" by simp_all
    let ?big = "n \<ge> NGX_MAX_OFF_T_VALUE div 10 \<and> (n > NGX_MAX_OFF_T_VALUE div 10 \<or> uint c - 48 > NGX_MAX_OFF_T_VALUE mod 10)"
    have small: "\<not> ?big" and rest: "rg_digits (s64 (n * 10 + uint c - 48)) p = Some (n', p')"
      using "2.prems"(1) True by (auto split: if_splits)
    have n: "n * 10 + uint c - 48 \<le> NGX_MAX_OFF_T_VALUE"
      using small cutoff_iff [OF d "2.prems"(2), of NGX_MAX_OFF_T_VALUE] by linarith
    then have "s64 (n * 10 + uint c - 48) = n * 10 + uint c - 48" using d "2.prems"(2) by (intro s64_id) simp_all
    with "2.IH" [OF True small rest] n d "2.prems"(2) show ?thesis by simp
  qed (use 2 in simp)
qed simp

text \<open>Every range ends within the response; one that starts before it is a suffix.\<close>

definition range_near :: "int \<Rightarrow> int \<Rightarrow> int \<Rightarrow> bool" where
  "range_near l a b \<longleftrightarrow> 0 \<le> b \<and> b \<le> l \<and> (a < 0 \<longrightarrow> b = l) \<and> a \<le> NGX_MAX_OFF_T_VALUE \<and> b - a \<le> NGX_MAX_OFF_T_VALUE"

lemma rg_last_near:
  assumes "rg_last l suffix a0 p = Some (a, b, p')" "0 \<le> l" "l \<le> NGX_MAX_OFF_T_VALUE" "0 \<le> a0" "a0 \<le> NGX_MAX_OFF_T_VALUE"
  shows "range_near l a b"
proof -
  from assms(1) obtain n q where n: "rg_digits 0 p = Some (n, q)" by (auto simp: rg_last_def split: if_splits option.splits)
  from rg_digits_bounds [OF n] have "0 \<le> n" "n \<le> NGX_MAX_OFF_T_VALUE" by simp_all
  with assms n show ?thesis by (auto simp: rg_last_def range_near_def Let_def split: if_splits)
qed

lemma rg_one_near:
  assumes "rg_one l p = Some (a, b, p')" "0 \<le> l" "l \<le> NGX_MAX_OFF_T_VALUE"
  shows "range_near l a b"
proof (cases "peek (rg_spaces p) = ch_minus")
  case True
  with assms have "rg_last l True 0 (tl (rg_spaces p)) = Some (a, b, p')" by (simp add: rg_one_def)
  from rg_last_near [OF this] assms show ?thesis by simp
next
  case False
  with assms obtain n q where n: "rg_digits 0 (rg_spaces p) = Some (n, q)"
    by (auto simp: rg_one_def Let_def split: if_splits option.splits)
  from rg_digits_bounds [OF n] have b: "0 \<le> n" "n \<le> NGX_MAX_OFF_T_VALUE" by simp_all
  let ?t = "rg_spaces (tl (rg_spaces q))"
  have "a = n \<and> b = l \<or> rg_last l False n ?t = Some (a, b, p')"
    using assms(1) False n by (auto simp: rg_one_def Let_def split: if_splits)
  then show ?thesis using rg_last_near [of l False n ?t a b p'] b assms by (auto simp: range_near_def)
qed

definition ranges_near :: "int \<Rightarrow> ngx_http_range_t list \<Rightarrow> bool" where
  "ranges_near l rs \<longleftrightarrow> (\<forall>g \<in> set rs. range_near l (range_start g) (range_end g) \<and> range_start g < range_end g)"

lemma s64_add: "s64 (s64 a + s64 b) = s64 (a + b)"
  by (simp add: s64_def signed_take_bit_add)

definition push_range :: "int \<Rightarrow> int \<Rightarrow> ngx_http_range_t list \<Rightarrow> ngx_http_range_t list" where
  "push_range a b rs = (if a < b then rs @ [\<lparr>range_start = a, range_end = b, range_content_range = []\<rparr>] else rs)"

lemma rg_loop_step:
  assumes "rg_one l p = Some (a, b, q)"
  shows "rg_loop l rs n sz p =
    (if a < b \<and> n = 0 then (NGX_DECLINED, push_range a b rs)
     else if peek q = ch_comma then
       rg_loop l (push_range a b rs) (if a < b then n - 1 else n) (if a < b then s64 (sz + s64 (b - a)) else sz) (tl q)
     else if push_range a b rs = [] then (NGX_HTTP_RANGE_NOT_SATISFIABLE, push_range a b rs)
     else if (if a < b then s64 (sz + s64 (b - a)) else sz) > l then (NGX_DECLINED, push_range a b rs)
     else (NGX_OK, push_range a b rs))"
  using assms by (subst rg_loop.simps) (simp add: push_range_def)

lemma push_range_sum:
  "sz = s64 (range_sum rs) \<Longrightarrow> (if a < b then s64 (sz + s64 (b - a)) else sz) = s64 (range_sum (push_range a b rs))"
  using s64_add [of "range_sum rs" "b - a"] by (simp add: range_sum_def range_size_def push_range_def)

lemma rg_loop_ok:
  assumes "rg_loop l rs n sz p = (NGX_OK, rs')" "0 \<le> l" "l \<le> NGX_MAX_OFF_T_VALUE" "sz = s64 (range_sum rs)" "ranges_near l rs"
  shows "rs' \<noteq> [] \<and> length rs' \<le> length rs + n \<and> ranges_near l rs' \<and> s64 (range_sum rs') \<le> l"
  using assms
proof (induction "length p" arbitrary: rs n sz p rule: less_induct)
  case less
  from less.prems(1) obtain a b q where one: "rg_one l p = Some (a, b, q)"
    by (subst (asm) rg_loop.simps) (auto split: option.splits)
  note step = less.prems(1) [unfolded rg_loop_step [OF one]]
  let ?rs = "push_range a b rs" and ?sz = "if a < b then s64 (sz + s64 (b - a)) else sz" and ?n = "if a < b then n - 1 else n"
  have declined: "\<not> (a < b \<and> n = 0)" using step by (auto split: if_splits)
  note sum = push_range_sum [OF less.prems(4), of a b]
  have near: "ranges_near l ?rs" using rg_one_near [OF one] less.prems by (auto simp: ranges_near_def push_range_def)
  have len: "length ?rs + ?n = length rs + n" using declined by (auto simp: push_range_def)
  show ?case
  proof (cases "peek q = ch_comma")
    case True
    have loop: "rg_loop l ?rs ?n ?sz (tl q) = (NGX_OK, rs')" using step True declined by (simp split: if_splits)
    from rg_comma_length [OF one True] have "length (tl q) < length p" by simp
    from less.hyps [OF this loop less.prems(2,3) sum near] len show ?thesis by simp
  next
    case False
    have "?rs \<noteq> [] \<and> rs' = ?rs \<and> ?sz \<le> l" using step False declined by (auto split: if_splits)
    then show ?thesis using sum near len by simp
  qed
qed

lemma ranges_inside:
  assumes "ranges_near l rs" "range_sum rs \<le> l" "g \<in> set rs"
  shows "0 \<le> range_start g \<and> range_start g < range_end g \<and> range_end g \<le> l"
proof -
  have g: "range_near l (range_start g) (range_end g)" "range_start g < range_end g" using assms by (auto simp: ranges_near_def)
  have "range_size g \<le> range_sum rs"
    unfolding range_sum_def using assms by (intro member_le_sum_list) (auto simp: ranges_near_def range_size_def)
  then have "range_end g - range_start g \<le> l" using assms(2) by (simp add: range_size_def)
  with g show ?thesis by (auto simp: range_near_def)
qed

lemma range_parse_accepts:
  assumes "ngx_http_range_parse None content_length hdr ranges = (NGX_OK, rs)"
    and "0 \<le> content_length" "content_length \<le> NGX_MAX_OFF_T_VALUE"
  shows "rs \<noteq> [] \<and> length rs \<le> ranges
    \<and> (length rs = 1 \<or> range_sum rs \<le> NGX_MAX_OFF_T_VALUE \<longrightarrow>
        range_sum rs \<le> content_length
        \<and> (\<forall>g \<in> set rs. 0 \<le> range_start g \<and> range_start g < range_end g \<and> range_end g \<le> content_length))"
proof -
  have ok: "rs \<noteq> []" "length rs \<le> ranges" "ranges_near content_length rs" "s64 (range_sum rs) \<le> content_length"
    using rg_loop_ok [of content_length "[]" ranges 0 "drop 6 hdr" rs] assms
    by (auto simp: ngx_http_range_parse_def range_sum_def ranges_near_def)
  have pos: "0 \<le> range_sum rs" unfolding range_sum_def
    using ok(3) by (intro sum_list_nonneg) (auto simp: ranges_near_def range_size_def)
  have "range_sum rs \<le> NGX_MAX_OFF_T_VALUE" if "length rs = 1"
    using that ok(3) by (auto simp: length_Suc_conv ranges_near_def range_near_def range_sum_def range_size_def)
  then have "range_sum rs \<le> content_length" if "length rs = 1 \<or> range_sum rs \<le> NGX_MAX_OFF_T_VALUE"
    using that ok(4) pos by auto
  then show ?thesis using ok ranges_inside [OF ok(3)] by blast
qed

lemma ngx_http_range_parse_inside:
  assumes "ngx_http_range_parse None content_length hdr ranges = (NGX_OK, rs)" "0 \<le> content_length" "content_length \<le> NGX_MAX_OFF_T_VALUE"
    and "length rs = 1 \<or> range_sum rs \<le> NGX_MAX_OFF_T_VALUE" "g \<in> set rs"
  shows "0 \<le> range_start g \<and> range_start g < range_end g \<and> range_end g \<le> content_length"
  using range_parse_accepts [OF assms(1-3)] assms(4,5) by blast

text \<open>
  C20: When \<^verbatim>\<open>ngx_http_range_parse\<close> accepts a header \<^verbatim>\<open>Range\<close>, of whatever bytes, for a response of a given length, then there is at least
  one range and there are at most as many as allowed; and when there is one range, or the sum of their sizes fits in 63 bits, then
  every range is non-empty and lies within the response, and together they are no longer than it.
\<close>

theorem ngx_http_range_parse_bounds:
  assumes "ngx_http_range_parse None content_length hdr ranges = (NGX_OK, rs)"
    and "0 \<le> content_length" "content_length \<le> NGX_MAX_OFF_T_VALUE"
  shows "rs \<noteq> [] \<and> length rs \<le> ranges
    \<and> (length rs = 1 \<or> range_sum rs \<le> NGX_MAX_OFF_T_VALUE \<longrightarrow>
        range_sum rs \<le> content_length
        \<and> (\<forall>g \<in> set rs. 0 \<le> range_start g \<and> range_start g < range_end g \<and> range_end g \<le> content_length))"
  by (rule range_parse_accepts [OF assms])

text \<open>
  Without that condition the test of the total is no test: here the sizes sum to more than 63 bits hold, the sum wraps, and two
  ranges are accepted that start before the response.
\<close>

definition wrapping_ranges :: ngx_str_t where
  "wrapping_ranges = bytes ''bytes=-1600,-9223372036854774208''"

lemma range_parse_wraps:
  "ngx_http_range_parse None 1000 wrapping_ranges 2 = (NGX_OK,
     [\<lparr>range_start = - 600, range_end = 1000, range_content_range = []\<rparr>,
      \<lparr>range_start = - 9223372036854773208, range_end = 1000, range_content_range = []\<rparr>])"
  by code_simp

section \<open>The lists of ranges\<close>




























theorem ngx_http_range_parse_bounds_witness:
  "ngx_http_range_parse None 1000 (bytes ''bytes=0-0,-1'') 2 =
     (NGX_OK, [\<lparr>range_start = 0, range_end = 1, range_content_range = []\<rparr>, \<lparr>range_start = 999, range_end = 1000, range_content_range = []\<rparr>])
   \<and> range_sum [\<lparr>range_start = 0, range_end = 1, range_content_range = []\<rparr>, \<lparr>range_start = 999, range_end = 1000, range_content_range = []\<rparr>] \<le> 1000"
proof -
  let ?rs = "[\<lparr>range_start = 0, range_end = 1, range_content_range = []\<rparr>, \<lparr>range_start = 999, range_end = 1000, range_content_range = []\<rparr>]"
  have "ngx_http_range_parse None 1000 (bytes ''bytes=0-0,-1'') 2 = (NGX_OK, ?rs)" by code_simp
  moreover have "range_sum ?rs \<le> NGX_MAX_OFF_T_VALUE" by (simp add: range_sum_def range_size_def)
  ultimately show ?thesis using ngx_http_range_parse_bounds [of 1000 "bytes ''bytes=0-0,-1''" 2 ?rs] by simp
qed

section \<open>What is printed\<close>

lemma rg_sprintf_prints: "prints fmt args out \<Longrightarrow> length out < 2 ^ 62 \<Longrightarrow> rg_sprintf fmt args = out"
  by (simp add: rg_sprintf_def sprintf_prints)

definition is_off_t :: "int \<Rightarrow> bool" where
  "is_off_t i \<longleftrightarrow> - (2 ^ 63) \<le> i \<and> i < 2 ^ 63"

lemma s64_off_t: "is_off_t (s64 i)"
  using signed_take_bit_int_greater_eq_minus_exp [of 63 i] signed_take_bit_int_less_exp [of 63 i] by (simp add: is_off_t_def s64_def)

definition print_span :: "int \<Rightarrow> int \<Rightarrow> int \<Rightarrow> u_char list" where
  "print_span a b l = print_int a @ ch_minus # print_int b @ ch_slash # print_int l"

lemma print_span_length: "is_off_t a \<Longrightarrow> is_off_t b \<Longrightarrow> is_off_t l \<Longrightarrow> length (print_span a b l) \<le> 62"
  using print_int_length [of a] print_int_length [of b] print_int_length [of l] by (simp add: is_off_t_def print_span_def)

lemma prints_span:
  assumes "is_off_t a" "is_off_t b" "is_off_t l" "prints fmt [] out"
  shows "prints (bytes ''%O-%O/%O'' @ fmt) [Va_int a, Va_int b, Va_int l] (print_span a b l @ out)"
  using assms by (simp add: print_span_def is_off_t_def prints_simps)

lemma range_content_closed:
  assumes "is_off_t (range_start g)" "is_off_t l"
  shows "range_content l g = g\<lparr>range_content_range := print_span (range_start g) (s64 (range_end g - 1)) l @ [CR, LF, CR, LF]\<rparr>"
proof -
  have "prints [CR, LF, CR, LF] [] [CR, LF, CR, LF]" by (simp add: prints_simps)
  from rg_sprintf_prints [OF prints_span [OF assms(1) s64_off_t [of "range_end g - 1"] assms(2) this]]
    print_span_length [OF assms(1) s64_off_t [of "range_end g - 1"] assms(2)]
  show ?thesis by (simp add: range_content_def)
qed

lemma singlepart_range_closed:
  assumes "is_off_t a" "is_off_t l"
  shows "rg_sprintf (bytes ''bytes %O-%O/%O'') [Va_int a, Va_int (s64 i), Va_int l] = bytes ''bytes '' @ print_span a (s64 i) l"
proof -
  have "prints (bytes ''bytes %O-%O/%O'') [Va_int a, Va_int (s64 i), Va_int l] (bytes ''bytes '' @ print_span a (s64 i) l)"
    using prints_span [OF assms(1) s64_off_t [of i] assms(2) prints_Nil] by (simp add: prints_char)
  from rg_sprintf_prints [OF this] print_span_length [OF assms(1) s64_off_t [of i] assms(2)] show ?thesis by simp
qed

lemma not_satisfiable_closed: "is_off_t l \<Longrightarrow> rg_sprintf (bytes ''bytes */%O'') [Va_int l] = bytes ''bytes */'' @ print_int l"
  using rg_sprintf_prints [of "bytes ''bytes */%O''" "[Va_int l]" "bytes ''bytes */'' @ print_int l"] print_int_length [of l] 
  by (simp add: is_off_t_def prints_simps)

text \<open>The first line of the header of a part.\<close>

definition print_boundary :: "64 word \<Rightarrow> u_char list" where
  "print_boundary boundary = [CR, LF, ch_minus, ch_minus] @ print_atomic boundary"

lemma print_boundary_length: "length (print_boundary boundary) = 24"
  by (simp add: print_boundary_def print_atomic_length)

definition type_line :: "headers_out_t \<Rightarrow> u_char list" where
  "type_line h =
     (if out_content_type_len h = length (out_content_type h) \<and> out_charset h \<noteq> [] then
        [CR, LF] @ bytes ''Content-Type: '' @ out_content_type h @ bytes ''; charset='' @ out_charset h
      else if out_content_type h \<noteq> [] then [CR, LF] @ bytes ''Content-Type: '' @ out_content_type h
      else [])"

lemma boundary_header_closed:
  assumes "length (out_content_type h) < 2 ^ 60" "length (out_charset h) < 2 ^ 60"
  shows "range_boundary_header boundary h =
    print_boundary boundary @ type_line h @ [CR, LF] @ bytes ''Content-Range: bytes ''"
proof -
  note len = assms print_atomic_length [of boundary]
  have "rg_sprintf ([CR, LF] @ bytes ''--%0muA'' @ [CR, LF] @ bytes ''Content-Type: %V; charset=%V'' @ [CR, LF] @ bytes ''Content-Range: bytes '')
      [Va_uint boundary, Va_str t, Va_str c]
    = print_boundary boundary @ ([CR, LF] @ bytes ''Content-Type: '' @ t @ bytes ''; charset='' @ c) @ [CR, LF] @ bytes ''Content-Range: bytes ''"
    if "length t < 2 ^ 60" "length c < 2 ^ 60" for t c
    using that len by (intro rg_sprintf_prints) (simp_all add: print_boundary_def prints_simps)
  moreover have "rg_sprintf ([CR, LF] @ bytes ''--%0muA'' @ [CR, LF] @ bytes ''Content-Type: %V'' @ [CR, LF] @ bytes ''Content-Range: bytes '')
      [Va_uint boundary, Va_str t]
    = print_boundary boundary @ ([CR, LF] @ bytes ''Content-Type: '' @ t) @ [CR, LF] @ bytes ''Content-Range: bytes ''"
    if "length t < 2 ^ 60" for t
    using that len by (intro rg_sprintf_prints) (simp_all add: print_boundary_def prints_simps)
  moreover have "rg_sprintf ([CR, LF] @ bytes ''--%0muA'' @ [CR, LF] @ bytes ''Content-Range: bytes '') [Va_uint boundary]
    = print_boundary boundary @ [] @ [CR, LF] @ bytes ''Content-Range: bytes ''"
    using len by (intro rg_sprintf_prints) (simp_all add: print_boundary_def prints_simps)
  ultimately show ?thesis
    using assms by (simp only: range_boundary_header_def type_line_def if_distrib [of "\<lambda>t. print_boundary boundary @ t @ _"] split: if_split)
qed

lemma multipart_type_closed:
  "rg_sprintf (bytes ''multipart/byteranges; boundary=%0muA'') [Va_uint boundary] = bytes ''multipart/byteranges; boundary='' @ print_atomic boundary"
proof (rule rg_sprintf_prints)
  show "prints (bytes ''multipart/byteranges; boundary=%0muA'') [Va_uint boundary] (bytes ''multipart/byteranges; boundary='' @ print_atomic boundary)"
    by (simp add: prints_simps)
qed (simp add: print_atomic_length)

end
