(* ===== verification/Ngx_Http_Range_Body.thy ===== *)
theory Ngx_Http_Range_Body
  imports Ngx_Http_Range
begin

text \<open>
  The body half of the range filter, \<^verbatim>\<open>http/modules/ngx_http_range_filter_module.c\<close>, and its composition with the header half. A
  chain is the list of its buffers. A body filter gives what it passes to the next filter, or the code that it returns without
  calling it.
\<close>

section \<open>The body filters\<close>

datatype body_exit = Next_body "ngx_out_buf_t list" | Body_return int

text \<open>The three ways a buffer is cut: all of it is skipped, or some of its head, or some of its tail.\<close>

definition rg_skip :: "ngx_out_buf_t \<Rightarrow> ngx_out_buf_t" where
  "rg_skip b = b\<lparr>bf_file_pos := if bf_in_file b then bf_file_last b else bf_file_pos b, bf_pos := bf_last b, bf_sync := True\<rparr>"

definition rg_head :: "int \<Rightarrow> ngx_out_buf_t \<Rightarrow> ngx_out_buf_t" where
  "rg_head k b = b\<lparr>bf_file_pos := if bf_in_file b then bf_file_pos b + k else bf_file_pos b,
                   bf_pos := if ngx_buf_in_memory b then bf_pos b + k else bf_pos b\<rparr>"

definition rg_tail :: "int \<Rightarrow> ngx_out_buf_t \<Rightarrow> ngx_out_buf_t" where
  "rg_tail k b = b\<lparr>bf_file_last := if bf_in_file b then bf_file_last b - k else bf_file_last b,
                   bf_last := if ngx_buf_in_memory b then bf_last b - k else bf_last b\<rparr>"

text \<open>
  The loop of \<^verbatim>\<open>ngx_http_range_singlepart_body\<close>: the offset after it, and every buffer of the chain as it is left, with whether it is
  passed on.
\<close>

fun rg_single :: "bool \<Rightarrow> ngx_http_range_t \<Rightarrow> int \<Rightarrow> ngx_out_buf_t list \<Rightarrow> int \<times> (bool \<times> ngx_out_buf_t) list" where
  "rg_single main g offset [] = (offset, [])"
| "rg_single main g offset (buf # cl) =
     (let start = offset; last' = s64 (offset + ngx_buf_size buf) in
      if ngx_buf_special buf then map_prod id (\<lambda>xs. (True, buf) # xs) (rg_single main g last' cl)
      else if range_end g \<le> start \<or> range_start g \<ge> last' then map_prod id (\<lambda>xs. (False, rg_skip buf) # xs) (rg_single main g last' cl)
      else
        let buf = (if range_start g > start then rg_head (range_start g - start) buf else buf) in
        if range_end g \<le> last' then
          (last', (True, (rg_tail (last' - range_end g) buf)\<lparr>bf_last_buf := main, bf_last_in_chain := True\<rparr>) # map (Pair False) cl)
        else map_prod id (\<lambda>xs. (True, buf) # xs) (rg_single main g last' cl))"

definition passed :: "(bool \<times> ngx_out_buf_t) list \<Rightarrow> ngx_out_buf_t list" where
  "passed xs = map snd (filter fst xs)"

definition ngx_http_range_singlepart_body ::
  "bool \<Rightarrow> ngx_http_range_filter_ctx_t \<Rightarrow> ngx_out_buf_t list \<Rightarrow> body_exit \<times> ngx_http_range_filter_ctx_t"
where
  "ngx_http_range_singlepart_body main ctx cl =
     (let (offset, xs) = rg_single main (hd (rf_ranges ctx)) (rf_offset ctx) cl; out = passed xs in
      (if out = [] then Body_return NGX_OK else Next_body out, ctx\<lparr>rf_offset := offset\<rparr>))"

definition ngx_http_range_test_overlapped ::
  "ngx_http_range_filter_ctx_t \<Rightarrow> ngx_out_buf_t \<Rightarrow> int \<times> ngx_http_range_filter_ctx_t"
where
  "ngx_http_range_test_overlapped ctx buf =
     (if rf_offset ctx \<noteq> 0 then (NGX_ERROR, ctx)
      else
        let start = rf_offset ctx; last' = s64 (rf_offset ctx + ngx_buf_size buf) in
        if \<not> bf_last_buf buf \<and> list_ex (\<lambda>g. start > range_start g \<or> last' < range_end g) (rf_ranges ctx) then (NGX_ERROR, ctx)
        else (NGX_OK, ctx\<lparr>rf_offset := ngx_buf_size buf\<rparr>))"

text \<open>A buffer on the memory of a string; the three buffers of a part; and the last boundary.\<close>

definition string_buf :: "ngx_str_t \<Rightarrow> ngx_out_buf_t" where
  "string_buf s = ngx_calloc_buf\<lparr>bf_mem := s, bf_pos := 0, bf_last := int (length s)\<rparr>"

definition rg_data :: "ngx_out_buf_t \<Rightarrow> ngx_http_range_t \<Rightarrow> ngx_out_buf_t" where
  "rg_data buf g =
     (let b = ngx_calloc_buf\<lparr>bf_in_file := bf_in_file buf, bf_temporary := bf_temporary buf, bf_memory := bf_memory buf,
                 bf_mmap := bf_mmap buf, bf_file := bf_file buf\<rparr>;
          b = (if bf_in_file buf then
                 b\<lparr>bf_file_pos := bf_file_pos buf + range_start g, bf_file_last := bf_file_pos buf + range_end g\<rparr> else b)
      in if ngx_buf_in_memory buf then
           b\<lparr>bf_mem := bf_mem buf, bf_pos := bf_pos buf + range_start g, bf_last := bf_pos buf + range_end g\<rparr>
         else b)"

definition rg_part :: "ngx_http_range_filter_ctx_t \<Rightarrow> ngx_out_buf_t \<Rightarrow> ngx_http_range_t \<Rightarrow> ngx_out_buf_t list" where
  "rg_part ctx buf g =
     [(string_buf (rf_boundary_header ctx))\<lparr>bf_memory := True\<rparr>, (string_buf (range_content_range g))\<lparr>bf_temporary := True\<rparr>, rg_data buf g]"

definition ngx_http_range_multipart_body :: "ngx_http_range_filter_ctx_t \<Rightarrow> ngx_out_buf_t \<Rightarrow> body_exit" where
  "ngx_http_range_multipart_body ctx buf =
     Next_body (concat (map (rg_part ctx buf) (rf_ranges ctx))
       @ [(string_buf (take (4 + 20) (rf_boundary_header ctx) @ [ch_minus, ch_minus, CR, LF]))\<lparr>bf_temporary := True, bf_last_buf := True\<rparr>])"

definition ngx_http_range_body_filter ::
  "bool \<Rightarrow> ngx_http_range_filter_ctx_t option \<Rightarrow> ngx_out_buf_t list \<Rightarrow> body_exit \<times> ngx_http_range_filter_ctx_t option"
where
  "ngx_http_range_body_filter main ctx cl =
     (case (cl, ctx) of
        ([], _) \<Rightarrow> (Next_body cl, ctx)
      | (_, None) \<Rightarrow> (Next_body cl, ctx)
      | (buf # _, Some ctx) \<Rightarrow>
          if length (rf_ranges ctx) = 1 then map_prod id Some (ngx_http_range_singlepart_body main ctx cl)
          else if ngx_buf_special buf then (Next_body cl, Some ctx)
          else
            let (rc, ctx) = ngx_http_range_test_overlapped ctx buf in
            if rc \<noteq> NGX_OK then (Body_return NGX_ERROR, Some ctx)
            else (ngx_http_range_multipart_body ctx buf, Some ctx))"

text \<open>What the calls for one response pass on.\<close>

fun exit_bytes :: "body_exit \<Rightarrow> u_char list" where
  "exit_bytes (Next_body out) = chain_bytes out"
| "exit_bytes (Body_return rc) = []"

fun range_stream :: "bool \<Rightarrow> ngx_http_range_filter_ctx_t option \<Rightarrow> ngx_out_buf_t list list \<Rightarrow> u_char list" where
  "range_stream main ctx [] = []"
| "range_stream main ctx (cl # cls) =
     (let (e, ctx) = ngx_http_range_body_filter main ctx cl in exit_bytes e @ range_stream main ctx cls)"

section \<open>Cutting a buffer\<close>

lemma cut_fields [simp]:
  "bf_in_file (rg_head k b) = bf_in_file b" "bf_mem (rg_head k b) = bf_mem b" "bf_file (rg_head k b) = bf_file b"
  "bf_last (rg_head k b) = bf_last b" "bf_file_last (rg_head k b) = bf_file_last b"
  "bf_pos (rg_head k b) = (if ngx_buf_in_memory b then bf_pos b + k else bf_pos b)"
  "bf_file_pos (rg_head k b) = (if bf_in_file b then bf_file_pos b + k else bf_file_pos b)"
  "bf_in_file (rg_tail k b) = bf_in_file b" "bf_mem (rg_tail k b) = bf_mem b" "bf_file (rg_tail k b) = bf_file b"
  "bf_pos (rg_tail k b) = bf_pos b" "bf_file_pos (rg_tail k b) = bf_file_pos b"
  "bf_last (rg_tail k b) = (if ngx_buf_in_memory b then bf_last b - k else bf_last b)"
  "bf_file_last (rg_tail k b) = (if bf_in_file b then bf_file_last b - k else bf_file_last b)"
  by (simp_all add: rg_head_def rg_tail_def)

lemma in_memory_cut [simp]:
  "ngx_buf_in_memory (rg_head k b) = ngx_buf_in_memory b" "ngx_buf_in_memory (rg_tail k b) = ngx_buf_in_memory b"
  "ngx_buf_in_memory (b\<lparr>bf_last_buf := x, bf_last_in_chain := y\<rparr>) = ngx_buf_in_memory b"
  "ngx_buf_special (rg_head k b) = ngx_buf_special b"
  by (simp_all add: ngx_buf_in_memory_def ngx_buf_special_def rg_head_def rg_tail_def)

lemma buf_bytes_flags [simp]: "buf_bytes (b\<lparr>bf_last_buf := x, bf_last_in_chain := y\<rparr>) = buf_bytes b"
  by (simp add: buf_bytes_def mem_bytes_def file_bytes_def)

text \<open>
  The part of the bytes at an offset that lies between two offsets, which is what the filter is to pass on of them.
\<close>

definition window :: "int \<Rightarrow> int \<Rightarrow> int \<Rightarrow> u_char list \<Rightarrow> u_char list" where
  "window a b offset xs = span (max a offset - offset) (b - offset) xs"

lemma window_append: "window a b offset (xs @ ys) = window a b offset xs @ window a b (offset + int (length xs)) ys"
proof -
  let ?m = "nat (max a offset - offset)" and ?n = "nat (b - offset - (max a offset - offset))" and ?o = "offset + int (length xs)"
  have "?n - (length xs - ?m) = nat (b - ?o - (max a ?o - ?o))" "?m - length xs = nat (max a ?o - ?o)"
    by (simp_all add: max_def) linarith+
  then show ?thesis by (simp add: window_def span_def)
qed

lemma window_after: "b \<le> offset \<Longrightarrow> window a b offset xs = []"
  by (simp add: window_def span_def)

lemma window_before:
  assumes "offset + int (length xs) \<le> a"
  shows "window a b offset xs = []"
proof -
  have "length xs \<le> nat (max a offset - offset)" using assms by simp
  then show ?thesis by (simp add: window_def span_def)
qed

lemma span_head: "0 \<le> a \<Longrightarrow> 0 \<le> k \<Longrightarrow> k \<le> b - a \<Longrightarrow> span (a + k) b xs = drop (nat k) (span a b xs)"
  by (simp add: span_def drop_take nat_add_distrib nat_diff_distrib add.commute diff_diff_add)

lemma span_tail: "0 \<le> a \<Longrightarrow> 0 \<le> k \<Longrightarrow> k \<le> b - a \<Longrightarrow> span a (b - k) xs = take (nat (b - a - k)) (span a b xs)"
  by (simp add: span_def min_def algebra_simps)

text \<open>A buffer with two copies of its data has the same number of bytes in both.\<close>

lemma buf_ok_both:
  assumes "buf_ok b" "ngx_buf_in_memory b" "bf_in_file b"
  shows "bf_file_last b - bf_file_pos b = bf_last b - bf_pos b"
proof -
  have "length (mem_bytes b) = length (file_bytes b)" using assms by (simp add: buf_ok_def)
  moreover have "int (length (mem_bytes b)) = bf_last b - bf_pos b" "int (length (file_bytes b)) = bf_file_last b - bf_file_pos b"
    using assms unfolding mem_bytes_def file_bytes_def by (auto simp: buf_ok_def intro!: span_length)
  ultimately show ?thesis by linarith
qed

lemma head_bytes:
  assumes ok: "buf_ok b" and k: "0 \<le> k" "k \<le> ngx_buf_size b" and data: "\<not> ngx_buf_special b"
  shows "buf_bytes (rg_head k b) = drop (nat k) (buf_bytes b) \<and> buf_ok (rg_head k b) \<and> ngx_buf_size (rg_head k b) = ngx_buf_size b - k"
proof -
  note both = buf_ok_both [OF ok]
  have mem: "ngx_buf_in_memory b \<Longrightarrow> mem_bytes (rg_head k b) = drop (nat k) (mem_bytes b)"
    using ok k by (simp add: span_head buf_ok_def ngx_buf_size_def mem_bytes_def)
  have infile: "bf_in_file b \<Longrightarrow> file_bytes (rg_head k b) = drop (nat k) (file_bytes b)"
    using ok k both by (auto simp: span_head buf_ok_def ngx_buf_size_def file_bytes_def split: if_splits)
  have some: "ngx_buf_in_memory b \<or> bf_in_file b" using ok data by (auto simp: buf_ok_def)
  have "buf_ok (rg_head k b)"
    using ok k some both mem infile by (auto simp: buf_ok_def [of b] buf_ok_def [of "rg_head k b"] ngx_buf_size_def split: if_splits)
  moreover have "ngx_buf_size (rg_head k b) = ngx_buf_size b - k" using some by (auto simp: ngx_buf_size_def)
  ultimately show ?thesis using mem infile some by (auto simp: buf_bytes_def)
qed

lemma tail_bytes:
  assumes ok: "buf_ok b" and k: "0 \<le> k" "k \<le> ngx_buf_size b" and data: "\<not> ngx_buf_special b"
  shows "buf_bytes (rg_tail k b) = take (nat (ngx_buf_size b - k)) (buf_bytes b)"
proof (cases "ngx_buf_in_memory b")
  case True
  then show ?thesis using ok k by (simp add: buf_bytes_def mem_bytes_def buf_ok_def ngx_buf_size_def span_tail)
next
  case False
  then have "bf_in_file b" using ok data by (auto simp: buf_ok_def)
  with False show ?thesis using ok k by (simp add: buf_bytes_def file_bytes_def buf_ok_def ngx_buf_size_def span_tail)
qed

lemma special_bytes: "buf_ok b \<Longrightarrow> ngx_buf_special b \<Longrightarrow> buf_bytes b = [] \<and> ngx_buf_size b = 0"
  by (auto simp: buf_ok_def ngx_buf_special_def buf_bytes_def ngx_buf_size_def)

text \<open>What is left of a buffer that overlaps the range.\<close>

lemma cut_bytes:
  assumes "buf_ok b" "\<not> ngx_buf_special b" "x < y" "offset < y" "x < offset + ngx_buf_size b"
  defines "h \<equiv> if x > offset then rg_head (x - offset) b else b"
  shows "y \<le> offset + ngx_buf_size b \<Longrightarrow> buf_bytes (rg_tail (offset + ngx_buf_size b - y) h) = window x y offset (buf_bytes b)"
    "offset + ngx_buf_size b < y \<Longrightarrow> buf_bytes h = window x y offset (buf_bytes b)"
proof -
  let ?k = "max x offset - offset"
  have len: "int (length (buf_bytes b)) = ngx_buf_size b" by (rule buf_bytes_length [OF assms(1)])
  have h: "buf_bytes h = drop (nat ?k) (buf_bytes b)" "buf_ok h" "ngx_buf_size h = ngx_buf_size b - ?k" "\<not> ngx_buf_special h"
    using head_bytes [of b "x - offset"] assms by (auto simp: max_def)
  show "buf_bytes (rg_tail (offset + ngx_buf_size b - y) h) = window x y offset (buf_bytes b)" if "y \<le> offset + ngx_buf_size b"
    using tail_bytes [OF h(2), of "offset + ngx_buf_size b - y"] h that assms(3,4) by (simp add: window_def span_def max_def)
  show "buf_bytes h = window x y offset (buf_bytes b)" if "offset + ngx_buf_size b < y"
    using h(1) len that by (simp add: window_def span_def max_def split: if_splits)
qed

section \<open>One range\<close>

lemma passed_simps [simp]:
  "passed [] = []" "passed ((True, b) # xs) = b # passed xs" "passed ((False, b) # xs) = passed xs" "passed (map (Pair False) bs) = []"
  by (simp_all add: passed_def filter_map comp_def)

text \<open>
  A chain at an offset: what is passed on is the part of its bytes within the range, and the offset is that of its end, or at
  least the end of the range when the rest of the chain is dropped.
\<close>

lemma rg_single_bytes:
  assumes "rg_single main g offset bs = (offset', xs)" "list_all buf_ok bs" "0 \<le> offset" "offset + int (length (chain_bytes bs)) < 2 ^ 63"
    and "range_start g < range_end g"
  shows "chain_bytes (passed xs) = window (range_start g) (range_end g) offset (chain_bytes bs)
    \<and> (offset' = offset + int (length (chain_bytes bs))
        \<or> range_end g \<le> offset' \<and> offset' \<le> offset + int (length (chain_bytes bs)))"
  using assms
proof (induction bs arbitrary: offset offset' xs)
  case Nil
  then show ?case by (simp add: window_def span_def)
next
  case (Cons b bs)
  let ?a = "range_start g" and ?b = "range_end g" and ?last = "offset + ngx_buf_size b"
  let ?h = "if ?a > offset then rg_head (?a - offset) b else b"
  have ok: "buf_ok b" "list_all buf_ok bs" using Cons.prems by simp_all
  note len = buf_bytes_length [OF ok(1)]
  have last': "s64 ?last = ?last" using Cons.prems(3,4) len by (intro s64_id) auto
  obtain o2 xs2 where rec: "rg_single main g ?last bs = (o2, xs2)" by fastforce
  have IH: "chain_bytes (passed xs2) = window ?a ?b ?last (chain_bytes bs)
      \<and> (o2 = ?last + int (length (chain_bytes bs)) \<or> ?b \<le> o2 \<and> o2 \<le> ?last + int (length (chain_bytes bs)))"
    using Cons.IH [OF rec ok(2)] Cons.prems(3-5) len by simp
  note split = window_append [of ?a ?b offset "buf_bytes b" "chain_bytes bs", unfolded len]
  consider (special) "ngx_buf_special b" | (skip) "\<not> ngx_buf_special b" "?b \<le> offset \<or> ?a \<ge> ?last"
    | (cut) "\<not> ngx_buf_special b" "offset < ?b" "?a < ?last" "?b \<le> ?last"
    | (keep) "\<not> ngx_buf_special b" "offset < ?b" "?a < ?last" "?last < ?b" by linarith
  then show ?case
  proof cases
    case special
    with Cons.prems(1) rec last' have "xs = (True, b) # xs2" "offset' = o2" by auto
    then show ?thesis using IH split special_bytes [OF ok(1) special] by (simp add: window_def span_def)
  next
    case skip
    with Cons.prems(1) rec last' have "xs = (False, rg_skip b) # xs2" "offset' = o2" by (auto split: if_splits)
    moreover have "window ?a ?b offset (buf_bytes b) = []"
      using skip(2) window_after [of ?b offset ?a] window_before [of offset "buf_bytes b" ?a ?b] len by auto
    ultimately show ?thesis using IH split len by auto
  next
    case cut
    with Cons.prems(1) last' have x: "offset' = ?last"
      "passed xs = [(rg_tail (?last - ?b) ?h)\<lparr>bf_last_buf := main, bf_last_in_chain := True\<rparr>]" by (auto simp: Let_def split: if_splits)
    show ?thesis
      using x cut_bytes(1) [OF ok(1) cut(1) Cons.prems(5) cut(2,3,4)] split window_after [OF cut(4), of ?a "chain_bytes bs"] cut(4) len by simp
  next
    case keep
    with Cons.prems(1) rec last' have "xs = (True, ?h) # xs2" "offset' = o2" by (auto simp: Let_def split: if_splits)
    then show ?thesis using IH split cut_bytes(2) [OF ok(1) keep(1) Cons.prems(5) keep(2,3,4)] len by auto
  qed
qed

text \<open>All the chains of a response, for a request with one range.\<close>

lemma range_stream_single:
  assumes "rf_ranges ctx = [g]" "list_all (list_all buf_ok) cls" "0 \<le> rf_offset ctx"
    and "rf_offset ctx + int (length (chain_bytes (concat cls))) < 2 ^ 63" "range_start g < range_end g" "0 \<le> range_start g"
  shows "range_stream main (Some ctx) cls = window (range_start g) (range_end g) (rf_offset ctx) (chain_bytes (concat cls))"
  using assms
proof (induction cls arbitrary: ctx)
  case Nil
  then show ?case by (simp add: window_def span_def)
next
  case (Cons cl cls)
  let ?a = "range_start g" and ?b = "range_end g" and ?o = "rf_offset ctx" and ?rest = "chain_bytes (concat cls)"
  show ?case
  proof (cases cl)
    case Nil
    then show ?thesis using Cons by (simp add: ngx_http_range_body_filter_def)
  next
    case (Cons b bs)
    obtain o2 xs where single: "rg_single main g ?o cl = (o2, xs)" by fastforce
    have bytes: "chain_bytes (passed xs) = window ?a ?b ?o (chain_bytes cl)"
      and o2: "o2 = ?o + int (length (chain_bytes cl)) \<or> ?b \<le> o2 \<and> o2 \<le> ?o + int (length (chain_bytes cl))"
      using rg_single_bytes [OF single] Cons.prems by auto
    let ?ctx = "ctx\<lparr>rf_offset := o2\<rparr>"
    have "range_stream main (Some ctx) (cl # cls) = chain_bytes (passed xs) @ range_stream main (Some ?ctx) cls"
      using single Cons Cons.prems(1)
      by (auto simp: ngx_http_range_body_filter_def ngx_http_range_singlepart_body_def Let_def split: list.split)
    moreover have "range_stream main (Some ?ctx) cls = window ?a ?b (?o + int (length (chain_bytes cl))) ?rest"
    proof -
      have "0 \<le> o2" "o2 + int (length ?rest) < 2 ^ 63" using o2 Cons.prems(3-6) by auto
      then have "range_stream main (Some ?ctx) cls = window ?a ?b o2 ?rest" using Cons.IH [of ?ctx] Cons.prems by simp
      then show ?thesis using o2 window_after [of ?b o2 ?a ?rest] window_after [of ?b "?o + int (length (chain_bytes cl))" ?a ?rest] by auto
    qed
    ultimately show ?thesis using bytes window_append [of ?a ?b ?o "chain_bytes cl" ?rest] by simp
  qed
qed

section \<open>Whole responses\<close>

text \<open>What it means that the header filter sets a context.\<close>

definition partial_response :: "response_t \<Rightarrow> response_t" where
  "partial_response r = r\<lparr>re_headers_out := (re_headers_out r)\<lparr>out_status := NGX_HTTP_PARTIAL_CONTENT, out_status_line := []\<rparr>\<rparr>"

lemma header_filter_context:
  assumes "ngx_http_range_header_filter max_ranges boundary mctx r = Some (e, r', Some ctx)" "re_main r"
  obtains hdr n rs where "ngx_http_range_parse None (out_content_length_n (re_headers_out r)) hdr n = (NGX_OK, rs)" "e = Next_filter"
    "(if length rs = 1 then ctx = \<lparr>rf_offset = out_content_offset (re_headers_out r), rf_boundary_header = [], rf_ranges = rs\<rparr>
        \<and> r' = ngx_http_range_singlepart_header (partial_response r) ctx
      else (r', ctx) = ngx_http_range_multipart_header boundary (partial_response r)
        \<lparr>rf_offset = out_content_offset (re_headers_out r), rf_boundary_header = [], rf_ranges = rs\<rparr>)"
proof -
  from assms obtain hdr where hdr: "in_range (re_headers_in r) = Some hdr"
    by (auto simp: ngx_http_range_header_filter_def Let_def range_next_filter_def split: if_splits option.splits)
  let ?n = "if re_single_range r then 1 else max_ranges"
  obtain rc rs where parse: "ngx_http_range_parse None (out_content_length_n (re_headers_out r)) hdr ?n = (rc, rs)" by fastforce
  have "rc = NGX_OK" "e = Next_filter"
    using assms hdr parse
    by (auto simp: ngx_http_range_header_filter_def Let_def range_next_filter_def split: if_splits option.splits bool.splits prod.splits)
  moreover from this have "if length rs = 1 then ctx = \<lparr>rf_offset = out_content_offset (re_headers_out r), rf_boundary_header = [], rf_ranges = rs\<rparr>
        \<and> r' = ngx_http_range_singlepart_header (partial_response r) ctx
      else (r', ctx) = ngx_http_range_multipart_header boundary (partial_response r)
        \<lparr>rf_offset = out_content_offset (re_headers_out r), rf_boundary_header = [], rf_ranges = rs\<rparr>"
    using assms hdr parse
    by (auto simp: ngx_http_range_header_filter_def partial_response_def Let_def range_next_filter_def split: if_splits option.splits bool.splits prod.splits)
  ultimately show ?thesis using that parse by blast
qed

text \<open>
  C18: When the header filter accepts one range for a response, and the body filter is then given the whole response in any number of
  chains of any buffers, in memory, in a file or both, then what it passes on is exactly that range of the response, the status is 206, and the
  headers \<^verbatim>\<open>Content-Range\<close> and \<^verbatim>\<open>Content-Length\<close> are those of the range, which lies within the response. A response whose buffers start
  at an offset of it gives the part of the range that they have.
\<close>

theorem ngx_http_range_single_response:
  assumes "ngx_http_range_header_filter max_ranges boundary mctx r = Some (e, r', Some ctx)" "length (rf_ranges ctx) = 1" "re_main r"
    and "list_all (list_all buf_ok) cls" "0 \<le> out_content_offset (re_headers_out r)"
    and "out_content_offset (re_headers_out r) + int (length (chain_bytes (concat cls))) = out_content_length_n (re_headers_out r)"
    and "out_content_length_n (re_headers_out r) \<le> NGX_MAX_OFF_T_VALUE"
  shows "\<exists>a b. 0 \<le> a \<and> a < b \<and> b \<le> out_content_length_n (re_headers_out r) \<and> e = Next_filter
    \<and> out_status (re_headers_out r') = NGX_HTTP_PARTIAL_CONTENT
    \<and> out_content_range (re_headers_out r') = Some (bytes ''bytes '' @ print_span a (b - 1) (out_content_length_n (re_headers_out r)))
    \<and> out_content_length_n (re_headers_out r') = b - a
    \<and> range_stream True (Some ctx) cls = window a b (out_content_offset (re_headers_out r)) (chain_bytes (concat cls))"
proof -
  let ?h = "re_headers_out r"
  from header_filter_context [OF assms(1,3)] obtain hdr n rs
    where parse: "ngx_http_range_parse None (out_content_length_n ?h) hdr n = (NGX_OK, rs)" and e: "e = Next_filter"
      and c: "if length rs = 1 then ctx = \<lparr>rf_offset = out_content_offset ?h, rf_boundary_header = [], rf_ranges = rs\<rparr>
        \<and> r' = ngx_http_range_singlepart_header (partial_response r) ctx
      else (r', ctx) = ngx_http_range_multipart_header boundary (partial_response r)
        \<lparr>rf_offset = out_content_offset ?h, rf_boundary_header = [], rf_ranges = rs\<rparr>" .
  have "length (rf_ranges ctx) = length rs" using c by (auto simp: ngx_http_range_multipart_header_def Let_def split: if_splits)
  with assms(2) obtain g where g: "rs = [g]" by (auto simp: length_Suc_conv)
  have inside: "0 \<le> range_start g" "range_start g < range_end g" "range_end g \<le> out_content_length_n ?h"
    using ngx_http_range_parse_inside [OF parse] g assms(5-7) by auto
  let ?ctx = "\<lparr>rf_offset = out_content_offset ?h, rf_boundary_header = [], rf_ranges = [g]\<rparr>"
  have ctx: "ctx = ?ctx" and r': "r' = ngx_http_range_singlepart_header (partial_response r) ?ctx" using c g by auto
  have "range_stream True (Some ctx) cls = window (range_start g) (range_end g) (out_content_offset ?h) (chain_bytes (concat cls))"
    using range_stream_single [of ?ctx g cls True] assms(4-7) inside unfolding ctx by simp
  moreover have "rg_sprintf (bytes ''bytes %O-%O/%O'') [Va_int (range_start g), Va_int (range_end g - 1), Va_int (out_content_length_n ?h)]
      = bytes ''bytes '' @ print_span (range_start g) (range_end g - 1) (out_content_length_n ?h)"
    using singlepart_range_closed [of "range_start g" "out_content_length_n ?h" "range_end g - 1"] inside assms(7) by (simp add: is_off_t_def)
  ultimately show ?thesis
    using inside e assms(3,7) unfolding r'
    by (rule_tac exI [of _ "range_start g"], rule_tac exI [of _ "range_end g"])
      (simp add: ngx_http_range_singlepart_header_def partial_response_def)
qed

text \<open>Several ranges of a response in one buffer.\<close>

lemma string_buf_bytes [simp]:
  "buf_bytes ((string_buf xs)\<lparr>bf_memory := True\<rparr>) = xs" "buf_bytes ((string_buf xs)\<lparr>bf_temporary := True\<rparr>) = xs"
  "buf_bytes ((string_buf xs)\<lparr>bf_temporary := True, bf_last_buf := True\<rparr>) = xs"
  by (simp_all add: buf_bytes_def mem_bytes_def ngx_buf_in_memory_def string_buf_def span_all)

lemma rg_data_bytes:
  assumes "buf_ok buf" "\<not> ngx_buf_special buf" "0 \<le> range_start g" "range_start g \<le> range_end g" "range_end g \<le> ngx_buf_size buf"
  shows "buf_bytes (rg_data buf g) = span (range_start g) (range_end g) (buf_bytes buf)"
proof (cases "ngx_buf_in_memory buf")
  case True
  have "ngx_buf_in_memory (rg_data buf g)" "mem_bytes (rg_data buf g) = span (bf_pos buf + range_start g) (bf_pos buf + range_end g) (bf_mem buf)"
    using True by (auto simp: rg_data_def Let_def ngx_buf_in_memory_def mem_bytes_def)
  then show ?thesis using True assms by (simp add: buf_bytes_def mem_bytes_def [of buf] buf_ok_def ngx_buf_size_def span_span)
next
  case False
  then have f: "bf_in_file buf" using assms(1,2) by (auto simp: buf_ok_def)
  have "\<not> ngx_buf_in_memory (rg_data buf g)" "bf_in_file (rg_data buf g)"
    "file_bytes (rg_data buf g) = span (bf_file_pos buf + range_start g) (bf_file_pos buf + range_end g) (bf_file buf)"
    using False f by (auto simp: rg_data_def Let_def ngx_buf_in_memory_def file_bytes_def ngx_calloc_buf_def)
  then show ?thesis using False f assms by (simp add: buf_bytes_def file_bytes_def [of buf] buf_ok_def ngx_buf_size_def span_span)
qed

text \<open>One part of the reference: the boundary, the type, the range and its bytes; and all of them.\<close>

definition part_bytes :: "64 word \<Rightarrow> headers_out_t \<Rightarrow> u_char list \<Rightarrow> ngx_http_range_t \<Rightarrow> u_char list" where
  "part_bytes boundary h body g =
     print_boundary boundary @ type_line h @ [CR, LF] @ bytes ''Content-Range: bytes ''
     @ print_span (range_start g) (range_end g - 1) (int (length body)) @ [CR, LF, CR, LF] @ span (range_start g) (range_end g) body"

definition multipart_bytes :: "64 word \<Rightarrow> headers_out_t \<Rightarrow> u_char list \<Rightarrow> ngx_http_range_t list \<Rightarrow> u_char list" where
  "multipart_bytes boundary h body rs = concat (map (part_bytes boundary h body) rs) @ print_boundary boundary @ [ch_minus, ch_minus, CR, LF]"

definition range_inside :: "int \<Rightarrow> ngx_http_range_t \<Rightarrow> bool" where
  "range_inside l g \<longleftrightarrow> 0 \<le> range_start g \<and> range_start g < range_end g \<and> range_end g \<le> l"

lemma range_content_inside:
  assumes "range_inside l g" "l \<le> NGX_MAX_OFF_T_VALUE"
  shows "range_content l g = g\<lparr>range_content_range := print_span (range_start g) (range_end g - 1) l @ [CR, LF, CR, LF]\<rparr>"
  using range_content_closed [of g l] assms by (simp add: range_inside_def is_off_t_def)

lemma range_content_fields [simp]:
  "range_start (range_content l g) = range_start g" "range_end (range_content l g) = range_end g"
  by (simp_all add: range_content_def)

lemma range_sum_content: "range_sum (map (range_content l) rs) = range_sum rs"
  by (induction rs) (simp_all add: range_sum_def range_size_def)

lemma multipart_bytes_content: "multipart_bytes boundary h body (map (range_content l) rs) = multipart_bytes boundary h body rs"
  by (induction rs) (simp_all add: multipart_bytes_def part_bytes_def)

lemma multipart_bytes_length:
  "int (length (multipart_bytes boundary h body rs)) = 28 + int (length (concat (map (part_bytes boundary h body) rs)))"
  by (simp add: multipart_bytes_def print_boundary_length)

text \<open>The length that the header filter announces.\<close>

lemma multipart_length:
  assumes "\<forall>g \<in> set rs. range_inside (int (length body)) g" "int (length body) \<le> NGX_MAX_OFF_T_VALUE"
    and "header = print_boundary boundary @ type_line h @ [CR, LF] @ bytes ''Content-Range: bytes ''"
  shows "foldl (\<lambda>len g. len + int (length header) + int (length (range_content_range g)) + (range_end g - range_start g)) len
      (map (range_content (int (length body))) rs)
    = len + int (length (concat (map (part_bytes boundary h body) rs)))"
  using assms(1)
proof (induction rs arbitrary: len)
  case (Cons g rs)
  have g: "range_inside (int (length body)) g" using Cons.prems by simp
  have "int (length (span (range_start g) (range_end g) body)) = range_end g - range_start g"
    using g by (intro span_length) (auto simp: range_inside_def)
  then show ?case
    using Cons range_content_inside [OF g assms(2)] by (simp add: part_bytes_def assms(3))
qed simp

lemma multipart_parts:
  assumes "buf_ok buf" "\<not> ngx_buf_special buf" "buf_bytes buf = body" "int (length body) \<le> NGX_MAX_OFF_T_VALUE"
    and "rf_boundary_header ctx = print_boundary boundary @ type_line h @ [CR, LF] @ bytes ''Content-Range: bytes ''"
    and "\<forall>g \<in> set rs. range_inside (int (length body)) g"
  shows "chain_bytes (concat (map (rg_part ctx buf) (map (range_content (int (length body))) rs))) = concat (map (part_bytes boundary h body) rs)"
  using assms(6)
proof (induction rs)
  case (Cons g rs)
  have g: "range_inside (int (length body)) g" using Cons.prems by simp
  let ?g = "range_content (int (length body)) g"
  have "buf_bytes (rg_data buf ?g) = span (range_start g) (range_end g) body"
    using rg_data_bytes [OF assms(1,2), of ?g] g buf_bytes_length [OF assms(1)] assms(3) by (simp add: range_inside_def)
  then have "chain_bytes (rg_part ctx buf ?g) = part_bytes boundary h body g"
    using range_content_inside [OF g assms(4)] by (simp add: rg_part_def part_bytes_def assms(5))
  then show ?case using Cons by simp
qed simp

text \<open>
  C19: When the header filter accepts several ranges for a response, the sum of whose sizes fits in 63 bits, and the body filter is then given the response
  in one buffer, then what it passes on is, for each range in order, the boundary, the type of the response, the range and the bytes of the
  response within it, and at the end the closing boundary; the status is 206, the type names the boundary, and the length that
  the header announces is, as a 64-bit number, the number of bytes passed on.
\<close>

theorem ngx_http_range_multipart_response:
  assumes "ngx_http_range_header_filter max_ranges boundary mctx r = Some (e, r', Some ctx)" "length (rf_ranges ctx) \<noteq> 1" "re_main r"
    and "range_sum (rf_ranges ctx) \<le> NGX_MAX_OFF_T_VALUE" "out_content_offset (re_headers_out r) = 0"
    and "length (out_content_type (re_headers_out r)) < 2 ^ 60" "length (out_charset (re_headers_out r)) < 2 ^ 60"
    and "buf_ok buf" "\<not> ngx_buf_special buf" "buf_bytes buf = body"
    and "int (length body) = out_content_length_n (re_headers_out r)" "int (length body) \<le> NGX_MAX_OFF_T_VALUE"
  shows "(\<forall>g \<in> set (rf_ranges ctx). range_inside (int (length body)) g) \<and> e = Next_filter
    \<and> out_status (re_headers_out r') = NGX_HTTP_PARTIAL_CONTENT
    \<and> out_content_type (re_headers_out r') = bytes ''multipart/byteranges; boundary='' @ print_atomic boundary
    \<and> exit_bytes (fst (ngx_http_range_body_filter True (Some ctx) (buf # cl))) = multipart_bytes boundary (re_headers_out r) body (rf_ranges ctx)
    \<and> out_content_length_n (re_headers_out r') = s64 (int (length (multipart_bytes boundary (re_headers_out r) body (rf_ranges ctx))))"
proof -
  let ?h = "re_headers_out r" and ?l = "int (length body)"
  let ?header = "print_boundary boundary @ type_line ?h @ [CR, LF] @ bytes ''Content-Range: bytes ''"
  from header_filter_context [OF assms(1,3)] obtain hdr n rs
    where parse: "ngx_http_range_parse None (out_content_length_n ?h) hdr n = (NGX_OK, rs)" and e: "e = Next_filter"
      and c: "if length rs = 1 then ctx = \<lparr>rf_offset = out_content_offset ?h, rf_boundary_header = [], rf_ranges = rs\<rparr>
        \<and> r' = ngx_http_range_singlepart_header (partial_response r) ctx
      else (r', ctx) = ngx_http_range_multipart_header boundary (partial_response r)
        \<lparr>rf_offset = out_content_offset ?h, rf_boundary_header = [], rf_ranges = rs\<rparr>" .
  have header: "range_boundary_header boundary (re_headers_out (partial_response r)) = ?header"
  proof -
    have "type_line (re_headers_out (partial_response r)) = type_line ?h" by (simp add: partial_response_def type_line_def)
    then show ?thesis using boundary_header_closed [of "re_headers_out (partial_response r)" boundary] assms(6,7) by (simp add: partial_response_def)
  qed
  have several: "length rs \<noteq> 1" using c assms(2) by (auto split: if_splits)
  let ?rs = "map (range_content ?l) rs"
  let ?ctx = "\<lparr>rf_offset = 0, rf_boundary_header = ?header, rf_ranges = ?rs\<rparr>"
  have ctx: "ctx = ?ctx"
    using c several header assms(5,11) by (simp add: ngx_http_range_multipart_header_def partial_response_def Let_def)
  have "range_sum rs \<le> NGX_MAX_OFF_T_VALUE" using assms(4) unfolding ctx by (simp add: range_sum_content)
  then have inside: "\<forall>g \<in> set rs. range_inside ?l g"
    using ngx_http_range_parse_inside [OF parse] assms(11,12) by (auto simp: range_inside_def)
  note mp = multipart_bytes_content [of boundary ?h body ?l rs]
  note size = buf_bytes_length [OF assms(8), unfolded assms(10)]
  have "ngx_http_range_test_overlapped ?ctx buf = (NGX_OK, ?ctx\<lparr>rf_offset := ?l\<rparr>)"
    using inside assms(12) by (auto simp: ngx_http_range_test_overlapped_def size [symmetric] list_ex_iff range_inside_def)
  then have "exit_bytes (fst (ngx_http_range_body_filter True (Some ?ctx) (buf # cl))) = multipart_bytes boundary ?h body rs"
    using several assms(9) multipart_parts [OF assms(8-10,12), of "?ctx\<lparr>rf_offset := ?l\<rparr>" boundary ?h rs] inside print_boundary_length [of boundary]
    by (simp add: ngx_http_range_body_filter_def ngx_http_range_multipart_body_def multipart_bytes_def)
  moreover have "out_status (re_headers_out r') = NGX_HTTP_PARTIAL_CONTENT"
    "out_content_type (re_headers_out r') = bytes ''multipart/byteranges; boundary='' @ print_atomic boundary"
    "out_content_length_n (re_headers_out r') = s64 (int (length (multipart_bytes boundary ?h body rs)))"
    using c several header assms(11) multipart_length [OF inside assms(12) refl, of boundary ?h 28]
    by (simp_all add: ngx_http_range_multipart_header_def partial_response_def Let_def multipart_type_closed [simplified] multipart_bytes_length)
  ultimately show ?thesis using inside e mp unfolding ctx by (auto simp: range_inside_def)
qed

text \<open>
  C22: The header filter prints with \<^verbatim>\<open>ngx_sprintf\<close>, which has no limit, into memory that it allocates before; for every 64-bit length and
  every 64-bit range, also one outside of the response, each of the strings fits into the memory allocated for it: the value of \<^verbatim>\<open>Content-Range\<close> for one range and for
  none, the header of a part, the type with the boundary, and the range of each part.
\<close>

theorem ngx_http_range_headers_fit:
  assumes "is_off_t (out_content_length_n (re_headers_out r))" "rf_ranges ctx \<noteq> []" "\<forall>g \<in> set (rf_ranges ctx). is_off_t (range_start g)" "re_main r"
    and "length (out_content_type (re_headers_out r)) < 2 ^ 60" "length (out_charset (re_headers_out r)) < 2 ^ 60"
  shows "length (the (out_content_range (re_headers_out (ngx_http_range_singlepart_header r ctx)))) \<le> 8 + 3 * 20
    \<and> length (the (out_content_range (re_headers_out (ngx_http_range_not_satisfiable r)))) \<le> 8 + 20
    \<and> length (rf_boundary_header (snd (ngx_http_range_multipart_header boundary r ctx)))
        \<le> 4 + 20 + 16 + length (out_content_type (re_headers_out r)) + 23
          + (if out_content_type_len (re_headers_out r) = length (out_content_type (re_headers_out r)) \<and> out_charset (re_headers_out r) \<noteq> []
             then 10 + length (out_charset (re_headers_out r)) else 0)
    \<and> length (out_content_type (re_headers_out (fst (ngx_http_range_multipart_header boundary r ctx)))) \<le> 45 + 20
    \<and> (\<forall>g \<in> set (rf_ranges (snd (ngx_http_range_multipart_header boundary r ctx))). length (range_content_range g) \<le> 3 * 20 + 2 + 4)"
proof -
  let ?h = "re_headers_out r" and ?l = "out_content_length_n (re_headers_out r)" and ?g = "hd (rf_ranges ctx)"
  have hd: "is_off_t (range_start ?g)" using assms(2,3) by simp
  have span: "length (print_span (range_start g) (s64 i) ?l) \<le> 62" if "is_off_t (range_start g)" for g i
    using that assms(1) s64_off_t by (intro print_span_length)
  have "length (the (out_content_range (re_headers_out (ngx_http_range_singlepart_header r ctx)))) \<le> 8 + 3 * 20"
    using span [OF hd, of "range_end ?g - 1"] singlepart_range_closed [OF hd assms(1), of "range_end ?g - 1"] assms(4)
    by (simp add: ngx_http_range_singlepart_header_def Let_def)
  moreover have "length (the (out_content_range (re_headers_out (ngx_http_range_not_satisfiable r)))) \<le> 8 + 20"
    using not_satisfiable_closed [OF assms(1)] print_int_length [of ?l] assms(1)
    by (simp add: ngx_http_range_not_satisfiable_def ngx_http_clear_content_length_def Let_def is_off_t_def)
  moreover have "length (range_boundary_header boundary ?h) \<le> 4 + 20 + 16 + length (out_content_type ?h) + 23
      + (if out_content_type_len ?h = length (out_content_type ?h) \<and> out_charset ?h \<noteq> [] then 10 + length (out_charset ?h) else 0)"
    using print_boundary_length [of boundary] by (simp add: boundary_header_closed [OF assms(5,6)] type_line_def)
  moreover have "length (range_content_range (range_content ?l g)) \<le> 3 * 20 + 2 + 4" if "g \<in> set (rf_ranges ctx)" for g
    using range_content_closed [of g ?l] span [of g] that assms(1,3) by simp
  ultimately show ?thesis
    using multipart_type_closed [of boundary] print_atomic_length [of boundary] by (auto simp: ngx_http_range_multipart_header_def Let_def)
qed

section \<open>Examples\<close>

definition example_response :: "ngx_str_t \<Rightarrow> response_t" where
  "example_response hdr = \<lparr>re_main = True, re_http_version = 1001, re_subrequest_ranges = False, re_allow_ranges = True,
     re_single_range = False, re_disable_not_modified = False,
     re_headers_in = \<lparr>in_range = Some hdr, in_if_range = None, in_if_modified_since = None, in_if_unmodified_since = None,
       in_if_match = None, in_if_none_match = None\<rparr>,
     re_headers_out = \<lparr>out_status = NGX_HTTP_OK, out_status_line = [], out_content_length_n = 6, out_content_length = None,
       out_content_encoding = None, out_content_range = None, out_accept_ranges = None, out_etag = None, out_last_modified_time = - 1,
       out_content_offset = 0, out_content_type = bytes ''text/plain'', out_content_type_len = 10, out_content_type_lowcase = None,
       out_charset = []\<rparr>\<rparr>"

definition example_ctx :: ngx_http_range_filter_ctx_t where
  "example_ctx = \<lparr>rf_offset = 0, rf_boundary_header = [], rf_ranges = [\<lparr>range_start = 2, range_end = 5, range_content_range = []\<rparr>]\<rparr>"

definition example_chains :: "ngx_out_buf_t list list" where
  "example_chains =
     [[(string_buf (bytes ''abc''))\<lparr>bf_memory := True\<rparr>],
      [ngx_calloc_buf\<lparr>bf_in_file := True, bf_file := bytes ''xxdef'', bf_file_pos := 2, bf_file_last := 5\<rparr>,
       ngx_calloc_buf\<lparr>bf_last_buf := True\<rparr>]]"

lemma example_single:
  "ngx_http_range_header_filter 10 7 None (example_response (bytes ''bytes=2-4''))
   = Some (Next_filter, ngx_http_range_singlepart_header (partial_response (example_response (bytes ''bytes=2-4''))) example_ctx, Some example_ctx)"
proof -
  have "ngx_http_range_parse None 6 (bytes ''bytes=2-4'') 10 = (NGX_OK, [\<lparr>range_start = 2, range_end = 5, range_content_range = []\<rparr>])" by code_simp
  moreover have "ngx_strncasecmp (bytes ''bytes=2-4'') (bytes ''bytes='') 6 = 0" by code_simp
  ultimately show ?thesis
    by (simp add: ngx_http_range_header_filter_def example_response_def range_if_range_def partial_response_def example_ctx_def Let_def del: bytes_Cons)
qed

lemma example_bytes:
  "list_all (list_all buf_ok) example_chains" "chain_bytes (concat example_chains) = bytes ''abcdef''"
  "range_stream True (Some example_ctx) example_chains = bytes ''cde''"
  by code_simp+

theorem ngx_http_range_single_response_witness:
  "range_stream True (Some example_ctx) example_chains = bytes ''cde''
   \<and> (\<exists>a b. 0 \<le> a \<and> a < b \<and> b \<le> 6
      \<and> out_content_length_n (re_headers_out (ngx_http_range_singlepart_header (partial_response (example_response (bytes ''bytes=2-4''))) example_ctx)) = b - a
      \<and> range_stream True (Some example_ctx) example_chains = window a b 0 (bytes ''abcdef''))"
  using ngx_http_range_single_response [OF example_single, of example_chains] example_bytes
  by (auto simp: example_ctx_def example_response_def)

theorem ngx_http_range_headers_fit_witness:
  "length (the (out_content_range (re_headers_out (ngx_http_range_singlepart_header (example_response []) example_ctx)))) \<le> 68"
  using ngx_http_range_headers_fit [of "example_response []" example_ctx 7] by (simp add: is_off_t_def example_response_def example_ctx_def)

definition example_multi :: ngx_http_range_filter_ctx_t where
  "example_multi = snd (ngx_http_range_multipart_header 7 (partial_response (example_response (bytes ''bytes=0-1,-2'')))
     \<lparr>rf_offset = 0, rf_boundary_header = [], rf_ranges =
        [\<lparr>range_start = 0, range_end = 2, range_content_range = []\<rparr>, \<lparr>range_start = 4, range_end = 6, range_content_range = []\<rparr>]\<rparr>)"

lemma example_several:
  "\<exists>r'. ngx_http_range_header_filter 10 7 None (example_response (bytes ''bytes=0-1,-2'')) = Some (Next_filter, r', Some example_multi)"
proof -
  have "ngx_http_range_parse None 6 (bytes ''bytes=0-1,-2'') 10 = (NGX_OK,
      [\<lparr>range_start = 0, range_end = 2, range_content_range = []\<rparr>, \<lparr>range_start = 4, range_end = 6, range_content_range = []\<rparr>])" by code_simp
  moreover have "ngx_strncasecmp (bytes ''bytes=0-1,-2'') (bytes ''bytes='') 6 = 0" by code_simp
  ultimately show ?thesis
    by (simp add: ngx_http_range_header_filter_def example_response_def range_if_range_def partial_response_def example_multi_def Let_def del: bytes_Cons
        split: prod.split)
qed

theorem ngx_http_range_multipart_response_witness:
  "exit_bytes (fst (ngx_http_range_body_filter True (Some example_multi) [(string_buf (bytes ''abcdef''))\<lparr>bf_memory := True\<rparr>]))
   = multipart_bytes 7 (re_headers_out (example_response (bytes ''bytes=0-1,-2''))) (bytes ''abcdef'') (rf_ranges example_multi)"
proof -
  obtain r' where r': "ngx_http_range_header_filter 10 7 None (example_response (bytes ''bytes=0-1,-2'')) = Some (Next_filter, r', Some example_multi)"
    using example_several by blast
  have "buf_ok ((string_buf (bytes ''abcdef''))\<lparr>bf_memory := True\<rparr>)" "\<not> ngx_buf_special ((string_buf (bytes ''abcdef''))\<lparr>bf_memory := True\<rparr>)"
    by code_simp+
  moreover have "length (rf_ranges example_multi) = 2" "range_sum (rf_ranges example_multi) = 4"
    by (simp_all add: example_multi_def ngx_http_range_multipart_header_def Let_def range_sum_def range_size_def)
  ultimately show ?thesis
    using ngx_http_range_multipart_response [OF r', of "(string_buf (bytes ''abcdef''))\<lparr>bf_memory := True\<rparr>" "bytes ''abcdef''" "[]"]
    by (simp add: example_response_def del: bytes_Cons)
qed

end
