(* ===== verification/Ngx_Http_Not_Modified.thy ===== *)
theory Ngx_Http_Not_Modified
  imports Ngx_Http_Output
begin

text \<open>
  The conditional requests, \<^verbatim>\<open>http/modules/ngx_http_not_modified_filter_module.c\<close>: the tests of the headers \<^verbatim>\<open>If-Modified-Since\<close>,
  \<^verbatim>\<open>If-Unmodified-Since\<close>, \<^verbatim>\<open>If-Match\<close> and \<^verbatim>\<open>If-None-Match\<close>, and the header filter that answers 304 or 412. The properties: the list of entity tags is
  searched exactly, and a client that sends back what it got is told that nothing changed.
\<close>

section \<open>The tests\<close>

abbreviation (input) NGX_HTTP_IMS_OFF :: nat where "NGX_HTTP_IMS_OFF \<equiv> 0"
abbreviation (input) NGX_HTTP_IMS_EXACT :: nat where "NGX_HTTP_IMS_EXACT \<equiv> 1"

text \<open>\<open>None\<close> stands for a reader of dates that reads past the end of the value, which it never does.\<close>

definition ngx_http_test_if_unmodified :: "response_t \<Rightarrow> bool option" where
  "ngx_http_test_if_unmodified r =
     (if out_last_modified_time (re_headers_out r) = - 1 then Some False
      else map_option (\<lambda>iums. iums \<ge> out_last_modified_time (re_headers_out r))
             (ngx_parse_http_time (the (in_if_unmodified_since (re_headers_in r)))))"

definition ngx_http_test_if_modified :: "nat \<Rightarrow> response_t \<Rightarrow> bool option" where
  "ngx_http_test_if_modified if_modified_since r =
     (if out_last_modified_time (re_headers_out r) = - 1 then Some True
      else if if_modified_since = NGX_HTTP_IMS_OFF then Some True
      else map_option (\<lambda>ims.
             if ims = out_last_modified_time (re_headers_out r) then False
             else if_modified_since = NGX_HTTP_IMS_EXACT \<or> ims < out_last_modified_time (re_headers_out r))
           (ngx_parse_http_time (the (in_if_modified_since (re_headers_in r)))))"

text \<open>The mark of a weak entity tag.\<close>

definition im_weak :: "bool \<Rightarrow> u_char list \<Rightarrow> u_char list" where
  "im_weak weak p = (if weak \<and> length p > 2 \<and> p ! 0 = of_char CHR ''W'' \<and> p ! 1 = ch_slash then drop 2 p else p)"

definition im_blank :: "u_char \<Rightarrow> bool" where
  "im_blank ch \<longleftrightarrow> ch = ch_space \<or> ch = ch_TAB"

definition im_skip :: "u_char list \<Rightarrow> u_char list" where
  "im_skip p = dropWhile (\<lambda>ch. im_blank ch \<or> ch = ch_comma) (dropWhile (\<lambda>ch. ch \<noteq> ch_comma) p)"

lemma im_skip_length: "p \<noteq> [] \<Longrightarrow> length (im_skip p) < length p"
proof (cases p)
  case (Cons c p')
  have d: "length (dropWhile P (dropWhile Q p')) \<le> length p'" for P Q
    using length_dropWhile_le [of P "dropWhile Q p'"] length_dropWhile_le [of Q p'] by (rule le_trans)
  show ?thesis using Cons d length_dropWhile_le [of _ p'] by (auto simp: im_skip_def less_Suc_eq_le)
qed simp

lemma im_weak_length: "length (im_weak weak p) \<le> length p" "p \<noteq> [] \<Longrightarrow> im_weak weak p \<noteq> []"
  by (auto simp: im_weak_def)

lemma im_blank_length: "length (dropWhile im_blank (drop n p)) \<le> length p"
  using length_dropWhile_le [of im_blank "drop n p"] by simp

text \<open>The loop over the list; \<open>p\<close> is what lies between \<^verbatim>\<open>start\<close> and \<^verbatim>\<open>end\<close>.\<close>

function im_loop :: "bool \<Rightarrow> u_char list \<Rightarrow> u_char list \<Rightarrow> bool" where
  "im_loop weak etag p =
     (if p = [] then False
      else
        let p = im_weak weak p in
        if length etag > length p then False
        else if \<not> strncmp_eq p etag (length etag) then im_loop weak etag (im_skip p)
        else
          let q = dropWhile im_blank (drop (length etag) p) in
          if q = [] \<or> hd q = ch_comma then True else im_loop weak etag (im_skip q))"
  by pat_completeness auto
termination
proof (relation "measure (\<lambda>(weak, etag, p). length p)")
  fix weak :: bool and etag p x q :: "u_char list"
  assume p: "p \<noteq> []" and x: "x = im_weak weak p"
  have "x \<noteq> []" "length x \<le> length p" using p x im_weak_length(1) [of weak p] im_weak_length(2) [of p weak] by simp_all
  from im_skip_length [OF this(1)] this(2)
  show "((weak, etag, im_skip x), weak, etag, p) \<in> measure (\<lambda>(weak, etag, p). length p)" by simp
next
  fix weak :: bool and etag p x q :: "u_char list"
  assume p: "p \<noteq> []" and x: "x = im_weak weak p" and q: "q = dropWhile im_blank (drop (length etag) x)" "\<not> (q = [] \<or> hd q = ch_comma)"
  have "length (im_skip q) < length q" using q by (intro im_skip_length) simp
  also have "\<dots> \<le> length p" using q(1) x im_blank_length [of "length etag" x] im_weak_length(1) [of weak p] by simp
  finally show "((weak, etag, im_skip q), weak, etag, p) \<in> measure (\<lambda>(weak, etag, p). length p)" by simp
qed simp

declare im_loop.simps [simp del]

definition ngx_http_test_if_match :: "response_t \<Rightarrow> ngx_str_t \<Rightarrow> bool \<Rightarrow> bool" where
  "ngx_http_test_if_match r header weak =
     (if header = [of_char CHR ''*''] then True
      else case out_etag (re_headers_out r) of
        None \<Rightarrow> False
      | Some etag \<Rightarrow> im_loop weak (im_weak weak etag) header)"

section \<open>The header filter\<close>

definition ngx_http_clear_accept_ranges :: "response_t \<Rightarrow> response_t" where
  "ngx_http_clear_accept_ranges r =
     r\<lparr>re_allow_ranges := False, re_headers_out := (re_headers_out r)\<lparr>out_accept_ranges := None\<rparr>\<rparr>"

definition not_modified :: "response_t \<Rightarrow> response_t" where
  "not_modified r =
     (let h = ngx_http_clear_content_length ((re_headers_out r)\<lparr>out_status := NGX_HTTP_NOT_MODIFIED, out_status_line := [], out_content_type := []\<rparr>);
          r = ngx_http_clear_accept_ranges (r\<lparr>re_headers_out := h\<rparr>)
      in r\<lparr>re_headers_out := (re_headers_out r)\<lparr>out_content_encoding := None\<rparr>\<rparr>)"

text \<open>A test that is made only when its header is there.\<close>

definition test_header :: "ngx_str_t option \<Rightarrow> bool option \<Rightarrow> bool option" where
  "test_header header test = (case header of None \<Rightarrow> Some False | Some v \<Rightarrow> test)"

definition ngx_http_not_modified_header_filter :: "nat \<Rightarrow> response_t \<Rightarrow> (filter_exit \<times> response_t) option" where
  "ngx_http_not_modified_header_filter if_modified_since r =
     (let i = re_headers_in r in
      if out_status (re_headers_out r) \<noteq> NGX_HTTP_OK \<or> \<not> re_main r \<or> re_disable_not_modified r then Some (Next_filter, r)
      else case test_header (in_if_unmodified_since i) (map_option Not (ngx_http_test_if_unmodified r)) of
        None \<Rightarrow> None
      | Some True \<Rightarrow> Some (Finalize NGX_HTTP_PRECONDITION_FAILED, r)
      | Some False \<Rightarrow>
          if in_if_match i \<noteq> None \<and> \<not> ngx_http_test_if_match r (the (in_if_match i)) False
          then Some (Finalize NGX_HTTP_PRECONDITION_FAILED, r)
          else if in_if_modified_since i \<noteq> None \<or> in_if_none_match i \<noteq> None then
            (case test_header (in_if_modified_since i) (ngx_http_test_if_modified if_modified_since r) of
               None \<Rightarrow> None
             | Some True \<Rightarrow> Some (Next_filter, r)
             | Some False \<Rightarrow>
                 if in_if_none_match i \<noteq> None \<and> \<not> ngx_http_test_if_match r (the (in_if_none_match i)) True
                 then Some (Next_filter, r)
                 else Some (Next_filter, not_modified r))
          else Some (Next_filter, r))"

section \<open>Lists of entity tags\<close>

text \<open>The reference: tags without blanks and commas, and a list of them with a comma and any blanks between them.\<close>

definition tag_char :: "u_char \<Rightarrow> bool" where
  "tag_char c \<longleftrightarrow> c \<noteq> ch_NUL \<and> \<not> im_blank c \<and> c \<noteq> ch_comma"

definition is_tag :: "u_char list \<Rightarrow> bool" where
  "is_tag t \<longleftrightarrow> t \<noteq> [] \<and> t \<noteq> bytes ''W/'' \<and> list_all tag_char t"

definition is_separator :: "u_char list \<Rightarrow> bool" where
  "is_separator sep \<longleftrightarrow> (case dropWhile im_blank sep of [] \<Rightarrow> False | c # b \<Rightarrow> c = ch_comma \<and> list_all im_blank b)"

fun print_tags :: "u_char list \<Rightarrow> u_char list list \<Rightarrow> u_char list" where
  "print_tags sep [] = []"
| "print_tags sep [t] = t"
| "print_tags sep (t # ts) = t @ sep @ print_tags sep ts"

text \<open>What follows a tag.\<close>

definition after_tag :: "u_char list \<Rightarrow> u_char list list \<Rightarrow> u_char list" where
  "after_tag sep ts = (if ts = [] then [] else sep @ print_tags sep ts)"

lemma print_tags_Cons: "print_tags sep (t # ts) = t @ after_tag sep ts"
  by (cases ts) (simp_all add: after_tag_def)

lemma separator_split:
  assumes "is_separator sep"
  obtains x y where "sep = x @ ch_comma # y" "list_all im_blank x" "list_all im_blank y"
proof -
  from assms obtain y where y: "dropWhile im_blank sep = ch_comma # y" "list_all im_blank y"
    by (auto simp: is_separator_def split: list.splits)
  have "takeWhile im_blank sep @ ch_comma # y = sep" unfolding y(1) [symmetric] by (rule takeWhile_dropWhile_id)
  moreover have "list_all im_blank (takeWhile im_blank sep)" by (auto simp: list_all_iff dest: set_takeWhileD)
  ultimately show ?thesis using that [of "takeWhile im_blank sep" y] y(2) by simp
qed

lemma dropWhile_blanks: "list_all P xs \<Longrightarrow> dropWhile P (xs @ ys) = dropWhile P ys"
  by (induction xs) simp_all

lemma tag_first: "is_tag t \<Longrightarrow> \<exists>c t'. t = c # t' \<and> tag_char c"
  by (cases t) (auto simp: is_tag_def)

lemma print_tags_first: "ts \<noteq> [] \<Longrightarrow> list_all is_tag ts \<Longrightarrow> \<exists>c p. print_tags sep ts = c # p \<and> tag_char c"
  using tag_first by (cases ts) (fastforce simp: print_tags_Cons)+

text \<open>The skip to the next tag, from anywhere in one.\<close>

lemma skip_tag:
  assumes "is_separator sep" "list_all tag_char v" "list_all is_tag ts"
  shows "im_skip (v @ after_tag sep ts) = print_tags sep ts"
proof -
  have v: "dropWhile (\<lambda>c. c \<noteq> ch_comma) (v @ ys) = dropWhile (\<lambda>c. c \<noteq> ch_comma) ys" for ys
    using assms(2) by (intro dropWhile_blanks) (auto simp: list_all_iff tag_char_def)
  show ?thesis
  proof (cases "ts = []")
    case True
    then show ?thesis using v [of "[]"] by (simp add: im_skip_def after_tag_def del: dropWhile_eq_Nil_conv)
  next
    case False
    obtain x y where sep: "sep = x @ ch_comma # y" "list_all im_blank x" "list_all im_blank y" by (rule separator_split [OF assms(1)])
    obtain c p where p: "print_tags sep ts = c # p" "tag_char c" using print_tags_first [OF False assms(3)] by blast
    have "dropWhile (\<lambda>c. c \<noteq> ch_comma) (x @ ys) = dropWhile (\<lambda>c. c \<noteq> ch_comma) ys" for ys
      using sep(2) by (intro dropWhile_blanks) (auto simp: list_all_iff im_blank_def)
    moreover have "dropWhile (\<lambda>c. im_blank c \<or> c = ch_comma) (y @ ys) = dropWhile (\<lambda>c. im_blank c \<or> c = ch_comma) ys" for ys
      using sep(3) by (intro dropWhile_blanks) (auto simp: list_all_iff)
    ultimately show ?thesis using False p v by (simp add: im_skip_def after_tag_def sep(1) tag_char_def)
  qed
qed

lemma after_tag_blanks:
  assumes "is_separator sep"
  shows "dropWhile im_blank (after_tag sep ts) = [] \<or> hd (dropWhile im_blank (after_tag sep ts)) = ch_comma"
proof -
  obtain x y where sep: "sep = x @ ch_comma # y" "list_all im_blank x" "list_all im_blank y" by (rule separator_split [OF assms])
  then show ?thesis using dropWhile_blanks [of im_blank x] by (simp add: after_tag_def im_blank_def)
qed

lemma after_tag_first:
  assumes "is_separator sep"
  shows "after_tag sep ts = [] \<or> \<not> tag_char (hd (after_tag sep ts)) \<and> hd (after_tag sep ts) \<noteq> ch_slash"
proof -
  obtain x y where sep: "sep = x @ ch_comma # y" "list_all im_blank x" "list_all im_blank y" by (rule separator_split [OF assms])
  then show ?thesis by (cases x) (auto simp: after_tag_def tag_char_def im_blank_def)
qed

text \<open>The mark of a weak tag, in the list and alone.\<close>

lemma im_weak_tag:
  assumes "is_separator sep" "is_tag t"
  shows "im_weak weak (t @ after_tag sep ts) = im_weak weak t @ after_tag sep ts"
proof -
  let ?a = "after_tag sep ts"
  consider c where "t = [c]" | c d where "t = [c, d]" | c d e u where "t = c # d # e # u"
    using assms(2) unfolding is_tag_def by (metis neq_Nil_conv)
  then show ?thesis
  proof cases
    case 1
    then show ?thesis using after_tag_first [OF assms(1), of ts] by (cases ?a) (auto simp: im_weak_def)
  qed (use assms(2) in \<open>auto simp: im_weak_def is_tag_def\<close>)
qed

lemma im_weak_chars: "is_tag t \<Longrightarrow> list_all tag_char (im_weak weak t) \<and> im_weak weak t \<noteq> []"
  by (auto simp: im_weak_def is_tag_def list_all_iff dest: in_set_dropD)

lemma print_tags_longest: "t \<in> set ts \<Longrightarrow> length t \<le> length (print_tags sep ts)"
proof (induction ts)
  case (Cons u ts)
  then show ?case by (cases "ts = []") (auto simp: print_tags_Cons after_tag_def)
qed simp

lemma im_loop_step:
  assumes "is_separator sep" "is_tag t" "list_all is_tag ts" "e \<noteq> []" "list_all tag_char e"
  shows "im_loop weak e (print_tags sep (t # ts)) \<longleftrightarrow> e = im_weak weak t \<or> im_loop weak e (print_tags sep ts)"
proof -
  let ?u = "im_weak weak t" and ?a = "after_tag sep ts"
  let ?p = "?u @ ?a"
  have u: "list_all tag_char ?u" "?u \<noteq> []" using im_weak_chars [OF assms(2), of weak] by simp_all
  have nonempty: "t \<noteq> []" using assms(2) by (simp add: is_tag_def)
  have skip: "im_skip (v @ ?a) = print_tags sep ts" if "list_all tag_char v" for v by (rule skip_tag [OF assms(1) that assms(3)])
  have nul: "list_all (\<lambda>c. c \<noteq> ch_NUL) e" using assms(5) by (auto simp: list_all_iff tag_char_def)
  note step = im_loop.simps [of weak e "print_tags sep (t # ts)", unfolded print_tags_Cons im_weak_tag [OF assms(1,2)] Let_def]
  have rest: "im_loop weak e q \<longleftrightarrow> False" if "length q < length e" for q
    using that im_weak_length(1) [of weak q] by (subst im_loop.simps) (simp add: Let_def)
  consider (long) "length e > length ?p" | (other) "length e \<le> length ?p" "take (length e) ?p \<noteq> e"
    | (prefix) "length e \<le> length ?p" "take (length e) ?p = e" by linarith
  then show ?thesis
  proof cases
    case long
    then have "length (print_tags sep ts) < length e" by (auto simp: after_tag_def split: if_splits)
    then show ?thesis using step nonempty long rest [of "print_tags sep ts"] by (auto simp: print_tags_Cons)
  next
    case other
    then have "e \<noteq> ?u" by auto
    then show ?thesis using step nonempty other skip [OF u(1)] strncmp_eq_take [OF nul, of ?p] by (simp add: print_tags_Cons)
  next
    case prefix
    have short: "length e \<le> length ?u"
    proof (rule ccontr)
      assume "\<not> length e \<le> length ?u"
      then have l: "length ?u < length e" by simp
      have a: "?a \<noteq> []" using l prefix(1) by auto
      have "e ! length ?u = hd ?a" using arg_cong [OF prefix(2), of "\<lambda>xs. xs ! length ?u"] l a by (simp add: nth_append hd_conv_nth)
      moreover have "tag_char (e ! length ?u)" using assms(5) l by (simp add: list_all_length)
      ultimately show False using after_tag_first [OF assms(1), of ts] a by simp
    qed
    then have e: "e = take (length e) ?u" using prefix(2) by simp
    let ?v = "drop (length e) ?u"
    have v: "list_all tag_char ?v" using u(1) by (auto simp: list_all_iff dest: in_set_dropD)
    have drop: "drop (length e) ?p = ?v @ ?a" using short by simp
    show ?thesis
    proof (cases "?v = []")
      case True
      then have "e = ?u" using e by simp
      then show ?thesis using step nonempty prefix strncmp_eq_take [OF nul, of ?p] after_tag_blanks [OF assms(1), of ts] drop True
        by (auto simp: print_tags_Cons)
    next
      case False
      then have ne: "e \<noteq> ?u" by auto
      obtain c w where c: "?v = c # w" "tag_char c" using False v by (cases ?v) auto
      then have "dropWhile im_blank (drop (length e) ?p) = ?v @ ?a" "hd (?v @ ?a) \<noteq> ch_comma" unfolding drop by (auto simp: tag_char_def)
      then show ?thesis using step nonempty prefix strncmp_eq_take [OF nul, of ?p] skip [OF v] ne False by (simp add: print_tags_Cons)
    qed
  qed
qed

lemma im_loop_tags:
  assumes "is_separator sep" "list_all is_tag ts" "e \<noteq> []" "list_all tag_char e"
  shows "im_loop weak e (print_tags sep ts) \<longleftrightarrow> (\<exists>t \<in> set ts. im_weak weak t = e)"
  using assms(2)
proof (induction ts)
  case Nil
  then show ?case by (simp add: im_loop.simps)
next
  case (Cons t ts)
  then show ?case using im_loop_step [OF assms(1) _ _ assms(3,4), of t ts weak] by auto
qed

text \<open>A list of tags that is not the star alone.\<close>

definition tag_list :: "u_char list \<Rightarrow> u_char list list \<Rightarrow> bool" where
  "tag_list sep ts \<longleftrightarrow> is_separator sep \<and> list_all is_tag ts \<and> ts \<noteq> [] \<and> ts \<noteq> [bytes ''*'']"

lemma tag_list_star:
  assumes "tag_list sep ts"
  shows "print_tags sep ts \<noteq> bytes ''*''"
proof
  assume star: "print_tags sep ts = bytes ''*''"
  obtain t us where ts: "ts = t # us" using assms by (cases ts) (auto simp: tag_list_def)
  have t: "t \<noteq> []" using assms ts by (auto simp: tag_list_def is_tag_def)
  have "sep \<noteq> []" using assms by (auto simp: tag_list_def is_separator_def)
  then have "us = []" using star ts t by (cases t) (auto simp: print_tags_Cons after_tag_def split: if_splits)
  then show False using star ts assms by (simp add: tag_list_def)
qed

lemma test_if_match_tags:
  assumes "out_etag (re_headers_out r) = Some etag" "is_tag etag" "tag_list sep ts"
  shows "ngx_http_test_if_match r (print_tags sep ts) weak \<longleftrightarrow> (\<exists>t \<in> set ts. im_weak weak t = im_weak weak etag)"
proof -
  have "print_tags sep ts \<noteq> [of_char CHR ''*'']" using tag_list_star [OF assms(3)] by simp
  then show ?thesis
    using im_loop_tags [of sep ts "im_weak weak etag" weak] im_weak_chars [OF assms(2), of weak] assms
    by (simp add: ngx_http_test_if_match_def tag_list_def)
qed

text \<open>
  The search of \<^verbatim>\<open>ngx_http_test_if_match\<close>: in a list of entity tags, with any blanks around the commas, it finds a tag exactly when the list has one that is
  equal to the tag of the response, or for a weak comparison one that is equal up to the mark of a weak tag; without a tag of the response it finds none, and a star is always found.
\<close>

lemma ngx_http_test_if_match_exact:
  assumes "tag_list sep ts" "\<forall>etag. out_etag (re_headers_out r) = Some etag \<longrightarrow> is_tag etag"
  shows "(ngx_http_test_if_match r (print_tags sep ts) weak
      \<longleftrightarrow> (\<exists>etag. out_etag (re_headers_out r) = Some etag \<and> (\<exists>t \<in> set ts. im_weak weak t = im_weak weak etag)))
    \<and> ngx_http_test_if_match r (bytes ''*'') weak"
proof (cases "out_etag (re_headers_out r)")
  case None
  then show ?thesis using tag_list_star [OF assms(1)] by (simp add: ngx_http_test_if_match_def)
next
  case (Some etag)
  then show ?thesis using test_if_match_tags [OF Some _ assms(1), of weak] assms(2) by (simp add: ngx_http_test_if_match_def)
qed

section \<open>Revalidation\<close>

lemma if_unmodified_back:
  assumes "ngx_parse_http_time date = Some t" "out_last_modified_time (re_headers_out r) = t" "0 \<le> t"
    and "in_if_unmodified_since (re_headers_in r) = Some date"
  shows "ngx_http_test_if_unmodified r = Some True"
  using assms by (simp add: ngx_http_test_if_unmodified_def)

lemma if_modified_back:
  assumes "ngx_parse_http_time date = Some t" "out_last_modified_time (re_headers_out r) = t" "0 \<le> t"
    and "in_if_modified_since (re_headers_in r) = Some date" "ims \<noteq> NGX_HTTP_IMS_OFF"
  shows "ngx_http_test_if_modified ims r = Some False"
  using assms by (simp add: ngx_http_test_if_modified_def)

lemma test_dates_defined:
  "ngx_http_test_if_unmodified r \<noteq> None" "ngx_http_test_if_modified ims r \<noteq> None"
  using parse_http_time_inside by (auto simp: ngx_http_test_if_unmodified_def ngx_http_test_if_modified_def)

text \<open>A header that has the tag among others.\<close>

definition names_tag :: "u_char list \<Rightarrow> u_char list \<Rightarrow> bool" where
  "names_tag etag v \<longleftrightarrow> (\<exists>sep ts. tag_list sep ts \<and> etag \<in> set ts \<and> v = print_tags sep ts)"

lemma names_tag_match:
  "out_etag (re_headers_out r) = Some etag \<Longrightarrow> is_tag etag \<Longrightarrow> names_tag etag v \<Longrightarrow> ngx_http_test_if_match r v weak"
  using test_if_match_tags [of r etag] by (auto simp: names_tag_def)

definition sends_back :: "u_char list \<Rightarrow> u_char list \<Rightarrow> headers_in_t \<Rightarrow> bool" where
  "sends_back date etag i \<longleftrightarrow>
     (in_if_modified_since i \<noteq> None \<or> in_if_none_match i \<noteq> None)
   \<and> in_if_modified_since i \<in> {None, Some date} \<and> in_if_unmodified_since i \<in> {None, Some date}
   \<and> (\<forall>v. in_if_none_match i = Some v \<or> in_if_match i = Some v \<longrightarrow> names_tag etag v)"

text \<open>The requests that the filter looks at.\<close>

definition conditional :: "response_t \<Rightarrow> bool" where
  "conditional r \<longleftrightarrow> out_status (re_headers_out r) = NGX_HTTP_OK \<and> re_main r \<and> \<not> re_disable_not_modified r"

lemma sends_back_not_modified:
  assumes "conditional r" "out_last_modified_time (re_headers_out r) = t" "0 \<le> t" "ngx_parse_http_time date = Some t"
    and "out_etag (re_headers_out r) = Some etag" "is_tag etag" "sends_back date etag (re_headers_in r)" "ims \<noteq> NGX_HTTP_IMS_OFF"
  shows "ngx_http_not_modified_header_filter ims r = Some (Next_filter, not_modified r)"
proof -
  let ?i = "re_headers_in r"
  have "test_header (in_if_unmodified_since ?i) (map_option Not (ngx_http_test_if_unmodified r)) = Some False"
    using assms(7) if_unmodified_back [OF assms(4,2,3)] by (auto simp: test_header_def sends_back_def)
  moreover have "test_header (in_if_modified_since ?i) (ngx_http_test_if_modified ims r) = Some False"
    using assms(7) if_modified_back [OF assms(4,2,3) _ assms(8)] by (auto simp: test_header_def sends_back_def)
  moreover have "\<not> (in_if_match ?i \<noteq> None \<and> \<not> ngx_http_test_if_match r (the (in_if_match ?i)) False)"
    "\<not> (in_if_none_match ?i \<noteq> None \<and> \<not> ngx_http_test_if_match r (the (in_if_none_match ?i)) True)"
    using assms(7) names_tag_match [OF assms(5,6)] unfolding sends_back_def by (metis option.exhaust_sel)+
  moreover have "in_if_modified_since ?i \<noteq> None \<or> in_if_none_match ?i \<noteq> None" using assms(7) by (simp add: sends_back_def)
  ultimately show ?thesis using assms(1) by (auto simp: ngx_http_not_modified_header_filter_def conditional_def Let_def)
qed

lemma other_tag_modified:
  assumes "conditional r" "in_if_none_match (re_headers_in r) = Some v" "\<not> ngx_http_test_if_match r v True"
  shows "ngx_http_not_modified_header_filter ims r \<in> {Some (Next_filter, r), Some (Finalize NGX_HTTP_PRECONDITION_FAILED, r)}"
  using test_dates_defined(1) [of r] test_dates_defined(2) [of ims r] assms
  by (auto simp: ngx_http_not_modified_header_filter_def conditional_def test_header_def Let_def split: option.splits bool.splits)

lemma other_tag_failed:
  assumes "conditional r" "in_if_match (re_headers_in r) = Some v" "\<not> ngx_http_test_if_match r v False"
  shows "ngx_http_not_modified_header_filter ims r = Some (Finalize NGX_HTTP_PRECONDITION_FAILED, r)"
  using test_dates_defined(1) [of r] assms
  by (auto simp: ngx_http_not_modified_header_filter_def conditional_def test_header_def Let_def split: option.splits bool.splits)

text \<open>
  C23: Conditional requests. Let a response have a modification time of the years 1970 to 9999, which was sent as an HTTP date, and an entity tag, let the tags have no comma and no blank, and let
  \<^verbatim>\<open>if_modified_since\<close> not be \<^verbatim>\<open>off\<close>. A client that sends the date
  in \<^verbatim>\<open>If-Modified-Since\<close>, the tag among others in \<^verbatim>\<open>If-None-Match\<close>, or both, and possibly the same in \<^verbatim>\<open>If-Unmodified-Since\<close> and \<^verbatim>\<open>If-Match\<close>,
  gets 304. A client whose \<^verbatim>\<open>If-None-Match\<close> has no tag that is weakly equal never gets 304, whatever else it sends; and one whose \<^verbatim>\<open>If-Match\<close> does
  not have the tag gets 412, whatever else it sends.
\<close>

theorem ngx_http_revalidation:
  assumes "conditional r" "if_modified_since \<noteq> NGX_HTTP_IMS_OFF"
    and "out_last_modified_time (re_headers_out r) = t" "0 \<le> t" "t < 253402300800" "ngx_http_time t = Some date"
    and "out_etag (re_headers_out r) = Some etag" "is_tag etag" "tag_list sep ts"
  shows "(sends_back date etag (re_headers_in r)
      \<longrightarrow> ngx_http_not_modified_header_filter if_modified_since r = Some (Next_filter, not_modified r))
    \<and> (in_if_none_match (re_headers_in r) = Some (print_tags sep ts) \<and> (\<forall>u \<in> set ts. im_weak True u \<noteq> im_weak True etag)
      \<longrightarrow> ngx_http_not_modified_header_filter if_modified_since r
            \<in> {Some (Next_filter, r), Some (Finalize NGX_HTTP_PRECONDITION_FAILED, r)})
    \<and> (in_if_match (re_headers_in r) = Some (print_tags sep ts) \<and> etag \<notin> set ts
      \<longrightarrow> ngx_http_not_modified_header_filter if_modified_since r = Some (Finalize NGX_HTTP_PRECONDITION_FAILED, r))"
proof -
  have date: "ngx_parse_http_time date = Some t" using http_time_reads_back [of "[]" t] assms(4-6) by auto
  note tags = test_if_match_tags [OF assms(7-9)]
  have strong: "im_weak False u = u" for u by (simp add: im_weak_def)
  show ?thesis
    using sends_back_not_modified [OF assms(1,3,4) date assms(7,8) _ assms(2)] tags [of True] tags [of False] strong
      other_tag_modified [OF assms(1), of "print_tags sep ts"] other_tag_failed [OF assms(1), of "print_tags sep ts"] by auto
qed

section \<open>Examples\<close>

definition example_conditional :: "ngx_str_t option \<Rightarrow> ngx_str_t option \<Rightarrow> ngx_str_t option \<Rightarrow> response_t" where
  "example_conditional since matches none = \<lparr>re_main = True, re_http_version = 1001, re_subrequest_ranges = False, re_allow_ranges = True,
     re_single_range = False, re_disable_not_modified = False,
     re_headers_in = \<lparr>in_range = None, in_if_range = None, in_if_modified_since = since, in_if_unmodified_since = None,
       in_if_match = matches, in_if_none_match = none\<rparr>,
     re_headers_out = \<lparr>out_status = NGX_HTTP_OK, out_status_line = [], out_content_length_n = 6, out_content_length = None,
       out_content_encoding = None, out_content_range = None, out_accept_ranges = None, out_etag = Some (bytes ''W/[a]''), out_last_modified_time = 784111777,
       out_content_offset = 0, out_content_type = [], out_content_type_len = 0, out_content_type_lowcase = None, out_charset = []\<rparr>\<rparr>"

definition example_tags :: "u_char list list" where
  "example_tags = [bytes ''[b]'', bytes ''[a]'']"

lemma example_tag_list: "tag_list (bytes '' , '') example_tags" "is_tag (bytes ''W/[a]'')"
  by code_simp+

lemma example_test_if_match:
  "ngx_http_test_if_match (example_conditional None None None) (bytes ''[b] , [a]'') True
   \<and> \<not> ngx_http_test_if_match (example_conditional None None None) (bytes ''[b] , [a]'') False"
proof -
  have "bytes ''[b] , [a]'' = print_tags (bytes '' , '') example_tags" by code_simp
  then show ?thesis
    using ngx_http_test_if_match_exact [OF example_tag_list(1), of "example_conditional None None None" True]
      ngx_http_test_if_match_exact [OF example_tag_list(1), of "example_conditional None None None" False] example_tag_list(2)
    by (simp add: example_conditional_def example_tags_def im_weak_def)
qed

theorem ngx_http_revalidation_witness:
  "(\<exists>date. ngx_http_time 784111777 = Some date
      \<and> ngx_http_not_modified_header_filter 1 (example_conditional (Some date) None None)
        = Some (Next_filter, not_modified (example_conditional (Some date) None None)))
   \<and> ngx_http_not_modified_header_filter 1 (example_conditional None (Some (print_tags (bytes '' , '') example_tags)) None)
     = Some (Finalize 412, example_conditional None (Some (print_tags (bytes '' , '') example_tags)) None)"
proof -
  obtain date where date: "ngx_http_time 784111777 = Some date" using http_time_reads_back [of "[]" 784111777] by auto
  let ?r = "example_conditional (Some date) None None" and ?f = "example_conditional None (Some (print_tags (bytes '' , '') example_tags)) None"
  have "conditional ?r" "out_last_modified_time (re_headers_out ?r) = 784111777" "out_etag (re_headers_out ?r) = Some (bytes ''W/[a]'')"
    "sends_back date (bytes ''W/[a]'') (re_headers_in ?r)"
    by (simp_all add: conditional_def example_conditional_def sends_back_def)
  then have "ngx_http_not_modified_header_filter 1 ?r = Some (Next_filter, not_modified ?r)"
    using ngx_http_revalidation [of ?r 1 784111777 date "bytes ''W/[a]''" "bytes '' , ''" example_tags] date example_tag_list by simp
  moreover have "conditional ?f" "out_last_modified_time (re_headers_out ?f) = 784111777" "out_etag (re_headers_out ?f) = Some (bytes ''W/[a]'')"
    "in_if_match (re_headers_in ?f) = Some (print_tags (bytes '' , '') example_tags)" "bytes ''W/[a]'' \<notin> set example_tags"
    by (simp_all add: conditional_def example_conditional_def example_tags_def)
  then have "ngx_http_not_modified_header_filter 1 ?f = Some (Finalize 412, ?f)"
    using ngx_http_revalidation [of ?f 1 784111777 date "bytes ''W/[a]''" "bytes '' , ''" example_tags] date example_tag_list by simp
  ultimately show ?thesis using date by blast
qed

end
