(* ===== verification/Ngx_Http_Limit_Req.thy ===== *)
theory Ngx_Http_Limit_Req
  imports Ngx_Crc32
begin

text \<open>
  The limits on the rate of requests, \<^verbatim>\<open>http/modules/ngx_http_limit_req_module.c\<close>. A zone in shared memory has a node for every key that was
  seen lately; the nodes are in a queue, the one used last at its head, and in a search tree. The model of a zone is its queue; that the search in an ordered
  tree of the same nodes, and the insertion below a leaf, find and keep the same is a lemma, and the rotations of \<^verbatim>\<open>core/ngx_rbtree.c\<close>, which keep the order, are not modelled. The operations under the lock of a zone are functions on the zone: the search with its
  accounting, the later accounting, the release of a node and the removal of old nodes. Milliseconds, rates, excesses
  and counters are 64-bit words, with the conversions to signed numbers of the code. The value of a key is an argument, and so is whether the
  shared memory gives room for a node. The directives, the set-up of a zone and the handler of the timer are not modelled. The properties: the leaky bucket, and that the counters of a handler are balanced.
\<close>

section \<open>Zones\<close>

abbreviation (input) NGX_BUSY :: int where "NGX_BUSY \<equiv> - 3"
abbreviation (input) NGX_HTTP_INTERNAL_SERVER_ERROR :: int where "NGX_HTTP_INTERNAL_SERVER_ERROR \<equiv> 500"

record ngx_http_limit_req_node_t =
  lr_hash :: "32 word"
  lr_data :: ngx_str_t
  lr_last :: "64 word"
  lr_excess :: "64 word"
  lr_count :: "64 word"

record ngx_http_limit_req_ctx_t =
  lz_rate :: "64 word"
  lz_queue :: "ngx_http_limit_req_node_t list"
  lz_node :: "ngx_str_t option"

record ngx_http_limit_req_limit_t =
  ll_zone :: nat
  ll_burst :: "64 word"
  ll_nodelay :: bool

definition lr_is :: "32 word \<Rightarrow> ngx_str_t \<Rightarrow> ngx_http_limit_req_node_t \<Rightarrow> bool" where
  "lr_is hash key lr \<longleftrightarrow> lr_hash lr = hash \<and> lr_data lr = key"

definition lr_search :: "32 word \<Rightarrow> ngx_str_t \<Rightarrow> ngx_http_limit_req_node_t list \<Rightarrow> ngx_http_limit_req_node_t option" where
  "lr_search hash key q = find (lr_is hash key) q"

text \<open>The search loop and the insertion loop on the tree; \<^verbatim>\<open>ngx_memcmp\<close> gives the difference of the first two bytes that differ.\<close>

datatype lr_tree = Sentinel | Tree lr_tree ngx_http_limit_req_node_t lr_tree

fun ngx_memcmp :: "u_char list \<Rightarrow> u_char list \<Rightarrow> nat \<Rightarrow> int" where
  "ngx_memcmp (a # s1) (b # s2) (Suc n) = (if a = b then ngx_memcmp s1 s2 n else uint a - uint b)"
| "ngx_memcmp s1 s2 n = 0"

definition ngx_memn2cmp :: "u_char list \<Rightarrow> u_char list \<Rightarrow> int" where
  "ngx_memn2cmp s1 s2 =
     (let (n, z) = (if length s1 \<le> length s2 then (length s1, - 1) else (length s2, 1)); m = ngx_memcmp s1 s2 n in
      if m \<noteq> 0 \<or> length s1 = length s2 then m else z)"

fun lr_descend :: "32 word \<Rightarrow> ngx_str_t \<Rightarrow> lr_tree \<Rightarrow> ngx_http_limit_req_node_t option" where
  "lr_descend hash key Sentinel = None"
| "lr_descend hash key (Tree l lr r) =
     (if hash < lr_hash lr then lr_descend hash key l
      else if hash > lr_hash lr then lr_descend hash key r
      else
        let rc = ngx_memn2cmp key (lr_data lr) in
        if rc = 0 then Some lr else if rc < 0 then lr_descend hash key l else lr_descend hash key r)"

fun ngx_http_limit_req_rbtree_insert_value :: "ngx_http_limit_req_node_t \<Rightarrow> lr_tree \<Rightarrow> lr_tree" where
  "ngx_http_limit_req_rbtree_insert_value node Sentinel = Tree Sentinel node Sentinel"
| "ngx_http_limit_req_rbtree_insert_value node (Tree l lr r) =
     (if lr_hash node < lr_hash lr then Tree (ngx_http_limit_req_rbtree_insert_value node l) lr r
      else if lr_hash node > lr_hash lr then Tree l lr (ngx_http_limit_req_rbtree_insert_value node r)
      else if ngx_memn2cmp (lr_data node) (lr_data lr) < 0 then Tree (ngx_http_limit_req_rbtree_insert_value node l) lr r
      else Tree l lr (ngx_http_limit_req_rbtree_insert_value node r))"

text \<open>What leaked out of a node since it was used, and its excess with one request more.\<close>

definition lr_leaked :: "64 word \<Rightarrow> 64 word \<Rightarrow> ngx_http_limit_req_node_t \<Rightarrow> 64 word" where
  "lr_leaked rate now lr = rate * word_of_int \<bar>sint (now - lr_last lr)\<bar> div 1000"

definition lr_level :: "64 word \<Rightarrow> 64 word \<Rightarrow> ngx_http_limit_req_node_t \<Rightarrow> int" where
  "lr_level rate now lr =
     (let excess = sint (lr_excess lr - lr_leaked rate now lr + 1000) in if excess < 0 then 0 else excess)"

text \<open>The removal of old nodes from the end of the queue; \<open>n\<close> as in the code.\<close>

function ngx_http_limit_req_expire ::
  "64 word \<Rightarrow> 64 word \<Rightarrow> nat \<Rightarrow> ngx_http_limit_req_node_t list \<Rightarrow> ngx_http_limit_req_node_t list"
where
  "ngx_http_limit_req_expire rate now n q =
     (if n < 3 then
        if q = [] then q
        else
          let lr = last q in
          if lr_count lr \<noteq> 0 then q
          else if n \<noteq> 0 \<and> \<bar>sint (now - lr_last lr)\<bar> < 60000 then q
          else if n \<noteq> 0 \<and> sint (lr_excess lr - lr_leaked rate now lr) > 0 then q
          else ngx_http_limit_req_expire rate now (n + 1) (butlast q)
      else q)"
  by pat_completeness auto
termination
  by (relation "measure (\<lambda>(rate, now, n, q). 3 - n)") auto

declare ngx_http_limit_req_expire.simps [simp del]

text \<open>
  The search: the code, \<^verbatim>\<open>*ep\<close> and the zone. \<open>room1\<close> and \<open>room2\<close> say whether \<^verbatim>\<open>ngx_slab_alloc_locked\<close> succeeds the first and the
  second time.
\<close>

definition lr_found ::
  "ngx_http_limit_req_limit_t \<Rightarrow> ngx_http_limit_req_node_t \<Rightarrow> bool \<Rightarrow> 64 word \<Rightarrow> ngx_http_limit_req_ctx_t
    \<Rightarrow> int \<times> int \<times> ngx_http_limit_req_ctx_t"
where
  "lr_found limit lr account now ctx =
     (let q = filter (\<lambda>x. \<not> lr_is (lr_hash lr) (lr_data lr) x) (lz_queue ctx); excess = lr_level (lz_rate ctx) now lr in
      if word_of_int excess > ll_burst limit then (NGX_BUSY, excess, ctx\<lparr>lz_queue := lr # q\<rparr>)
      else if account then
        (NGX_OK, excess, ctx\<lparr>lz_queue := lr\<lparr>lr_excess := word_of_int excess, lr_last := now\<rparr> # q\<rparr>)
      else (NGX_AGAIN, excess, ctx\<lparr>lz_queue := lr\<lparr>lr_count := lr_count lr + 1\<rparr> # q, lz_node := Some (lr_data lr)\<rparr>))"

definition lr_create ::
  "32 word \<Rightarrow> ngx_str_t \<Rightarrow> bool \<Rightarrow> 64 word \<Rightarrow> ngx_http_limit_req_node_t list \<Rightarrow> ngx_http_limit_req_ctx_t
    \<Rightarrow> int \<times> int \<times> ngx_http_limit_req_ctx_t"
where
  "lr_create hash key account now q ctx =
     (if account then
        (NGX_OK, 0, ctx\<lparr>lz_queue := \<lparr>lr_hash = hash, lr_data = key, lr_last = now, lr_excess = 0, lr_count = 0\<rparr> # q\<rparr>)
      else
        (NGX_AGAIN, 0, ctx\<lparr>lz_queue := \<lparr>lr_hash = hash, lr_data = key, lr_last = 0, lr_excess = 0, lr_count = 1\<rparr> # q,
           lz_node := Some key\<rparr>))"

definition ngx_http_limit_req_lookup ::
  "ngx_http_limit_req_limit_t \<Rightarrow> 32 word \<Rightarrow> ngx_str_t \<Rightarrow> bool \<Rightarrow> 64 word \<Rightarrow> bool \<Rightarrow> bool \<Rightarrow> ngx_http_limit_req_ctx_t
    \<Rightarrow> int \<times> int \<times> ngx_http_limit_req_ctx_t"
where
  "ngx_http_limit_req_lookup limit hash key account now room1 room2 ctx =
     (case lr_search hash key (lz_queue ctx) of
        Some lr \<Rightarrow> lr_found limit lr account now ctx
      | None \<Rightarrow>
          let q = ngx_http_limit_req_expire (lz_rate ctx) now 1 (lz_queue ctx) in
          if room1 then lr_create hash key account now q ctx
          else
            let q = ngx_http_limit_req_expire (lz_rate ctx) now 0 q in
            if room2 then lr_create hash key account now q ctx
            else (NGX_ERROR, 0, ctx\<lparr>lz_queue := q\<rparr>))"

text \<open>The operations on the node that \<^verbatim>\<open>ctx->node\<close> points to.\<close>

definition lr_update ::
  "(ngx_http_limit_req_node_t \<Rightarrow> ngx_http_limit_req_node_t) \<Rightarrow> ngx_http_limit_req_ctx_t \<Rightarrow> ngx_http_limit_req_ctx_t"
where
  "lr_update f ctx =
     (case lz_node ctx of
        None \<Rightarrow> ctx
      | Some key \<Rightarrow>
          ctx\<lparr>lz_queue := map (\<lambda>lr. if lr_is (ngx_crc32_short key) key lr then f lr else lr) (lz_queue ctx), lz_node := None\<rparr>)"

definition lr_release :: "ngx_http_limit_req_ctx_t \<Rightarrow> ngx_http_limit_req_ctx_t" where
  "lr_release = lr_update (\<lambda>lr. lr\<lparr>lr_count := lr_count lr - 1\<rparr>)"

definition lr_charge :: "64 word \<Rightarrow> ngx_http_limit_req_ctx_t \<Rightarrow> ngx_http_limit_req_ctx_t" where
  "lr_charge now ctx =
     lr_update (\<lambda>lr. lr\<lparr>lr_last := now, lr_excess := word_of_int (lr_level (lz_rate ctx) now lr), lr_count := lr_count lr - 1\<rparr>) ctx"

definition lr_held :: "ngx_http_limit_req_ctx_t \<Rightarrow> ngx_http_limit_req_node_t option" where
  "lr_held ctx = (case lz_node ctx of None \<Rightarrow> None | Some key \<Rightarrow> lr_search (ngx_crc32_short key) key (lz_queue ctx))"

section \<open>The handler\<close>

text \<open>The accounting in the zones before the one that ended the search, from the last to the first, with the longest delay.\<close>

fun ngx_http_limit_req_account ::
  "64 word \<Rightarrow> ngx_http_limit_req_limit_t list \<Rightarrow> ngx_http_limit_req_ctx_t list \<Rightarrow> 64 word \<Rightarrow> 64 word \<times> ngx_http_limit_req_ctx_t list"
where
  "ngx_http_limit_req_account now [] zs max_delay = (max_delay, zs)"
| "ngx_http_limit_req_account now (l # ls) zs max_delay =
     (let ctx = zs ! ll_zone l in
      case lr_held ctx of
        None \<Rightarrow> ngx_http_limit_req_account now ls zs max_delay
      | Some lr \<Rightarrow>
          let excess = lr_level (lz_rate ctx) now lr; delay = word_of_int (excess * 1000) div lz_rate ctx in
          ngx_http_limit_req_account now ls (zs[ll_zone l := lr_charge now ctx])
            (if \<not> ll_nodelay l \<and> delay > max_delay then delay else max_delay))"

fun lr_release_all :: "ngx_http_limit_req_limit_t list \<Rightarrow> ngx_http_limit_req_ctx_t list \<Rightarrow> ngx_http_limit_req_ctx_t list" where
  "lr_release_all [] zs = zs"
| "lr_release_all (l # ls) zs = lr_release_all ls (zs[ll_zone l := lr_release (zs ! ll_zone l)])"

text \<open>
  A limit with the value of its key, \<open>None\<close> when it has none because of an error, and the answers of the allocator. The loop over the
  limits gives the last code, the index of its limit and the excess, or \<open>None\<close> for the error.
\<close>

type_synonym lr_input = "ngx_http_limit_req_limit_t \<times> ngx_str_t option \<times> bool \<times> bool"

fun lr_loop ::
  "64 word \<Rightarrow> nat \<Rightarrow> lr_input list \<Rightarrow> ngx_http_limit_req_ctx_t list \<Rightarrow> int \<Rightarrow> int
    \<Rightarrow> (int \<times> nat \<times> int) option \<times> ngx_http_limit_req_ctx_t list"
where
  "lr_loop now n [] zs rc excess = (Some (rc, n, excess), zs)"
| "lr_loop now n ((limit, key, room1, room2) # ls) zs rc excess =
     (case key of
        None \<Rightarrow> (None, zs)
      | Some key \<Rightarrow>
          if key = [] \<or> length key > 65535 then lr_loop now (n + 1) ls zs rc excess
          else
            let (rc, excess, ctx) = ngx_http_limit_req_lookup limit (ngx_crc32_short key) key (ls = []) now room1 room2 (zs ! ll_zone limit);
                zs = zs[ll_zone limit := ctx]
            in if rc \<noteq> NGX_AGAIN then (Some (rc, n, excess), zs) else lr_loop now (n + 1) ls zs rc excess)"

text \<open>
  The result: the code, the delay of the timer when the code is \<^verbatim>\<open>NGX_AGAIN\<close>, \<^verbatim>\<open>limit_req_set\<close> and the zones. \<open>read_ok\<close> says whether
  \<^verbatim>\<open>ngx_handle_read_event\<close> succeeds for a request that is delayed.
\<close>

definition ngx_http_limit_req_handler ::
  "64 word \<Rightarrow> int \<Rightarrow> bool \<Rightarrow> lr_input list \<Rightarrow> bool \<Rightarrow> ngx_http_limit_req_ctx_t list
    \<Rightarrow> int \<times> 64 word \<times> bool \<times> ngx_http_limit_req_ctx_t list"
where
  "ngx_http_limit_req_handler now status_code read_ok input limit_req_set zs =
     (if limit_req_set then (NGX_DECLINED, 0, limit_req_set, zs)
      else
        let limits = map fst input in
        case lr_loop now 0 input zs NGX_DECLINED 0 of
          (None, zs) \<Rightarrow> (NGX_HTTP_INTERNAL_SERVER_ERROR, 0, limit_req_set, zs)
        | (Some (rc, n, excess), zs) \<Rightarrow>
            if rc = NGX_DECLINED then (NGX_DECLINED, 0, limit_req_set, zs)
            else if rc = NGX_BUSY \<or> rc = NGX_ERROR then (status_code, 0, True, lr_release_all (rev (take n limits)) zs)
            else
              let excess = (if rc = NGX_AGAIN then 0 else excess);
                  max_delay = (if excess = 0 \<or> ll_nodelay (limits ! n) then 0
                               else word_of_int (excess * 1000) div lz_rate (zs ! ll_zone (limits ! n)));
                  (delay, zs) = ngx_http_limit_req_account now (rev (take n limits)) zs max_delay
              in if delay = 0 then (NGX_DECLINED, 0, True, zs)
                 else if \<not> read_ok then (NGX_HTTP_INTERNAL_SERVER_ERROR, 0, True, zs)
                 else (NGX_AGAIN, delay, True, zs))"

section \<open>The tree\<close>

lemma memn2cmp_simps:
  "ngx_memn2cmp [] [] = 0" "ngx_memn2cmp [] (b # s2) = - 1" "ngx_memn2cmp (a # s1) [] = 1"
  "ngx_memn2cmp (a # s1) (b # s2) = (if a = b then ngx_memn2cmp s1 s2 else uint a - uint b)"
  by (auto simp: ngx_memn2cmp_def word_uint_eq_iff)

lemma memn2cmp_order:
  "(ngx_memn2cmp s1 s2 = 0 \<longleftrightarrow> s1 = s2) \<and> (ngx_memn2cmp s1 s2 < 0 \<longleftrightarrow> ngx_memn2cmp s2 s1 > 0)"
proof (induction s1 arbitrary: s2)
  case Nil
  then show ?case by (cases s2) (simp_all add: memn2cmp_simps)
next
  case (Cons a s1)
  show ?case
  proof (cases s2)
    case Nil
    then show ?thesis by (simp add: memn2cmp_simps)
  next
    case (Cons b t)
    show ?thesis
    proof (cases "a = b")
      case True
      then show ?thesis using Cons.IH [of t] Cons by (simp add: memn2cmp_simps)
    next
      case False
      then have "uint a \<noteq> uint b" by (simp add: word_uint_eq_iff)
      then show ?thesis using False Cons by (simp add: memn2cmp_simps)
    qed
  qed
qed

definition lr_before :: "32 word \<Rightarrow> ngx_str_t \<Rightarrow> ngx_http_limit_req_node_t \<Rightarrow> bool" where
  "lr_before hash key lr \<longleftrightarrow> hash < lr_hash lr \<or> hash = lr_hash lr \<and> ngx_memn2cmp key (lr_data lr) < 0"

definition lr_after :: "32 word \<Rightarrow> ngx_str_t \<Rightarrow> ngx_http_limit_req_node_t \<Rightarrow> bool" where
  "lr_after hash key lr \<longleftrightarrow> hash > lr_hash lr \<or> hash = lr_hash lr \<and> ngx_memn2cmp key (lr_data lr) > 0"

fun lr_nodes :: "lr_tree \<Rightarrow> ngx_http_limit_req_node_t set" where
  "lr_nodes Sentinel = {}"
| "lr_nodes (Tree l lr r) = insert lr (lr_nodes l \<union> lr_nodes r)"

fun lr_sorted :: "lr_tree \<Rightarrow> bool" where
  "lr_sorted Sentinel = True"
| "lr_sorted (Tree l lr r) =
     ((\<forall>x \<in> lr_nodes l. lr_before (lr_hash x) (lr_data x) lr) \<and> (\<forall>x \<in> lr_nodes r. lr_after (lr_hash x) (lr_data x) lr) \<and> lr_sorted l \<and> lr_sorted r)"

lemma lr_descend_Some: "lr_sorted t \<Longrightarrow> lr_descend hash key t = Some lr \<longleftrightarrow> lr \<in> lr_nodes t \<and> lr_is hash key lr"
proof (induction t)
  case (Tree l x r)
  have sub: "\<And>y. y \<in> lr_nodes l \<Longrightarrow> lr_is hash key y \<Longrightarrow> lr_before hash key x" "\<And>y. y \<in> lr_nodes r \<Longrightarrow> lr_is hash key y \<Longrightarrow> lr_after hash key x"
    using Tree.prems by (auto simp: lr_is_def)
  have IH: "lr_descend hash key l = Some lr \<longleftrightarrow> lr \<in> lr_nodes l \<and> lr_is hash key lr" "lr_descend hash key r = Some lr \<longleftrightarrow> lr \<in> lr_nodes r \<and> lr_is hash key lr"
    using Tree by auto
  consider (left) "lr_before hash key x" | (right) "lr_after hash key x" | (here) "lr_is hash key x"
    using memn2cmp_order [of key "lr_data x"] unfolding lr_before_def lr_after_def lr_is_def by (metis linorder_less_linear)
  then show ?case
  proof cases
    case left
    then have "lr_descend hash key (Tree l x r) = lr_descend hash key l" "\<not> lr_after hash key x" "\<not> lr_is hash key x"
      using memn2cmp_order [of key "lr_data x"] by (auto simp: lr_before_def lr_after_def lr_is_def)
    then show ?thesis using IH sub(2) by auto
  next
    case right
    then have "lr_descend hash key (Tree l x r) = lr_descend hash key r" "\<not> lr_before hash key x" "\<not> lr_is hash key x"
      using memn2cmp_order [of key "lr_data x"] by (auto simp: lr_before_def lr_after_def lr_is_def)
    then show ?thesis using IH sub(1) by auto
  next
    case here
    then have "lr_descend hash key (Tree l x r) = Some x" "\<not> lr_before hash key x" "\<not> lr_after hash key x"
      using memn2cmp_order [of key "lr_data x"] by (auto simp: lr_before_def lr_after_def lr_is_def)
    then show ?thesis using here sub by auto
  qed
qed simp

text \<open>The search in the tree is the search in the queue, when both have the same nodes; the insertion adds its node and keeps the order.\<close>

lemma lr_descend_search:
  assumes "lr_sorted t" "lr_nodes t = set q"
  shows "(lr_descend hash key t = None \<longleftrightarrow> lr_search hash key q = None) \<and> (\<forall>lr. lr_search hash key q = Some lr \<longrightarrow> lr \<in> lr_nodes t \<and> lr_is hash key lr)"
proof -
  have "lr_descend hash key t = None \<longleftrightarrow> \<not> (\<exists>lr \<in> lr_nodes t. lr_is hash key lr)"
    using lr_descend_Some [OF assms(1), of hash key] by (metis option.distinct(1) option.exhaust)
  moreover have "lr_search hash key q = None \<longleftrightarrow> \<not> (\<exists>lr \<in> set q. lr_is hash key lr)" by (auto simp: lr_search_def find_None_iff)
  moreover have "lr_search hash key q = Some lr \<Longrightarrow> lr \<in> set q \<and> lr_is hash key lr" for lr
    by (auto simp: lr_search_def find_Some_iff)
  ultimately show ?thesis using assms(2) by auto
qed

lemma lr_insert_sorted:
  assumes "lr_sorted t" "\<forall>x \<in> lr_nodes t. \<not> lr_is (lr_hash node) (lr_data node) x"
  shows "lr_nodes (ngx_http_limit_req_rbtree_insert_value node t) = insert node (lr_nodes t)
    \<and> lr_sorted (ngx_http_limit_req_rbtree_insert_value node t)"
  using assms
proof (induction t)
  case (Tree l x r)
  have "lr_hash node = lr_hash x \<Longrightarrow> ngx_memn2cmp (lr_data node) (lr_data x) \<noteq> 0"
    using Tree.prems(2) memn2cmp_order [of "lr_data node" "lr_data x"] by (auto simp: lr_is_def)
  then show ?case using Tree by (auto simp: lr_before_def lr_after_def)
qed simp

section \<open>Nodes and searches\<close>

text \<open>The invariant of a zone: one node for a key, under its hash.\<close>

definition lz_ok :: "ngx_http_limit_req_node_t list \<Rightarrow> bool" where
  "lz_ok q \<longleftrightarrow> distinct (map lr_data q) \<and> (\<forall>lr \<in> set q. lr_hash lr = ngx_crc32_short (lr_data lr))"

abbreviation lr_get :: "ngx_str_t \<Rightarrow> ngx_http_limit_req_node_t list \<Rightarrow> ngx_http_limit_req_node_t option" where
  "lr_get key q \<equiv> lr_search (ngx_crc32_short key) key q"

lemma lr_is_ok: "lz_ok q \<Longrightarrow> lr \<in> set q \<Longrightarrow> lr_is (ngx_crc32_short key) key lr \<longleftrightarrow> lr_data lr = key"
  by (auto simp: lz_ok_def lr_is_def)

lemma lr_get_Some: "lz_ok q \<Longrightarrow> lr_get key q = Some lr \<longleftrightarrow> lr \<in> set q \<and> lr_data lr = key"
proof (induction q)
  case (Cons x q)
  have ok: "lz_ok q" using Cons.prems by (simp add: lz_ok_def)
  show ?case using Cons.IH [OF ok] Cons.prems by (auto simp: lr_search_def lr_is_def lz_ok_def)
qed (simp add: lr_search_def)

lemma lr_get_None: "lz_ok q \<Longrightarrow> lr_get key q = None \<longleftrightarrow> (\<forall>lr \<in> set q. lr_data lr \<noteq> key)"
  using lr_get_Some [of q key] by (metis option.distinct(1) option.exhaust)

text \<open>The new head of the queue in front of the other nodes.\<close>

definition lr_others :: "ngx_str_t \<Rightarrow> ngx_http_limit_req_node_t list \<Rightarrow> ngx_http_limit_req_node_t list" where
  "lr_others key q = filter (\<lambda>x. lr_data x \<noteq> key) q"

lemma lr_others_filter: "lz_ok q \<Longrightarrow> filter (\<lambda>x. \<not> lr_is (ngx_crc32_short key) key x) q = lr_others key q"
  unfolding lr_others_def by (rule filter_cong) (auto simp: lr_is_ok)

lemma lz_ok_head:
  assumes "lz_ok q" "lr_hash lr = ngx_crc32_short (lr_data lr)"
  shows "lz_ok (lr # lr_others (lr_data lr) q)"
  using assms by (auto simp: lz_ok_def lr_others_def distinct_map_filter)

lemma lr_get_head:
  "lr_hash lr = ngx_crc32_short (lr_data lr) \<Longrightarrow>
   lr_get key (lr # lr_others (lr_data lr) q) = (if key = lr_data lr then Some lr else lr_get key q)"
  by (induction q) (auto simp: lr_search_def lr_is_def lr_others_def)

lemma lz_ok_append: "lz_ok (q @ d) \<Longrightarrow> lz_ok q"
  by (auto simp: lz_ok_def)

text \<open>What the removal of old nodes removes.\<close>

lemma expire_prefix:
  "\<exists>d. q = ngx_http_limit_req_expire rate now n q @ d
    \<and> (\<forall>lr \<in> set d. lr_count lr = 0 \<and> (n \<noteq> 0 \<longrightarrow> sint (lr_excess lr - lr_leaked rate now lr) \<le> 0))"
proof (induction rate now n q rule: ngx_http_limit_req_expire.induct)
  case (1 rate now n q)
  let ?lr = "last q"
  let ?go = "n < 3 \<and> q \<noteq> [] \<and> lr_count ?lr = 0 \<and> \<not> (n \<noteq> 0 \<and> \<bar>sint (now - lr_last ?lr)\<bar> < 60000)
    \<and> \<not> (n \<noteq> 0 \<and> sint (lr_excess ?lr - lr_leaked rate now ?lr) > 0)"
  show ?case
  proof (cases ?go)
    case True
    let ?e = "ngx_http_limit_req_expire rate now (n + 1) (butlast q)"
    have step: "ngx_http_limit_req_expire rate now n q = ?e" using True by (subst ngx_http_limit_req_expire.simps) (auto simp: Let_def)
    obtain d where d: "butlast q = ?e @ d" "\<forall>lr \<in> set d. lr_count lr = 0 \<and> sint (lr_excess lr - lr_leaked rate now lr) \<le> 0"
      using 1 True by (auto simp: Let_def)
    have "q = ?e @ d @ [?lr]" using True d(1) append_butlast_last_id [of q] by (metis append.assoc)
    then show ?thesis unfolding step using d(2) True by (intro exI [of _ "d @ [?lr]"]) auto
  next
    case False
    then have "ngx_http_limit_req_expire rate now n q = q" by (subst ngx_http_limit_req_expire.simps) (auto simp: Let_def)
    then show ?thesis by simp
  qed
qed

lemma expire_ok: "lz_ok q \<Longrightarrow> lz_ok (ngx_http_limit_req_expire rate now n q)"
  using expire_prefix [of q rate now n] lz_ok_append by metis

lemma expire_get:
  assumes "lz_ok q"
  shows "lr_get key (ngx_http_limit_req_expire rate now n q) = lr_get key q
    \<or> lr_get key (ngx_http_limit_req_expire rate now n q) = None
      \<and> (\<exists>lr. lr_get key q = Some lr \<and> lr_count lr = 0 \<and> (n \<noteq> 0 \<longrightarrow> sint (lr_excess lr - lr_leaked rate now lr) \<le> 0))"
proof -
  let ?e = "ngx_http_limit_req_expire rate now n q"
  obtain d where d: "q = ?e @ d" "\<forall>lr \<in> set d. lr_count lr = 0 \<and> (n \<noteq> 0 \<longrightarrow> sint (lr_excess lr - lr_leaked rate now lr) \<le> 0)"
    using expire_prefix [of q rate now n] by blast
  have ok: "lz_ok ?e" by (rule expire_ok [OF assms])
  show ?thesis
  proof (cases "lr_get key ?e")
    case (Some lr)
    then have "lr \<in> set q" "lr_data lr = key" using lr_get_Some [OF ok] d(1) by (metis UnI1 set_append)+
    then show ?thesis using Some lr_get_Some [OF assms, of key lr] by simp
  next
    case None
    show ?thesis
    proof (cases "lr_get key q")
      case (Some lr)
      then have "lr \<in> set q" "lr_data lr = key" using lr_get_Some [OF assms] by simp_all
      moreover have "lr \<notin> set ?e" using None lr_get_None [OF ok] \<open>lr_data lr = key\<close> by blast
      ultimately have "lr \<in> set d" by (metis Un_iff d(1) set_append)
      then show ?thesis using None Some d(2) by blast
    qed (use None in simp)
  qed
qed

section \<open>The numbers\<close>

lemma sint_word: "- (2 ^ 63) \<le> k \<Longrightarrow> k < 2 ^ 63 \<Longrightarrow> sint (word_of_int k :: 64 word) = k"
  by (simp add: signed_of_int signed_take_bit_int_eq_self)

lemma uint_word: "0 \<le> k \<Longrightarrow> k < 2 ^ 64 \<Longrightarrow> uint (word_of_int k :: 64 word) = k"
  by (simp add: unsigned_of_int take_bit_int_eq_self)

lemma minus_word: "a - b = word_of_int (uint a - uint b)" for a b :: "64 word"
  by simp

lemma powers_62: "(2::int) ^ 62 = 4611686018427387904" "(2::int) ^ 63 = 9223372036854775808"
  by simp_all

text \<open>The clock, the rate and the burst are such that nothing overflows.\<close>

definition lr_small :: "ngx_http_limit_req_limit_t \<Rightarrow> 64 word \<Rightarrow> 64 word \<Rightarrow> bool" where
  "lr_small limit rate t \<longleftrightarrow> rate \<noteq> 0 \<and> uint rate * uint t < 2 ^ 62 \<and> uint (ll_burst limit) < 2 ^ 62"

definition lr_fits :: "ngx_http_limit_req_limit_t \<Rightarrow> 64 word \<Rightarrow> ngx_http_limit_req_node_t \<Rightarrow> bool" where
  "lr_fits limit t lr \<longleftrightarrow> lr_last lr \<le> t \<and> lr_excess lr \<le> ll_burst limit"

definition lr_drop :: "64 word \<Rightarrow> 64 word \<Rightarrow> ngx_http_limit_req_node_t \<Rightarrow> int" where
  "lr_drop rate now lr = uint rate * (uint now - uint (lr_last lr))"

lemma lr_small_clock:
  assumes "lr_small limit rate t"
  shows "uint t < 2 ^ 62"
proof -
  have "uint rate \<noteq> 0" using assms by (simp add: lr_small_def uint_0_iff)
  then have "1 \<le> uint rate" using uint_ge_0 [of rate] by linarith
  then have "1 * uint t \<le> uint rate * uint t" by (intro mult_right_mono) simp_all
  then show ?thesis using assms by (simp add: lr_small_def)
qed

lemma leaked_exact:
  assumes "lr_small limit rate t" "now \<le> t" "lr_last lr \<le> now"
  shows "uint (lr_leaked rate now lr) = lr_drop rate now lr div 1000" "0 \<le> lr_drop rate now lr" "lr_drop rate now lr < 2 ^ 62"
proof -
  have last: "uint (lr_last lr) \<le> uint now" "uint now \<le> uint t" using assms by (simp_all add: word_le_def)
  have d: "0 \<le> uint now - uint (lr_last lr)" "uint now - uint (lr_last lr) \<le> uint t" using last uint_ge_0 [of "lr_last lr"] by linarith+
  show drop: "0 \<le> lr_drop rate now lr" using d(1) by (simp add: lr_drop_def)
  have "lr_drop rate now lr \<le> uint rate * uint t" unfolding lr_drop_def using d(2) by (intro mult_left_mono) simp_all
  then show small: "lr_drop rate now lr < 2 ^ 62" using assms(1) by (simp add: lr_small_def)
  have "sint (now - lr_last lr) = uint now - uint (lr_last lr)"
    unfolding minus_word using d lr_small_clock [OF assms(1)] by (intro sint_word) simp_all
  then have "rate * word_of_int \<bar>sint (now - lr_last lr)\<bar> = word_of_int (lr_drop rate now lr)"
    using d(1) by (simp add: lr_drop_def)
  then show "uint (lr_leaked rate now lr) = lr_drop rate now lr div 1000"
    using drop small uint_word [of "lr_drop rate now lr"] by (simp add: lr_leaked_def uint_div)
qed

lemma level_exact:
  assumes "lr_small limit rate t" "now \<le> t" "lr_last lr \<le> now" "lr_excess lr \<le> ll_burst limit"
  shows "lr_level rate now lr = max 0 (uint (lr_excess lr) - lr_drop rate now lr div 1000 + 1000)"
    "sint (lr_excess lr - lr_leaked rate now lr) = uint (lr_excess lr) - lr_drop rate now lr div 1000"
proof -
  note l = leaked_exact [OF assms(1-3)]
  have e: "0 \<le> uint (lr_excess lr)" "uint (lr_excess lr) < 2 ^ 62"
    using assms(1,4) by (auto simp: lr_small_def word_le_def)
  have d: "0 \<le> lr_drop rate now lr div 1000" "lr_drop rate now lr div 1000 < 2 ^ 62" using l(2,3) by (simp_all add: div_less_dividend)
  let ?x = "uint (lr_excess lr) - lr_drop rate now lr div 1000"
  have x: "- (2 ^ 63) \<le> ?x" "?x < 2 ^ 63" "- (2 ^ 63) \<le> ?x + 1000" "?x + 1000 < 2 ^ 63"
    using e d unfolding powers_62 by linarith+
  have w: "lr_excess lr - lr_leaked rate now lr = word_of_int ?x" unfolding minus_word l(1) ..
  then show "sint (lr_excess lr - lr_leaked rate now lr) = ?x" using sint_word [OF x(1,2)] by (simp only:)
  have "lr_excess lr - lr_leaked rate now lr + 1000 = word_of_int (?x + 1000)" unfolding w by simp
  then show "lr_level rate now lr = max 0 (?x + 1000)" using sint_word [OF x(3,4)] by (simp only: lr_level_def Let_def max_def) simp
qed

section \<open>The leaky bucket\<close>

text \<open>Calls for a single limit, and what they give: the key, the code and whether a node was created.\<close>

fun lr_run :: "ngx_http_limit_req_limit_t \<Rightarrow> ngx_http_limit_req_ctx_t \<Rightarrow> (ngx_str_t \<times> 64 word) list \<Rightarrow> (ngx_str_t \<times> int \<times> bool) list" where
  "lr_run limit ctx [] = []"
| "lr_run limit ctx ((key, now) # cs) =
     (case ngx_http_limit_req_lookup limit (ngx_crc32_short key) key True now True True ctx of
        (rc, excess, ctx') \<Rightarrow> (key, rc, lr_get key (lz_queue ctx) = None) # lr_run limit ctx' cs)"

definition lr_accepted :: "ngx_str_t \<Rightarrow> (ngx_str_t \<times> int \<times> bool) list \<Rightarrow> int" where
  "lr_accepted k out = int (length (filter (\<lambda>(key, rc, new). key = k \<and> rc = NGX_OK) out))"

definition lr_created :: "ngx_str_t \<Rightarrow> (ngx_str_t \<times> int \<times> bool) list \<Rightarrow> int" where
  "lr_created k out = int (length (filter (\<lambda>(key, rc, new). key = k \<and> new) out))"

fun lr_ordered :: "64 word \<Rightarrow> (ngx_str_t \<times> 64 word) list \<Rightarrow> 64 word \<Rightarrow> bool" where
  "lr_ordered t [] t' = (t \<le> t')"
| "lr_ordered t ((key, now) # cs) t' = (t \<le> now \<and> lr_ordered now cs t')"

definition lr_inv :: "ngx_http_limit_req_limit_t \<Rightarrow> 64 word \<Rightarrow> ngx_http_limit_req_node_t list \<Rightarrow> bool" where
  "lr_inv limit t q \<longleftrightarrow> lz_ok q \<and> (\<forall>lr \<in> set q. lr_fits limit t lr)"

text \<open>The water in the bucket of a key, in millionths of a request; below one request it may be negative.\<close>

definition lr_water :: "64 word \<Rightarrow> ngx_str_t \<Rightarrow> 64 word \<Rightarrow> ngx_http_limit_req_node_t list \<Rightarrow> int" where
  "lr_water rate k t q =
     (case lr_get k q of None \<Rightarrow> 0 | Some lr \<Rightarrow> max (- 1000000) (1000 * uint (lr_excess lr) - lr_drop rate t lr))"

lemma lr_inv_get: "lr_inv limit t q \<Longrightarrow> lr_get k q = Some lr \<Longrightarrow> lr_fits limit t lr \<and> lr_data lr = k \<and> lr_hash lr = ngx_crc32_short k"
  using lr_get_Some [of q k lr] by (auto simp: lr_inv_def lz_ok_def)

lemma lr_inv_later: "lr_inv limit t q \<Longrightarrow> t \<le> t' \<Longrightarrow> lr_inv limit t' q"
  by (auto simp: lr_inv_def lr_fits_def)

lemma lr_inv_head:
  assumes "lr_inv limit t q" "lr_fits limit t lr" "lr_hash lr = ngx_crc32_short (lr_data lr)"
  shows "lr_inv limit t (lr # lr_others (lr_data lr) q)"
  using assms lz_ok_head [of q lr] by (auto simp: lr_inv_def lr_others_def)

lemma lr_inv_expire: "lr_inv limit t q \<Longrightarrow> lr_inv limit t (ngx_http_limit_req_expire rate now n q)"
  using expire_prefix [of q rate now n] expire_ok [of q rate now n] by (auto simp: lr_inv_def) (metis UnI1 set_append)

lemma lr_water_bounds:
  assumes "lr_inv limit t q"
  shows "- 1000000 \<le> lr_water rate k t q" "lr_water rate k t q \<le> 1000 * uint (ll_burst limit)"
proof -
  show "- 1000000 \<le> lr_water rate k t q" by (simp add: lr_water_def split: option.split)
  have burst: "- 1000 \<le> uint (ll_burst limit)" using uint_ge_0 [of "ll_burst limit"] by linarith
  have "lr_fits limit t lr \<Longrightarrow> 1000 * uint (lr_excess lr) - lr_drop rate t lr \<le> 1000 * uint (ll_burst limit)" for lr
    by (simp add: lr_fits_def lr_drop_def word_le_def) (smt (verit) mult_nonneg_nonneg uint_ge_0)
  then show "lr_water rate k t q \<le> 1000 * uint (ll_burst limit)"
    using lr_inv_get [OF assms, of k] burst by (auto simp: lr_water_def split: option.split)
qed

text \<open>As time passes, the water falls with the rate.\<close>

lemma lr_water_falls:
  assumes "t \<le> t'"
  shows "lr_water rate k t q - uint rate * (uint t' - uint t) \<le> lr_water rate k t' q"
proof -
  have "0 \<le> uint rate * (uint t' - uint t)" using assms by (simp add: word_le_def)
  then show ?thesis by (auto simp: lr_water_def lr_drop_def right_diff_distrib split: option.split)
qed

text \<open>One call: the invariant is kept, and an accepted request adds its water, a new node excepted.\<close>

lemma accept_water:
  fixes d e e' :: int
  assumes "0 \<le> d" "e' = max 0 (e - d div 1000 + 1000)"
  shows "max (- 1000000) (1000 * e - d) + 1000000 \<le> 1000 * e'"
proof -
  have "1000 * (d div 1000) \<le> d" by simp
  then show ?thesis using assms(2) by (auto simp: max_def)
qed

lemma lr_found_water:
  assumes inv: "lr_inv limit now (lz_queue ctx)" and small: "lr_small limit (lz_rate ctx) t'" "now \<le> t'"
    and get: "lr_get key (lz_queue ctx) = Some lr" and call: "lr_found limit lr True now ctx = (rc, excess, ctx')"
  shows "lr_inv limit now (lz_queue ctx') \<and> lz_rate ctx' = lz_rate ctx
    \<and> lr_water (lz_rate ctx) k now (lz_queue ctx) + (if key = k \<and> rc = NGX_OK then 1000000 else 0) \<le> lr_water (lz_rate ctx) k now (lz_queue ctx')"
proof -
  let ?q = "lz_queue ctx" and ?r = "lz_rate ctx" and ?e = "lr_level (lz_rate ctx) now lr"
  have lr: "lr_fits limit now lr" "lr_data lr = key" "lr_hash lr = ngx_crc32_short key" using lr_inv_get [OF inv get] by simp_all
  have others: "filter (\<lambda>x. \<not> lr_is (lr_hash lr) (lr_data lr) x) ?q = lr_others key ?q"
    using lr_others_filter [of ?q key] inv lr by (simp add: lr_inv_def)
  have last: "lr_last lr \<le> now" "lr_excess lr \<le> ll_burst limit" using lr(1) by (simp_all add: lr_fits_def)
  have e: "?e = max 0 (uint (lr_excess lr) - lr_drop ?r now lr div 1000 + 1000)" by (rule level_exact(1) [OF small last])
  have drop: "0 \<le> lr_drop ?r now lr" by (rule leaked_exact(2) [OF small last(1)])
  let ?lr = "lr\<lparr>lr_excess := word_of_int ?e, lr_last := now\<rparr>"
  note head = lr_inv_head [OF inv, of lr] lr_inv_head [OF inv, of ?lr] lr_get_head [of lr k ?q] lr_get_head [of ?lr k ?q]
  show ?thesis
  proof (cases "word_of_int ?e > ll_burst limit")
    case True
    then have "rc = NGX_BUSY" "ctx' = ctx\<lparr>lz_queue := lr # lr_others key ?q\<rparr>" using call others by (auto simp: lr_found_def Let_def)
    then show ?thesis using head lr get by (auto simp: lr_water_def)
  next
    case False
    then have r: "rc = NGX_OK" "ctx' = ctx\<lparr>lz_queue := ?lr # lr_others key ?q\<rparr>" using call others by (auto simp: lr_found_def Let_def)
    have "0 \<le> ?e" "?e < 2 ^ 64"
      using e drop last(2) small(1) uint_ge_0 [of "lr_excess lr"] by (auto simp: lr_small_def word_le_def max_def pos_imp_zdiv_nonneg_iff)
    then have u: "uint (lr_excess ?lr) = ?e" using uint_word [of ?e] by simp
    have fits: "lr_fits limit now ?lr" using False by (simp add: lr_fits_def not_less)
    have "lr_water ?r k now ?q + 1000000 \<le> lr_water ?r k now (lz_queue ctx')" if "key = k"
      using accept_water [OF drop e] that r(2) head(4) get lr u by (simp add: lr_water_def lr_drop_def [of _ _ ?lr])
    moreover have "lr_water ?r k now (lz_queue ctx') = lr_water ?r k now ?q" if "key \<noteq> k"
      using that r(2) head(4) lr by (simp add: lr_water_def)
    ultimately show ?thesis using r fits head(2) lr by auto
  qed
qed

lemma lr_create_water:
  assumes inv: "lr_inv limit now (lz_queue ctx)" and small: "lr_small limit (lz_rate ctx) t'" "now \<le> t'"
    and get: "lr_get key (lz_queue ctx) = None"
    and call: "lr_create (ngx_crc32_short key) key True now (ngx_http_limit_req_expire (lz_rate ctx) now 1 (lz_queue ctx)) ctx = (rc, excess, ctx')"
  shows "rc = NGX_OK \<and> lr_inv limit now (lz_queue ctx') \<and> lz_rate ctx' = lz_rate ctx
    \<and> lr_water (lz_rate ctx) k now (lz_queue ctx) \<le> lr_water (lz_rate ctx) k now (lz_queue ctx')"
proof -
  let ?q = "lz_queue ctx" and ?r = "lz_rate ctx"
  let ?x = "ngx_http_limit_req_expire ?r now 1 ?q"
  let ?lr = "\<lparr>lr_hash = ngx_crc32_short key, lr_data = key, lr_last = now, lr_excess = 0, lr_count = 0\<rparr>"
  have ok: "lz_ok ?q" using inv by (simp add: lr_inv_def)
  note gone = expire_get [OF ok, of _ ?r now 1]
  have none: "lr_get key ?x = None" using gone [of key] get by auto
  then have same: "lr_others key ?x = ?x" using lr_get_None [OF expire_ok [OF ok]] by (auto simp: lr_others_def)
  have c: "rc = NGX_OK" "ctx' = ctx\<lparr>lz_queue := ?lr # ?x\<rparr>" using call by (auto simp: lr_create_def)
  have inv': "lr_inv limit now (lz_queue ctx')"
    using lr_inv_head [OF lr_inv_expire [OF inv], of ?lr ?r now 1] same c(2) by (simp add: lr_fits_def)
  have new: "lr_get k (?lr # ?x) = (if k = key then Some ?lr else lr_get k ?x)"
    using lr_get_head [of ?lr k ?x] same by simp
  have "lr_water ?r k now ?q \<le> lr_water ?r k now (?lr # ?x)"
  proof (cases "k = key \<or> lr_get k ?x = lr_get k ?q")
    case True
    then show ?thesis using new get by (auto simp: lr_water_def lr_drop_def)
  next
    case False
    then obtain lr where lr: "lr_get k ?q = Some lr" "lr_get k ?x = None" "sint (lr_excess lr - lr_leaked ?r now lr) \<le> 0" using gone [of k] by auto
    have f: "lr_last lr \<le> now" "lr_excess lr \<le> ll_burst limit" using lr_inv_get [OF inv lr(1)] by (simp_all add: lr_fits_def)
    have "uint (lr_excess lr) \<le> lr_drop ?r now lr div 1000" using lr(3) level_exact(2) [OF small f] by simp
    then have "1000 * uint (lr_excess lr) \<le> lr_drop ?r now lr" by linarith
    then show ?thesis using False new lr(1,2) by (simp add: lr_water_def)
  qed
  then show ?thesis using c inv' by simp
qed

lemma lr_call_water:
  assumes inv: "lr_inv limit now (lz_queue ctx)" and small: "lr_small limit (lz_rate ctx) t'" "now \<le> t'"
    and call: "ngx_http_limit_req_lookup limit (ngx_crc32_short key) key True now True True ctx = (rc, excess, ctx')"
  shows "lr_inv limit now (lz_queue ctx') \<and> lz_rate ctx' = lz_rate ctx
    \<and> lr_water (lz_rate ctx) k now (lz_queue ctx) + (if key = k \<and> rc = NGX_OK then 1000000 else 0)
      \<le> lr_water (lz_rate ctx) k now (lz_queue ctx') + (if key = k \<and> lr_get key (lz_queue ctx) = None then 1000000 else 0)"
proof (cases "lr_get key (lz_queue ctx)")
  case None
  then show ?thesis using lr_create_water [OF inv small None, of rc excess ctx' k] call by (simp add: ngx_http_limit_req_lookup_def)
next
  case (Some lr)
  then show ?thesis using lr_found_water [OF inv small Some, of rc excess ctx' k] call by (simp add: ngx_http_limit_req_lookup_def)
qed

lemma lr_ordered_end: "lr_ordered t cs t' \<Longrightarrow> t \<le> t'"
  by (induction cs arbitrary: t) (auto intro: order_trans)

lemma lr_run_water:
  assumes "lr_inv limit t (lz_queue ctx)" "lr_ordered t cs t'" "lr_small limit (lz_rate ctx) t'"
  shows "lr_water (lz_rate ctx) k t (lz_queue ctx) + 1000000 * lr_accepted k (lr_run limit ctx cs)
    \<le> 1000 * uint (ll_burst limit) + 1000000 * lr_created k (lr_run limit ctx cs) + uint (lz_rate ctx) * (uint t' - uint t)"
  using assms
proof (induction cs arbitrary: t ctx)
  case Nil
  have "0 \<le> uint (lz_rate ctx) * (uint t' - uint t)" using Nil.prems(2) by (simp add: word_le_def)
  then show ?case using lr_water_bounds(2) [OF Nil.prems(1), of "lz_rate ctx" k] by (simp add: lr_accepted_def lr_created_def)
next
  case (Cons c cs)
  obtain key now where c: "c = (key, now)" by fastforce
  have o: "t \<le> now" "lr_ordered now cs t'" "now \<le> t'" using Cons.prems(2) c lr_ordered_end [of now cs t'] by simp_all
  obtain rc excess ctx' where call: "ngx_http_limit_req_lookup limit (ngx_crc32_short key) key True now True True ctx = (rc, excess, ctx')"
    by (metis prod_cases3)
  have step: "lr_inv limit now (lz_queue ctx')" "lz_rate ctx' = lz_rate ctx"
    "lr_water (lz_rate ctx) k now (lz_queue ctx) + (if key = k \<and> rc = NGX_OK then 1000000 else 0)
      \<le> lr_water (lz_rate ctx) k now (lz_queue ctx') + (if key = k \<and> lr_get key (lz_queue ctx) = None then 1000000 else 0)"
    using lr_call_water [OF lr_inv_later [OF Cons.prems(1) o(1)] Cons.prems(3) o(3) call, of k] by simp_all
  have IH: "lr_water (lz_rate ctx) k now (lz_queue ctx') + 1000000 * lr_accepted k (lr_run limit ctx' cs)
      \<le> 1000 * uint (ll_burst limit) + 1000000 * lr_created k (lr_run limit ctx' cs) + uint (lz_rate ctx) * (uint t' - uint now)"
    using Cons.IH [OF step(1) o(2)] Cons.prems(3) step(2) by simp
  have counts: "lr_accepted k (lr_run limit ctx (c # cs)) = lr_accepted k (lr_run limit ctx' cs) + (if key = k \<and> rc = NGX_OK then 1 else 0)"
    "lr_created k (lr_run limit ctx (c # cs)) = lr_created k (lr_run limit ctx' cs) + (if key = k \<and> lr_get key (lz_queue ctx) = None then 1 else 0)"
    using call c by (auto simp: lr_accepted_def lr_created_def)
  have time: "uint (lz_rate ctx) * (uint t' - uint t) = uint (lz_rate ctx) * (uint t' - uint now) + uint (lz_rate ctx) * (uint now - uint t)"
    by (simp add: right_diff_distrib)
  show ?case using lr_water_falls [OF o(1), of "lz_rate ctx" k "lz_queue ctx"] step(3) IH unfolding counts time by (auto split: if_splits)
qed

text \<open>A client whose requests are a full request apart, at the rate of the zone.\<close>

fun lr_spaced :: "64 word \<Rightarrow> ngx_str_t \<Rightarrow> 64 word option \<Rightarrow> (ngx_str_t \<times> 64 word) list \<Rightarrow> bool" where
  "lr_spaced rate k prev [] = True"
| "lr_spaced rate k prev ((key, now) # cs) =
     (if key = k then (case prev of None \<Rightarrow> True | Some t \<Rightarrow> 1000000 \<le> uint rate * (uint now - uint t)) \<and> lr_spaced rate k (Some now) cs
      else lr_spaced rate k prev cs)"

text \<open>Its bucket is empty whenever it comes.\<close>

definition lr_empty :: "ngx_str_t \<Rightarrow> 64 word option \<Rightarrow> ngx_http_limit_req_node_t list \<Rightarrow> bool" where
  "lr_empty k prev q \<longleftrightarrow> (\<forall>lr. lr_get k q = Some lr \<longrightarrow> lr_excess lr = 0 \<and> prev = Some (lr_last lr))"

lemma lr_call_empty:
  assumes inv: "lr_inv limit now (lz_queue ctx)" and small: "lr_small limit (lz_rate ctx) t'" "now \<le> t'"
    and call: "ngx_http_limit_req_lookup limit (ngx_crc32_short key) key True now True True ctx = (rc, excess, ctx')"
    and empty: "lr_empty k prev (lz_queue ctx)" "lr_spaced (lz_rate ctx) k prev ((key, now) # cs)"
  shows "(key = k \<longrightarrow> rc = NGX_OK) \<and> lr_empty k (if key = k then Some now else prev) (lz_queue ctx')"
proof -
  let ?q = "lz_queue ctx" and ?r = "lz_rate ctx"
  have ok: "lz_ok ?q" using inv by (simp add: lr_inv_def)
  show ?thesis
  proof (cases "lr_get key ?q")
    case None
    let ?x = "ngx_http_limit_req_expire ?r now 1 ?q"
    let ?lr = "\<lparr>lr_hash = ngx_crc32_short key, lr_data = key, lr_last = now, lr_excess = 0, lr_count = 0\<rparr>"
    have c: "rc = NGX_OK" "lz_queue ctx' = ?lr # ?x" using call None by (auto simp: ngx_http_limit_req_lookup_def lr_create_def)
    have "lr_get k (?lr # ?x) = (if k = key then Some ?lr else lr_get k ?x)" by (simp add: lr_search_def lr_is_def)
    then show ?thesis using c empty(1) expire_get [OF ok, of k ?r now 1] by (auto simp: lr_empty_def)
  next
    case (Some lr)
    have lr: "lr_last lr \<le> now" "lr_excess lr \<le> ll_burst limit" "lr_data lr = key" "lr_hash lr = ngx_crc32_short key"
      using lr_inv_get [OF inv Some] by (simp_all add: lr_fits_def)
    have others: "filter (\<lambda>x. \<not> lr_is (lr_hash lr) (lr_data lr) x) ?q = lr_others key ?q" using lr_others_filter [OF ok, of key] lr by simp
    have q: "lz_queue ctx' \<in> {lr # lr_others key ?q, lr\<lparr>lr_excess := word_of_int (lr_level ?r now lr), lr_last := now\<rparr> # lr_others key ?q}"
      using call Some others by (auto simp: ngx_http_limit_req_lookup_def lr_found_def Let_def split: if_splits)
    show ?thesis
    proof (cases "key = k")
      case True
      then have e: "lr_excess lr = 0" "1000000 \<le> lr_drop ?r now lr" using empty Some by (auto simp: lr_empty_def lr_drop_def)
      have "lr_level ?r now lr = 0" using level_exact(1) [OF small lr(1,2)] e by simp
      then have "rc = NGX_OK" "lz_queue ctx' = lr\<lparr>lr_excess := 0, lr_last := now\<rparr> # lr_others key ?q"
        using call Some others by (auto simp: ngx_http_limit_req_lookup_def lr_found_def Let_def)
      then show ?thesis using True lr_get_head [of "lr\<lparr>lr_excess := 0, lr_last := now\<rparr>" k ?q] lr by (simp add: lr_empty_def)
    next
      case False
      then have "lr_get k (lz_queue ctx') = lr_get k ?q"
        using q lr_get_head [of lr k ?q] lr_get_head [of "lr\<lparr>lr_excess := word_of_int (lr_level ?r now lr), lr_last := now\<rparr>" k ?q] lr by auto
      then show ?thesis using False empty(1) by (simp add: lr_empty_def)
    qed
  qed
qed

lemma lr_run_spaced:
  assumes "lr_inv limit t (lz_queue ctx)" "lr_ordered t cs t'" "lr_small limit (lz_rate ctx) t'"
    and "lr_empty k prev (lz_queue ctx)" "lr_spaced (lz_rate ctx) k prev cs"
  shows "\<forall>(key, rc, new) \<in> set (lr_run limit ctx cs). key = k \<longrightarrow> rc = NGX_OK"
  using assms
proof (induction cs arbitrary: t ctx prev)
  case (Cons c cs)
  obtain key now where c: "c = (key, now)" by fastforce
  have o: "t \<le> now" "lr_ordered now cs t'" "now \<le> t'" using Cons.prems(2) c lr_ordered_end [of now cs t'] by simp_all
  obtain rc excess ctx' where call: "ngx_http_limit_req_lookup limit (ngx_crc32_short key) key True now True True ctx = (rc, excess, ctx')"
    by (metis prod_cases3)
  note inv = lr_inv_later [OF Cons.prems(1) o(1)]
  have step: "lr_inv limit now (lz_queue ctx')" "lz_rate ctx' = lz_rate ctx"
    using lr_call_water [OF inv Cons.prems(3) o(3) call, of k] by simp_all
  have e: "key = k \<longrightarrow> rc = NGX_OK" "lr_empty k (if key = k then Some now else prev) (lz_queue ctx')"
    using lr_call_empty [OF inv Cons.prems(3) o(3) call Cons.prems(4), of cs] Cons.prems(5) c by simp_all
  have "lr_spaced (lz_rate ctx) k (if key = k then Some now else prev) cs" using Cons.prems(5) c by (auto split: if_splits)
  then have "\<forall>(key, rc, new) \<in> set (lr_run limit ctx' cs). key = k \<longrightarrow> rc = NGX_OK"
    using Cons.IH [OF step(1) o(2) _ e(2)] Cons.prems(3) step(2) by simp
  then show ?case using c call e(1) by auto
qed simp

text \<open>
  C24: The leaky bucket. In every sequence of requests of any keys against one limit, at times that do not go back, and as long as the shared memory has room for the nodes,
  for a rate other than 0 whose product with the last time is below 2^62, and a burst below 2^62:
  the number of requests of a key that are let through, in millionths, is at most the burst, the rate times the duration, one request,
  and one request for every time that the node of the key is created; and a client whose requests are at least one
  request apart at the rate of the zone is never refused, whatever other clients do.
\<close>

theorem ngx_http_limit_req_leaky_bucket:
  assumes "lr_inv limit t (lz_queue ctx)" "lr_ordered t cs t'" "lr_small limit (lz_rate ctx) t'"
  shows "1000000 * lr_accepted k (lr_run limit ctx cs)
      \<le> 1000 * uint (ll_burst limit) + uint (lz_rate ctx) * (uint t' - uint t) + 1000000 * (1 + lr_created k (lr_run limit ctx cs))
    \<and> (lr_get k (lz_queue ctx) = None \<and> lr_spaced (lz_rate ctx) k None cs \<longrightarrow>
        (\<forall>(key, rc, new) \<in> set (lr_run limit ctx cs). key = k \<longrightarrow> rc = NGX_OK))"
proof (intro conjI impI)
  show "1000000 * lr_accepted k (lr_run limit ctx cs)
      \<le> 1000 * uint (ll_burst limit) + uint (lz_rate ctx) * (uint t' - uint t) + 1000000 * (1 + lr_created k (lr_run limit ctx cs))"
    using lr_run_water [OF assms, of k] lr_water_bounds(1) [OF assms(1), of "lz_rate ctx" k] by simp
  show "\<forall>(key, rc, new) \<in> set (lr_run limit ctx cs). key = k \<longrightarrow> rc = NGX_OK"
    if "lr_get k (lz_queue ctx) = None \<and> lr_spaced (lz_rate ctx) k None cs"
    using lr_run_spaced [OF assms, of k None] that by (simp add: lr_empty_def)
qed

section \<open>The counters of a handler\<close>

definition lr_users :: "ngx_str_t \<Rightarrow> ngx_http_limit_req_node_t list \<Rightarrow> 64 word" where
  "lr_users k q = (case lr_get k q of None \<Rightarrow> 0 | Some lr \<Rightarrow> lr_count lr)"

text \<open>
  A zone in comparison with what it was before the handler: one user more for the node that is held, and no other change of the counters. And nodes that
  were not charged.
\<close>

definition lz_balanced :: "ngx_http_limit_req_ctx_t \<Rightarrow> ngx_http_limit_req_ctx_t \<Rightarrow> bool" where
  "lz_balanced c0 c \<longleftrightarrow> lz_ok (lz_queue c) \<and> (\<forall>k. lz_node c = Some k \<longrightarrow> lr_get k (lz_queue c) \<noteq> None)
     \<and> (\<forall>k. lr_users k (lz_queue c) = lr_users k (lz_queue c0) + (if lz_node c = Some k then 1 else 0))"

definition lz_uncharged :: "ngx_http_limit_req_ctx_t \<Rightarrow> ngx_http_limit_req_ctx_t \<Rightarrow> bool" where
  "lz_uncharged c0 c \<longleftrightarrow> (\<forall>lr \<in> set (lz_queue c). lr_excess lr = 0
     \<or> (\<exists>lr0 \<in> set (lz_queue c0). lr_data lr0 = lr_data lr \<and> lr_last lr0 = lr_last lr \<and> lr_excess lr0 = lr_excess lr))"

lemma lr_users_head:
  "lr_hash lr = ngx_crc32_short (lr_data lr) \<Longrightarrow>
   lr_users k (lr # lr_others (lr_data lr) q) = (if k = lr_data lr then lr_count lr else lr_users k q)"
  using lr_get_head [of lr k q] by (simp add: lr_users_def)

lemma lr_users_expire: "lz_ok q \<Longrightarrow> lr_users k (ngx_http_limit_req_expire rate now n q) = lr_users k q"
  using expire_get [of q k rate now n] by (auto simp: lr_users_def)

lemma expire_subset: "set (ngx_http_limit_req_expire rate now n q) \<subseteq> set q"
  using expire_prefix [of q rate now n] by (metis Un_upper1 set_append)

lemma lr_create_balanced:
  assumes "lz_ok q" "lr_get key q = None" "lr_create (ngx_crc32_short key) key account now q c = (rc, excess, c')"
    and "lz_node c = None" "\<And>k. lr_users k q = lr_users k (lz_queue c0)"
  shows "lz_balanced c0 c' \<and> (lz_node c' \<noteq> None \<longrightarrow> rc = NGX_AGAIN) \<and> rc \<in> {NGX_OK, NGX_AGAIN}"
proof -
  have o: "lr_others key q = q" using assms(1,2) lr_get_None [OF assms(1), of key] by (auto simp: lr_others_def)
  have z: "lr_users key q = 0" using assms(2) by (simp add: lr_users_def)
  have "lz_ok (\<lparr>lr_hash = ngx_crc32_short key, lr_data = key, lr_last = t, lr_excess = e, lr_count = n\<rparr> # q)"
    "lr_users k (\<lparr>lr_hash = ngx_crc32_short key, lr_data = key, lr_last = t, lr_excess = e, lr_count = n\<rparr> # q) = (if k = key then n else lr_users k q)"
    "lr_get key (\<lparr>lr_hash = ngx_crc32_short key, lr_data = key, lr_last = t, lr_excess = e, lr_count = n\<rparr> # q) \<noteq> None"
    for t e n k
    using lz_ok_head [OF assms(1), of "\<lparr>lr_hash = ngx_crc32_short key, lr_data = key, lr_last = t, lr_excess = e, lr_count = n\<rparr>"]
      lr_users_head [of "\<lparr>lr_hash = ngx_crc32_short key, lr_data = key, lr_last = t, lr_excess = e, lr_count = n\<rparr>" k q] o by (simp_all add: lr_search_def lr_is_def)
  then show ?thesis using assms(3-5) z by (auto simp: lr_create_def lz_balanced_def split: if_splits)
qed

lemma lr_found_balanced:
  assumes ok: "lz_ok (lz_queue c)" and get: "lr_get key (lz_queue c) = Some lr" and call: "lr_found limit lr account now c = (rc, excess, c')"
    and node: "lz_node c = None" and users: "\<And>k. lr_users k (lz_queue c) = lr_users k (lz_queue c0)"
  shows "lz_balanced c0 c' \<and> (lz_node c' \<noteq> None \<longrightarrow> rc = NGX_AGAIN) \<and> rc \<in> {NGX_OK, NGX_AGAIN, NGX_BUSY}"
proof -
  let ?q = "lz_queue c"
  have lr: "lr_data lr = key" "lr_hash lr = ngx_crc32_short key" using lr_get_Some [OF ok] get ok by (auto simp: lz_ok_def)
  have o: "filter (\<lambda>x. \<not> lr_is (lr_hash lr) (lr_data lr) x) ?q = lr_others key ?q" using lr_others_filter [OF ok, of key] lr by simp
  have n: "lr_users key ?q = lr_count lr" using get by (simp add: lr_users_def)
  have "lz_ok (lr' # lr_others key ?q)" "lr_users k (lr' # lr_others key ?q) = (if k = key then lr_count lr' else lr_users k ?q)"
    "lr_get key (lr' # lr_others key ?q) \<noteq> None"
    if "lr_data lr' = key" "lr_hash lr' = ngx_crc32_short key" for lr' k
    using that lz_ok_head [OF ok, of lr'] lr_users_head [of lr' k ?q] by (simp_all add: lr_search_def lr_is_def)
  then show ?thesis
    using call node users lr n unfolding lr_found_def Let_def o by (auto simp: lz_balanced_def split: if_splits)
qed

lemma lookup_balanced:
  assumes "lz_balanced c0 c" "lz_node c = None"
    and call: "ngx_http_limit_req_lookup limit (ngx_crc32_short key) key account now room1 room2 c = (rc, excess, c')"
  shows "lz_balanced c0 c' \<and> (lz_node c' \<noteq> None \<longrightarrow> rc = NGX_AGAIN) \<and> rc \<in> {NGX_OK, NGX_AGAIN, NGX_BUSY, NGX_ERROR}"
proof -
  have ok: "lz_ok (lz_queue c)" and users: "\<And>k. lr_users k (lz_queue c) = lr_users k (lz_queue c0)" using assms(1,2) by (simp_all add: lz_balanced_def)
  show ?thesis
  proof (cases "lr_get key (lz_queue c)")
    case (Some lr)
    with call have "lr_found limit lr account now c = (rc, excess, c')" by (simp add: ngx_http_limit_req_lookup_def)
    from lr_found_balanced [OF ok Some this assms(2) users] show ?thesis by blast
  next
    case None
    let ?q1 = "ngx_http_limit_req_expire (lz_rate c) now 1 (lz_queue c)"
    let ?q2 = "ngx_http_limit_req_expire (lz_rate c) now 0 ?q1"
    have q1: "lz_ok ?q1" "lr_get key ?q1 = None" "\<And>k. lr_users k ?q1 = lr_users k (lz_queue c0)"
      using expire_ok [OF ok] expire_get [OF ok, of key "lz_rate c" now 1] None lr_users_expire [OF ok] users by auto
    have q2: "lz_ok ?q2" "lr_get key ?q2 = None" "\<And>k. lr_users k ?q2 = lr_users k (lz_queue c0)"
      using expire_ok [OF q1(1)] expire_get [OF q1(1), of key "lz_rate c" now 0] lr_users_expire [OF q1(1)] q1 by auto
    consider "lr_create (ngx_crc32_short key) key account now ?q1 c = (rc, excess, c')"
      | "lr_create (ngx_crc32_short key) key account now ?q2 c = (rc, excess, c')"
      | "rc = NGX_ERROR" "c' = c\<lparr>lz_queue := ?q2\<rparr>"
      using call None by (auto simp: ngx_http_limit_req_lookup_def Let_def split: if_splits)
    then show ?thesis
    proof cases
      case 1
      then show ?thesis using lr_create_balanced [OF q1(1,2) _ assms(2) q1(3)] by blast
    next
      case 2
      then show ?thesis using lr_create_balanced [OF q2(1,2) _ assms(2) q2(3)] by blast
    next
      case 3
      then show ?thesis using q2 assms(2) by (simp add: lz_balanced_def)
    qed
  qed
qed

lemma uncharged_trans:
  assumes "lz_uncharged c0 c" "\<And>lr. lr \<in> set (lz_queue c') \<Longrightarrow> lr_excess lr = 0
    \<or> (\<exists>lr1 \<in> set (lz_queue c). lr_data lr1 = lr_data lr \<and> lr_last lr1 = lr_last lr \<and> lr_excess lr1 = lr_excess lr)"
  shows "lz_uncharged c0 c'"
  using assms unfolding lz_uncharged_def by metis

lemma lookup_uncharged:
  assumes "lz_uncharged c0 c" "rc \<noteq> NGX_OK"
    and call: "ngx_http_limit_req_lookup limit (ngx_crc32_short key) key account now room1 room2 c = (rc, excess, c')"
  shows "lz_uncharged c0 c'"
proof (rule uncharged_trans [OF assms(1)])
  fix lr assume lr: "lr \<in> set (lz_queue c')"
  show "lr_excess lr = 0 \<or> (\<exists>lr1 \<in> set (lz_queue c). lr_data lr1 = lr_data lr \<and> lr_last lr1 = lr_last lr \<and> lr_excess lr1 = lr_excess lr)"
  proof (cases "lr_get key (lz_queue c)")
    case None
    then show ?thesis
      using call lr assms(2) expire_subset [of "lz_rate c" now 1 "lz_queue c"]
        expire_subset [of "lz_rate c" now 0 "ngx_http_limit_req_expire (lz_rate c) now 1 (lz_queue c)"]
      by (fastforce simp: ngx_http_limit_req_lookup_def lr_create_def Let_def split: if_splits)
  next
    case (Some x)
    then have x: "x \<in> set (lz_queue c)" by (auto simp: lr_search_def find_Some_iff in_set_conv_nth)
    have "lr = x \<or> lr = x\<lparr>lr_count := lr_count x + 1\<rparr> \<or> lr \<in> set (lz_queue c)"
      using call lr assms(2) Some by (auto simp: ngx_http_limit_req_lookup_def lr_found_def Let_def split: if_splits)
    then consider "lr \<in> set (lz_queue c)" | "lr = x\<lparr>lr_count := lr_count x + 1\<rparr>" using x by blast
    then show ?thesis
    proof cases
      case 2
      then show ?thesis using x by (intro disjI2 bexI [of _ x]) simp_all
    qed blast
  qed
qed

text \<open>The release and the later accounting of the node that is held.\<close>

lemma update_get:
  assumes "\<And>lr. lr_data (f lr) = lr_data lr \<and> lr_hash (f lr) = lr_hash lr"
  shows "lr_get k (map (\<lambda>lr. if lr_is (ngx_crc32_short key) key lr then f lr else lr) q)
    = map_option (\<lambda>lr. if lr_is (ngx_crc32_short key) key lr then f lr else lr) (lr_get k q)"
  by (induction q) (auto simp: lr_search_def lr_is_def assms)

lemma update_balanced:
  assumes "lz_balanced c0 c" "\<And>lr. lr_data (f lr) = lr_data lr \<and> lr_hash (f lr) = lr_hash lr \<and> lr_count (f lr) = lr_count lr - 1"
  shows "lz_balanced c0 (lr_update f c) \<and> lz_node (lr_update f c) = None"
proof (cases "lz_node c")
  case None
  then show ?thesis using assms(1) by (simp add: lr_update_def)
next
  case (Some key)
  let ?q = "map (\<lambda>lr. if lr_is (ngx_crc32_short key) key lr then f lr else lr) (lz_queue c)"
  have data: "map lr_data ?q = map lr_data (lz_queue c)" "\<forall>lr \<in> set ?q. \<exists>x \<in> set (lz_queue c). lr_hash lr = lr_hash x \<and> lr_data lr = lr_data x"
    using assms(2) by (auto simp: comp_def)
  have ok: "lz_ok ?q" using assms(1) data unfolding lz_balanced_def lz_ok_def by metis
  have okc: "lz_ok (lz_queue c)" using assms(1) by (simp add: lz_balanced_def)
  have users: "lr_users k ?q = (if k = key then lr_users k (lz_queue c) - 1 else lr_users k (lz_queue c))" for k
  proof (cases "lr_get k (lz_queue c)")
    case None
    then have "k \<noteq> key" using assms(1) Some by (auto simp: lz_balanced_def)
    then show ?thesis using None update_get [of f k key "lz_queue c"] assms(2) by (simp add: lr_users_def)
  next
    case x: (Some x)
    then have "x \<in> set (lz_queue c)" "lr_data x = k" using lr_get_Some [OF okc] by simp_all
    then show ?thesis using x update_get [of f k key "lz_queue c"] assms(2) lr_is_ok [OF okc, of x key] by (auto simp: lr_users_def)
  qed
  show ?thesis using assms(1) Some ok users by (auto simp: lr_update_def lz_balanced_def)
qed

lemma release_balanced: "lz_balanced c0 c \<Longrightarrow> lz_balanced c0 (lr_release c) \<and> lz_node (lr_release c) = None"
  unfolding lr_release_def by (rule update_balanced) simp_all

lemma charge_balanced: "lz_balanced c0 c \<Longrightarrow> lz_balanced c0 (lr_charge now c) \<and> lz_node (lr_charge now c) = None"
  unfolding lr_charge_def by (rule update_balanced) simp_all

lemma release_uncharged: "lz_uncharged c0 c \<Longrightarrow> lz_uncharged c0 (lr_release c)"
  by (rule uncharged_trans) (auto simp: lr_release_def lr_update_def split: option.splits if_splits)

text \<open>All the zones of a worker.\<close>

abbreviation zs_balanced :: "ngx_http_limit_req_ctx_t list \<Rightarrow> ngx_http_limit_req_ctx_t list \<Rightarrow> bool" where
  "zs_balanced \<equiv> list_all2 lz_balanced"

abbreviation zs_uncharged :: "ngx_http_limit_req_ctx_t list \<Rightarrow> ngx_http_limit_req_ctx_t list \<Rightarrow> bool" where
  "zs_uncharged \<equiv> list_all2 lz_uncharged"

definition zs_held :: "ngx_http_limit_req_ctx_t list \<Rightarrow> nat set" where
  "zs_held zs = {i. i < length zs \<and> lz_node (zs ! i) \<noteq> None}"

lemma zs_held_update: "zs_held (zs[i := c]) = (if i < length zs then (if lz_node c = None then zs_held zs - {i} else insert i (zs_held zs)) else zs_held zs)"
  by (auto simp: zs_held_def nth_list_update)

lemma zs_rel_update: "list_all2 R zs0 zs \<Longrightarrow> (i < length zs \<Longrightarrow> R (zs0 ! i) c) \<Longrightarrow> list_all2 R zs0 (zs[i := c])"
  by (auto simp: list_all2_conv_all_nth) (metis nth_list_update_eq nth_list_update_neq)

lemma release_all_balanced:
  "zs_balanced zs0 zs \<Longrightarrow> zs_balanced zs0 (lr_release_all ls zs) \<and> zs_held (lr_release_all ls zs) = zs_held zs - ll_zone ` set ls"
proof (induction ls arbitrary: zs)
  case (Cons l ls)
  let ?c = "lr_release (zs ! ll_zone l)"
  have "ll_zone l < length zs \<Longrightarrow> lz_balanced (zs0 ! ll_zone l) ?c \<and> lz_node ?c = None"
    using Cons.prems by (intro release_balanced) (simp add: list_all2_conv_all_nth)
  then have "zs_balanced zs0 (zs[ll_zone l := ?c])" "zs_held (zs[ll_zone l := ?c]) = zs_held zs - {ll_zone l}"
    using zs_rel_update [OF Cons.prems, of "ll_zone l" ?c] zs_held_update [of zs "ll_zone l" ?c] by (auto simp: zs_held_def)
  then show ?case using Cons.IH [of "zs[ll_zone l := ?c]"] by auto
qed simp

lemma release_all_uncharged: "zs_uncharged zs0 zs \<Longrightarrow> zs_uncharged zs0 (lr_release_all ls zs)"
proof (induction ls arbitrary: zs)
  case (Cons l ls)
  then have "zs_uncharged zs0 (zs[ll_zone l := lr_release (zs ! ll_zone l)])"
    by (intro zs_rel_update release_uncharged) (simp_all add: list_all2_conv_all_nth)
  then show ?case using Cons.IH by simp
qed simp

lemma account_balanced:
  "zs_balanced zs0 zs \<Longrightarrow> ngx_http_limit_req_account now ls zs m = (d, zs') \<Longrightarrow> \<forall>l \<in> set ls. ll_zone l < length zs
   \<Longrightarrow> zs_balanced zs0 zs' \<and> zs_held zs' = zs_held zs - ll_zone ` set ls"
proof (induction ls arbitrary: zs m)
  case (Cons l ls)
  let ?c = "zs ! ll_zone l"
  have b: "lz_balanced (zs0 ! ll_zone l) ?c" using Cons.prems(1,3) by (simp add: list_all2_conv_all_nth)
  show ?case
  proof (cases "lr_held ?c")
    case None
    then have "lz_node ?c = None" using b by (auto simp: lr_held_def lz_balanced_def split: option.splits)
    then have "ll_zone l \<notin> zs_held zs" by (simp add: zs_held_def)
    then show ?thesis using Cons.IH [OF Cons.prems(1), of m] Cons.prems None by auto
  next
    case (Some lr)
    let ?zs = "zs[ll_zone l := lr_charge now ?c]"
    have "zs_balanced zs0 ?zs" "zs_held ?zs = zs_held zs - {ll_zone l}"
      using charge_balanced [OF b, of now] zs_rel_update [OF Cons.prems(1), of "ll_zone l"] zs_held_update [of zs "ll_zone l" "lr_charge now ?c"] Cons.prems(3) by auto
    then show ?thesis using Cons.IH [of ?zs] Cons.prems(2,3) Some by (auto simp: Let_def)
  qed
qed simp

text \<open>The loop over the limits: only zones before the last one that was searched are held, and only a request that is let through is charged.\<close>

lemma lr_loop_balanced:
  assumes "lr_loop now (length pre) input zs rc ex = (Some (rc', n', ex'), zs')" "zs_balanced zs0 zs" "zs_uncharged zs0 zs"
    and "zs_held zs \<subseteq> ll_zone ` set pre" "distinct (map ll_zone (pre @ map fst input))" "\<forall>l \<in> set (map fst input). ll_zone l < length zs"
    and "rc = NGX_DECLINED \<and> zs_held zs = {} \<or> rc = NGX_AGAIN"
  shows "zs_balanced zs0 zs' \<and> zs_held zs' \<subseteq> ll_zone ` set (take n' (pre @ map fst input))
    \<and> (rc' \<in> {NGX_BUSY, NGX_ERROR} \<longrightarrow> zs_uncharged zs0 zs') \<and> (rc' = NGX_DECLINED \<longrightarrow> zs_held zs' = {})"
  using assms
proof (induction input arbitrary: pre zs rc ex)
  case Nil
  then show ?case by auto
next
  case (Cons x input)
  obtain limit key room1 room2 where x: "x = (limit, key, room1, room2)" by (metis prod_cases4)
  obtain k where key: "key = Some k" using Cons.prems(1) x by (cases key) auto
  have pre: "(pre @ [limit]) @ map fst input = pre @ map fst (x # input)" using x by simp
  let ?z = "ll_zone limit"
  show ?case
  proof (cases "k = [] \<or> length k > 65535")
    case True
    then have "lr_loop now (length (pre @ [limit])) input zs rc ex = (Some (rc', n', ex'), zs')" using Cons.prems(1) x key by simp
    then show ?thesis using Cons.IH [of "pre @ [limit]" zs rc ex] Cons.prems(2-7) x unfolding pre by auto
  next
    case False
    obtain rc1 ex1 c1 where look: "ngx_http_limit_req_lookup limit (ngx_crc32_short k) k (input = []) now room1 room2 (zs ! ?z) = (rc1, ex1, c1)"
      by (metis prod_cases3)
    let ?zs = "zs[?z := c1]"
    have z: "?z < length zs" "?z \<notin> zs_held zs" using Cons.prems(4-6) x by auto
    then have node: "lz_node (zs ! ?z) = None" by (simp add: zs_held_def)
    have b: "lz_balanced (zs0 ! ?z) (zs ! ?z)" "lz_uncharged (zs0 ! ?z) (zs ! ?z)" using Cons.prems(2,3) z(1) by (simp_all add: list_all2_conv_all_nth)
    note lb = lookup_balanced [OF b(1) node look]
    have bal: "zs_balanced zs0 ?zs" using lb by (intro zs_rel_update [OF Cons.prems(2)]) simp
    have unc: "rc1 \<noteq> NGX_OK \<Longrightarrow> zs_uncharged zs0 ?zs" using lookup_uncharged [OF b(2) _ look] by (intro zs_rel_update [OF Cons.prems(3)]) simp
    show ?thesis
    proof (cases "rc1 = NGX_AGAIN")
      case True
      have "lr_loop now (length (pre @ [limit])) input ?zs rc1 ex1 = (Some (rc', n', ex'), zs')"
        using Cons.prems(1) x key False look True by simp
      moreover have "zs_held ?zs \<subseteq> ll_zone ` set (pre @ [limit])" using Cons.prems(4) zs_held_update [of zs ?z c1] by auto
      ultimately show ?thesis
        using Cons.IH [of "pre @ [limit]" ?zs rc1 ex1] bal unc True Cons.prems(5,6) x unfolding pre by simp
    next
      case again: False
      then have r: "rc' = rc1" "n' = length pre" "zs' = ?zs" using Cons.prems(1) x key False look by auto
      have "zs_held ?zs = zs_held zs" using lb again z zs_held_update [of zs ?z c1] by auto
      then show ?thesis using r bal unc lb again Cons.prems(4) x by auto
    qed
  qed
qed

lemma lr_loop_keys: "\<forall>x \<in> set input. fst (snd x) \<noteq> None \<Longrightarrow> fst (lr_loop now n input zs rc ex) \<noteq> None"
  by (induction now n input zs rc ex rule: lr_loop.induct) (auto simp: Let_def split: option.splits prod.splits)

text \<open>
  C25: The handler of a request with any number of limits on different zones. If every key has a value, it holds no node afterwards and the number of users of every node
  in every zone is what it was, whatever the outcome is, so that no node is kept from being removed; and a request that is refused is charged in none of the zones: each node that is left
  is new and empty or has the excess and the time that it had.
\<close>

theorem ngx_http_limit_req_handler_balanced:
  assumes "ngx_http_limit_req_handler now status_code read_ok input set_before zs = (code, delay, set_after, zs')"
    and "\<forall>x \<in> set input. fst (snd x) \<noteq> None" "distinct (map (\<lambda>x. ll_zone (fst x)) input)" "\<forall>x \<in> set input. ll_zone (fst x) < length zs"
    and "\<forall>c \<in> set zs. lz_ok (lz_queue c) \<and> lz_node c = None"
  shows "length zs' = length zs
    \<and> (\<forall>i < length zs. lz_ok (lz_queue (zs' ! i)) \<and> lz_node (zs' ! i) = None
        \<and> (\<forall>k. lr_users k (lz_queue (zs' ! i)) = lr_users k (lz_queue (zs ! i))))
    \<and> (code = status_code \<and> status_code \<notin> {NGX_DECLINED, NGX_AGAIN, NGX_HTTP_INTERNAL_SERVER_ERROR} \<longrightarrow> (\<forall>i < length zs. lz_uncharged (zs ! i) (zs' ! i)))"
proof -
  have start: "zs_balanced zs zs" "zs_uncharged zs zs" "zs_held zs = {}"
    using assms(5) by (auto simp: list_all2_same lz_balanced_def lz_uncharged_def zs_held_def)
  let ?limits = "map fst input"
  obtain out zs1 where loop: "lr_loop now 0 input zs NGX_DECLINED 0 = (out, zs1)" by fastforce
  have some: "out \<noteq> None" using lr_loop_keys [OF assms(2), of now 0 zs NGX_DECLINED 0] loop by simp
  have whole: "zs_balanced zs zs' \<and> zs_held zs' = {} \<and> (code = status_code \<and> status_code \<notin> {NGX_DECLINED, NGX_AGAIN, NGX_HTTP_INTERNAL_SERVER_ERROR} \<longrightarrow> zs_uncharged zs zs')"
  proof (cases set_before)
    case True
    then have "zs' = zs" "code = NGX_DECLINED" using assms(1) by (auto simp: ngx_http_limit_req_handler_def)
    then show ?thesis using start by simp
  next
    case False
    obtain rc n ex where out: "out = Some (rc, n, ex)" using some by auto
    let ?pre = "rev (take n ?limits)"
    have l: "zs_balanced zs zs1" "zs_held zs1 \<subseteq> ll_zone ` set (take n ?limits)" "rc \<in> {NGX_BUSY, NGX_ERROR} \<longrightarrow> zs_uncharged zs zs1"
      "rc = NGX_DECLINED \<longrightarrow> zs_held zs1 = {}"
      using lr_loop_balanced [of now "[]" input zs NGX_DECLINED 0 rc n ex zs1 zs] loop out start assms(3,4) by (auto simp: comp_def)
    have len: "length zs1 = length zs" using l(1) by (simp add: list_all2_lengthD)
    have inside: "\<forall>x \<in> set ?pre. ll_zone x < length zs1" using assms(4) len by (fastforce dest: in_set_takeD)
    consider (declined) "rc = NGX_DECLINED" | (busy) "rc \<in> {NGX_BUSY, NGX_ERROR}" | (ok) "rc \<noteq> NGX_DECLINED" "rc \<notin> {NGX_BUSY, NGX_ERROR}" by blast
    then show ?thesis
    proof cases
      case declined
      then show ?thesis using assms(1) False loop out l by (auto simp: ngx_http_limit_req_handler_def Let_def)
    next
      case busy
      then have "zs' = lr_release_all ?pre zs1" using assms(1) False loop out by (auto simp: ngx_http_limit_req_handler_def Let_def)
      then show ?thesis using release_all_balanced [OF l(1), of ?pre] release_all_uncharged [of zs zs1 ?pre] l(2,3) busy by auto
    next
      case ok
      then obtain m d where "ngx_http_limit_req_account now ?pre zs1 m = (d, zs')" "code \<in> {NGX_DECLINED, NGX_AGAIN, NGX_HTTP_INTERNAL_SERVER_ERROR}"
        using assms(1) False loop out by (auto simp: ngx_http_limit_req_handler_def Let_def split: prod.splits if_splits)
      then show ?thesis using account_balanced [OF l(1) _ inside] l(2) by auto
    qed
  qed
  then show ?thesis by (auto simp: list_all2_conv_all_nth lz_balanced_def zs_held_def)
qed

section \<open>Examples\<close>

definition example_limit :: ngx_http_limit_req_limit_t where
  "example_limit = \<lparr>ll_zone = 0, ll_burst = 1000, ll_nodelay = False\<rparr>"

definition example_zone :: ngx_http_limit_req_ctx_t where
  "example_zone = \<lparr>lz_rate = 1000, lz_queue = [], lz_node = None\<rparr>"

definition example_calls :: "(ngx_str_t \<times> 64 word) list" where
  "example_calls = [(bytes ''a'', 5000), (bytes ''b'', 5000), (bytes ''a'', 5000), (bytes ''a'', 5500), (bytes ''b'', 6100), (bytes ''a'', 6500)]"

lemma example_run:
  "lr_run example_limit example_zone example_calls =
     [(bytes ''a'', NGX_OK, True), (bytes ''b'', NGX_OK, True), (bytes ''a'', NGX_OK, False), (bytes ''a'', NGX_BUSY, False),
      (bytes ''b'', NGX_OK, False), (bytes ''a'', NGX_OK, False)]"
  by code_simp

theorem ngx_http_limit_req_leaky_bucket_witness:
  "1000000 * lr_accepted (bytes ''a'') (lr_run example_limit example_zone example_calls) \<le> 4500000
   \<and> filter (\<lambda>(key, rc, new). key = bytes ''b'' \<and> rc \<noteq> NGX_OK) (lr_run example_limit example_zone example_calls) = []"
proof -
  have hyp: "lr_inv example_limit 5000 (lz_queue example_zone)" "lr_ordered 5000 example_calls 6500" "lr_small example_limit (lz_rate example_zone) 6500"
    by (simp_all add: lr_inv_def lz_ok_def example_zone_def example_calls_def lr_small_def example_limit_def)
  have "lr_get (bytes ''b'') (lz_queue example_zone) = None" "lr_spaced (lz_rate example_zone) (bytes ''b'') None example_calls"
    by (simp_all add: example_zone_def example_calls_def lr_search_def)
  moreover have "lr_created (bytes ''a'') (lr_run example_limit example_zone example_calls) = 1" unfolding example_run by (simp add: lr_created_def)
  ultimately show ?thesis
    using ngx_http_limit_req_leaky_bucket [OF hyp, of "bytes ''a''"] ngx_http_limit_req_leaky_bucket [OF hyp, of "bytes ''b''"]
    by (auto simp: example_limit_def example_zone_def filter_empty_conv)
qed

text \<open>Two limits; the first search adds a user to its node, and the second refuses the request.\<close>

definition example_full :: ngx_http_limit_req_ctx_t where
  "example_full = \<lparr>lz_rate = 1000, lz_queue = [\<lparr>lr_hash = ngx_crc32_short (bytes ''a''), lr_data = bytes ''a'', lr_last = 5000, lr_excess = 1000, lr_count = 0\<rparr>],
     lz_node = None\<rparr>"

definition example_input :: "lr_input list" where
  "example_input = [(example_limit, Some (bytes ''b''), True, True), (example_limit\<lparr>ll_zone := 1\<rparr>, Some (bytes ''a''), True, True)]"

lemma example_lookups:
  "fst (ngx_http_limit_req_lookup example_limit (ngx_crc32_short (bytes ''b'')) (bytes ''b'') False 5000 True True example_zone) = NGX_AGAIN"
  "fst (ngx_http_limit_req_lookup (example_limit\<lparr>ll_zone := 1\<rparr>) (ngx_crc32_short (bytes ''a'')) (bytes ''a'') True 5000 True True example_full) = NGX_BUSY"
  by code_simp+

lemma example_handler:
  "fst (ngx_http_limit_req_handler 5000 503 True example_input False [example_zone, example_full]) = 503"
proof -
  obtain e1 z1 where "ngx_http_limit_req_lookup example_limit (ngx_crc32_short (bytes ''b'')) (bytes ''b'') False 5000 True True example_zone = (NGX_AGAIN, e1, z1)"
    using example_lookups(1) by (metis prod.collapse)
  moreover obtain e2 z2 where "ngx_http_limit_req_lookup (example_limit\<lparr>ll_zone := 1\<rparr>) (ngx_crc32_short (bytes ''a'')) (bytes ''a'') True 5000 True True example_full
      = (NGX_BUSY, e2, z2)" using example_lookups(2) by (metis prod.collapse)
  moreover have "ll_zone example_limit = 0" by (simp add: example_limit_def)
  ultimately show ?thesis by (simp add: ngx_http_limit_req_handler_def example_input_def)
qed

theorem ngx_http_limit_req_handler_balanced_witness:
  "lr_users (bytes ''b'') (lz_queue (snd (snd (snd (ngx_http_limit_req_handler 5000 503 True example_input False [example_zone, example_full]))) ! 0)) = 0
   \<and> lz_uncharged example_full (snd (snd (snd (ngx_http_limit_req_handler 5000 503 True example_input False [example_zone, example_full]))) ! 1)"
proof -
  obtain code delay after zs where h: "ngx_http_limit_req_handler 5000 503 True example_input False [example_zone, example_full] = (code, delay, after, zs)"
    by (metis prod_cases4)
  then have code: "code = 503" using example_handler by simp
  have "\<forall>x \<in> set example_input. fst (snd x) \<noteq> None" "distinct (map (\<lambda>x. ll_zone (fst x)) example_input)" "\<forall>x \<in> set example_input. ll_zone (fst x) < length [example_zone, example_full]"
    "\<forall>c \<in> set [example_zone, example_full]. lz_ok (lz_queue c) \<and> lz_node c = None"
    by (simp_all add: example_input_def example_limit_def example_zone_def example_full_def lz_ok_def)
  from ngx_http_limit_req_handler_balanced [OF h this] code
  have r: "\<forall>i < 2. \<forall>k. lr_users k (lz_queue (zs ! i)) = lr_users k (lz_queue ([example_zone, example_full] ! i))"
    "\<forall>i < 2. lz_uncharged ([example_zone, example_full] ! i) (zs ! i)" by (simp_all add: numeral_2_eq_2)
  show ?thesis
    using r(1) [rule_format, of 0 "bytes ''b''"] r(2) [rule_format, of 1] unfolding h by (simp add: example_zone_def lr_users_def lr_search_def)
qed

text \<open>An error of a later key leaves the node of an earlier zone with a user that is never taken back, and with the pointer of the zone still set.\<close>

lemma limit_req_error_leaks:
  "case ngx_http_limit_req_handler 5000 503 True [(example_limit, Some (bytes ''b''), True, True), (example_limit\<lparr>ll_zone := 1\<rparr>, None, True, True)]
      False [example_zone, example_full]
   of (code, delay, set_after, zs) \<Rightarrow> code = 500 \<and> lz_node (zs ! 0) = Some (bytes ''b'') \<and> lr_users (bytes ''b'') (lz_queue (zs ! 0)) = 1"
proof -
  let ?l = "ngx_http_limit_req_lookup example_limit (ngx_crc32_short (bytes ''b'')) (bytes ''b'') False 5000 True True example_zone"
  have "lz_node (snd (snd ?l)) = Some (bytes ''b'')" "lr_users (bytes ''b'') (lz_queue (snd (snd ?l))) = 1" by code_simp+
  moreover obtain e z where "?l = (NGX_AGAIN, e, z)" using example_lookups(1) by (metis prod.collapse)
  moreover have "ll_zone example_limit = 0" by (simp add: example_limit_def)
  ultimately show ?thesis by (simp add: ngx_http_limit_req_handler_def)
qed

end
