(* ===== verification/Spec2Isabelle.thy ===== *)
theory Spec2Isabelle
  imports Ngx_Numbers Ngx_Http_Request_Line Ngx_Http_Header_Line Ngx_Http_Status_Line Ngx_Http_Chunked_Body
    Ngx_Http_Complex_Uri Ngx_Http_V2_Hpack Ngx_Http_V2_Table Ngx_Http_Upstream_Fair Ngx_Http_Upstream_Balance
    Ngx_Crc32 Ngx_Http_Upstream_Hash Ngx_Http_Upstream_Consistent Ngx_Http_Range_Body Ngx_Http_Not_Modified
    Ngx_Http_Limit_Req
begin

text \<open>
  A verification development for nginx 1.13.0, the web server that the repository ships under
  \<^verbatim>\<open>rd/nginx-1.13.0\<close> and that its JavaScript interface configures and restarts. All file names below are
  relative to \<^verbatim>\<open>rd/nginx-1.13.0/src\<close>.

  \<^bold>\<open>The program.\<close> A worker process reads the bytes of a connection into buffers and runs parsers over them that
  can stop at any byte and go on when more arrives (\<^verbatim>\<open>http/ngx_http_parse.c\<close>). A request line and header
  lines fill the request structure; the URI is normalised before a location is searched; the rate of requests can be limited by keys; a body may come in the
  chunked transfer coding, which a filter removes and another filter adds to responses. On an HTTP/2 connection
  the headers are compressed with HPACK instead: integers, strings in a Huffman code and a table of earlier headers
  (\<^verbatim>\<open>http/v2\<close>). A request that is passed on asks a load balancer for a server, and the first line of the
  answer is parsed again. The response passes through a chain of filters; one answers conditional requests and one cuts out the ranges
  that were asked for. Sizes, times and status codes pass through the number readers and writers of
  \<^verbatim>\<open>core/ngx_string.c\<close> and \<^verbatim>\<open>core/ngx_parse.c\<close>.

  \<^bold>\<open>The theories.\<close>
  \<^item> \<open>Ngx_Prelude\<close>: machine types, return codes, the character idioms of the sources, shared lemmas, and the
    locale \<open>resumable_parser\<close>, the interface of every parser that can be cut off.
  \<^item> \<open>Ngx_Http_Types\<close>: the request structure and the buffer, the table \<^verbatim>\<open>usual\<close>, the driver that calls a parser
    again when it returned \<^verbatim>\<open>NGX_AGAIN\<close>, and the locales \<open>incremental_parser\<close> and \<open>framed_parser\<close>, in which it is
    shown once that cutting the input into fragments does not change the result.
  \<^item> \<open>Ngx_Http_Request_Line\<close>, \<open>Ngx_Http_Header_Line\<close>, \<open>Ngx_Http_Status_Line\<close>: the three line parsers, one
    definition for each state; each interprets \<open>framed_parser\<close>. Shown are where the stored pointers point
    whenever a line is accepted, that well-formed lines are accepted with their parts found, and that
    fragments do not matter.
  \<^item> \<open>Ngx_Http_Complex_Uri\<close>: \<^verbatim>\<open>ngx_http_parse_complex_uri\<close>, against a specification that decodes first and then runs a
    stack of segments, with \<^verbatim>\<open>merge_slashes\<close> on; with either setting, that the result stays below the root and that no access is outside
    of the buffers.
  \<^item> \<open>Ngx_Http_Chunked\<close>: \<^verbatim>\<open>ngx_http_parse_chunked\<close>, the request body filter that uses it and the response filter, against
    a decoder that reads single bytes; the round trip, and the number of bytes still expected. \<open>Ngx_Http_Chunked_Body\<close>: all the reads
    of a body, against a decoder that follows the grammar, and the size limit.
  \<^item> \<open>Ngx_Http_V2_Huff_Tables\<close>, \<open>Ngx_Http_V2_Huff\<close>: the Huffman tables and the codec, against the string of bits; the
    agreement of the 4,096 transitions with the code table is evaluated by the kernel.
  \<^item> \<open>Ngx_Http_V2_Hpack\<close>: HPACK integers and strings, with the frame handlers that read a string in pieces; the round
    trips, and that the allocated memory suffices.
  \<^item> \<open>Ngx_Http_V2_Table\<close>: the static and the dynamic header table with its two rings, against a list of headers (locale
    \<open>header_table\<close>, interpreted on the model for every content of fresh memory), which is that of RFC 7541 unless a smaller maximal size comes before
    the first insertion.
  \<^item> \<open>Ngx_Http_Upstream_Rr\<close>: the peers of an upstream and the round robin balancer; \<open>Ngx_Http_Upstream_Fair\<close>: every server
    gets exactly its share; \<open>Ngx_Http_Upstream_Balance\<close>: the balancers by least connections and by client address, and the
    contract \<open>balancer\<close> that all of them satisfy, from which the connection counters, the retries and the
    refusals of any number of interleaved requests follow; \<open>Ngx_Http_Upstream_Hash\<close>: the balancers by the hash of a key, plain
    and consistent, and the ring; \<open>Ngx_Http_Upstream_Consistent\<close>: a removed server takes only its own keys with it.
  \<^item> \<open>Ngx_Crc32\<close>: the checksum of the hash balancers, against the division by the polynomial, bit by bit.
  \<^item> \<open>Ngx_Sprintf\<close>: the formatter \<^verbatim>\<open>ngx_vslprintf\<close>: what does not fit is cut off, and nothing else. \<open>Ngx_Times\<close>: \<^verbatim>\<open>ngx_gmtime\<close> against a calendar that
    counts days, the writers of HTTP and cookie dates and the reader \<^verbatim>\<open>ngx_parse_http_time\<close>: the round trip, and no access outside
    of the value.
  \<^item> \<open>Ngx_Http_Output\<close>: the response headers, the buffers in memory and in files, and what a format prints. \<open>Ngx_Http_Range\<close>: the reader of the
    header \<^verbatim>\<open>Range\<close>, against the three forms of a range, and the header filter; \<open>Ngx_Http_Range_Body\<close>: the body filters, and that a
    whole response is cut into exactly the ranges, with the headers and the length that were announced.
    \<open>Ngx_Http_Not_Modified\<close>: the conditional requests, with the search of a list of entity tags: who sends back what he got is told
    that nothing changed, and nobody else.
  \<^item> \<open>Ngx_Http_Limit_Req\<close>: the limits on the rate of requests, on 64-bit words: the leaky bucket, and the users of the nodes of the shared zones.
  \<^item> \<open>Ngx_Numbers\<close>: the readers \<^verbatim>\<open>ngx_atoi\<close> and its relatives (locale \<open>decimal_reader\<close>), \<^verbatim>\<open>ngx_atofp\<close>, \<^verbatim>\<open>ngx_hextoi\<close>,
    \<^verbatim>\<open>ngx_parse_size\<close> and \<^verbatim>\<open>ngx_parse_offset\<close>, and the writers \<^verbatim>\<open>ngx_sprintf_num\<close> and \<^verbatim>\<open>ngx_hex_dump\<close>: exact values up
    to the limit of the type, errors above, and round trips.

  \<^bold>\<open>Conventions.\<close> The build is the LP64 one of \<^verbatim>\<open>objs/ngx_auto_config.h\<close>. A byte is an 8-bit word; a pointer into a buffer is an
  offset and \<^verbatim>\<open>NULL\<close> is \<open>None\<close>; signed 64-bit numbers are integers with \<open>s64\<close>, which wraps, around the
  arithmetic, and unsigned ones are words or, where they cannot wrap, natural numbers. Every loop is a total
  function, by structural recursion or with a measure; there is no fuel. Logging and locks are left out. What fresh memory
  contains, where the code could read it, is a parameter.

  \<^bold>\<open>Not modelled.\<close> The JavaScript interface (file and process handling in another language); start-up, configuration
  reader, event loop, sockets, files, processes and threads (system calls); TLS (calls into OpenSSL); the
  resolver; the phases of request processing, the caches, the writer of the output chains and the modules not named above; the HTTP/2 frame machine
  above HPACK; the mail and stream proxies. The manifest lists them one by one.
\<close>

text \<open>
  C2: The parsers of lines that can stop at any byte. Whatever the fragments are in which a request line, a header line or a status line arrives (one byte
  at a time, or all at once), the sequence of calls of the parser gives the return code, the structures and the
  position that a single call on the whole line gives; for a header line also its hash and the index of its name. When the line is refused with an error, only the
  return code is the same; the callers use nothing else then.
\<close>

theorem http_line_parsers_incremental:
  assumes "buf_pos b \<le> length (buf_data b)"
  shows "agree (seen_on {NGX_OK, NGX_AGAIN, NGX_HTTP_PARSE_INVALID_09_METHOD})
      (feed_parser ngx_http_parse_request_line m b c cs) (ngx_http_parse_request_line m (extend_buf b (c @ concat cs)))
    \<and> agree hl_view
      (feed_parser (ngx_http_parse_header_line au) h b c cs) (ngx_http_parse_header_line au h (extend_buf b (c @ concat cs)))
    \<and> agree (seen_on {NGX_OK, NGX_AGAIN})
      (feed_parser ngx_http_parse_status_line s b c cs) (ngx_http_parse_status_line s (extend_buf b (c @ concat cs)))"
  using assms
  by (intro conjI ngx_http_parse_request_line_incremental ngx_http_parse_header_line_incremental ngx_http_parse_status_line_incremental)

theorem http_line_parsers_incremental_witness:
  "agree (seen_on {NGX_OK, NGX_AGAIN, NGX_HTTP_PARSE_INVALID_09_METHOD})
     (feed_parser ngx_http_parse_request_line (rl_sw_start, new_request) \<lparr>buf_data = [], buf_pos = 0\<rparr>
       (bytes ''PO'') [bytes ''ST /a'', bytes '' HTTP/1.1'', [LF]])
     (ngx_http_parse_request_line (rl_sw_start, new_request)
       \<lparr>buf_data = bytes ''POST /a HTTP/1.1'' @ [LF], buf_pos = 0\<rparr>)"
  using http_line_parsers_incremental [of "\<lparr>buf_data = [], buf_pos = 0\<rparr>" "(rl_sw_start, new_request)"
    "bytes ''PO''" "[bytes ''ST /a'', bytes '' HTTP/1.1'', [LF]]"]
  by (simp add: extend_buf_def)

end
